(* ===== verification/Prelude.thy ===== *)
theory Prelude
  imports Main "HOL-Library.Word"
begin

text \<open>
  Shared vocabulary of the development: the machine types of the C sources, the
  outcome of a C function that may abort or touch memory it does not own, the
  status codes of \<^verbatim>\<open>signer/src/shared/status.h\<close>, and the generic list and word
  lemmas that the component theories rely on.
\<close>

unbundle bit_operations_syntax

section \<open>Machine types\<close>

text \<open>
  \<^verbatim>\<open>uint8_t\<close>, \<^verbatim>\<open>uint16_t\<close> and \<^verbatim>\<open>uint32_t\<close> are words of that width.  A
  \<^verbatim>\<open>size_t\<close> is a natural number: every size in the modelled code is the size of an
  object in memory; where an operation on it can wrap around the reduction modulo
  \<open>2 ^ 64\<close> is written out.  A \<^verbatim>\<open>time_t\<close> is an integer, with the conversions to
  \<^verbatim>\<open>int\<close> and \<^verbatim>\<open>uint32_t\<close> written out where the code performs them.
\<close>

type_synonym u8 = "8 word"
type_synonym u16 = "16 word"
type_synonym u32 = "32 word"
type_synonym time_t = int

section \<open>Outcomes of C code\<close>

text \<open>
  \<open>Ok\<close> is a normal return.  \<open>Abort\<close> is \<^verbatim>\<open>ods_fatal_exit\<close>, which a failing
  \<^verbatim>\<open>ods_log_assert\<close> calls (the assertions are compiled in: \<^verbatim>\<open>shared/log.h\<close>
  defines \<^verbatim>\<open>ODS_LOG_DEBUG\<close>).  \<open>Fault\<close> is an access outside the object the code
  works on, which C leaves undefined.
\<close>

datatype 'a exec = Ok 'a | Abort | Fault

fun exec_bind :: "'a exec \<Rightarrow> ('a \<Rightarrow> 'b exec) \<Rightarrow> 'b exec" where
  "exec_bind (Ok x) f = f x"
| "exec_bind Abort f = Abort"
| "exec_bind Fault f = Fault"

definition ods_log_assert :: "bool \<Rightarrow> 'a exec \<Rightarrow> 'a exec" where
  "ods_log_assert P k = (if P then k else Abort)"

named_theorems exec_simps \<open>evaluation of the outcome type\<close>

lemma exec_bind_eq_Ok [exec_simps]:
  "exec_bind m f = Ok y \<longleftrightarrow> (\<exists>x. m = Ok x \<and> f x = Ok y)"
  by (cases m) auto

lemma exec_bind_eq_Fault [exec_simps]:
  "exec_bind m f = Fault \<longleftrightarrow> m = Fault \<or> (\<exists>x. m = Ok x \<and> f x = Fault)"
  by (cases m) auto

lemma exec_bind_assoc: "exec_bind (exec_bind m f) g = exec_bind m (\<lambda>x. exec_bind (f x) g)"
  by (cases m) auto

lemma exec_bind_cong [fundef_cong]:
  "m = m' \<Longrightarrow> (\<And>x. m' = Ok x \<Longrightarrow> f x = f' x) \<Longrightarrow> exec_bind m f = exec_bind m' f'"
  by (cases m') auto

lemma ods_log_assert_True [simp]: "ods_log_assert True k = k"
  by (simp add: ods_log_assert_def)

lemma ods_log_assert_False [simp]: "ods_log_assert False k = Abort"
  by (simp add: ods_log_assert_def)

lemma ods_log_assert_eq_Ok [exec_simps]: "ods_log_assert P k = Ok y \<longleftrightarrow> P \<and> k = Ok y"
  by (simp add: ods_log_assert_def)

lemma ods_log_assert_eq_Fault [exec_simps]: "ods_log_assert P k = Fault \<longleftrightarrow> P \<and> k = Fault"
  by (simp add: ods_log_assert_def)

lemma ods_log_assert_cong [fundef_cong]:
  "P = P' \<Longrightarrow> (P' \<Longrightarrow> k = k') \<Longrightarrow> ods_log_assert P k = ods_log_assert P' k'"
  by (simp add: ods_log_assert_def)

section \<open>Memory as byte lists\<close>

definition mem_get :: "'a list \<Rightarrow> nat \<Rightarrow> 'a exec" where
  "mem_get m i = (if i < length m then Ok (m ! i) else Fault)"

definition mem_set :: "'a list \<Rightarrow> nat \<Rightarrow> 'a \<Rightarrow> 'a list exec" where
  "mem_set m i x = (if i < length m then Ok (m[i := x]) else Fault)"

text \<open>\<^verbatim>\<open>memcpy\<close> out of and into an object.\<close>

definition mem_read :: "'a list \<Rightarrow> nat \<Rightarrow> nat \<Rightarrow> 'a list exec" where
  "mem_read m i n = (if i + n \<le> length m then Ok (take n (drop i m)) else Fault)"

definition patch :: "'a list \<Rightarrow> nat \<Rightarrow> 'a list \<Rightarrow> 'a list" where
  "patch m i xs = take i m @ xs @ drop (i + length xs) m"

definition mem_write :: "'a list \<Rightarrow> nat \<Rightarrow> 'a list \<Rightarrow> 'a list exec" where
  "mem_write m i xs = (if i + length xs \<le> length m then Ok (patch m i xs) else Fault)"

lemma length_patch [simp]: "i + length xs \<le> length m \<Longrightarrow> length (patch m i xs) = length m"
  by (simp add: patch_def)

lemma patch_same: "i + length xs \<le> length m \<Longrightarrow> take (length xs) (drop i (patch m i xs)) = xs"
  by (simp add: patch_def)

lemma patch_before:
  "i + length xs \<le> length m \<Longrightarrow> j + n \<le> i \<Longrightarrow> take n (drop j (patch m i xs)) = take n (drop j m)"
  by (simp add: patch_def take_drop)

lemma patch_after:
  "i + length xs \<le> length m \<Longrightarrow> i + length xs \<le> j \<Longrightarrow> drop j (patch m i xs) = drop j m"
  by (simp add: patch_def add.commute)

lemma patch_nth:
  "i + length xs \<le> length m \<Longrightarrow> j < length m \<Longrightarrow>
   patch m i xs ! j = (if i \<le> j \<and> j < i + length xs then xs ! (j - i) else m ! j)"
  by (auto simp: patch_def nth_append min_def)

lemma mem_get_eq_Ok [exec_simps]: "mem_get m i = Ok x \<longleftrightarrow> i < length m \<and> m ! i = x"
  by (simp add: mem_get_def)

lemma mem_set_eq_Ok [exec_simps]: "mem_set m i x = Ok m' \<longleftrightarrow> i < length m \<and> m' = m[i := x]"
  by (auto simp: mem_set_def)

lemma mem_read_eq_Ok [exec_simps]:
  "mem_read m i n = Ok xs \<longleftrightarrow> i + n \<le> length m \<and> xs = take n (drop i m)"
  by (auto simp: mem_read_def)

lemma mem_write_eq_Ok [exec_simps]:
  "mem_write m i xs = Ok m' \<longleftrightarrow> i + length xs \<le> length m \<and> m' = patch m i xs"
  by (auto simp: mem_write_def)

section \<open>Bytes of a word\<close>

lemma byte_mask: "(255 :: 'a :: len word) = mask 8"
  by (simp add: mask_eq_exp_minus_1)

lemma bit_byte: "bit (x AND 255) n \<longleftrightarrow> bit x n \<and> n < 8" for x :: "'a :: len word"
  unfolding byte_mask by (auto simp: bit_and_iff bit_mask_iff bit_imp_le_length)

lemma length_eq_2: "length p = 2 \<Longrightarrow> p = [p ! 0, p ! 1]"
  by (cases p; cases "tl p") auto

lemma length_eq_4: "length p = 4 \<Longrightarrow> p = [p ! 0, p ! 1, p ! 2, p ! 3]"
  by (auto intro!: nth_equalityI simp: less_Suc_eq numeral_eq_Suc)

lemma bit_u8_above: "bit x n \<Longrightarrow> n < 8" for x :: u8
  using bit_imp_le_length [of x n] by simp

lemma bit_u8_ge [simp]: "8 \<le> n \<Longrightarrow> \<not> bit x n" for x :: u8
  using bit_u8_above [of x n] by linarith

lemmas byte_bits =
  bit_or_iff bit_push_bit_iff bit_ucast_iff bit_byte bit_drop_bit_eq less_diff_conv2

section \<open>Status codes\<close>

text \<open>\<^verbatim>\<open>enum ods_enum_status\<close>.\<close>

datatype ods_status =
    ODS_STATUS_OK
  | ODS_STATUS_EOF
  | ODS_STATUS_NOTIMPL
  | ODS_STATUS_UPTODATE
  | ODS_STATUS_ASSERT_ERR
  | ODS_STATUS_CFG_ERR
  | ODS_STATUS_CHDIR_ERR
  | ODS_STATUS_CHROOT_ERR
  | ODS_STATUS_CMDHANDLER_ERR
  | ODS_STATUS_XFRHANDLER_ERR
  | ODS_STATUS_CONFLICT_ERR
  | ODS_STATUS_ERR
  | ODS_STATUS_FOPEN_ERR
  | ODS_STATUS_FORK_ERR
  | ODS_STATUS_FREAD_ERR
  | ODS_STATUS_FWRITE_ERR
  | ODS_STATUS_HSM_ERR
  | ODS_STATUS_INSECURE
  | ODS_STATUS_MALLOC_ERR
  | ODS_STATUS_RENAME_ERR
  | ODS_STATUS_UNLINK_ERR
  | ODS_STATUS_SOCK_BIND
  | ODS_STATUS_SOCK_FCNTL_NONBLOCK
  | ODS_STATUS_SOCK_GETADDRINFO
  | ODS_STATUS_SOCK_LISTEN
  | ODS_STATUS_SOCK_SETSOCKOPT_V6ONLY
  | ODS_STATUS_SOCK_SOCKET_UDP
  | ODS_STATUS_SOCK_SOCKET_TCP
  | ODS_STATUS_ACL_SUBNET_BAD_RANGE
  | ODS_STATUS_ACL_SUBNET_OUT_RANGE
  | ODS_STATUS_PARSE_ERR
  | ODS_STATUS_PRIVDROP_ERR
  | ODS_STATUS_RNG_ERR
  | ODS_STATUS_SETSID_ERR
  | ODS_STATUS_UNCHANGED
  | ODS_STATUS_WRITE_PIDFILE_ERR
  | ODS_STATUS_XML_ERR
  | ODS_STATUS_XFR_NOT_READY
  | ODS_STATUS_SKIPDNAME
  | ODS_STATUS_BUFAVAIL
  | ODS_STATUS_PARSESOA
  | ODS_STATUS_REQAXFR
  | ODS_STATUS_INSERIAL

end
