(* ===== verification/Buffer.thy ===== *)
theory Buffer
  imports Prelude
begin

text \<open>
  The packet buffer of the signer's DNS code, \<^verbatim>\<open>signer/src/wire/buffer.c\<close> and the
  byte-order helpers and header macros of \<^verbatim>\<open>signer/src/wire/buffer.h\<close>.  The record
  \<open>buffer\<close> is \<^verbatim>\<open>struct buffer_struct\<close>; its \<^verbatim>\<open>data\<close> pointer is the list of the
  bytes it points at, so an access outside the allocation is a \<open>Fault\<close>.  Each C
  function is one definition that returns the updated buffer; a failing
  \<^verbatim>\<open>ods_log_assert\<close> is \<open>Abort\<close>.
\<close>

section \<open>Byte order\<close>

definition read_uint16 :: "u8 list \<Rightarrow> u16" where
  "read_uint16 p = push_bit 8 (ucast (p ! 0)) OR ucast (p ! 1)"

definition read_uint32 :: "u8 list \<Rightarrow> u32" where
  "read_uint32 p = push_bit 24 (ucast (p ! 0)) OR push_bit 16 (ucast (p ! 1))
     OR push_bit 8 (ucast (p ! 2)) OR ucast (p ! 3)"

definition write_uint16 :: "u16 \<Rightarrow> u8 list" where
  "write_uint16 d = [ucast (drop_bit 8 d AND 0xff), ucast (d AND 0xff)]"

definition write_uint32 :: "u32 \<Rightarrow> u8 list" where
  "write_uint32 d = [ucast (drop_bit 24 d AND 0xff), ucast (drop_bit 16 d AND 0xff),
     ucast (drop_bit 8 d AND 0xff), ucast (d AND 0xff)]"

section \<open>The buffer and its cursor\<close>

record buffer =
  buf_position :: nat
  buf_limit :: nat
  buf_capacity :: nat
  buf_data :: "u8 list"
  buf_fixed :: bool

definition MAXDOMAINLEN :: nat where "MAXDOMAINLEN = 255"
definition MAX_PACKET_SIZE :: nat where "MAX_PACKET_SIZE = 65535"
definition BUFFER_PKT_HEADER_SIZE :: nat where "BUFFER_PKT_HEADER_SIZE = 12"

text \<open>
  \<^verbatim>\<open>buffer_create\<close> returns no buffer for capacity 0 (allocation failure is left to
  the allocator); the bytes come zeroed from \<^verbatim>\<open>calloc\<close>.
\<close>

definition buffer_create :: "nat \<Rightarrow> buffer option" where
  "buffer_create cap =
     (if cap = 0 then None
      else Some \<lparr>buf_position = 0, buf_limit = cap, buf_capacity = cap,
                 buf_data = replicate cap 0, buf_fixed = False\<rparr>)"

definition buffer_create_from :: "u8 list \<Rightarrow> buffer" where
  "buffer_create_from d =
     \<lparr>buf_position = 0, buf_limit = length d, buf_capacity = length d,
      buf_data = d, buf_fixed = True\<rparr>"

definition buffer_clear :: "buffer \<Rightarrow> buffer" where
  "buffer_clear b = b\<lparr>buf_position := 0, buf_limit := buf_capacity b\<rparr>"

definition buffer_flip :: "buffer \<Rightarrow> buffer" where
  "buffer_flip b = b\<lparr>buf_limit := buf_position b, buf_position := 0\<rparr>"

definition buffer_rewind :: "buffer \<Rightarrow> buffer" where
  "buffer_rewind b = b\<lparr>buf_position := 0\<rparr>"

definition buffer_set_position :: "nat \<Rightarrow> buffer \<Rightarrow> buffer exec" where
  "buffer_set_position pos b =
     ods_log_assert (pos \<le> buf_limit b) (Ok (b\<lparr>buf_position := pos\<rparr>))"

text \<open>
  The signed count is converted to \<^verbatim>\<open>size_t\<close> and added to the position.  A negative
  sum wraps around to a value of at least \<open>2 ^ 63\<close>, which is more than the size of
  any object, so the assertion fails for it; \<open>buffer_skip_wraps\<close> below is the
  statement with the wrap-around written out.
\<close>

definition buffer_skip :: "int \<Rightarrow> buffer \<Rightarrow> buffer exec" where
  "buffer_skip count b =
     (let p = int (buf_position b) + count
      in ods_log_assert (0 \<le> p \<and> p \<le> int (buf_limit b)) (Ok (b\<lparr>buf_position := nat p\<rparr>)))"

lemma buffer_skip_wraps:
  assumes "buf_limit b < 2 ^ 63" and "buf_position b \<le> buf_limit b"
    and "- (2 ^ 63) \<le> count" and "count < 2 ^ 63"
  shows "buffer_skip count b =
    (let p = nat ((int (buf_position b) + count) mod 2 ^ 64)
     in ods_log_assert (p \<le> buf_limit b) (Ok (b\<lparr>buf_position := p\<rparr>)))"
proof (cases "0 \<le> int (buf_position b) + count")
  case True
  with assms have "(int (buf_position b) + count) mod 2 ^ 64 = int (buf_position b) + count"
    by (intro mod_pos_pos_trivial) auto
  with True show ?thesis by (auto simp: buffer_skip_def Let_def ods_log_assert_def)
next
  case False
  have "(int (buf_position b) + count) mod 2 ^ 64 = (int (buf_position b) + count + 2 ^ 64) mod 2 ^ 64"
    by simp
  also have "\<dots> = int (buf_position b) + count + 2 ^ 64"
    using False assms by (intro mod_pos_pos_trivial) auto
  finally show ?thesis
    using False assms by (auto simp: buffer_skip_def Let_def ods_log_assert_def)
qed

definition buffer_set_limit :: "nat \<Rightarrow> buffer \<Rightarrow> buffer exec" where
  "buffer_set_limit lim b =
     ods_log_assert (lim \<le> buf_capacity b)
       (let b = b\<lparr>buf_limit := lim\<rparr>
        in Ok (if buf_limit b < buf_position b then b\<lparr>buf_position := buf_limit b\<rparr> else b))"

text \<open>\<^verbatim>\<open>buffer_at\<close> and its callers return an offset into the data.\<close>

definition buffer_at :: "nat \<Rightarrow> buffer \<Rightarrow> nat exec" where
  "buffer_at at b = ods_log_assert (at \<le> buf_limit b) (Ok at)"

definition buffer_begin :: "buffer \<Rightarrow> nat exec" where
  "buffer_begin b = buffer_at 0 b"

definition buffer_end :: "buffer \<Rightarrow> nat exec" where
  "buffer_end b = buffer_at (buf_limit b) b"

definition buffer_current :: "buffer \<Rightarrow> nat exec" where
  "buffer_current b = buffer_at (buf_position b) b"

definition buffer_remaining_at :: "nat \<Rightarrow> buffer \<Rightarrow> nat exec" where
  "buffer_remaining_at at b = ods_log_assert (at \<le> buf_limit b) (Ok (buf_limit b - at))"

definition buffer_remaining :: "buffer \<Rightarrow> nat exec" where
  "buffer_remaining b = buffer_remaining_at (buf_position b) b"

definition buffer_available_at :: "nat \<Rightarrow> nat \<Rightarrow> buffer \<Rightarrow> bool exec" where
  "buffer_available_at at count b =
     exec_bind (buffer_remaining_at at b) (\<lambda>r. Ok (count \<le> r))"

definition buffer_available :: "nat \<Rightarrow> buffer \<Rightarrow> bool exec" where
  "buffer_available count b = buffer_available_at (buf_position b) count b"

section \<open>Writing and reading\<close>

definition buffer_write_at :: "nat \<Rightarrow> u8 list \<Rightarrow> buffer \<Rightarrow> buffer exec" where
  "buffer_write_at at bytes b =
     exec_bind (buffer_available_at at (length bytes) b) (\<lambda>ok.
       ods_log_assert ok
         (exec_bind (mem_write (buf_data b) at bytes) (\<lambda>d. Ok (b\<lparr>buf_data := d\<rparr>))))"

definition buffer_write_u8_at :: "nat \<Rightarrow> u8 \<Rightarrow> buffer \<Rightarrow> buffer exec" where
  "buffer_write_u8_at at d b = buffer_write_at at [d] b"

definition buffer_write_u16_at :: "nat \<Rightarrow> u16 \<Rightarrow> buffer \<Rightarrow> buffer exec" where
  "buffer_write_u16_at at d b = buffer_write_at at (write_uint16 d) b"

definition buffer_write_u32_at :: "nat \<Rightarrow> u32 \<Rightarrow> buffer \<Rightarrow> buffer exec" where
  "buffer_write_u32_at at d b = buffer_write_at at (write_uint32 d) b"

definition advance :: "nat \<Rightarrow> buffer \<Rightarrow> buffer" where
  "advance n b = b\<lparr>buf_position := buf_position b + n\<rparr>"

definition buffer_write :: "u8 list \<Rightarrow> buffer \<Rightarrow> buffer exec" where
  "buffer_write bytes b =
     exec_bind (buffer_write_at (buf_position b) bytes b) (\<lambda>b. Ok (advance (length bytes) b))"

definition buffer_write_u8 :: "u8 \<Rightarrow> buffer \<Rightarrow> buffer exec" where
  "buffer_write_u8 d b =
     exec_bind (buffer_write_u8_at (buf_position b) d b) (\<lambda>b. Ok (advance 1 b))"

definition buffer_write_u16 :: "u16 \<Rightarrow> buffer \<Rightarrow> buffer exec" where
  "buffer_write_u16 d b =
     exec_bind (buffer_write_u16_at (buf_position b) d b) (\<lambda>b. Ok (advance 2 b))"

definition buffer_write_u32 :: "u32 \<Rightarrow> buffer \<Rightarrow> buffer exec" where
  "buffer_write_u32 d b =
     exec_bind (buffer_write_u32_at (buf_position b) d b) (\<lambda>b. Ok (advance 4 b))"

text \<open>Only the 8-bit read checks its position, and it checks it against the capacity.\<close>

definition buffer_read_u8_at :: "nat \<Rightarrow> buffer \<Rightarrow> u8 exec" where
  "buffer_read_u8_at at b = ods_log_assert (at < buf_capacity b) (mem_get (buf_data b) at)"

definition buffer_read_u16_at :: "nat \<Rightarrow> buffer \<Rightarrow> u16 exec" where
  "buffer_read_u16_at at b =
     exec_bind (mem_read (buf_data b) at 2) (\<lambda>p. Ok (read_uint16 p))"

definition buffer_read_u32_at :: "nat \<Rightarrow> buffer \<Rightarrow> u32 exec" where
  "buffer_read_u32_at at b =
     exec_bind (mem_read (buf_data b) at 4) (\<lambda>p. Ok (read_uint32 p))"

definition buffer_read :: "nat \<Rightarrow> buffer \<Rightarrow> (u8 list \<times> buffer) exec" where
  "buffer_read count b =
     exec_bind (buffer_available count b) (\<lambda>ok.
       ods_log_assert ok
         (exec_bind (mem_read (buf_data b) (buf_position b) count) (\<lambda>bytes.
            Ok (bytes, advance count b))))"

definition buffer_read_u8 :: "buffer \<Rightarrow> (u8 \<times> buffer) exec" where
  "buffer_read_u8 b =
     exec_bind (buffer_read_u8_at (buf_position b) b) (\<lambda>r. Ok (r, advance 1 b))"

definition buffer_read_u16 :: "buffer \<Rightarrow> (u16 \<times> buffer) exec" where
  "buffer_read_u16 b =
     exec_bind (buffer_read_u16_at (buf_position b) b) (\<lambda>r. Ok (r, advance 2 b))"

definition buffer_read_u32 :: "buffer \<Rightarrow> (u32 \<times> buffer) exec" where
  "buffer_read_u32 b =
     exec_bind (buffer_read_u32_at (buf_position b) b) (\<lambda>r. Ok (r, advance 4 b))"

section \<open>Resource records\<close>

text \<open>
  What the code reads of an \<^verbatim>\<open>ldns_rr\<close> through its accessors: the owner and the
  rdata fields in wire format, type, class and time to live.
\<close>

record wire_rr =
  rr_owner :: "u8 list"
  rr_type :: u16
  rr_class :: u16
  rr_ttl :: u32
  rr_rdfs :: "u8 list list"

definition buffer_write_rdf :: "u8 list \<Rightarrow> buffer \<Rightarrow> buffer exec" where
  "buffer_write_rdf rdf b = buffer_write rdf b"

text \<open>The rdata loop: \<open>False\<close> when a field does not fit.\<close>

fun write_rdfs :: "u8 list list \<Rightarrow> buffer \<Rightarrow> (bool \<times> buffer) exec" where
  "write_rdfs [] b = Ok (True, b)"
| "write_rdfs (rdf # rdfs) b =
     exec_bind (buffer_available (length rdf) b) (\<lambda>ok.
       if \<not> ok then Ok (False, b)
       else exec_bind (buffer_write_rdf rdf b) (write_rdfs rdfs))"

definition buffer_tc :: "nat \<Rightarrow> buffer \<Rightarrow> (bool \<times> buffer) exec" where
  "buffer_tc tc_mark b = exec_bind (buffer_set_position tc_mark b) (\<lambda>b. Ok (False, b))"

definition buffer_write_rr :: "wire_rr \<Rightarrow> buffer \<Rightarrow> (bool \<times> buffer) exec" where
  "buffer_write_rr rr b =
    (let tc_mark = buf_position b in
     exec_bind (buffer_available (length (rr_owner rr)) b) (\<lambda>ok.
     if \<not> ok then buffer_tc tc_mark b
     else exec_bind (buffer_write_rdf (rr_owner rr) b) (\<lambda>b.
     exec_bind (buffer_available 10 b) (\<lambda>ok.
     if \<not> ok then buffer_tc tc_mark b
     else exec_bind (buffer_write_u16 (rr_type rr) b) (\<lambda>b.
     exec_bind (buffer_write_u16 (rr_class rr) b) (\<lambda>b.
     exec_bind (buffer_write_u32 (rr_ttl rr) b) (\<lambda>b.
     let rdlength_pos = buf_position b in
     exec_bind (buffer_skip 2 b) (\<lambda>b.
     exec_bind (write_rdfs (rr_rdfs rr) b) (\<lambda>(fits, b).
     if \<not> fits then buffer_tc tc_mark b
     else let rdlength = of_nat (buf_position b - rdlength_pos - 2) in
     exec_bind (buffer_write_u16_at rdlength_pos rdlength b) (\<lambda>b.
     Ok (True, b)))))))))))"

section \<open>Domain names in packets\<close>

definition get_bit :: "u8 list \<Rightarrow> nat \<Rightarrow> bool exec" where
  "get_bit bits index =
     exec_bind (mem_get bits (index div 8)) (\<lambda>x.
       Ok (x AND push_bit (7 - index mod 8) 1 \<noteq> 0))"

definition set_bit_at :: "u8 list \<Rightarrow> nat \<Rightarrow> u8 list exec" where
  "set_bit_at bits index =
     exec_bind (mem_get bits (index div 8)) (\<lambda>x.
       mem_set bits (index div 8) (x OR push_bit (7 - index mod 8) 1))"

definition label_is_pointer :: "u8 \<Rightarrow> bool" where
  "label_is_pointer l \<longleftrightarrow> l AND 0xc0 = 0xc0"

definition label_is_normal :: "u8 \<Rightarrow> bool" where
  "label_is_normal l \<longleftrightarrow> l AND 0xc0 = 0"

definition label_is_root :: "u8 \<Rightarrow> bool" where
  "label_is_root l \<longleftrightarrow> l = 0"

definition label_pointer_location :: "u8 \<Rightarrow> u8 \<Rightarrow> u16 exec" where
  "label_pointer_location l0 l1 =
     ods_log_assert (label_is_pointer l0)
       (Ok (push_bit 8 (ucast (l0 AND NOT 0xc0)) OR ucast l1))"

definition label_length :: "u8 \<Rightarrow> u8 exec" where
  "label_length l = ods_log_assert (label_is_normal l) (Ok l)"

text \<open>
  One pass of the loop of \<^verbatim>\<open>buffer_read_dname\<close>, over the loop's variables: the buffer,
  the \<^verbatim>\<open>visited\<close> bitmap, the name read so far and the mark.  \<open>Return b\<close> is a
  \<^verbatim>\<open>return 0\<close>, with the buffer as the code leaves it.
\<close>

datatype dname_step =
    Return buffer
  | Continue bool buffer "u8 list" "u8 list" "nat option"

definition read_pointer ::
  "bool \<Rightarrow> buffer \<Rightarrow> u8 list \<Rightarrow> u8 list \<Rightarrow> nat option \<Rightarrow> nat \<Rightarrow> u8 \<Rightarrow> dname_step exec" where
  "read_pointer allow_pointers b visited dname mark cur label =
    (if \<not> allow_pointers then Ok (Return b)
     else exec_bind (buffer_available 2 b) (\<lambda>ok.
     if \<not> ok then Ok (Return b)
     else exec_bind (mem_get (buf_data b) (cur + 1)) (\<lambda>label1.
     exec_bind (label_pointer_location label label1) (\<lambda>loc.
     let pointer = unat loc in
     if pointer \<ge> buf_limit b then Ok (Return b)
     else exec_bind (buffer_skip 2 b) (\<lambda>b.
     let mark = (if mark = None then Some (buf_position b) else mark) in
     exec_bind (buffer_set_position pointer b) (\<lambda>b.
     Ok (Continue False b visited dname mark)))))))"

definition read_label ::
  "buffer \<Rightarrow> u8 list \<Rightarrow> u8 list \<Rightarrow> nat option \<Rightarrow> u8 \<Rightarrow> dname_step exec" where
  "read_label b visited dname mark label =
    exec_bind (label_length label) (\<lambda>len.
    let length' = unat len + 1; done = label_is_root label in
    exec_bind (buffer_available length' b) (\<lambda>ok.
    if \<not> ok then Ok (Return b)
    else if length dname + length' \<ge> MAXDOMAINLEN + 1 then Ok (Return b)
    else exec_bind (buffer_read length' b) (\<lambda>(bytes, b).
    Ok (Continue done b visited (dname @ bytes) mark))))"

definition read_dname_step ::
  "bool \<Rightarrow> buffer \<Rightarrow> u8 list \<Rightarrow> u8 list \<Rightarrow> nat option \<Rightarrow> dname_step exec" where
  "read_dname_step allow_pointers b visited dname mark =
    exec_bind (buffer_available 1 b) (\<lambda>ok.
    if \<not> ok then Ok (Return b)
    else exec_bind (get_bit visited (buf_position b)) (\<lambda>seen.
    if seen then Ok (Return b)
    else exec_bind (set_bit_at visited (buf_position b)) (\<lambda>visited.
    exec_bind (buffer_current b) (\<lambda>cur.
    exec_bind (mem_get (buf_data b) cur) (\<lambda>label.
    if label_is_pointer label then read_pointer allow_pointers b visited dname mark cur label
    else if label_is_normal label then read_label b visited dname mark label
    else Ok (Return b))))))"

text \<open>
  The loop.  Every pass that goes on sets one more bit of \<^verbatim>\<open>visited\<close>, so the number
  of clear bits is what makes it end (the termination proof is below).
\<close>

definition clear_bits :: "u8 list \<Rightarrow> nat set" where
  "clear_bits bits = {i. i < 8 * length bits \<and> get_bit bits i = Ok False}"

lemma bit_of_index: "x AND push_bit n 1 \<noteq> 0 \<longleftrightarrow> bit x n" for x :: "'a :: len word"
  by (simp add: bit_iff_and_push_bit_not_eq_0)

lemma get_bit_eq: "i < 8 * length bits \<Longrightarrow> get_bit bits i = Ok (bit (bits ! (i div 8)) (7 - i mod 8))"
  unfolding get_bit_def mem_get_def bit_of_index by (simp add: less_mult_imp_div_less mult.commute)

lemma index_split:
  assumes "j div 8 = i div 8" and "7 - j mod 8 = 7 - i mod (8 :: nat)"
  shows "j = i"
proof -
  have "j mod 8 < 8" and "i mod 8 < 8" by simp_all
  with assms(2) have "j mod 8 = i mod 8" by linarith
  with assms(1) show ?thesis by (metis div_mult_mod_eq)
qed

lemma set_bit_at_eq:
  "set_bit_at bits i = Ok bits' \<longleftrightarrow> i < 8 * length bits \<and>
     bits' = bits[i div 8 := bits ! (i div 8) OR push_bit (7 - i mod 8) 1]"
  unfolding set_bit_at_def exec_simps by auto

lemma set_bit_at_other:
  assumes "set_bit_at bits i = Ok bits'" and "j < 8 * length bits" and "j \<noteq> i"
  shows "get_bit bits' j = get_bit bits j"
proof (cases "j div 8 = i div 8")
  case True
  then have "7 - j mod 8 \<noteq> 7 - i mod 8" using index_split assms(3) by blast
  with True assms show ?thesis
    by (auto simp: set_bit_at_eq get_bit_eq bit_or_iff bit_exp_iff)
next
  case False
  with assms show ?thesis
    by (auto simp: set_bit_at_eq get_bit_eq)
qed

lemma set_bit_at_self:
  assumes "set_bit_at bits i = Ok bits'"
  shows "get_bit bits' i = Ok True" and "length bits' = length bits" and "i < 8 * length bits"
  using assms by (auto simp: set_bit_at_eq get_bit_eq bit_or_iff bit_exp_iff
      less_mult_imp_div_less mult.commute)

lemma clear_bits_decrease:
  assumes "set_bit_at bits i = Ok bits'" and "get_bit bits i = Ok False"
  shows "card (clear_bits bits') < card (clear_bits bits)"
proof (rule psubset_card_mono)
  show "finite (clear_bits bits)" by (simp add: clear_bits_def)
  have "i \<in> clear_bits bits - clear_bits bits'"
    using assms(2) set_bit_at_self [OF assms(1)] by (simp add: clear_bits_def)
  moreover have "clear_bits bits' \<subseteq> clear_bits bits"
  proof
    fix j assume "j \<in> clear_bits bits'"
    then show "j \<in> clear_bits bits"
      using set_bit_at_self [OF assms(1)] set_bit_at_other [OF assms(1), of j] assms(2)
      by (cases "j = i") (auto simp: clear_bits_def)
  qed
  ultimately show "clear_bits bits' \<subset> clear_bits bits" by blast
qed

lemma read_pointer_visited:
  "read_pointer allow b visited dname mark cur label = Ok (Continue d b' visited' dname' mark')
   \<Longrightarrow> visited' = visited"
  by (auto simp: read_pointer_def exec_simps Let_def split: if_splits)

lemma read_label_visited:
  "read_label b visited dname mark label = Ok (Continue d b' visited' dname' mark')
   \<Longrightarrow> visited' = visited"
  by (auto simp: read_label_def exec_simps Let_def split: if_splits prod.splits)

lemma read_dname_step_measure:
  assumes "read_dname_step allow b visited dname mark = Ok (Continue d b' visited' dname' mark')"
  shows "card (clear_bits visited') < card (clear_bits visited)"
proof -
  from assms have "get_bit visited (buf_position b) = Ok False"
    and "set_bit_at visited (buf_position b) = Ok visited'"
    unfolding read_dname_step_def exec_simps
    by (auto simp: exec_simps split: if_splits dest: read_pointer_visited read_label_visited)
  then show ?thesis by (rule clear_bits_decrease [rotated])
qed

function read_dname_loop ::
  "bool \<Rightarrow> buffer \<Rightarrow> u8 list \<Rightarrow> u8 list \<Rightarrow> nat option \<Rightarrow> (nat \<times> u8 list \<times> buffer) exec" where
  "read_dname_loop allow_pointers b visited dname mark =
    (case read_dname_step allow_pointers b visited dname mark of
       Abort \<Rightarrow> Abort
     | Fault \<Rightarrow> Fault
     | Ok (Return b') \<Rightarrow> Ok (0, dname, b')
     | Ok (Continue done b' visited' dname' mark') \<Rightarrow>
         if \<not> done then read_dname_loop allow_pointers b' visited' dname' mark'
         else case mark' of
           None \<Rightarrow> Ok (length dname', dname', b')
         | Some m \<Rightarrow>
             exec_bind (buffer_set_position m b') (\<lambda>b'. Ok (length dname', dname', b')))"
  by pat_completeness auto
termination
  by (relation "measure (\<lambda>(_, _, visited, _, _). card (clear_bits visited))")
     (auto dest: read_dname_step_measure)

declare read_dname_loop.simps [simp del]

text \<open>
  \<^verbatim>\<open>visited\<close> is a local array of \<^verbatim>\<open>(MAX_PACKET_SIZE+7)/8\<close> bytes of which the call to
  \<^verbatim>\<open>memset\<close> clears the first \<^verbatim>\<open>(limit+7)/8\<close>; the other bytes are never initialised
  and the model does not let the code read them.  The result is the length (0 for
  failure), the bytes stored through \<^verbatim>\<open>dname\<close> and the buffer.
\<close>

definition buffer_read_dname :: "bool \<Rightarrow> buffer \<Rightarrow> (nat \<times> u8 list \<times> buffer) exec" where
  "buffer_read_dname allow_pointers b =
    (let n = (buf_limit b + 7) div 8 in
     if n > (MAX_PACKET_SIZE + 7) div 8 then Fault
     else read_dname_loop allow_pointers b (replicate n 0) [] None)"

lemma buffer_skip_Ok:
  "buffer_skip (int n) b = Ok b' \<longleftrightarrow> buf_position b + n \<le> buf_limit b \<and> b' = advance n b"
  by (auto simp: buffer_skip_def advance_def Let_def exec_simps nat_int_add)

lemma buffer_skip_uint_Ok:
  "buffer_skip (uint a) b = Ok b' \<longleftrightarrow>
   buf_position b + unat a \<le> buf_limit b \<and> b' = advance (unat a) b"
  using buffer_skip_Ok [of "unat a" b b'] by simp

lemma buffer_available_Ok:
  "buffer_available n b = Ok r \<longleftrightarrow>
   buf_position b \<le> buf_limit b \<and> r = (n \<le> buf_limit b - buf_position b)"
  by (auto simp: buffer_available_def buffer_available_at_def buffer_remaining_at_def exec_simps)

function buffer_skip_dname :: "buffer \<Rightarrow> (bool \<times> buffer) exec" where
  "buffer_skip_dname b =
    exec_bind (buffer_available 1 b) (\<lambda>ok.
    if \<not> ok then Ok (False, b)
    else exec_bind (buffer_read_u8 b) (\<lambda>(label_size, b).
    if label_size = 0 then Ok (True, b)
    else if label_size AND 0xc0 \<noteq> 0 then
      exec_bind (buffer_available 1 b) (\<lambda>ok.
      if \<not> ok then Ok (False, b)
      else exec_bind (buffer_skip 1 b) (\<lambda>b. Ok (True, b)))
    else exec_bind (buffer_available (unat label_size) b) (\<lambda>ok.
      if \<not> ok then Ok (False, b)
      else exec_bind (buffer_skip (int (unat label_size)) b) buffer_skip_dname)))"
  by pat_completeness auto
termination
  by (relation "measure (\<lambda>b. buf_limit b - buf_position b)")
     (auto simp: buffer_skip_uint_Ok buffer_read_u8_def advance_def buffer_available_Ok exec_simps)

declare buffer_skip_dname.simps [simp del]

definition buffer_skip_rr :: "bool \<Rightarrow> buffer \<Rightarrow> (bool \<times> buffer) exec" where
  "buffer_skip_rr qrr b =
    exec_bind (buffer_skip_dname b) (\<lambda>(ok, b).
    if \<not> ok then Ok (False, b)
    else if qrr then
      exec_bind (buffer_available 4 b) (\<lambda>ok.
      if \<not> ok then Ok (False, b)
      else exec_bind (buffer_skip 4 b) (\<lambda>b. Ok (True, b)))
    else
      exec_bind (buffer_available 10 b) (\<lambda>ok.
      if \<not> ok then Ok (False, b)
      else exec_bind (buffer_skip 8 b) (\<lambda>b.
      exec_bind (buffer_read_u16 b) (\<lambda>(rdata_size, b).
      exec_bind (buffer_available (unat rdata_size) b) (\<lambda>ok.
      if \<not> ok then Ok (False, b)
      else exec_bind (buffer_skip (int (unat rdata_size)) b) (\<lambda>b. Ok (True, b)))))))"

section \<open>The packet header\<close>

text \<open>
  The macros of \<^verbatim>\<open>buffer.h\<close> read and write one byte of the header through
  \<^verbatim>\<open>buffer_at\<close>; a flag that is set is a non-zero \<^verbatim>\<open>int\<close>.
\<close>

definition header_byte :: "nat \<Rightarrow> buffer \<Rightarrow> u8 exec" where
  "header_byte at b = exec_bind (buffer_at at b) (\<lambda>i. mem_get (buf_data b) i)"

definition update_header_byte :: "nat \<Rightarrow> (u8 \<Rightarrow> u8) \<Rightarrow> buffer \<Rightarrow> buffer exec" where
  "update_header_byte at f b =
     exec_bind (header_byte at b) (\<lambda>x.
     exec_bind (mem_set (buf_data b) at (f x)) (\<lambda>d. Ok (b\<lparr>buf_data := d\<rparr>)))"

definition QR_MASK :: u8 where "QR_MASK = 0x80"
definition OPCODE_MASK :: u8 where "OPCODE_MASK = 0x78"
definition AA_MASK :: u8 where "AA_MASK = 0x04"
definition TC_MASK :: u8 where "TC_MASK = 0x02"
definition RD_MASK :: u8 where "RD_MASK = 0x01"
definition RA_MASK :: u8 where "RA_MASK = 0x80"
definition AD_MASK :: u8 where "AD_MASK = 0x20"
definition CD_MASK :: u8 where "CD_MASK = 0x10"
definition RCODE_MASK :: u8 where "RCODE_MASK = 0x0f"

definition test_header_flag :: "nat \<Rightarrow> u8 \<Rightarrow> buffer \<Rightarrow> bool exec" where
  "test_header_flag at m b = exec_bind (header_byte at b) (\<lambda>x. Ok (x AND m \<noteq> 0))"

definition buffer_pkt_id :: "buffer \<Rightarrow> u16 exec" where
  "buffer_pkt_id b = buffer_read_u16_at 0 b"

text \<open>The random number of \<^verbatim>\<open>ldns_get_random\<close> is an argument.\<close>

definition buffer_pkt_set_random_id :: "u16 \<Rightarrow> buffer \<Rightarrow> buffer exec" where
  "buffer_pkt_set_random_id qid b = buffer_write_u16_at 0 qid b"

definition buffer_pkt_flags :: "buffer \<Rightarrow> u16 exec" where
  "buffer_pkt_flags b = buffer_read_u16_at 2 b"

definition buffer_pkt_set_flags :: "u16 \<Rightarrow> buffer \<Rightarrow> buffer exec" where
  "buffer_pkt_set_flags flags b = buffer_write_u16_at 2 flags b"

definition buffer_pkt_qr :: "buffer \<Rightarrow> bool exec" where
  "buffer_pkt_qr = test_header_flag 2 QR_MASK"

definition buffer_pkt_set_qr :: "buffer \<Rightarrow> buffer exec" where
  "buffer_pkt_set_qr = update_header_byte 2 (\<lambda>x. x OR QR_MASK)"

definition buffer_pkt_clear_qr :: "buffer \<Rightarrow> buffer exec" where
  "buffer_pkt_clear_qr = update_header_byte 2 (\<lambda>x. x AND NOT QR_MASK)"

definition buffer_pkt_opcode :: "buffer \<Rightarrow> u8 exec" where
  "buffer_pkt_opcode b =
     exec_bind (header_byte 2 b) (\<lambda>x. Ok (drop_bit 3 (x AND OPCODE_MASK)))"

definition buffer_pkt_set_opcode :: "u8 \<Rightarrow> buffer \<Rightarrow> buffer exec" where
  "buffer_pkt_set_opcode opcode =
     update_header_byte 2 (\<lambda>x. (x AND NOT OPCODE_MASK) OR push_bit 3 opcode)"

definition buffer_pkt_aa :: "buffer \<Rightarrow> bool exec" where
  "buffer_pkt_aa = test_header_flag 2 AA_MASK"

definition buffer_pkt_set_aa :: "buffer \<Rightarrow> buffer exec" where
  "buffer_pkt_set_aa = update_header_byte 2 (\<lambda>x. x OR AA_MASK)"

definition buffer_pkt_tc :: "buffer \<Rightarrow> bool exec" where
  "buffer_pkt_tc = test_header_flag 2 TC_MASK"

definition buffer_pkt_rd :: "buffer \<Rightarrow> bool exec" where
  "buffer_pkt_rd = test_header_flag 2 RD_MASK"

definition buffer_pkt_ra :: "buffer \<Rightarrow> bool exec" where
  "buffer_pkt_ra = test_header_flag 3 RA_MASK"

definition buffer_pkt_ad :: "buffer \<Rightarrow> bool exec" where
  "buffer_pkt_ad = test_header_flag 3 AD_MASK"

definition buffer_pkt_cd :: "buffer \<Rightarrow> bool exec" where
  "buffer_pkt_cd = test_header_flag 3 CD_MASK"

definition buffer_pkt_rcode :: "buffer \<Rightarrow> u8 exec" where
  "buffer_pkt_rcode b = exec_bind (header_byte 3 b) (\<lambda>x. Ok (x AND RCODE_MASK))"

definition buffer_pkt_set_rcode :: "u8 \<Rightarrow> buffer \<Rightarrow> buffer exec" where
  "buffer_pkt_set_rcode rcode =
     update_header_byte 3 (\<lambda>x. (x AND NOT RCODE_MASK) OR rcode)"

definition buffer_pkt_qdcount :: "buffer \<Rightarrow> u16 exec" where
  "buffer_pkt_qdcount b = buffer_read_u16_at 4 b"

definition buffer_pkt_set_qdcount :: "u16 \<Rightarrow> buffer \<Rightarrow> buffer exec" where
  "buffer_pkt_set_qdcount count b = buffer_write_u16_at 4 count b"

definition buffer_pkt_ancount :: "buffer \<Rightarrow> u16 exec" where
  "buffer_pkt_ancount b = buffer_read_u16_at 6 b"

definition buffer_pkt_set_ancount :: "u16 \<Rightarrow> buffer \<Rightarrow> buffer exec" where
  "buffer_pkt_set_ancount count b = buffer_write_u16_at 6 count b"

definition buffer_pkt_nscount :: "buffer \<Rightarrow> u16 exec" where
  "buffer_pkt_nscount b = buffer_read_u16_at 8 b"

definition buffer_pkt_set_nscount :: "u16 \<Rightarrow> buffer \<Rightarrow> buffer exec" where
  "buffer_pkt_set_nscount count b = buffer_write_u16_at 8 count b"

definition buffer_pkt_arcount :: "buffer \<Rightarrow> u16 exec" where
  "buffer_pkt_arcount b = buffer_read_u16_at 10 b"

definition buffer_pkt_set_arcount :: "u16 \<Rightarrow> buffer \<Rightarrow> buffer exec" where
  "buffer_pkt_set_arcount count b = buffer_write_u16_at 10 count b"

definition LDNS_PACKET_QUERY :: u8 where "LDNS_PACKET_QUERY = 0"
definition LDNS_PACKET_NOTIFY :: u8 where "LDNS_PACKET_NOTIFY = 4"
definition LDNS_RCODE_NOERROR :: u8 where "LDNS_RCODE_NOERROR = 0"
definition LDNS_RR_TYPE_SOA :: u16 where "LDNS_RR_TYPE_SOA = 6"
definition LDNS_RR_TYPE_AXFR :: u16 where "LDNS_RR_TYPE_AXFR = 252"

text \<open>The first argument is the random query id.\<close>

definition buffer_pkt_new ::
  "u16 \<Rightarrow> u8 list \<Rightarrow> u16 \<Rightarrow> u16 \<Rightarrow> u8 \<Rightarrow> buffer \<Rightarrow> buffer exec" where
  "buffer_pkt_new qid qname qtype qclass opcode b =
    ods_log_assert (qtype \<noteq> 0) (ods_log_assert (qclass \<noteq> 0)
    (exec_bind (buffer_pkt_set_random_id qid (buffer_clear b)) (\<lambda>b.
     exec_bind (buffer_pkt_set_opcode opcode b) (\<lambda>b.
     exec_bind (buffer_pkt_clear_qr b) (\<lambda>b.
     exec_bind (buffer_pkt_set_rcode LDNS_RCODE_NOERROR b) (\<lambda>b.
     exec_bind (buffer_pkt_set_qdcount 1 b) (\<lambda>b.
     exec_bind (buffer_pkt_set_ancount 0 b) (\<lambda>b.
     exec_bind (buffer_pkt_set_nscount 0 b) (\<lambda>b.
     exec_bind (buffer_pkt_set_arcount 0 b) (\<lambda>b.
     exec_bind (buffer_skip (int BUFFER_PKT_HEADER_SIZE) b) (\<lambda>b.
     exec_bind (buffer_write_rdf qname b) (\<lambda>b.
     exec_bind (buffer_write_u16 qtype b) (\<lambda>b.
     buffer_write_u16 qclass b)))))))))))))"

definition buffer_pkt_query :: "u16 \<Rightarrow> u8 list \<Rightarrow> u16 \<Rightarrow> u16 \<Rightarrow> buffer \<Rightarrow> buffer exec" where
  "buffer_pkt_query qid qname qtype qclass b =
    exec_bind (buffer_pkt_new qid qname qtype qclass LDNS_PACKET_QUERY b)
      (buffer_pkt_set_flags 0)"

definition buffer_pkt_notify :: "u16 \<Rightarrow> u8 list \<Rightarrow> u16 \<Rightarrow> buffer \<Rightarrow> buffer exec" where
  "buffer_pkt_notify qid qname qclass b =
    buffer_pkt_new qid qname LDNS_RR_TYPE_SOA qclass LDNS_PACKET_NOTIFY b"

definition buffer_pkt_axfr :: "u16 \<Rightarrow> u8 list \<Rightarrow> u16 \<Rightarrow> buffer \<Rightarrow> buffer exec" where
  "buffer_pkt_axfr qid qname qclass b =
    exec_bind (buffer_pkt_new qid qname LDNS_RR_TYPE_AXFR qclass LDNS_PACKET_QUERY b)
      buffer_pkt_set_qr"

end
