(* ===== verification/Buffer_Props.thy ===== *)
theory Buffer_Props
  imports Buffer
begin

text \<open>
  Correctness of the packet buffer: the cursor invariant, the codecs for 16- and 32-bit
  integers, the reading and skipping of domain names, and the writing of records.
\<close>

section \<open>The cursor invariant\<close>

definition buffer_wf :: "buffer \<Rightarrow> bool" where
  "buffer_wf b \<longleftrightarrow> buf_position b \<le> buf_limit b \<and> buf_limit b \<le> buf_capacity b \<and>
     length (buf_data b) = buf_capacity b"

named_theorems buffer_eval \<open>evaluation of the buffer operations under the invariant\<close>

lemma buffer_wfD:
  "buffer_wf b \<Longrightarrow> buf_position b \<le> buf_limit b"
  "buffer_wf b \<Longrightarrow> buf_limit b \<le> length (buf_data b)"
  "buffer_wf b \<Longrightarrow> buf_capacity b = length (buf_data b)"
  by (auto simp: buffer_wf_def)

lemma buffer_create_wf: "buffer_create n = Some b \<Longrightarrow> buffer_wf b"
  by (auto simp: buffer_create_def buffer_wf_def split: if_splits)

lemma buffer_create_from_wf: "buffer_wf (buffer_create_from d)"
  by (simp add: buffer_create_from_def buffer_wf_def)

lemma buffer_clear_wf: "buffer_wf b \<Longrightarrow> buffer_wf (buffer_clear b)"
  by (simp add: buffer_clear_def buffer_wf_def)

lemma buffer_flip_wf: "buffer_wf b \<Longrightarrow> buffer_wf (buffer_flip b)"
  by (simp add: buffer_flip_def buffer_wf_def)

lemma buffer_rewind_wf: "buffer_wf b \<Longrightarrow> buffer_wf (buffer_rewind b)"
  by (simp add: buffer_rewind_def buffer_wf_def)

lemma buffer_set_position_wf:
  "buffer_wf b \<Longrightarrow> buffer_set_position pos b = Ok b' \<Longrightarrow> buffer_wf b'"
  by (auto simp: buffer_set_position_def buffer_wf_def exec_simps)

lemma buffer_skip_wf: "buffer_wf b \<Longrightarrow> buffer_skip n b = Ok b' \<Longrightarrow> buffer_wf b'"
  by (auto simp: buffer_skip_def buffer_wf_def exec_simps Let_def)

lemma buffer_set_limit_wf: "buffer_wf b \<Longrightarrow> buffer_set_limit lim b = Ok b' \<Longrightarrow> buffer_wf b'"
  by (auto simp: buffer_set_limit_def buffer_wf_def exec_simps Let_def split: if_splits)

lemma buffer_available_eval [buffer_eval]:
  "buffer_wf b \<Longrightarrow> buffer_available n b = Ok (buf_position b + n \<le> buf_limit b)"
  by (auto simp: buffer_available_def buffer_available_at_def buffer_remaining_at_def buffer_wf_def)

lemma buffer_skip_eval [buffer_eval]:
  "buffer_wf b \<Longrightarrow> buf_position b + n \<le> buf_limit b \<Longrightarrow> buffer_skip (int n) b = Ok (advance n b)"
  by (auto simp: buffer_skip_def advance_def Let_def nat_int_add)

lemma buffer_set_position_eval [buffer_eval]:
  "pos \<le> buf_limit b \<Longrightarrow> buffer_set_position pos b = Ok (b\<lparr>buf_position := pos\<rparr>)"
  by (simp add: buffer_set_position_def)

lemma buffer_write_at_eval [buffer_eval]:
  "buffer_wf b \<Longrightarrow> at + length bytes \<le> buf_limit b \<Longrightarrow>
   buffer_write_at at bytes b = Ok (b\<lparr>buf_data := patch (buf_data b) at bytes\<rparr>)"
  by (auto simp: buffer_write_at_def buffer_available_at_def buffer_remaining_at_def buffer_wf_def
      mem_write_def ods_log_assert_def)

lemma buffer_write_at_wf:
  assumes "buffer_wf b" and "buffer_write_at at bytes b = Ok b'"
  shows "buffer_wf b'"
  using assms by (auto simp: buffer_write_at_def exec_simps buffer_wf_def buffer_available_at_def)

lemma advance_wf: "buffer_wf b \<Longrightarrow> buf_position b + n \<le> buf_limit b \<Longrightarrow> buffer_wf (advance n b)"
  by (simp add: buffer_wf_def advance_def)

lemma advance_simps [simp]:
  "buf_position (advance n b) = buf_position b + n"
  "buf_limit (advance n b) = buf_limit b"
  "buf_data (advance n b) = buf_data b"
  "buf_capacity (advance n b) = buf_capacity b"
  by (simp_all add: advance_def)

lemma buffer_write_eval:
  "buffer_wf b \<Longrightarrow> buf_position b + length bytes \<le> buf_limit b \<Longrightarrow>
   buffer_write bytes b =
     Ok (advance (length bytes) (b\<lparr>buf_data := patch (buf_data b) (buf_position b) bytes\<rparr>))"
  by (simp add: buffer_write_def buffer_write_at_eval)

lemma buffer_write_wf:
  assumes "buffer_wf b" and "buffer_write bytes b = Ok b'"
  shows "buffer_wf b'"
  using assms by (auto simp: buffer_write_def buffer_write_at_def exec_simps buffer_wf_def
      buffer_available_at_def buffer_remaining_at_def)

lemma buffer_read_eval [buffer_eval]:
  "buffer_wf b \<Longrightarrow> buf_position b + n \<le> buf_limit b \<Longrightarrow>
   buffer_read n b = Ok (take n (drop (buf_position b) (buf_data b)), advance n b)"
  by (auto simp: buffer_read_def buffer_available_eval mem_read_def dest: buffer_wfD)

lemma buffer_read_u8_eval [buffer_eval]:
  "buffer_wf b \<Longrightarrow> buf_position b < buf_limit b \<Longrightarrow>
   buffer_read_u8 b = Ok (buf_data b ! buf_position b, advance 1 b)"
  by (auto simp: buffer_read_u8_def buffer_read_u8_at_def mem_get_def buffer_wf_def)

section \<open>Integer codecs\<close>

text \<open>
  A codec turns a word into a fixed number of bytes and back.  Whatever the width, what
  is written at a position is read back there, and a read elsewhere is not affected.
\<close>

locale codec =
  fixes enc :: "'w \<Rightarrow> u8 list"
    and dec :: "u8 list \<Rightarrow> 'w"
    and width :: nat
  assumes length_enc: "length (enc x) = width"
    and dec_enc: "dec (enc x) = x"
    and enc_dec: "length p = width \<Longrightarrow> enc (dec p) = p"
begin

definition read_at :: "nat \<Rightarrow> buffer \<Rightarrow> 'w exec" where
  "read_at at b = exec_bind (mem_read (buf_data b) at width) (\<lambda>p. Ok (dec p))"

lemma read_write_at:
  assumes "buffer_wf b" and "at + width \<le> buf_limit b"
  shows "exec_bind (buffer_write_at at (enc x) b) (read_at at) = Ok x"
proof -
  have "at + length (enc x) \<le> length (buf_data b)"
    using assms by (auto simp: length_enc dest: buffer_wfD)
  then show ?thesis
    using assms patch_same [of at "enc x" "buf_data b"]
    by (simp add: buffer_write_at_eval length_enc read_at_def mem_read_def dec_enc)
qed

lemma read_after_write_elsewhere:
  assumes "buffer_wf b" and "buffer_write_at i bytes b = Ok b'"
    and "at + width \<le> i \<or> i + length bytes \<le> at"
  shows "read_at at b' = read_at at b"
proof -
  have fits: "i + length bytes \<le> length (buf_data b)"
    and b': "b' = b\<lparr>buf_data := patch (buf_data b) i bytes\<rparr>"
    using assms(2) by (auto simp: buffer_write_at_def exec_simps)
  from assms(3) have "take width (drop at (patch (buf_data b) i bytes)) = take width (drop at (buf_data b))"
    by (elim disjE) (simp_all add: patch_before patch_after fits)
  then show ?thesis by (simp add: read_at_def mem_read_def b' fits)
qed

lemma inj_enc: "enc x = enc y \<longleftrightarrow> x = y"
  by (metis dec_enc)

end

lemma read_write_uint16: "read_uint16 (write_uint16 d) = d"
proof (rule bit_word_eqI)
  fix n assume n: "n < LENGTH(16)"
  consider "n < 8" | "8 \<le> n" by linarith
  then show "bit (read_uint16 (write_uint16 d)) n \<longleftrightarrow> bit d n"
    using n by cases (simp_all add: read_uint16_def write_uint16_def byte_bits)
qed

lemma read_write_uint32: "read_uint32 (write_uint32 d) = d"
proof (rule bit_word_eqI)
  fix n assume n: "n < LENGTH(32)"
  consider "n < 8" | "8 \<le> n" "n < 16" | "16 \<le> n" "n < 24" | "24 \<le> n" by linarith
  then show "bit (read_uint32 (write_uint32 d)) n \<longleftrightarrow> bit d n"
    using n by cases (simp_all add: read_uint32_def write_uint32_def byte_bits)
qed

lemma write_read_uint16:
  assumes "length p = 2"
  shows "write_uint16 (read_uint16 p) = p"
proof -
  have "write_uint16 (read_uint16 p) = [p ! 0, p ! 1]"
    by (auto simp: write_uint16_def read_uint16_def byte_bits intro!: bit_word_eqI dest: bit_u8_above)
  then show ?thesis using length_eq_2 [OF assms] by simp
qed

lemma write_read_uint32:
  assumes "length p = 4"
  shows "write_uint32 (read_uint32 p) = p"
proof -
  have "write_uint32 (read_uint32 p) = [p ! 0, p ! 1, p ! 2, p ! 3]"
    by (auto simp: write_uint32_def read_uint32_def byte_bits intro!: bit_word_eqI dest: bit_u8_above)
  then show ?thesis using length_eq_4 [OF assms] by simp
qed

lemma length_write_uint [simp]: "length (write_uint16 d) = 2" "length (write_uint32 e) = 4"
  by (simp_all add: write_uint16_def write_uint32_def)

interpretation u16c: codec write_uint16 read_uint16 2
  by unfold_locales (simp_all add: read_write_uint16 write_read_uint16)

interpretation u32c: codec write_uint32 read_uint32 4
  by unfold_locales (simp_all add: read_write_uint32 write_read_uint32)

section \<open>Reading a domain name\<close>

definition pointer_loc :: "u8 \<Rightarrow> u8 \<Rightarrow> nat" where
  "pointer_loc l0 l1 = unat (push_bit 8 (ucast (l0 AND NOT 0xc0)) OR ucast l1 :: u16)"

lemma label_pointer_location_eval [buffer_eval]:
  "label_is_pointer l0 \<Longrightarrow>
   label_pointer_location l0 l1 = Ok (push_bit 8 (ucast (l0 AND NOT 0xc0)) OR ucast l1)"
  by (simp add: label_pointer_location_def)

lemma buffer_current_eval [buffer_eval]: "buffer_wf b \<Longrightarrow> buffer_current b = Ok (buf_position b)"
  by (simp add: buffer_current_def buffer_at_def buffer_wf_def)

definition marked :: "u8 list \<Rightarrow> nat \<Rightarrow> u8 list" where
  "marked visited p = visited[p div 8 := visited ! (p div 8) OR push_bit (7 - p mod 8) 1]"

lemma set_bit_at_marked: "p < 8 * length visited \<Longrightarrow> set_bit_at visited p = Ok (marked visited p)"
  by (simp only: set_bit_at_eq marked_def)

lemma length_marked [simp]: "length (marked visited p) = length visited"
  by (simp add: marked_def)

text \<open>What one pass of the loop does, with every check of the code decided.\<close>

fun dname_pass ::
  "bool \<Rightarrow> buffer \<Rightarrow> u8 list \<Rightarrow> u8 list \<Rightarrow> nat option \<Rightarrow> dname_step" where
  "dname_pass allow b visited dname mark =
    (let p = buf_position b; d = buf_data b; l = d ! p; len = unat l + 1;
         loc = pointer_loc l (d ! (p + 1)) in
     if buf_limit b \<le> p \<or> get_bit visited p = Ok True then Return b
     else if label_is_pointer l then
       (if allow \<and> p + 2 \<le> buf_limit b \<and> loc < buf_limit b
        then Continue False (b\<lparr>buf_position := loc\<rparr>) (marked visited p)
               dname (if mark = None then Some (p + 2) else mark)
        else Return b)
     else if label_is_normal l then
       (if p + len \<le> buf_limit b \<and> length dname + len \<le> MAXDOMAINLEN
        then Continue (l = 0) (advance len b) (marked visited p)
               (dname @ take len (drop p d)) mark
        else Return b)
     else Return b)"

declare dname_pass.simps [simp del]

lemma read_pointer_eval:
  assumes "buffer_wf b" and "label_is_pointer l"
  shows "read_pointer allow b v dname mark (buf_position b) l =
    (let p = buf_position b; loc = pointer_loc l (buf_data b ! (p + 1)) in
     Ok (if allow \<and> p + 2 \<le> buf_limit b \<and> loc < buf_limit b
         then Continue False (b\<lparr>buf_position := loc\<rparr>) v dname (if mark = None then Some (p + 2) else mark)
         else Return b))"
proof -
  have skip: "p + 2 \<le> buf_limit b \<Longrightarrow> p = buf_position b \<Longrightarrow> buffer_skip 2 b = Ok (advance 2 b)" for p
    using buffer_skip_eval [OF assms(1), of 2] by simp
  have get: "buf_position b + 2 \<le> buf_limit b \<Longrightarrow>
    mem_get (buf_data b) (buf_position b + 1) = Ok (buf_data b ! (buf_position b + 1))"
    using buffer_wfD(2) [OF assms(1)] by (simp add: mem_get_def)
  show ?thesis
    using assms skip get
    by (auto simp: read_pointer_def Let_def buffer_available_eval label_pointer_location_eval
        buffer_set_position_eval pointer_loc_def advance_def)
qed

lemma read_label_eval:
  assumes "buffer_wf b" and "label_is_normal l"
  shows "read_label b v dname mark l =
    (let p = buf_position b; len = unat l + 1 in
     Ok (if p + len \<le> buf_limit b \<and> length dname + len \<le> MAXDOMAINLEN
         then Continue (l = 0) (advance len b) v (dname @ take len (drop p (buf_data b))) mark
         else Return b))"
  using assms buffer_read_eval [OF assms(1), of "unat l + 1"]
  by (auto simp: read_label_def Let_def buffer_available_eval label_length_def label_is_root_def)

lemma read_dname_step_eval:
  assumes "buffer_wf b" and "buf_limit b \<le> 8 * length visited"
  shows "read_dname_step allow b visited dname mark = Ok (dname_pass allow b visited dname mark)"
proof (cases "buf_position b < buf_limit b")
  case False
  with assms(1) show ?thesis
    by (simp add: read_dname_step_def dname_pass.simps buffer_available_eval Let_def)
next
  case True
  with assms(2) have idx: "buf_position b < 8 * length visited" by simp
  obtain seen where seen: "get_bit visited (buf_position b) = Ok seen"
    using get_bit_eq [OF idx] by blast
  have "mem_get (buf_data b) (buf_position b) = Ok (buf_data b ! buf_position b)"
    using True buffer_wfD(2) [OF assms(1)] by (simp add: mem_get_def)
  then show ?thesis
    using True assms(1) seen set_bit_at_marked [OF idx]
    by (auto simp: read_dname_step_def dname_pass.simps buffer_eval Let_def
        read_pointer_eval read_label_eval)
qed

text \<open>The loop stays in bounds and returns, whatever the packet holds.\<close>

lemma dname_pass_Continue:
  assumes "dname_pass allow b visited dname mark = Continue d b' visited' dname' mark'"
    and "buffer_wf b" and "pred_option (\<lambda>m. m \<le> buf_limit b) mark"
  shows "buffer_wf b'" and "b' = b\<lparr>buf_position := buf_position b'\<rparr>"
    and "length visited' = length visited" and "length dname' \<le> max (length dname) MAXDOMAINLEN"
    and "pred_option (\<lambda>m. m \<le> buf_limit b) mark'"
  using assms by (auto simp: dname_pass.simps Let_def buffer_wf_def advance_def split: if_splits)

lemma read_dname_loop_safe:
  assumes "buffer_wf b" and "buf_limit b \<le> 8 * length visited"
    and "length dname \<le> MAXDOMAINLEN" and "pred_option (\<lambda>m. m \<le> buf_limit b) mark"
  shows "\<exists>n nm p. read_dname_loop allow b visited dname mark = Ok (n, nm, b\<lparr>buf_position := p\<rparr>) \<and>
    n \<le> length nm \<and> length nm \<le> MAXDOMAINLEN \<and> p \<le> buf_limit b"
  using assms
proof (induction allow b visited dname mark rule: read_dname_loop.induct)
  case (1 allow b visited dname mark)
  note step = read_dname_step_eval [OF 1(2,3), of allow dname mark]
  show ?case
  proof (cases "dname_pass allow b visited dname mark")
    case (Return b')
    then have "b' = b" by (auto simp: dname_pass.simps Let_def split: if_splits)
    with Return step 1(2,4) show ?thesis
      by (intro exI [of _ 0] exI [of _ dname] exI [of _ "buf_position b"])
         (simp add: read_dname_loop.simps [of allow b] buffer_wf_def)
  next
    case (Continue d b' visited' dname' mark')
    note cont = dname_pass_Continue [OF Continue 1(2,5)]
    then have lim: "buf_limit b' = buf_limit b" by (metis buffer.select_convs(2) buffer.update_convs(1) buffer.surjective)
    have upd: "b'\<lparr>buf_position := p\<rparr> = b\<lparr>buf_position := p\<rparr>" for p
      by (subst cont(2)) simp
    show ?thesis
    proof (cases d)
      case False
      have ih: "\<exists>n nm p. read_dname_loop allow b' visited' dname' mark' = Ok (n, nm, b'\<lparr>buf_position := p\<rparr>) \<and>
        n \<le> length nm \<and> length nm \<le> MAXDOMAINLEN \<and> p \<le> buf_limit b'"
        using 1(1) [OF step] Continue False cont lim 1(3,4) by fastforce
      with upd False Continue step lim show ?thesis
        by (simp add: read_dname_loop.simps [of allow b])
    next
      case True
      let ?p = "case mark' of None \<Rightarrow> buf_position b' | Some m \<Rightarrow> m"
      have "read_dname_loop allow b visited dname mark =
        Ok (length dname', dname', b\<lparr>buf_position := ?p\<rparr>)"
        using True Continue step cont(2,5) lim upd [symmetric]
        by (auto simp: read_dname_loop.simps [of allow b] buffer_set_position_def split: option.splits)
      moreover have "?p \<le> buf_limit b" "length dname' \<le> MAXDOMAINLEN"
        using cont lim 1(4) by (auto simp: buffer_wf_def split: option.splits)
      ultimately show ?thesis by blast
    qed
  qed
qed

text \<open>
  The specification: \<open>dname_at allow d L k pos nm e\<close> says that, in the bytes \<open>d\<close> of a
  packet of \<open>L\<close> bytes, a domain name with wire form \<open>nm\<close> starts at \<open>pos\<close>, that \<open>k\<close>
  labels and compression pointers lie on its way, and that the bytes after the name
  start at \<open>e\<close> (RFC 1035, section 4.1.4).
\<close>

inductive dname_at :: "bool \<Rightarrow> u8 list \<Rightarrow> nat \<Rightarrow> nat \<Rightarrow> nat \<Rightarrow> u8 list \<Rightarrow> nat \<Rightarrow> bool"
  for allow d L where
  root: "pos < L \<Longrightarrow> d ! pos = 0 \<Longrightarrow> dname_at allow d L 0 pos (take 1 (drop pos d)) (pos + 1)"
| label: "label_is_normal (d ! pos) \<Longrightarrow> d ! pos \<noteq> 0 \<Longrightarrow> len = unat (d ! pos) + 1 \<Longrightarrow>
    pos + len \<le> L \<Longrightarrow> dname_at allow d L k (pos + len) nm e \<Longrightarrow>
    dname_at allow d L (Suc k) pos (take len (drop pos d) @ nm) e"
| pointer: "label_is_pointer (d ! pos) \<Longrightarrow> allow \<Longrightarrow> pos + 2 \<le> L \<Longrightarrow>
    loc = pointer_loc (d ! pos) (d ! (pos + 1)) \<Longrightarrow> loc < L \<Longrightarrow> dname_at allow d L k loc nm e \<Longrightarrow>
    dname_at allow d L (Suc k) pos nm (pos + 2)"

inductive_simps dname_at_unfold: "dname_at allow d L k pos nm e"

lemma pointer_not_normal: "label_is_pointer l \<Longrightarrow> \<not> label_is_normal l"
  by (auto simp: label_is_pointer_def label_is_normal_def)

lemma root_not_pointer [simp]: "\<not> label_is_pointer 0" "label_is_normal 0"
  by (simp_all add: label_is_pointer_def label_is_normal_def)

lemma dname_at_unique:
  "dname_at allow d L k pos nm e \<Longrightarrow> dname_at allow d L k' pos nm' e' \<Longrightarrow> k' = k \<and> nm' = nm \<and> e' = e"
proof (induction arbitrary: k' nm' e' rule: dname_at.induct)
  case (root pos)
  then show ?case by (auto simp: dname_at_unfold [of _ _ _ k' pos] dest: pointer_not_normal)
next
  case (label pos len k nm e)
  from label.prems label.hyps(1-3) obtain k1 nm1 where
    "k' = Suc k1" "nm' = take len (drop pos d) @ nm1" "dname_at allow d L k1 (pos + len) nm1 e'"
    by (auto simp: dname_at_unfold [of _ _ _ k' pos] dest: pointer_not_normal)
  with label.IH show ?case by blast
next
  case (pointer pos loc k nm e)
  from pointer.prems pointer.hyps(1-4) obtain k1 e1 where
    "k' = Suc k1" "e' = pos + 2" "dname_at allow d L k1 loc nm' e1"
    by (auto simp: dname_at_unfold [of _ _ _ k' pos] dest: pointer_not_normal)
  with pointer.IH show ?case by blast
qed

lemma dname_pass_extends:
  assumes pass: "dname_pass allow b visited dname mark = Continue False b1 visited' dname' mark'"
    and rest: "dname_at allow (buf_data b) (buf_limit b) k (buf_position b1) suffix e"
  shows "\<exists>suf e'. dname' @ suffix = dname @ suf \<and>
    dname_at allow (buf_data b) (buf_limit b) (Suc k) (buf_position b) suf e' \<and>
    (case mark' of None \<Rightarrow> e | Some m \<Rightarrow> m) = (case mark of None \<Rightarrow> e' | Some m \<Rightarrow> m)"
proof -
  let ?d = "buf_data b" and ?p = "buf_position b"
  let ?len = "unat (?d ! ?p) + 1" and ?loc = "pointer_loc (?d ! ?p) (?d ! (?p + 1))"
  show ?thesis
  proof (cases "label_is_pointer (?d ! ?p)")
    case True
    with pass have c: "allow" "?p + 2 \<le> buf_limit b" "?loc < buf_limit b" "dname' = dname"
      "buf_position b1 = ?loc" "mark' = (if mark = None then Some (?p + 2) else mark)"
      by (auto simp: dname_pass.simps Let_def split: if_splits)
    from c(5) rest have "dname_at allow ?d (buf_limit b) k ?loc suffix e" by simp
    from dname_at.pointer [OF True c(1,2) refl c(3) this] c(4,6) show ?thesis
      by (intro exI [of _ suffix] exI [of _ "?p + 2"]) (auto split: option.splits)
  next
    case False
    with pass have c: "label_is_normal (?d ! ?p)" "?d ! ?p \<noteq> 0" "?p + ?len \<le> buf_limit b"
      "dname' = dname @ take ?len (drop ?p ?d)" "buf_position b1 = ?p + ?len" "mark' = mark"
      by (auto simp: dname_pass.simps Let_def split: if_splits)
    from c(5) rest have "dname_at allow ?d (buf_limit b) k (?p + ?len) suffix e" by simp
    from dname_at.label [OF c(1,2) refl c(3) this] c(4,6) show ?thesis
      by (intro exI [of _ "take ?len (drop ?p ?d) @ suffix"] exI [of _ e]) auto
  qed
qed

lemma read_dname_loop_sound:
  assumes "buffer_wf b" and "buf_limit b \<le> 8 * length visited"
    and "pred_option (\<lambda>m. m \<le> buf_limit b) mark"
    and "read_dname_loop allow b visited dname mark = Ok (n, nm, b')" and "n \<noteq> 0"
  shows "\<exists>k suffix e. nm = dname @ suffix \<and> n = length nm \<and>
    dname_at allow (buf_data b) (buf_limit b) k (buf_position b) suffix e \<and>
    b' = b\<lparr>buf_position := case mark of None \<Rightarrow> e | Some m \<Rightarrow> m\<rparr>"
  using assms
proof (induction allow b visited dname mark rule: read_dname_loop.induct)
  case (1 allow b visited dname mark)
  note step = read_dname_step_eval [OF 1(2,3), of allow dname mark]
  show ?case
  proof (cases "dname_pass allow b visited dname mark")
    case (Return b')
    with step 1(5,6) show ?thesis by (simp add: read_dname_loop.simps [of allow b])
  next
    case (Continue d b1 visited' dname' mark')
    note cont = dname_pass_Continue [OF Continue 1(2,4)]
    have lim: "buf_limit b1 = buf_limit b" and dat: "buf_data b1 = buf_data b"
      by (subst cont(2), simp)+
    have upd: "b1\<lparr>buf_position := p\<rparr> = b\<lparr>buf_position := p\<rparr>" for p
      by (subst cont(2)) simp
    show ?thesis
    proof (cases d)
      case False
      have "read_dname_loop allow b1 visited' dname' mark' = Ok (n, nm, b')"
        using 1(5) Continue step False by (simp add: read_dname_loop.simps [of allow b])
      with cont(3,5) lim 1(3,6) have "\<exists>k suffix e. nm = dname' @ suffix \<and> n = length nm \<and>
        dname_at allow (buf_data b1) (buf_limit b1) k (buf_position b1) suffix e \<and>
        b' = b1\<lparr>buf_position := case mark' of None \<Rightarrow> e | Some m \<Rightarrow> m\<rparr>"
        by (intro 1(1) [OF step Continue False cont(1)]) simp_all
      then obtain k suffix e where ih: "nm = dname' @ suffix" "n = length nm"
        "dname_at allow (buf_data b) (buf_limit b) k (buf_position b1) suffix e"
        "b' = b\<lparr>buf_position := case mark' of None \<Rightarrow> e | Some m \<Rightarrow> m\<rparr>"
        unfolding lim dat upd by blast
      from Continue False have pass:
        "dname_pass allow b visited dname mark = Continue False b1 visited' dname' mark'" by simp
      show ?thesis
        using dname_pass_extends [OF pass ih(3)] ih(1,2,4) by metis
    next
      case True
      then have "nm = dname'" "n = length nm"
        "b' = b\<lparr>buf_position := case mark' of None \<Rightarrow> buf_position b1 | Some m \<Rightarrow> m\<rparr>"
        using 1(5) Continue step cont(2) lim upd
        by (auto simp: read_dname_loop.simps [of allow b] buffer_set_position_def exec_simps
            split: option.splits)
      moreover from Continue True have "buf_position b < buf_limit b" "buf_data b ! buf_position b = 0"
        "buf_position b1 = buf_position b + 1" "mark' = mark"
        "dname' = dname @ take 1 (drop (buf_position b) (buf_data b))"
        by (auto simp: dname_pass.simps Let_def split: if_splits)
      ultimately show ?thesis
        using dname_at.root [of "buf_position b" "buf_limit b" "buf_data b" allow] by metis
    qed
  qed
qed

text \<open>
  Every name the specification allows is read: a position that the loop visits twice
  would have two different numbers of steps left, which \<open>dname_at_unique\<close> excludes.
\<close>

definition visited_above :: "bool \<Rightarrow> buffer \<Rightarrow> nat \<Rightarrow> u8 list \<Rightarrow> bool" where
  "visited_above allow b k visited \<longleftrightarrow>
     (\<forall>q < 8 * length visited. get_bit visited q = Ok True \<longrightarrow>
        (\<exists>k' nm e. k < k' \<and> dname_at allow (buf_data b) (buf_limit b) k' q nm e))"

lemma get_bit_marked:
  assumes "p < 8 * length visited" and "q < 8 * length visited"
  shows "get_bit (marked visited p) q = (if q = p then Ok True else get_bit visited q)"
  using set_bit_at_self(1) [OF set_bit_at_marked [OF assms(1)]]
    set_bit_at_other [OF set_bit_at_marked [OF assms(1)] assms(2)] by simp

lemma visited_above_marked:
  assumes "visited_above allow b (Suc k) visited" and "p < 8 * length visited"
    and "dname_at allow (buf_data b) (buf_limit b) (Suc k) p nm e"
    and "buf_data b' = buf_data b" and "buf_limit b' = buf_limit b"
  shows "visited_above allow b' k (marked visited p)"
  unfolding visited_above_def
proof (intro allI impI)
  fix q assume q: "q < 8 * length (marked visited p)" "get_bit (marked visited p) q = Ok True"
  show "\<exists>k' nm e. k < k' \<and> dname_at allow (buf_data b') (buf_limit b') k' q nm e"
  proof (cases "q = p")
    case True
    with assms(3-5) show ?thesis by auto
  next
    case False
    with q assms(1,2) have "\<exists>k' nm e. Suc k < k' \<and> dname_at allow (buf_data b) (buf_limit b) k' q nm e"
      by (auto simp: visited_above_def get_bit_marked)
    with assms(4,5) show ?thesis by (metis Suc_lessD)
  qed
qed

lemma visited_above_clear:
  assumes "visited_above allow b k visited" and "p < 8 * length visited"
    and "dname_at allow (buf_data b) (buf_limit b) k p nm e"
  shows "get_bit visited p \<noteq> Ok True"
  using assms dname_at_unique unfolding visited_above_def by (metis less_irrefl)

lemma read_dname_loop_complete:
  assumes "dname_at allow d L k pos nm e"
    and "buffer_wf b" and "buf_data b = d" and "buf_limit b = L" and "buf_position b = pos"
    and "L \<le> 8 * length visited" and "visited_above allow b k visited"
    and "length dname + length nm \<le> MAXDOMAINLEN" and "pred_option (\<lambda>m. m \<le> L) mark"
  shows "read_dname_loop allow b visited dname mark =
    Ok (length (dname @ nm), dname @ nm, b\<lparr>buf_position := case mark of None \<Rightarrow> e | Some m \<Rightarrow> m\<rparr>)"
  using assms
proof (induction arbitrary: b visited dname mark rule: dname_at.induct)
  case (root pos)
  have "pos < 8 * length visited" using root by simp
  with root have clear: "get_bit visited pos \<noteq> Ok True"
    using visited_above_clear [OF root.prems(6) _ dname_at.root] by simp
  have "length (take 1 (drop pos d)) = 1"
    using root buffer_wfD(2) [OF root.prems(1)] by simp
  with root clear have pass: "dname_pass allow b visited dname mark =
      Continue True (advance 1 b) (marked visited pos) (dname @ take 1 (drop pos d)) mark"
    by (simp add: dname_pass.simps Let_def)
  have step: "read_dname_step allow b visited dname mark = Ok (dname_pass allow b visited dname mark)"
    using root by (intro read_dname_step_eval) simp_all
  show ?case
    using step pass root.prems
    by (cases mark) (simp_all add: read_dname_loop.simps [of allow b] buffer_set_position_def advance_def)
next
  case (label pos len k nm e)
  have idx: "pos < 8 * length visited" using label by simp
  note here = dname_at.label [OF label.hyps(1-5)]
  have clear: "get_bit visited pos \<noteq> Ok True"
    using visited_above_clear [OF label.prems(6) idx] here label.prems(2,3) by blast
  have len: "length (take len (drop pos d)) = len"
    using label buffer_wfD(2) [OF label.prems(1)] by simp
  have pass: "dname_pass allow b visited dname mark =
      Continue False (advance len b) (marked visited pos) (dname @ take len (drop pos d)) mark"
    using label clear len by (auto simp: dname_pass.simps Let_def dest: pointer_not_normal)
  have step: "read_dname_step allow b visited dname mark = Ok (dname_pass allow b visited dname mark)"
    using label by (intro read_dname_step_eval) simp_all
  have "read_dname_loop allow (advance len b) (marked visited pos) (dname @ take len (drop pos d)) mark =
    Ok (length ((dname @ take len (drop pos d)) @ nm), (dname @ take len (drop pos d)) @ nm,
        (advance len b)\<lparr>buf_position := case mark of None \<Rightarrow> e | Some m \<Rightarrow> m\<rparr>)"
    using label len visited_above_marked [OF label.prems(6) idx, of _ _ "advance len b"] here
    by (intro label.IH) (auto intro: advance_wf)
  with pass step show ?case
    by (simp add: read_dname_loop.simps [of allow b] advance_def)
next
  case (pointer pos loc k nm e)
  have idx: "pos < 8 * length visited" using pointer by simp
  note here = dname_at.pointer [OF pointer.hyps(1-6)]
  have clear: "get_bit visited pos \<noteq> Ok True"
    using visited_above_clear [OF pointer.prems(6) idx] here pointer.prems(2,3) by blast
  let ?mark = "if mark = None then Some (pos + 2) else mark"
  have pass: "dname_pass allow b visited dname mark =
      Continue False (b\<lparr>buf_position := loc\<rparr>) (marked visited pos) dname ?mark"
    using pointer clear by (auto simp: dname_pass.simps Let_def)
  have step: "read_dname_step allow b visited dname mark = Ok (dname_pass allow b visited dname mark)"
    using pointer by (intro read_dname_step_eval) simp_all
  have "read_dname_loop allow (b\<lparr>buf_position := loc\<rparr>) (marked visited pos) dname ?mark =
    Ok (length (dname @ nm), dname @ nm,
        b\<lparr>buf_position := loc\<rparr>\<lparr>buf_position := case ?mark of None \<Rightarrow> e | Some m \<Rightarrow> m\<rparr>)"
    using pointer visited_above_marked [OF pointer.prems(6) idx, of _ _ "b\<lparr>buf_position := loc\<rparr>"] here
    by (intro pointer.IH) (auto simp: buffer_wf_def)
  with pass step show ?case
    by (cases mark) (simp_all add: read_dname_loop.simps [of allow b])
qed

lemma get_bit_zeros: "q < 8 * n \<Longrightarrow> get_bit (replicate n 0) q = Ok False"
  by (simp add: get_bit_eq less_mult_imp_div_less mult.commute)

lemma bitmap_bound: "n \<le> 8 * ((n + 7) div 8)" for n :: nat
  by linarith

lemma bitmap_fits:
  "n \<le> MAX_PACKET_SIZE + 1 \<Longrightarrow> \<not> (MAX_PACKET_SIZE + 7) div 8 < (n + 7) div 8"
  using div_le_mono [of "n + 7" 65543 8] by (simp add: MAX_PACKET_SIZE_def)

text \<open>
  C15. Reading a domain name is safe on every packet of at most \<open>MAX_PACKET_SIZE + 1\<close>
  bytes, whatever its bytes are: the loop ends, no assertion fails, no byte outside the
  packet or the bitmap is touched, at most \<open>MAXDOMAINLEN\<close> bytes are stored through
  \<^verbatim>\<open>dname\<close>, and only the position of the buffer changes, within the limit.
\<close>

theorem buffer_read_dname_safe:
  assumes "buffer_wf b" and "buf_limit b \<le> MAX_PACKET_SIZE + 1"
  shows "\<exists>n nm p. buffer_read_dname allow b = Ok (n, nm, b\<lparr>buf_position := p\<rparr>) \<and>
    n \<le> length nm \<and> length nm \<le> MAXDOMAINLEN \<and> p \<le> buf_limit b"
  using read_dname_loop_safe [of b "replicate ((buf_limit b + 7) div 8) 0" "[]" None allow]
    assms(1) bitmap_bound [of "buf_limit b"] bitmap_fits [OF assms(2)]
  by (simp add: buffer_read_dname_def Let_def)

text \<open>A packet whose only name is a pointer to itself: reading it ends, without a name.\<close>

theorem buffer_read_dname_safe_witness:
  "\<exists>n nm p. buffer_read_dname True (buffer_create_from [0xc0, 0x00]) =
      Ok (n, nm, (buffer_create_from [0xc0, 0x00])\<lparr>buf_position := p\<rparr>) \<and>
    n \<le> length nm \<and> length nm \<le> MAXDOMAINLEN \<and> p \<le> 2"
proof -
  have "buf_limit (buffer_create_from [0xc0, 0x00]) \<le> MAX_PACKET_SIZE + 1"
    by (simp add: buffer_create_from_def MAX_PACKET_SIZE_def)
  from buffer_read_dname_safe [OF buffer_create_from_wf this, of True] show ?thesis
    by (simp add: buffer_create_from_def numeral_2_eq_2)
qed

text \<open>
  C16. Reading a domain name succeeds exactly on the names of the specification that are
  at most \<open>MAXDOMAINLEN\<close> bytes long; it then returns the decompressed name and its
  length and leaves the position right after the name.  In particular the loop detection
  of the code rejects no well-formed name.
\<close>

theorem buffer_read_dname_correct:
  assumes "buffer_wf b" and "buf_limit b \<le> MAX_PACKET_SIZE + 1"
  shows "(\<exists>n. n \<noteq> 0 \<and> buffer_read_dname allow b = Ok (n, nm, b')) \<longleftrightarrow>
    (\<exists>k e. dname_at allow (buf_data b) (buf_limit b) k (buf_position b) nm e \<and>
       length nm \<le> MAXDOMAINLEN \<and> b' = b\<lparr>buf_position := e\<rparr>)"
proof -
  define v where "v = replicate ((buf_limit b + 7) div 8) (0 :: u8)"
  have len: "buf_limit b \<le> 8 * length v" by (simp add: v_def bitmap_bound)
  have above: "visited_above allow b k v" for k
    by (simp add: visited_above_def v_def get_bit_zeros)
  have run: "buffer_read_dname allow b = read_dname_loop allow b v [] None"
    using bitmap_fits [OF assms(2)] by (simp add: buffer_read_dname_def v_def Let_def)
  show ?thesis
  proof
    assume "\<exists>n. n \<noteq> 0 \<and> buffer_read_dname allow b = Ok (n, nm, b')"
    then obtain n where n: "n \<noteq> 0" "read_dname_loop allow b v [] None = Ok (n, nm, b')"
      using run by auto
    have "length nm \<le> MAXDOMAINLEN"
      using read_dname_loop_safe [OF assms(1) len, of "[]" None allow] n(2) by auto
    with read_dname_loop_sound [OF assms(1) len _ n(2,1)]
    show "\<exists>k e. dname_at allow (buf_data b) (buf_limit b) k (buf_position b) nm e \<and>
      length nm \<le> MAXDOMAINLEN \<and> b' = b\<lparr>buf_position := e\<rparr>" by auto
  next
    assume "\<exists>k e. dname_at allow (buf_data b) (buf_limit b) k (buf_position b) nm e \<and>
      length nm \<le> MAXDOMAINLEN \<and> b' = b\<lparr>buf_position := e\<rparr>"
    then obtain k e where e: "dname_at allow (buf_data b) (buf_limit b) k (buf_position b) nm e"
      "length nm \<le> MAXDOMAINLEN" "b' = b\<lparr>buf_position := e\<rparr>" by blast
    have "nm \<noteq> []"
      using e(1) assms(1) by (induction rule: dname_at.induct) (auto dest: buffer_wfD)
    moreover have "buffer_read_dname allow b = Ok (length nm, nm, b')"
      using read_dname_loop_complete [OF e(1) assms(1) refl refl refl len above, of "[]" None] e run
      by simp
    ultimately show "\<exists>n. n \<noteq> 0 \<and> buffer_read_dname allow b = Ok (n, nm, b')" by auto
  qed
qed

text \<open>The name \<open>a.\<close> behind a pointer: two bytes of pointer to a label at offset 2.\<close>

theorem buffer_read_dname_correct_witness:
  "\<exists>n. n \<noteq> 0 \<and> buffer_read_dname True (buffer_create_from [0xc0, 0x02, 0x01, 0x61, 0x00]) =
     Ok (n, [0x01, 0x61, 0x00], (buffer_create_from [0xc0, 0x02, 0x01, 0x61, 0x00])\<lparr>buf_position := 2\<rparr>)"
proof -
  let ?d = "[0xc0, 0x02, 0x01, 0x61, 0x00] :: u8 list"
  have lim: "buf_limit (buffer_create_from ?d) \<le> MAX_PACKET_SIZE + 1"
    by (simp add: buffer_create_from_def MAX_PACKET_SIZE_def)
  have r: "dname_at True ?d 5 0 4 [0x00] 5"
    using dname_at.root [of 4 5 ?d True] by simp
  have l: "dname_at True ?d 5 (Suc 0) 2 [0x01, 0x61, 0x00] 5"
    using dname_at.label [of ?d 2 2 5 True 0 "[0x00]" 5] r by (simp add: label_is_normal_def)
  have p: "label_is_pointer (?d ! 0)" "2 = pointer_loc (?d ! 0) (?d ! (0 + 1))"
    by (simp_all add: label_is_pointer_def pointer_loc_def)
  have "dname_at True ?d 5 (Suc (Suc 0)) 0 [0x01, 0x61, 0x00] 2"
    using dname_at.pointer [OF p(1) TrueI _ p(2) _ l] by (simp add: numeral_2_eq_2)
  then show ?thesis
    by (subst buffer_read_dname_correct [OF buffer_create_from_wf lim])
       (auto simp: buffer_create_from_def MAXDOMAINLEN_def numeral_eq_Suc)
qed

section \<open>Skipping names and records\<close>

lemma advance_advance [simp]: "advance m (advance n b) = advance (n + m) b"
  by (simp add: advance_def)

lemma advance_upd [simp]: "(advance n b)\<lparr>buf_position := p\<rparr> = b\<lparr>buf_position := p\<rparr>"
  by (simp add: advance_def)

lemma advance_0 [simp]: "advance 0 b = b"
  by (simp add: advance_def)

lemma buffer_skip_dname_eval:
  assumes wf: "buffer_wf b"
  defines "l \<equiv> buf_data b ! buf_position b"
  shows "buffer_skip_dname b =
    (if \<not> buf_position b < buf_limit b then Ok (False, b)
     else if l = 0 then Ok (True, advance 1 b)
     else if l AND 0xc0 \<noteq> 0 then
       Ok (if buf_position b + 2 \<le> buf_limit b then (True, advance 2 b) else (False, advance 1 b))
     else if buf_position b + 1 + unat l \<le> buf_limit b then buffer_skip_dname (advance (1 + unat l) b)
     else Ok (False, advance 1 b))"
proof (cases "buf_position b < buf_limit b")
  case False
  with wf show ?thesis by (simp add: buffer_skip_dname.simps [of b] buffer_eval)
next
  case True
  with wf have wf1: "buffer_wf (advance 1 b)" by (simp add: advance_wf)
  have skip: "buffer_skip (int n) (advance 1 b) = Ok (advance (1 + n) b)"
    if "buf_position b + 1 + n \<le> buf_limit b" for n
    using buffer_skip_eval [OF wf1, of n] that by simp
  show ?thesis
    using True skip [of 1] skip [of "unat l"]
    by (simp add: buffer_skip_dname.simps [of b] buffer_available_eval [OF wf]
        buffer_available_eval [OF wf1] buffer_read_u8_eval [OF wf True] l_def [symmetric]
        del: One_nat_def)
qed

lemma buffer_skip_dname_safe:
  "buffer_wf b \<Longrightarrow> \<exists>ok p. buffer_skip_dname b = Ok (ok, b\<lparr>buf_position := p\<rparr>) \<and>
     buf_position b \<le> p \<and> p \<le> buf_limit b"
proof (induction "buf_limit b - buf_position b" arbitrary: b rule: less_induct)
  case less
  let ?l = "buf_data b ! buf_position b"
  show ?case
  proof (cases "buf_position b < buf_limit b \<and> ?l \<noteq> 0 \<and> ?l AND 0xc0 = 0 \<and>
      buf_position b + 1 + unat ?l \<le> buf_limit b")
    case True
    then have "buf_limit b - (buf_position b + (1 + unat ?l)) < buf_limit b - buf_position b"
      by linarith
    with True obtain ok p where
      "buffer_skip_dname (advance (1 + unat ?l) b) = Ok (ok, b\<lparr>buf_position := p\<rparr>)"
      "buf_position b + 1 + unat ?l \<le> p" "p \<le> buf_limit b"
      using less(1) [of "advance (1 + unat ?l) b"] less(2) advance_wf by auto
    with True less(2) show ?thesis by (auto simp: buffer_skip_dname_eval [of b])
  next
    case False
    define n where "n = (if \<not> buf_position b < buf_limit b then 0
      else if ?l AND 0xc0 \<noteq> 0 \<and> buf_position b + 2 \<le> buf_limit b then 2 else 1 :: nat)"
    have "?l = 0 \<Longrightarrow> ?l AND 0xc0 = 0" by simp
    with False less(2) have "\<exists>ok. buffer_skip_dname b = Ok (ok, advance n b)"
      by (auto simp: buffer_skip_dname_eval [of b] n_def)
    moreover have "buf_position b + n \<le> buf_limit b"
      using less(2) by (auto simp: n_def dest: buffer_wfD)
    ultimately show ?thesis
      unfolding advance_def by (metis le_add1)
  qed
qed

lemma buffer_skip_dname_reads:
  assumes "dname_at True d L k pos nm e"
    and "buffer_wf b" and "buf_data b = d" and "buf_limit b = L" and "buf_position b = pos"
  shows "buffer_skip_dname b = Ok (True, b\<lparr>buf_position := e\<rparr>)"
  using assms
proof (induction arbitrary: b rule: dname_at.induct)
  case (root pos)
  then show ?case by (simp add: buffer_skip_dname_eval [of b] advance_def)
next
  case (label pos len k nm e)
  have "buffer_skip_dname (advance len b) = Ok (True, (advance len b)\<lparr>buf_position := e\<rparr>)"
    using label by (intro label.IH) (auto intro: advance_wf)
  then show ?case
    using label by (simp add: buffer_skip_dname_eval [of b] label_is_normal_def)
next
  case (pointer pos loc k nm e)
  have "d ! pos \<noteq> 0" "d ! pos AND 0xc0 \<noteq> 0"
    using pointer.hyps(1) by (auto simp: label_is_pointer_def)
  with pointer show ?case by (simp add: buffer_skip_dname_eval [of b] advance_def)
qed

lemma buffer_read_u16_eval [buffer_eval]:
  "buffer_wf b \<Longrightarrow> buf_position b + 2 \<le> buf_limit b \<Longrightarrow>
   buffer_read_u16 b = Ok (read_uint16 (take 2 (drop (buf_position b) (buf_data b))), advance 2 b)"
  by (auto simp: buffer_read_u16_def buffer_read_u16_at_def mem_read_def dest: buffer_wfD)

lemma buffer_skip_numeral_eval [buffer_eval]:
  "buffer_wf b \<Longrightarrow> buf_position b + numeral n \<le> buf_limit b \<Longrightarrow>
   buffer_skip (numeral n) b = Ok (advance (numeral n) b)"
  using buffer_skip_eval [of b "numeral n"] by simp

text \<open>What \<^verbatim>\<open>buffer_skip_rr\<close> does once the owner name is skipped.\<close>

lemma buffer_skip_rr_eval:
  assumes wf: "buffer_wf b" and "buffer_skip_dname b = Ok (ok, b1)" and wf1: "buffer_wf b1"
  defines "rdlen \<equiv> unat (read_uint16 (take 2 (drop (buf_position b1 + 8) (buf_data b1))))"
  shows "buffer_skip_rr qrr b =
    Ok (if \<not> ok then (False, b1)
        else if qrr then
          (if buf_position b1 + 4 \<le> buf_limit b1 then (True, advance 4 b1) else (False, b1))
        else if \<not> buf_position b1 + 10 \<le> buf_limit b1 then (False, b1)
        else if buf_position b1 + 10 + rdlen \<le> buf_limit b1 then (True, advance (10 + rdlen) b1)
        else (False, advance 10 b1))"
proof (cases "ok \<and> \<not> qrr \<and> buf_position b1 + 10 \<le> buf_limit b1")
  case True
  have wf8: "buffer_wf (advance 8 b1)" and wf10: "buffer_wf (advance 10 b1)"
    using True wf1 by (auto intro!: advance_wf)
  have read: "buffer_read_u16 (advance 8 b1) =
    Ok (read_uint16 (take 2 (drop (buf_position b1 + 8) (buf_data b1))), advance 10 b1)"
    using buffer_read_u16_eval [OF wf8] True by simp
  have skip: "buffer_skip (int rdlen) (advance 10 b1) = Ok (advance (10 + rdlen) b1)"
    if "buf_position b1 + 10 + rdlen \<le> buf_limit b1"
    using buffer_skip_eval [OF wf10, of rdlen] that by simp
  show ?thesis
    using True assms(2) wf1 wf10 read skip
    by (simp add: buffer_skip_rr_def buffer_eval rdlen_def)
next
  case False
  with assms(2) wf1 show ?thesis
    by (auto simp: buffer_skip_rr_def buffer_eval)
qed

text \<open>
  Skipping a resource record (or, with \<open>qrr\<close>, a question) is safe on every packet:
  it returns, aborts on no assertion, reads nothing outside the buffer and moves the
  position forward within the limit, whatever the bytes are.
\<close>

theorem buffer_skip_rr_safe:
  assumes "buffer_wf b"
  shows "\<exists>ok p. buffer_skip_rr qrr b = Ok (ok, b\<lparr>buf_position := p\<rparr>) \<and>
    buf_position b \<le> p \<and> p \<le> buf_limit b"
proof -
  obtain ok p where sk: "buffer_skip_dname b = Ok (ok, b\<lparr>buf_position := p\<rparr>)"
    and p: "buf_position b \<le> p" "p \<le> buf_limit b"
    using buffer_skip_dname_safe [OF assms] by blast
  have "buffer_wf (b\<lparr>buf_position := p\<rparr>)" using assms p by (simp add: buffer_wf_def)
  from buffer_skip_rr_eval [OF assms sk this, of qrr] p show ?thesis
    by (auto simp: advance_def)
qed

theorem buffer_skip_rr_safe_witness:
  "\<exists>ok p. buffer_skip_rr False (buffer_create_from [0x3f, 0x61]) =
     Ok (ok, (buffer_create_from [0x3f, 0x61])\<lparr>buf_position := p\<rparr>) \<and>
   buf_position (buffer_create_from [0x3f, 0x61]) \<le> p \<and> p \<le> buf_limit (buffer_create_from [0x3f, 0x61])"
  by (rule buffer_skip_rr_safe [OF buffer_create_from_wf])

section \<open>Writing records\<close>

lemma patch_append:
  "i + length xs + length ys \<le> length m \<Longrightarrow>
   patch (patch m i xs) (i + length xs) ys = patch m i (xs @ ys)"
  by (simp add: patch_def ac_simps)

lemma patch_gap:
  assumes "i + length xs + length gap + length ys \<le> length m"
  shows "patch (patch (patch m i xs) (i + length xs + length gap) ys) (i + length xs) gap =
    patch m i (xs @ gap @ ys)"
  using assms by (intro nth_equalityI) (auto simp: patch_nth nth_append)

lemma take_patch: "j \<le> i \<Longrightarrow> i + length xs \<le> length m \<Longrightarrow> take j (patch m i xs) = take j m"
  by (simp add: patch_def min_def)

lemma patch_Nil [simp]: "i \<le> length m \<Longrightarrow> patch m i [] = m"
  by (simp add: patch_def)

text \<open>The bytes of a record on the wire.\<close>

definition wire_of_rr :: "wire_rr \<Rightarrow> u8 list" where
  "wire_of_rr rr = rr_owner rr @ write_uint16 (rr_type rr) @ write_uint16 (rr_class rr) @
     write_uint32 (rr_ttl rr) @ write_uint16 (of_nat (length (concat (rr_rdfs rr)))) @
     concat (rr_rdfs rr)"

definition put :: "u8 list \<Rightarrow> buffer \<Rightarrow> buffer" where
  "put bytes b =
     advance (length bytes) (b\<lparr>buf_data := patch (buf_data b) (buf_position b) bytes\<rparr>)"

lemma put_simps [simp]:
  "buf_position (put bytes b) = buf_position b + length bytes"
  "buf_limit (put bytes b) = buf_limit b"
  "buf_data (put bytes b) = patch (buf_data b) (buf_position b) bytes"
  by (simp_all add: put_def)

lemma put_wf:
  "buffer_wf b \<Longrightarrow> buf_position b + length bytes \<le> buf_limit b \<Longrightarrow> buffer_wf (put bytes b)"
  by (auto simp: buffer_wf_def put_def)

lemma put_Nil [simp]: "buffer_wf b \<Longrightarrow> put [] b = b"
  by (auto simp: put_def advance_def buffer_wf_def)

lemma buffer_write_put [buffer_eval]:
  "buffer_wf b \<Longrightarrow> buf_position b + length bytes \<le> buf_limit b \<Longrightarrow>
   buffer_write bytes b = Ok (put bytes b)"
  by (simp add: put_def buffer_write_eval)

lemma put_put:
  "buffer_wf b \<Longrightarrow> buf_position b + length xs + length ys \<le> buf_limit b \<Longrightarrow>
   put ys (put xs b) = put (xs @ ys) b"
  by (simp add: put_def advance_def patch_append buffer_wf_def)

lemma write_rdfs_fits:
  "buffer_wf b \<Longrightarrow> buf_position b + length (concat rdfs) \<le> buf_limit b \<Longrightarrow>
   write_rdfs rdfs b = Ok (True, put (concat rdfs) b)"
proof (induction rdfs arbitrary: b)
  case Nil
  then show ?case by simp
next
  case (Cons rdf rdfs)
  have "write_rdfs rdfs (put rdf b) = Ok (True, put (concat rdfs) (put rdf b))"
    using Cons.prems by (intro Cons.IH put_wf) simp_all
  with Cons.prems show ?case
    by (simp add: buffer_eval buffer_write_rdf_def put_put add.assoc del: length_concat)
qed

lemma write_rdfs_full:
  "buffer_wf b \<Longrightarrow> \<not> buf_position b + length (concat rdfs) \<le> buf_limit b \<Longrightarrow>
   \<exists>bytes. write_rdfs rdfs b = Ok (False, put bytes b) \<and> buf_position b + length bytes \<le> buf_limit b"
proof (induction rdfs arbitrary: b)
  case Nil
  then show ?case by (auto simp: buffer_wf_def)
next
  case (Cons rdf rdfs)
  show ?case
  proof (cases "buf_position b + length rdf \<le> buf_limit b")
    case True
    then obtain bytes where "write_rdfs rdfs (put rdf b) = Ok (False, put bytes (put rdf b))"
      "buf_position b + length rdf + length bytes \<le> buf_limit b"
      using Cons.IH [OF put_wf [OF Cons.prems(1) True]] Cons.prems(2) by auto
    with True Cons.prems(1) show ?thesis
      by (intro exI [of _ "rdf @ bytes"]) (simp add: buffer_eval buffer_write_rdf_def put_put)
  next
    case False
    with Cons.prems(1) show ?thesis
      by (intro exI [of _ "[]"]) (auto simp: buffer_eval dest: buffer_wfD)
  qed
qed

lemma buffer_write_u16_put [buffer_eval]:
  "buffer_wf b \<Longrightarrow> buf_position b + 2 \<le> buf_limit b \<Longrightarrow> buffer_write_u16 d b = Ok (put (write_uint16 d) b)"
  by (simp add: buffer_write_u16_def buffer_write_u16_at_def buffer_write_at_eval put_def)

lemma buffer_write_u32_put [buffer_eval]:
  "buffer_wf b \<Longrightarrow> buf_position b + 4 \<le> buf_limit b \<Longrightarrow> buffer_write_u32 d b = Ok (put (write_uint32 d) b)"
  by (simp add: buffer_write_u32_def buffer_write_u32_at_def buffer_write_at_eval put_def)

text \<open>The part of \<^verbatim>\<open>buffer_write_rr\<close> up to the rdata, with its two truncation checks.\<close>

definition rr_front :: "wire_rr \<Rightarrow> u8 list" where
  "rr_front rr = rr_owner rr @ write_uint16 (rr_type rr) @ write_uint16 (rr_class rr) @
     write_uint32 (rr_ttl rr)"

lemma length_rr_front [simp]: "length (rr_front rr) = length (rr_owner rr) + 8"
  by (simp add: rr_front_def)

lemma buffer_tc_eval:
  "p \<le> buf_limit b \<Longrightarrow> buffer_tc p b = Ok (False, b\<lparr>buf_position := p\<rparr>)"
  by (simp add: buffer_tc_def buffer_set_position_eval)

lemma write_rr_front:
  assumes wf: "buffer_wf b" and fits: "buf_position b + length (rr_owner rr) + 10 \<le> buf_limit b"
  shows "buffer_write_rr rr b =
    (let b1 = advance 2 (put (rr_front rr) b) in
     exec_bind (write_rdfs (rr_rdfs rr) b1) (\<lambda>(ok, b').
       if \<not> ok then buffer_tc (buf_position b) b'
       else let rdlength = of_nat (buf_position b' - buf_position (put (rr_front rr) b) - 2) in
         exec_bind (buffer_write_u16_at (buf_position (put (rr_front rr) b)) rdlength b')
           (\<lambda>b'. Ok (True, b'))))"
proof -
  have wf1: "buffer_wf (put (rr_owner rr) b)" using put_wf [OF wf] fits by simp
  have wf2: "buffer_wf (put (rr_owner rr @ write_uint16 (rr_type rr)) b)"
    using put_wf [OF wf] fits by simp
  have wf3: "buffer_wf (put (rr_owner rr @ write_uint16 (rr_type rr) @ write_uint16 (rr_class rr)) b)"
    using put_wf [OF wf] fits by simp
  have wf4: "buffer_wf (put (rr_front rr) b)" using put_wf [OF wf] fits by simp
  have front: "put (write_uint32 (rr_ttl rr))
      (put (rr_owner rr @ write_uint16 (rr_type rr) @ write_uint16 (rr_class rr)) b) = put (rr_front rr) b"
    using put_put [OF wf] fits by (simp add: rr_front_def)
  show ?thesis
    using fits wf
    by (simp add: buffer_write_rr_def Let_def buffer_eval wf1 wf2 wf3 wf4 buffer_write_rdf_def
        put_put front add.assoc)
qed

lemma length_wire_of_rr:
  "length (wire_of_rr rr) = length (rr_front rr) + 2 + length (concat (rr_rdfs rr))"
  by (simp add: wire_of_rr_def rr_front_def)

lemma buffer_write_rr_fits:
  assumes wf: "buffer_wf b" and fits: "buf_position b + length (wire_of_rr rr) \<le> buf_limit b"
  shows "buffer_write_rr rr b = Ok (True, put (wire_of_rr rr) b)"
proof -
  let ?R = "concat (rr_rdfs rr)" and ?F = "rr_front rr" and ?p = "buf_position b"
  let ?b1 = "advance 2 (put ?F b)"
  have len: "?p + length ?F + 2 + length ?R \<le> buf_limit b"
    using fits by (simp only: length_wire_of_rr)
  then have wf1: "buffer_wf ?b1"
    by (intro advance_wf put_wf) (use wf in auto)
  have rdfs: "write_rdfs (rr_rdfs rr) ?b1 = Ok (True, put ?R ?b1)"
    using len by (intro write_rdfs_fits wf1) (simp add: add.assoc)
  have wf2: "buffer_wf (put ?R ?b1)" using len by (intro put_wf wf1) (simp add: add.assoc)
  let ?n = "of_nat (length ?R) :: u16"
  have gap: "patch (patch (patch (buf_data b) ?p ?F) (?p + length ?F + 2) ?R) (?p + length ?F) (write_uint16 ?n)
      = patch (buf_data b) ?p (?F @ write_uint16 ?n @ ?R)"
    using patch_gap [of ?p ?F "write_uint16 ?n" ?R "buf_data b"] len buffer_wfD(2) [OF wf] by simp
  have wr: "buffer_write_u16_at (?p + length ?F) ?n (put ?R ?b1) = Ok (put (wire_of_rr rr) b)"
    using buffer_write_at_eval [OF wf2, of "?p + length ?F" "write_uint16 ?n"] len gap
    by (simp add: buffer_write_u16_at_def put_def advance_def wire_of_rr_def rr_front_def add.assoc
        del: length_concat)
  have "buffer_write_rr rr b = exec_bind (buffer_write_u16_at (?p + length ?F) ?n (put ?R ?b1)) (\<lambda>b'. Ok (True, b'))"
    using write_rr_front [OF wf] len rdfs by (simp del: length_concat)
  with wr show ?thesis by simp
qed

text \<open>
  C30. Writing a record.  A record that fits is stored whole at the position, as owner,
  type, class, time to live, rdata length and rdata, and the position moves past it.  A
  record that does not fit leaves the position where it was, so the caller sees the
  buffer as if nothing had been written: limit, capacity and all bytes before the
  position are unchanged.  No other outcome is possible, in particular no abort and no
  write outside the buffer.
\<close>

theorem buffer_write_rr_correct:
  assumes wf: "buffer_wf b"
  shows "if buf_position b + length (wire_of_rr rr) \<le> buf_limit b
    then buffer_write_rr rr b = Ok (True, put (wire_of_rr rr) b)
    else \<exists>d. buffer_write_rr rr b = Ok (False, b\<lparr>buf_data := d\<rparr>) \<and> length d = length (buf_data b) \<and>
      take (buf_position b) d = take (buf_position b) (buf_data b)"
proof (cases "buf_position b + length (wire_of_rr rr) \<le> buf_limit b")
  case True
  then show ?thesis using buffer_write_rr_fits [OF wf] by simp
next
  case False
  let ?p = "buf_position b"
  have bounds: "?p \<le> buf_limit b" "buf_limit b \<le> length (buf_data b)"
    using buffer_wfD [OF wf] by auto
  have "\<exists>d. buffer_write_rr rr b = Ok (False, b\<lparr>buf_data := d\<rparr>) \<and> length d = length (buf_data b) \<and>
      take ?p d = take ?p (buf_data b)"
  proof (cases "?p + length (rr_owner rr) + 10 \<le> buf_limit b")
    case True
    let ?b1 = "advance 2 (put (rr_front rr) b)"
    have wf1: "buffer_wf ?b1" using True by (intro advance_wf put_wf) (use wf in auto)
    have full: "\<not> buf_position ?b1 + length (concat (rr_rdfs rr)) \<le> buf_limit ?b1"
      using False by (simp add: length_wire_of_rr add.assoc del: length_concat)
    obtain bytes where wr: "write_rdfs (rr_rdfs rr) ?b1 = Ok (False, put bytes ?b1)"
      and le: "buf_position ?b1 + length bytes \<le> buf_limit ?b1"
      using write_rdfs_full [OF wf1 full] by blast
    have "buffer_write_rr rr b = Ok (False, (put bytes ?b1)\<lparr>buf_position := ?p\<rparr>)"
      using write_rr_front [OF wf True] wr bounds by (simp add: buffer_tc_eval)
    also have "(put bytes ?b1)\<lparr>buf_position := ?p\<rparr> = b\<lparr>buf_data := buf_data (put bytes ?b1)\<rparr>"
      by (simp add: put_def advance_def)
    finally show ?thesis
      using le bounds by (intro exI [of _ "buf_data (put bytes ?b1)"]) (simp add: take_patch)
  next
    case nofit: False
    show ?thesis
    proof (cases "?p + length (rr_owner rr) \<le> buf_limit b")
      case True
      have wf1: "buffer_wf (put (rr_owner rr) b)" using put_wf [OF wf True] .
      have "buffer_write_rr rr b = Ok (False, (put (rr_owner rr) b)\<lparr>buf_position := ?p\<rparr>)"
        using True nofit wf bounds
        by (simp add: buffer_write_rr_def Let_def buffer_eval wf1 buffer_write_rdf_def buffer_tc_eval)
      also have "(put (rr_owner rr) b)\<lparr>buf_position := ?p\<rparr> = b\<lparr>buf_data := buf_data (put (rr_owner rr) b)\<rparr>"
        by (simp add: put_def advance_def)
      finally show ?thesis
        using True bounds by (intro exI [of _ "buf_data (put (rr_owner rr) b)"]) (simp add: take_patch)
    next
      case False
      with wf bounds show ?thesis
        by (intro exI [of _ "buf_data b"])
           (simp add: buffer_write_rr_def Let_def buffer_eval buffer_tc_eval)
    qed
  qed
  with False show ?thesis by simp
qed

definition example_rr :: wire_rr where
  "example_rr = \<lparr>rr_owner = [0x01, 0x61, 0x00], rr_type = 1, rr_class = 1, rr_ttl = 3600,
     rr_rdfs = [[192, 0, 2, 1]]\<rparr>"

theorem buffer_write_rr_correct_witness:
  "buffer_write_rr example_rr (buffer_create_from (replicate 17 0)) =
   Ok (True, put (wire_of_rr example_rr) (buffer_create_from (replicate 17 0)))"
  using buffer_write_rr_correct [OF buffer_create_from_wf, of "replicate 17 0" example_rr]
  by (simp add: buffer_create_from_def wire_of_rr_def example_rr_def)

section \<open>Round trips\<close>

lemma window_nth:
  assumes "take (length d) (drop off d') = d" and "off + length d \<le> length d'" and "i < length d"
  shows "d' ! (off + i) = d ! i"
proof -
  have "d ! i = take (length d) (drop off d') ! i" using assms(1) by simp
  also have "\<dots> = d' ! (off + i)" using assms(2,3) by simp
  finally show ?thesis by simp
qed

lemma window_take:
  assumes "take (length d) (drop off d') = d" and "i + n \<le> length d"
  shows "take n (drop (off + i) d') = take n (drop i d)"
proof -
  have "take n (drop i d) = take n (drop i (take (length d) (drop off d')))"
    using assms(1) by simp
  also have "\<dots> = take n (drop (off + i) d')"
    using assms(2) by (simp add: drop_take add.commute)
  finally show ?thesis by simp
qed

lemma dname_at_relocate:
  assumes "dname_at False d (length d) k pos nm e"
    and win: "take (length d) (drop off d') = d" "off + length d \<le> length d'"
    and "off + length d \<le> L"
  shows "dname_at allow d' L k (off + pos) nm (off + e)"
  using assms(1)
proof (induction rule: dname_at.induct)
  case (root pos)
  then show ?case
    using dname_at.root [of "off + pos" L d' allow] window_nth [OF win, of pos]
      window_take [OF win(1), of pos 1] assms(4) by (simp add: add.assoc)
next
  case (label pos len k nm e)
  then show ?case
    using dname_at.label [of d' "off + pos" len L allow k nm "off + e"] window_nth [OF win, of pos]
      window_take [OF win(1), of pos len] assms(4) by (simp add: add.assoc)
qed simp

text \<open>
  What is written is skipped: after a record with an uncompressed owner name and at
  most 65535 bytes of rdata was written, skipping one record from where it was written
  ends exactly where writing ended.
\<close>

theorem buffer_write_skip_rr:
  assumes "buffer_wf b" and "buffer_write_rr rr b = Ok (True, b')"
    and "dname_at False (rr_owner rr) (length (rr_owner rr)) k 0 (rr_owner rr) (length (rr_owner rr))"
    and "length (concat (rr_rdfs rr)) < 2 ^ 16"
  shows "buffer_skip_rr False (b'\<lparr>buf_position := buf_position b\<rparr>) = Ok (True, b')"
proof -
  let ?p = "buf_position b" and ?o = "length (rr_owner rr)" and ?r = "length (concat (rr_rdfs rr))"
  have fits: "?p + length (wire_of_rr rr) \<le> buf_limit b"
    using buffer_write_rr_correct [OF assms(1), of rr] assms(2) by (auto split: if_splits)
  then have b': "b' = put (wire_of_rr rr) b"
    using buffer_write_rr_fits [OF assms(1)] assms(2) by simp
  let ?b = "b'\<lparr>buf_position := ?p\<rparr>" and ?d = "buf_data b'"
  have len: "?p + (?o + 10 + ?r) \<le> buf_limit b" "buf_limit b \<le> length (buf_data b)"
    using fits buffer_wfD [OF assms(1)] by (simp_all add: length_wire_of_rr del: length_concat)
  have wf: "buffer_wf ?b" using put_wf [OF assms(1) fits] by (simp add: b' buffer_wf_def put_def advance_def)
  have bytes: "take (length (wire_of_rr rr)) (drop ?p ?d) = wire_of_rr rr"
    using fits len by (simp add: b' patch_same)
  have win: "take ?o (drop ?p ?d) = rr_owner rr"
    using arg_cong [OF bytes, of "take ?o"] by (simp add: wire_of_rr_def min_def)
  have "dname_at True ?d (buf_limit b) k (?p + 0) (rr_owner rr) (?p + ?o)"
    using len fits by (intro dname_at_relocate [OF assms(3) win]) (simp_all add: b')
  then have name: "buffer_skip_dname ?b = Ok (True, ?b\<lparr>buf_position := ?p + ?o\<rparr>)"
    using wf by (intro buffer_skip_dname_reads) (simp_all add: b')
  have wf1: "buffer_wf (?b\<lparr>buf_position := ?p + ?o\<rparr>)"
    using wf len by (simp add: buffer_wf_def b')
  have rdlen: "take 2 (drop (?p + ?o + 8) ?d) = write_uint16 (of_nat ?r)"
    using window_take [OF bytes, of "?o + 8" 2] by (simp add: wire_of_rr_def add.assoc del: length_concat)
  have "unat (read_uint16 (take 2 (drop (?p + ?o + 8) ?d))) = ?r"
    using assms(4) by (simp add: rdlen read_write_uint16 unat_of_nat del: length_concat)
  with buffer_skip_rr_eval [OF wf name wf1, of False] len show ?thesis
    by (simp add: b' put_def advance_def length_wire_of_rr del: length_concat)
qed

theorem buffer_write_skip_rr_witness:
  "buffer_skip_rr False (put (wire_of_rr example_rr) (buffer_create_from (replicate 17 0))
     \<lparr>buf_position := buf_position (buffer_create_from (replicate 17 0))\<rparr>) =
   Ok (True, put (wire_of_rr example_rr) (buffer_create_from (replicate 17 0)))"
proof (rule buffer_write_skip_rr [where k = 1])
  show "buffer_wf (buffer_create_from (replicate 17 0))" by (rule buffer_create_from_wf)
  show "buffer_write_rr example_rr (buffer_create_from (replicate 17 0)) =
    Ok (True, put (wire_of_rr example_rr) (buffer_create_from (replicate 17 0)))"
    by (rule buffer_write_rr_fits [OF buffer_create_from_wf])
       (simp add: buffer_create_from_def wire_of_rr_def example_rr_def)
  have r: "dname_at False [0x01, 0x61, 0x00] 3 0 2 [0x00] 3"
    using dname_at.root [of 2 3 "[0x01, 0x61, 0x00]" False] by (simp add: numeral_3_eq_3)
  show "dname_at False (rr_owner example_rr) (length (rr_owner example_rr)) 1 0
      (rr_owner example_rr) (length (rr_owner example_rr))"
    using dname_at.label [of "[0x01, 0x61, 0x00]" 0 2 3 False 0 "[0x00]" 3] r
    by (simp add: example_rr_def label_is_normal_def numeral_3_eq_3 numeral_2_eq_2)
  show "length (concat (rr_rdfs example_rr)) < 2 ^ 16" by (simp add: example_rr_def)
qed

section \<open>Query packets\<close>

lemma nth_patch_before: "j < i \<Longrightarrow> i + length xs \<le> length m \<Longrightarrow> patch m i xs ! j = m ! j"
  by (simp add: patch_nth)

lemma buffer_write_u16_at_eval [buffer_eval]:
  "buffer_wf b \<Longrightarrow> at + 2 \<le> buf_limit b \<Longrightarrow>
   buffer_write_u16_at at d b = Ok (b\<lparr>buf_data := patch (buf_data b) at (write_uint16 d)\<rparr>)"
  by (simp add: buffer_write_u16_at_def buffer_write_at_eval)

lemma update_header_byte_eval [buffer_eval]:
  "buffer_wf b \<Longrightarrow> at < buf_limit b \<Longrightarrow>
   update_header_byte at f b = Ok (b\<lparr>buf_data := patch (buf_data b) at [f (buf_data b ! at)]\<rparr>)"
  by (auto simp: update_header_byte_def header_byte_def buffer_at_def mem_get_def mem_set_def
      patch_def upd_conv_take_nth_drop dest: buffer_wfD)

lemma wf_update_data: "buffer_wf b \<Longrightarrow> length d = length (buf_data b) \<Longrightarrow> buffer_wf (b\<lparr>buf_data := d\<rparr>)"
  by (simp add: buffer_wf_def)

lemma patch_same16: "i + 2 \<le> length m \<Longrightarrow> take 2 (drop i (patch m i (write_uint16 v))) = write_uint16 v"
  using patch_same [of i "write_uint16 v" m] by simp

text \<open>
  A buffer that was cleared and then filled: the same object with position \<open>p\<close> and bytes
  \<open>d\<close>, the limit at the capacity.
\<close>

definition filling :: "buffer \<Rightarrow> nat \<Rightarrow> u8 list \<Rightarrow> buffer" where
  "filling b p d = b\<lparr>buf_position := p, buf_limit := buf_capacity b, buf_data := d\<rparr>"

lemma filling_wf:
  "buffer_wf b \<Longrightarrow> length d = length (buf_data b) \<Longrightarrow> p \<le> length d \<Longrightarrow> buffer_wf (filling b p d)"
  by (simp add: filling_def buffer_wf_def)

lemma filling_simps [simp]:
  "buf_position (filling b p d) = p" "buf_limit (filling b p d) = buf_capacity b"
  "buf_data (filling b p d) = d" "(filling b p d)\<lparr>buf_data := d'\<rparr> = filling b p d'"
  "advance n (filling b p d) = filling b (p + n) d"
  by (simp_all add: filling_def advance_def)

lemma buffer_clear_filling: "buffer_clear b = filling b 0 (buf_data b)"
  by (simp add: buffer_clear_def filling_def)

lemma filling_ops:
  assumes wf: "buffer_wf b" and "length d = length (buf_data b)"
  shows "p \<le> length d \<Longrightarrow> at + 2 \<le> length d \<Longrightarrow>
      buffer_write_u16_at at v (filling b p d) = Ok (filling b p (patch d at (write_uint16 v)))"
    and "p \<le> length d \<Longrightarrow> at < length d \<Longrightarrow>
      update_header_byte at f (filling b p d) = Ok (filling b p (patch d at [f (d ! at)]))"
    and "p + length bytes \<le> length d \<Longrightarrow>
      buffer_write bytes (filling b p d) = Ok (filling b (p + length bytes) (patch d p bytes))"
    and "p + 2 \<le> length d \<Longrightarrow>
      buffer_write_u16 v (filling b p d) = Ok (filling b (p + 2) (patch d p (write_uint16 v)))"
    and "p + 12 \<le> length d \<Longrightarrow> buffer_skip 12 (filling b p d) = Ok (filling b (p + 12) d)"
  using filling_wf [OF wf assms(2), of p] assms(2) buffer_wfD(3) [OF wf]
  by (simp_all add: buffer_eval put_def)

text \<open>The bytes of a packet made by \<^verbatim>\<open>buffer_pkt_new\<close> over the old bytes \<open>d\<close>.\<close>

definition pkt_header :: "u16 \<Rightarrow> u8 \<Rightarrow> u8 list \<Rightarrow> u8 list" where
  "pkt_header qid opcode d = write_uint16 qid @
     [(d ! 2 AND NOT OPCODE_MASK OR push_bit 3 opcode) AND NOT QR_MASK,
      d ! 3 AND NOT RCODE_MASK OR LDNS_RCODE_NOERROR] @
     write_uint16 1 @ write_uint16 0 @ write_uint16 0 @ write_uint16 0"

definition pkt_bytes :: "u16 \<Rightarrow> u8 list \<Rightarrow> u16 \<Rightarrow> u16 \<Rightarrow> u8 \<Rightarrow> u8 list \<Rightarrow> u8 list" where
  "pkt_bytes qid qname qtype qclass opcode d = pkt_header qid opcode d @ qname @ write_uint16 qtype @ write_uint16 qclass"

lemma length_pkt_header [simp]: "length (pkt_header qid opcode d) = 12"
  by (simp add: pkt_header_def)

lemma patch0_append:
  "n = length xs \<Longrightarrow> n + length ys \<le> length d \<Longrightarrow> patch (patch d 0 xs) n ys = patch d 0 (xs @ ys)"
  using patch_append [of 0 xs ys d] by simp

lemma patch0_last:
  "n = length xs \<Longrightarrow> n < length d \<Longrightarrow> patch (patch d 0 (xs @ [x])) n [y] = patch d 0 (xs @ [y])"
  by (simp add: patch_def)

lemma buffer_pkt_new_eval:
  assumes wf: "buffer_wf b" and room: "16 + length qname \<le> length (buf_data b)"
    and "qtype \<noteq> 0" and "qclass \<noteq> 0"
  shows "buffer_pkt_new qid qname qtype qclass opcode b =
    Ok (filling b (16 + length qname) (patch (buf_data b) 0 (pkt_bytes qid qname qtype qclass opcode (buf_data b))))"
  using room assms(3,4)
  by (simp add: buffer_pkt_new_def buffer_clear_filling buffer_pkt_set_random_id_def
      buffer_pkt_set_opcode_def buffer_pkt_clear_qr_def buffer_pkt_set_rcode_def
      buffer_pkt_set_qdcount_def buffer_pkt_set_ancount_def buffer_pkt_set_nscount_def
      buffer_pkt_set_arcount_def BUFFER_PKT_HEADER_SIZE_def buffer_write_rdf_def
      filling_ops [OF wf] patch_nth nth_append patch0_append patch0_last pkt_bytes_def pkt_header_def)

lemma take_patch0: "n \<le> length xs \<Longrightarrow> take n (patch d 0 xs) = take n xs"
  by (simp add: patch_def)

lemma patch_in_header:
  assumes "length h = 12" and "i + length xs \<le> 12" and "12 + length r \<le> length d"
  shows "patch (patch d 0 (h @ r)) i xs = patch d 0 (patch h i xs @ r)"
  using assms by (intro nth_equalityI) (auto simp: patch_nth nth_append)

lemma take_drop_patch0:
  "i + n \<le> length xs \<Longrightarrow> length xs \<le> length d \<Longrightarrow> take n (drop i (patch d 0 xs)) = take n (drop i xs)"
  by (simp add: patch_def)

text \<open>
  A fresh query: whatever the buffer held before, \<^verbatim>\<open>buffer_pkt_query\<close> leaves a
  packet with the given id, all flags, opcode and response code zero, one question and
  no other records, the question right behind the header, and the position after it.
\<close>

theorem buffer_pkt_query_correct:
  assumes wf: "buffer_wf b" and room: "16 + length qname \<le> buf_capacity b"
    and "qtype \<noteq> 0" and "qclass \<noteq> 0"
  shows "\<exists>b'. buffer_pkt_query qid qname qtype qclass b = Ok b' \<and> buffer_wf b' \<and>
    buffer_pkt_id b' = Ok qid \<and> buffer_pkt_flags b' = Ok 0 \<and>
    buffer_pkt_qdcount b' = Ok 1 \<and> buffer_pkt_ancount b' = Ok 0 \<and>
    buffer_pkt_nscount b' = Ok 0 \<and> buffer_pkt_arcount b' = Ok 0 \<and>
    buf_position b' = 16 + length qname \<and>
    take (length qname + 4) (drop 12 (buf_data b')) =
      qname @ write_uint16 qtype @ write_uint16 qclass"
proof -
  let ?d = "buf_data b"
  let ?hd = "write_uint16 qid @ write_uint16 0 @ write_uint16 1 @ write_uint16 0 @ write_uint16 0 @ write_uint16 0"
  let ?tl = "qname @ write_uint16 qtype @ write_uint16 qclass"
  let ?b = "filling b (16 + length qname) (patch ?d 0 (?hd @ ?tl))"
  have room': "16 + length qname \<le> length ?d" using room buffer_wfD(3) [OF wf] by simp
  have hd: "patch (pkt_header qid LDNS_PACKET_QUERY ?d) 2 (write_uint16 0) = ?hd"
    by (simp add: pkt_header_def patch_def)
  have "buffer_pkt_query qid qname qtype qclass b = Ok ?b"
    using room' buffer_pkt_new_eval [OF wf room' assms(3,4)] hd
      patch_in_header [of "pkt_header qid LDNS_PACKET_QUERY ?d" 2 "write_uint16 0" ?tl ?d]
    by (simp add: buffer_pkt_query_def buffer_pkt_set_flags_def filling_ops [OF wf] pkt_bytes_def)
  moreover have "buffer_wf ?b" using room' by (intro filling_wf wf) simp_all
  ultimately show ?thesis
    using room' by (intro exI [of _ ?b])
      (simp add: buffer_pkt_id_def buffer_pkt_flags_def buffer_pkt_qdcount_def buffer_pkt_ancount_def
        buffer_pkt_nscount_def buffer_pkt_arcount_def buffer_read_u16_at_def mem_read_def
        take_drop_patch0 take_patch0 read_write_uint16)
qed

theorem buffer_pkt_query_correct_witness:
  "\<exists>b'. buffer_pkt_query 7 [0] 6 1 (buffer_create_from (replicate 17 255)) = Ok b' \<and> buffer_wf b' \<and>
    buffer_pkt_id b' = Ok 7 \<and> buffer_pkt_flags b' = Ok 0 \<and>
    buffer_pkt_qdcount b' = Ok 1 \<and> buffer_pkt_ancount b' = Ok 0 \<and>
    buffer_pkt_nscount b' = Ok 0 \<and> buffer_pkt_arcount b' = Ok 0 \<and>
    buf_position b' = 16 + length [0 :: u8] \<and>
    take (length [0 :: u8] + 4) (drop 12 (buf_data b')) = [0] @ write_uint16 6 @ write_uint16 1"
  by (rule buffer_pkt_query_correct [OF buffer_create_from_wf]) (simp_all add: buffer_create_from_def)

end
