(* ===== verification/Cstring.thy ===== *)
theory Cstring
  imports Prelude
begin

text \<open>
  The part of the C library that the string code of the sources uses.  A pointer into a
  NUL-terminated string is the suffix of the string that starts there, so \<^verbatim>\<open>s + 1\<close> is
  \<open>tl s\<close> and the difference of two pointers into one string is the difference of the
  lengths of the two suffixes.
\<close>

section \<open>Searching\<close>

fun strchr :: "string \<Rightarrow> char \<Rightarrow> string option" where
  "strchr [] c = None"
| "strchr (x # xs) c = (if x = c then Some (x # xs) else strchr xs c)"

fun strrchr :: "string \<Rightarrow> char \<Rightarrow> string option" where
  "strrchr [] c = None"
| "strrchr (x # xs) c =
     (case strrchr xs c of Some r \<Rightarrow> Some r | None \<Rightarrow> if x = c then Some (x # xs) else None)"

lemma strchr_None_iff: "strchr s c = None \<longleftrightarrow> c \<notin> set s"
  by (induction s) auto

lemma strrchr_None_iff: "strrchr s c = None \<longleftrightarrow> c \<notin> set s"
  by (induction s) (auto split: option.splits)

lemma strchr_skip [simp]: "c \<notin> set xs \<Longrightarrow> strchr (xs @ ys) c = strchr ys c"
  by (induction xs) auto

lemma strchr_none [simp]: "c \<notin> set xs \<Longrightarrow> strchr xs c = None"
  by (simp add: strchr_None_iff)

lemma strrchr_none [simp]: "c \<notin> set xs \<Longrightarrow> strrchr xs c = None"
  by (simp add: strrchr_None_iff)

lemma strrchr_append:
  "strrchr (xs @ ys) c =
     (case strrchr ys c of Some r \<Rightarrow> Some r | None \<Rightarrow> map_option (\<lambda>r. r @ ys) (strrchr xs c))"
  by (induction xs) (auto split: option.splits)

section \<open>Decimal numbers\<close>

definition digit_char :: "nat \<Rightarrow> char" where
  "digit_char d = char_of (48 + d)"

text \<open>What \<^verbatim>\<open>printf\<close> writes for \<^verbatim>\<open>%u\<close>.\<close>

fun dec :: "nat \<Rightarrow> string" where
  "dec n = (if n < 10 then [digit_char n] else dec (n div 10) @ [digit_char (n mod 10)])"

declare dec.simps [simp del]

definition is_digit :: "char \<Rightarrow> bool" where
  "is_digit c \<longleftrightarrow> 48 \<le> (of_char c :: nat) \<and> (of_char c :: nat) \<le> 57"

definition is_space :: "char \<Rightarrow> bool" where
  "is_space c \<longleftrightarrow> (of_char c :: nat) \<in> {9, 10, 11, 12, 13, 32}"

definition digits_value :: "string \<Rightarrow> nat" where
  "digits_value s = foldl (\<lambda>v c. 10 * v + (of_char c - 48)) 0 (takeWhile is_digit s)"

text \<open>
  The conversion of an integer to a 32-bit \<^verbatim>\<open>int\<close>.  \<^verbatim>\<open>atoi\<close> of a number that does not
  fit in \<^verbatim>\<open>int\<close> is undefined in C; the model converts it, as the implementation of
  \<^verbatim>\<open>atoi\<close> by \<^verbatim>\<open>strtol\<close> does.
\<close>

definition to_int :: "int \<Rightarrow> int" where
  "to_int x = (x + 2 ^ 31) mod 2 ^ 32 - 2 ^ 31"

definition atoi :: "string \<Rightarrow> int" where
  "atoi s =
     (case dropWhile is_space s of
        [] \<Rightarrow> 0
      | c # cs \<Rightarrow>
          to_int (if c = CHR ''-'' then - int (digits_value cs)
                  else if c = CHR ''+'' then int (digits_value cs)
                  else int (digits_value (c # cs))))"

lemma to_int_id: "- (2 ^ 31) \<le> x \<Longrightarrow> x < 2 ^ 31 \<Longrightarrow> to_int x = x"
  by (simp add: to_int_def)

lemma to_int_range: "- (2 ^ 31) \<le> to_int x \<and> to_int x < 2 ^ 31"
proof -
  have "0 \<le> (x + 2 ^ 31) mod 2 ^ 32" "(x + 2 ^ 31) mod 2 ^ 32 < (2 ^ 32 :: int)"
    by (simp_all only: pos_mod_sign pos_mod_bound zero_less_power zero_less_numeral)
  then show ?thesis by (simp add: to_int_def)
qed

lemma of_char_digit: "d < 10 \<Longrightarrow> (of_char (digit_char d) :: nat) = 48 + d"
  by (simp add: digit_char_def)

lemma is_digit_digit_char [simp]: "d < 10 \<Longrightarrow> is_digit (digit_char d)"
  by (simp add: is_digit_def of_char_digit)

lemma dec_digits: "c \<in> set (dec n) \<Longrightarrow> is_digit c"
  by (induction n rule: dec.induct) (subst (asm) dec.simps, auto split: if_splits)

lemma dec_nonempty [simp]: "dec n \<noteq> []"
  by (subst dec.simps) simp

lemma digits_value_dec:
  assumes "s = [] \<or> \<not> is_digit (hd s)"
  shows "digits_value (dec n @ s) = n"
proof -
  have tw: "takeWhile is_digit (dec n @ s) = dec n"
    using assms dec_digits by (cases s) (auto simp: takeWhile_append)
  have "foldl (\<lambda>v c. 10 * v + (of_char c - 48)) 0 (dec n) = n"
  proof (induction n rule: dec.induct)
    case (1 n)
    then show ?case
      by (subst dec.simps) (auto simp: of_char_digit)
  qed
  with tw show ?thesis by (simp add: digits_value_def)
qed

lemma digit_not_special: "is_digit c \<Longrightarrow> \<not> is_space c \<and> c \<noteq> CHR ''-'' \<and> c \<noteq> CHR ''+''"
  by (auto simp: is_digit_def is_space_def)

lemma atoi_dec:
  assumes "n < 2 ^ 31" and "s = [] \<or> \<not> is_digit (hd s)"
  shows "atoi (dec n @ s) = int n"
proof -
  obtain c cs where d: "dec n = c # cs" using dec_nonempty by (cases "dec n") auto
  then have "is_digit c" using dec_digits [of c n] by simp
  with d have "atoi (dec n @ s) = to_int (int (digits_value (dec n @ s)))"
    using digit_not_special by (simp add: atoi_def)
  then show ?thesis using assms by (simp add: digits_value_dec to_int_id)
qed

lemma letter_not_digit:
  "is_digit c \<Longrightarrow> c \<notin> {CHR ''P'', CHR ''T'', CHR ''Y'', CHR ''M'', CHR ''W'', CHR ''D'', CHR ''H'', CHR ''S''}"
  by (auto simp: is_digit_def)

end
