(* ===== verification/Duration.thy ===== *)
theory Duration
  imports Cstring
begin

text \<open>
  Durations and times of the signer, \<^verbatim>\<open>signer/src/shared/duration.c\<close>: parsing and
  printing of ISO 8601 durations, their conversion to seconds, and the conversion of a
  broken-down UTC time to seconds since the epoch.  Memory for the results is assumed to
  be available; the sizes that the code computes for it are modelled.
\<close>

section \<open>Durations\<close>

record duration =
  years :: time_t
  months :: time_t
  weeks :: time_t
  days :: time_t
  hours :: time_t
  minutes :: time_t
  seconds :: time_t

definition duration_create :: duration where
  "duration_create = \<lparr>years = 0, months = 0, weeks = 0, days = 0, hours = 0, minutes = 0, seconds = 0\<rparr>"

text \<open>The differences are \<^verbatim>\<open>time_t\<close> values, returned as \<^verbatim>\<open>int\<close>.\<close>

fun duration_compare :: "duration option \<Rightarrow> duration option \<Rightarrow> int" where
  "duration_compare None None = 0"
| "duration_compare (Some d1) None = -1"
| "duration_compare None (Some d2) = 1"
| "duration_compare (Some d1) (Some d2) =
    (if years d1 \<noteq> years d2 then to_int (years d1 - years d2)
     else if months d1 \<noteq> months d2 then to_int (months d1 - months d2)
     else if weeks d1 \<noteq> weeks d2 then to_int (weeks d1 - weeks d2)
     else if days d1 \<noteq> days d2 then to_int (days d1 - days d2)
     else if hours d1 \<noteq> hours d2 then to_int (hours d1 - hours d2)
     else if minutes d1 \<noteq> minutes d2 then to_int (minutes d1 - minutes d2)
     else if seconds d1 \<noteq> seconds d2 then to_int (seconds d1 - seconds d2)
     else 0)"

text \<open>
  The difference of two pointers into the string, converted to \<^verbatim>\<open>size_t\<close>:
  \<open>ptr_diff x p\<close> is \<^verbatim>\<open>(size_t) (x-p)\<close>.
\<close>

definition ptr_diff :: "string \<Rightarrow> string \<Rightarrow> nat" where
  "ptr_diff x p = nat ((int (length p) - int (length x)) mod 2 ^ 64)"

text \<open>
  \<^verbatim>\<open>duration_create_from_string\<close>, one definition per step.  The state is the duration,
  the pointer \<^verbatim>\<open>str\<close> and the flag \<^verbatim>\<open>not_weeks\<close>; \<open>P\<close> and \<open>T\<close> are the pointers found
  in the whole string.
\<close>

type_synonym parse_state = "duration \<times> string \<times> bool"

definition parse_years :: "parse_state \<Rightarrow> parse_state" where
  "parse_years = (\<lambda>(d, str, nw). case strchr str CHR ''Y'' of
     Some x \<Rightarrow> (d\<lparr>years := atoi (tl str)\<rparr>, x, True)
   | None \<Rightarrow> (d, str, nw))"

definition parse_months :: "string \<Rightarrow> string option \<Rightarrow> parse_state \<Rightarrow> parse_state" where
  "parse_months p t = (\<lambda>(d, str, nw). case strchr str CHR ''M'' of
     Some x \<Rightarrow>
       if (case t of None \<Rightarrow> True | Some t \<Rightarrow> ptr_diff x p < ptr_diff t p)
       then (d\<lparr>months := atoi (tl str)\<rparr>, x, True) else (d, str, nw)
   | None \<Rightarrow> (d, str, nw))"

definition parse_days :: "parse_state \<Rightarrow> parse_state" where
  "parse_days = (\<lambda>(d, str, nw). case strchr str CHR ''D'' of
     Some x \<Rightarrow> (d\<lparr>days := atoi (tl str)\<rparr>, x, True)
   | None \<Rightarrow> (d, str, nw))"

definition parse_T :: "string option \<Rightarrow> parse_state \<Rightarrow> parse_state" where
  "parse_T t = (\<lambda>(d, str, nw). case t of Some t \<Rightarrow> (d, t, True) | None \<Rightarrow> (d, str, nw))"

definition parse_hours :: "string option \<Rightarrow> parse_state \<Rightarrow> parse_state" where
  "parse_hours t = (\<lambda>(d, str, nw). case strchr str CHR ''H'' of
     Some x \<Rightarrow> if t \<noteq> None then (d\<lparr>hours := atoi (tl str)\<rparr>, x, True) else (d, str, nw)
   | None \<Rightarrow> (d, str, nw))"

definition parse_minutes :: "string \<Rightarrow> string option \<Rightarrow> parse_state \<Rightarrow> parse_state" where
  "parse_minutes p t = (\<lambda>(d, str, nw). case strrchr str CHR ''M'' of
     Some x \<Rightarrow>
       if (case t of None \<Rightarrow> False | Some t \<Rightarrow> ptr_diff x p > ptr_diff t p)
       then (d\<lparr>minutes := atoi (tl str)\<rparr>, x, True) else (d, str, nw)
   | None \<Rightarrow> (d, str, nw))"

definition parse_seconds :: "string option \<Rightarrow> parse_state \<Rightarrow> parse_state" where
  "parse_seconds t = (\<lambda>(d, str, nw). case strchr str CHR ''S'' of
     Some x \<Rightarrow> if t \<noteq> None then (d\<lparr>seconds := atoi (tl str)\<rparr>, x, True) else (d, str, nw)
   | None \<Rightarrow> (d, str, nw))"

definition parse_weeks :: "parse_state \<Rightarrow> duration option" where
  "parse_weeks = (\<lambda>(d, str, nw). case strchr str CHR ''W'' of
     Some w \<Rightarrow> if nw then None else Some (d\<lparr>weeks := atoi (tl str)\<rparr>)
   | None \<Rightarrow> Some d)"

text \<open>A null pointer as argument gives the zero duration.\<close>

definition duration_create_from_string :: "string option \<Rightarrow> duration option" where
  "duration_create_from_string str =
    (case str of None \<Rightarrow> Some duration_create
     | Some str \<Rightarrow>
       (case strchr str CHR ''P'' of None \<Rightarrow> None
        | Some p \<Rightarrow>
          (let t = strchr str CHR ''T'' in
           parse_weeks (parse_seconds t (parse_minutes p t (parse_hours t (parse_T t
             (parse_days (parse_months p t (parse_years (duration_create, str, False)))))))))))"

section \<open>Printing\<close>

definition to_u32 :: "int \<Rightarrow> nat" where
  "to_u32 x = nat (x mod 2 ^ 32)"

fun digit_count :: "nat \<Rightarrow> nat" where
  "digit_count period = (if period > 0 then 1 + digit_count (period div 10) else 0)"

declare digit_count.simps [simp del]

definition digits_in_number :: "time_t \<Rightarrow> nat" where
  "digits_in_number d = digit_count (to_u32 d)"

text \<open>The size of the allocation: two bytes and one field per positive component.\<close>

definition field_size :: "time_t \<Rightarrow> nat" where
  "field_size v = (if v > 0 then 1 + digits_in_number v else 0)"

definition duration2string_size :: "duration \<Rightarrow> nat" where
  "duration2string_size d =
     2 + field_size (years d) + field_size (months d) + field_size (weeks d) + field_size (days d) +
     field_size (hours d) + field_size (minutes d) + field_size (seconds d) +
     (if hours d > 0 \<or> minutes d > 0 \<or> seconds d > 0 then 1 else 0)"

text \<open>
  \<^verbatim>\<open>snprintf\<close> into \<open>count + 2\<close> bytes keeps at most \<open>count + 1\<close> characters.  Appending
  to an allocation of \<open>n\<close> bytes needs room for the terminating NUL.
\<close>

definition append_str :: "nat \<Rightarrow> string \<Rightarrow> string \<Rightarrow> string exec" where
  "append_str n num str = (if length str + length num + 1 \<le> n then Ok (str @ num) else Fault)"

definition print_field :: "nat \<Rightarrow> time_t \<Rightarrow> char \<Rightarrow> string \<Rightarrow> string exec" where
  "print_field n v c str =
     (if v > 0 then
        append_str n (take (digits_in_number v + 1) (dec (to_u32 v) @ [c])) str
      else Ok str)"

definition duration2string :: "duration option \<Rightarrow> string option exec" where
  "duration2string dur =
    (case dur of None \<Rightarrow> Ok None
     | Some d \<Rightarrow>
       (let n = duration2string_size d in
        exec_bind (append_str n ''P'' []) (\<lambda>str.
        exec_bind (print_field n (years d) CHR ''Y'' str) (\<lambda>str.
        exec_bind (print_field n (months d) CHR ''M'' str) (\<lambda>str.
        exec_bind (print_field n (weeks d) CHR ''W'' str) (\<lambda>str.
        exec_bind (print_field n (days d) CHR ''D'' str) (\<lambda>str.
        exec_bind (if hours d > 0 \<or> minutes d > 0 \<or> seconds d > 0 then append_str n ''T'' str else Ok str) (\<lambda>str.
        exec_bind (print_field n (hours d) CHR ''H'' str) (\<lambda>str.
        exec_bind (print_field n (minutes d) CHR ''M'' str) (\<lambda>str.
        exec_bind (print_field n (seconds d) CHR ''S'' str) (\<lambda>str. Ok (Some str))))))))))))"

section \<open>Conversion to seconds\<close>

definition duration2time :: "duration option \<Rightarrow> time_t" where
  "duration2time dur =
    (case dur of None \<Rightarrow> 0
     | Some d \<Rightarrow> seconds d + minutes d * 60 + hours d * 3600 + days d * 86400 + weeks d * 86400 * 7 +
         months d * 86400 * 31 + years d * 86400 * 365)"

definition time_minimum :: "time_t \<Rightarrow> time_t \<Rightarrow> time_t" where
  "time_minimum a b = (if a < b then a else b)"

definition time_maximum :: "time_t \<Rightarrow> time_t \<Rightarrow> time_t" where
  "time_maximum a b = (if a > b then a else b)"

text \<open>
  \<^verbatim>\<open>ods_rand\<close> has three variants, chosen when the program is built; the random number is
  an argument.  \<^verbatim>\<open>arc4random_uniform(n)\<close> returns a number below \<open>n\<close>, or 0 when \<open>n\<close> is 0
  (as any number below \<open>n\<close>, it is modelled by the remainder of the random number).  The two
  other variants are \<^verbatim>\<open>r % (unsigned) mod+1\<close>, that is \<open>(r mod m) + 1\<close>, which traps when
  \<open>m\<close> is 0.
\<close>

datatype rand_variant = ARC4RANDOM_UNIFORM | ARC4RANDOM | RANDOM

fun ods_rand :: "rand_variant \<Rightarrow> nat \<Rightarrow> time_t \<Rightarrow> time_t exec" where
  "ods_rand ARC4RANDOM_UNIFORM r m =
     (let n = (to_u32 m + 1) mod 2 ^ 32 in Ok (if n = 0 then 0 else int (r mod n)))"
| "ods_rand _ r m = (if to_u32 m = 0 then Fault else Ok (int (r mod to_u32 m) + 1))"

section \<open>Calendar\<close>

text \<open>Division of \<^verbatim>\<open>int\<close> values in C truncates.\<close>

definition cdiv :: "int \<Rightarrow> int \<Rightarrow> int" where
  "cdiv a b = sgn a * sgn b * (\<bar>a\<bar> div \<bar>b\<bar>)"

definition cmod :: "int \<Rightarrow> int \<Rightarrow> int" where
  "cmod a b = a - cdiv a b * b"

definition mdays :: "int list" where
  "mdays = [31, 28, 31, 30, 31, 30, 31, 31, 30, 31, 30, 31]"

definition is_leap_year :: "int \<Rightarrow> bool" where
  "is_leap_year y \<longleftrightarrow> cmod y 4 = 0 \<and> (cmod y 100 \<noteq> 0 \<or> cmod y 400 = 0)"

definition leap_days :: "int \<Rightarrow> int \<Rightarrow> int" where
  "leap_days y1 y2 =
    (let y1 = y1 - 1; y2 = y2 - 1 in
     (cdiv y2 4 - cdiv y1 4) - (cdiv y2 100 - cdiv y1 100) + (cdiv y2 400 - cdiv y1 400))"

record tm =
  tm_year :: int
  tm_mon :: int
  tm_mday :: int
  tm_hour :: int
  tm_min :: int
  tm_sec :: int

text \<open>The loop over \<^verbatim>\<open>mdays\<close>, from index \<open>i\<close>.\<close>

function add_mdays :: "int \<Rightarrow> int \<Rightarrow> int \<Rightarrow> int exec" where
  "add_mdays i mon d =
     (if i < mon then exec_bind (if 0 \<le> i then mem_get mdays (nat i) else Fault) (\<lambda>k. add_mdays (i + 1) mon (d + k))
      else Ok d)"
  by pat_completeness auto
termination
  by (relation "measure (\<lambda>(i, mon, d). nat (mon - i))") auto

declare add_mdays.simps [simp del]

definition mktime_from_utc :: "tm \<Rightarrow> time_t exec" where
  "mktime_from_utc tm =
    (let year = 1900 + tm_year tm in
     exec_bind (add_mdays 0 (tm_mon tm) (365 * (year - 1970) + leap_days 1970 year)) (\<lambda>d.
     let d = (if tm_mon tm > 1 \<and> is_leap_year year then d + 1 else d);
         d = d + (tm_mday tm - 1);
         h = d * 24 + tm_hour tm;
         mi = h * 60 + tm_min tm
     in Ok (mi * 60 + tm_sec tm)))"

section \<open>Printing a time\<close>

text \<open>\<^verbatim>\<open>time_itoa\<close>: the digits in reverse order, then an in-place reversal.\<close>

function itoa_digits :: "time_t \<Rightarrow> string" where
  "itoa_digits n =
     char_of (cmod n 10 + 48) # (if cdiv n 10 > 0 then itoa_digits (cdiv n 10) else [])"
  by pat_completeness auto
termination
  by (relation "measure nat") (auto simp: cdiv_def sgn_if split: if_splits)

declare itoa_digits.simps [simp del]

function reverse_loop :: "nat \<Rightarrow> nat \<Rightarrow> 'a list \<Rightarrow> 'a list" where
  "reverse_loop i j s =
     (if i < j then reverse_loop (i + 1) (j - 1) (s[i := s ! j, j := s ! i]) else s)"
  by pat_completeness auto
termination
  by (relation "measure (\<lambda>(i, j, s). j - i)") auto

declare reverse_loop.simps [simp del]

definition time_itoa_reverse :: "string \<Rightarrow> string" where
  "time_itoa_reverse s = reverse_loop 0 (length s - 1) s"

definition time_itoa :: "time_t \<Rightarrow> string" where
  "time_itoa n = time_itoa_reverse (itoa_digits n)"

end
