(* ===== verification/Duration_Props.thy ===== *)
theory Duration_Props
  imports Duration
begin

text \<open>
  Correctness of durations and times: printing never overruns the string it allocates,
  parsing inverts printing, broken-down times are converted by the Gregorian calendar, and
  decimal printing of a time is what \<^verbatim>\<open>printf\<close> would give.
\<close>

section \<open>Printing fits the allocation\<close>

lemma digit_count_dec: "n > 0 \<Longrightarrow> digit_count n = length (dec n)"
proof (induction n rule: dec.induct)
  case (1 n)
  show ?case
  proof (cases "n < 10")
    case True
    with 1(2) show ?thesis
      by (simp add: dec.simps [of n] digit_count.simps [of n] digit_count.simps [of 0])
  next
    case False
    with 1 show ?thesis by (simp add: dec.simps [of n] digit_count.simps [of n])
  qed
qed

text \<open>
  The characters a field adds: \<^verbatim>\<open>snprintf\<close> is given room for exactly the digits and the
  letter, so nothing is cut off.
\<close>

definition field :: "time_t \<Rightarrow> char \<Rightarrow> string" where
  "field v c = (if v > 0 then take (digits_in_number v + 1) (dec (to_u32 v) @ [c]) else [])"

lemma field_zero [simp]: "v \<le> 0 \<Longrightarrow> field v c = []"
  by (simp add: field_def)

lemma length_field_size [simp]: "length (field v c) = field_size v"
proof (cases "to_u32 v = 0")
  case True
  then show ?thesis
    by (simp add: field_def field_size_def digits_in_number_def digit_count.simps [of 0] dec.simps [of 0])
next
  case False
  then show ?thesis by (simp add: field_def field_size_def digits_in_number_def digit_count_dec)
qed

lemma print_field_append: "print_field n v c str = append_str n (field v c) str \<or> v \<le> 0 \<and> print_field n v c str = Ok str"
  by (simp add: print_field_def field_def)

lemma print_field_eval:
  assumes "length str + field_size v + 1 \<le> n"
  shows "print_field n v c str = Ok (str @ field v c)"
  using print_field_append [of n v c str] assms by (auto simp: append_str_def)

definition time_flag :: "duration \<Rightarrow> string" where
  "time_flag d = (if hours d > 0 \<or> minutes d > 0 \<or> seconds d > 0 then ''T'' else [])"

definition duration_string :: "duration \<Rightarrow> string" where
  "duration_string d = ''P'' @ field (years d) CHR ''Y'' @ field (months d) CHR ''M'' @
     field (weeks d) CHR ''W'' @ field (days d) CHR ''D'' @ time_flag d @
     field (hours d) CHR ''H'' @ field (minutes d) CHR ''M'' @ field (seconds d) CHR ''S''"

lemma duration2string_eval: "duration2string (Some d) = Ok (Some (duration_string d))"
  unfolding duration2string_def duration_string_def duration2string_size_def time_flag_def
  by (simp add: append_str_def print_field_eval Let_def)

text \<open>
  C32. Printing a duration never writes outside the string it allocates, whatever the
  fields are (also negative ones, and ones that do not fit in 32 bits): the result and its
  terminating NUL fill the computed size exactly.
\<close>

theorem duration2string_fits:
  "\<exists>s. duration2string (Some d) = Ok (Some s) \<and> length s + 1 = duration2string_size d"
  unfolding duration2string_eval
  by (simp add: duration_string_def duration2string_size_def time_flag_def)

section \<open>Parsing inverts printing\<close>

lemma letters [simp]:
  "\<not> is_digit CHR ''P''" "\<not> is_digit CHR ''T''" "\<not> is_digit CHR ''Y''" "\<not> is_digit CHR ''M''"
  "\<not> is_digit CHR ''W''" "\<not> is_digit CHR ''D''" "\<not> is_digit CHR ''H''" "\<not> is_digit CHR ''S''"
  by (simp_all add: is_digit_def)

lemma field_small: "v < 2 ^ 32 \<Longrightarrow> field v c = (if v > 0 then dec (nat v) @ [c] else [])"
  by (simp add: field_def digits_in_number_def to_u32_def digit_count_dec)

lemma set_field: "x \<in> set (field v c) \<Longrightarrow> is_digit x \<or> x = c"
  by (auto simp: field_def dest!: in_set_takeD dest: dec_digits)

lemma notin_field [simp]: "\<not> is_digit x \<Longrightarrow> x \<noteq> c \<Longrightarrow> x \<notin> set (field v c)"
  using set_field by blast

lemma notin_dec: "\<not> is_digit x \<Longrightarrow> x \<notin> set (dec n)"
  using dec_digits by blast

lemma strchr_field:
  "v < 2 ^ 32 \<Longrightarrow> v > 0 \<Longrightarrow> \<not> is_digit c \<Longrightarrow> strchr (field v c @ rest) c = Some (c # rest)"
  by (simp add: field_small notin_dec)

lemma atoi_field:
  "v < 2 ^ 31 \<Longrightarrow> v > 0 \<Longrightarrow> \<not> is_digit c \<Longrightarrow> atoi (field v c @ rest) = v"
  using atoi_dec [of "nat v" "c # rest"] by (simp add: field_small)

text \<open>
  Each step of the parser consumes its own field: with \<open>c\<close> the letter the pointer stands
  on, it moves to the letter of the field if the field is there and stays otherwise.
\<close>

lemma parse_years_step:
  assumes "0 \<le> v" "v < 2 ^ 31" "c \<noteq> CHR ''Y''" "CHR ''Y'' \<notin> set rest"
  shows "\<exists>c'. parse_years (d, c # field v CHR ''Y'' @ rest, nw) =
      (if v > 0 then d\<lparr>years := v\<rparr> else d, c' # rest, nw \<or> v > 0) \<and> c' \<in> {c, CHR ''Y''}"
  using assms by (cases "v > 0") (simp_all add: parse_years_def strchr_field atoi_field)

lemma parse_days_step:
  assumes "0 \<le> v" "v < 2 ^ 31" "c \<noteq> CHR ''D''" "CHR ''D'' \<notin> set rest"
  shows "\<exists>c'. parse_days (d, c # field v CHR ''D'' @ rest, nw) =
      (if v > 0 then d\<lparr>days := v\<rparr> else d, c' # rest, nw \<or> v > 0) \<and> c' \<in> {c, CHR ''D''}"
  using assms by (cases "v > 0") (simp_all add: parse_days_def strchr_field atoi_field)

lemma parse_hours_step:
  assumes "0 \<le> v" "v < 2 ^ 31" "c \<noteq> CHR ''H''" "CHR ''H'' \<notin> set rest"
  shows "\<exists>c'. parse_hours (Some t) (d, c # field v CHR ''H'' @ rest, nw) =
      (if v > 0 then d\<lparr>hours := v\<rparr> else d, c' # rest, nw \<or> v > 0) \<and> c' \<in> {c, CHR ''H''}"
  using assms by (cases "v > 0") (simp_all add: parse_hours_def strchr_field atoi_field)

lemma parse_seconds_step:
  assumes "0 \<le> v" "v < 2 ^ 31" "c \<noteq> CHR ''S''" "CHR ''S'' \<notin> set rest"
  shows "\<exists>c'. parse_seconds (Some t) (d, c # field v CHR ''S'' @ rest, nw) =
      (if v > 0 then d\<lparr>seconds := v\<rparr> else d, c' # rest, nw \<or> v > 0) \<and> c' \<in> {c, CHR ''S''}"
  using assms by (cases "v > 0") (simp_all add: parse_seconds_def strchr_field atoi_field)

lemma ptr_diff_less:
  "length x \<le> length p \<Longrightarrow> length t \<le> length p \<Longrightarrow> length p < 2 ^ 64 \<Longrightarrow>
   ptr_diff x p < ptr_diff t p \<longleftrightarrow> length t < length x"
  by (auto simp: ptr_diff_def)

lemma length_dec: "n < 10 ^ k \<Longrightarrow> 0 < k \<Longrightarrow> length (dec n) \<le> k"
proof (induction k arbitrary: n)
  case (Suc k)
  show ?case
  proof (cases "n < 10")
    case True
    then show ?thesis by (simp add: dec.simps [of n])
  next
    case False
    with Suc.prems have "n div 10 < 10 ^ k" "0 < k" by (auto simp: less_mult_imp_div_less mult.commute intro!: gr0I)
    then have "length (dec (n div 10)) \<le> k" using Suc.IH by blast
    with False show ?thesis by (simp add: dec.simps [of n])
  qed
qed simp

lemma field_size_le: "v < 2 ^ 31 \<Longrightarrow> field_size v \<le> 11"
  using length_field_size [of v "CHR ''Y''"] length_dec [of "nat v" 10]
  by (cases "v > 0") (simp_all add: field_small field_size_def)

lemma parse_months_step:
  assumes "0 \<le> v" "v < 2 ^ 31" "c \<noteq> CHR ''M''" "length p < 2 ^ 64"
    and "length (field v CHR ''M'' @ rest) < length p"
    and t: "t = (if late = [] then None else Some late)" "rest = mid @ late" "CHR ''M'' \<notin> set mid"
  shows "\<exists>c'. parse_months p t (d, c # field v CHR ''M'' @ rest, nw) =
      (if v > 0 then d\<lparr>months := v\<rparr> else d, c' # rest, nw \<or> v > 0) \<and> c' \<in> {c, CHR ''M''}"
proof (cases "v > 0")
  case True
  then show ?thesis using assms
    by (simp add: parse_months_def strchr_field atoi_field ptr_diff_less)
next
  case False
  have *: "length x \<le> length late" if "strchr late CHR ''M'' = Some x" for x
    using that by (induction late) (auto split: if_splits)
  show ?thesis
  proof (cases "strchr late CHR ''M''")
    case None
    with False assms show ?thesis by (simp add: parse_months_def)
  next
    case (Some x)
    with * have "length x \<le> length late" "late \<noteq> []" by auto
    with Some False assms show ?thesis by (simp add: parse_months_def ptr_diff_less)
  qed
qed

lemma parse_minutes_step:
  assumes "0 \<le> v" "v < 2 ^ 31" "c \<noteq> CHR ''M''" "CHR ''M'' \<notin> set rest" "length p < 2 ^ 64"
    and "length t \<le> length p" "length (field v CHR ''M'' @ rest) < length t"
  shows "\<exists>c'. parse_minutes p (Some t) (d, c # field v CHR ''M'' @ rest, nw) =
      (if v > 0 then d\<lparr>minutes := v\<rparr> else d, c' # rest, nw \<or> v > 0) \<and> c' \<in> {c, CHR ''M''}"
proof (cases "v > 0")
  case True
  have "strrchr (field v CHR ''M'' @ rest) CHR ''M'' = Some (CHR ''M'' # rest)"
    using assms True by (simp add: field_small strrchr_append notin_dec)
  moreover have "length rest + 1 < length t"
  proof -
    have "field_size v \<ge> 1" using True by (simp add: field_size_def)
    show ?thesis using assms(7) \<open>field_size v \<ge> 1\<close> digit_count_dec [of "to_u32 v"] True assms(2)
      by (simp add: field_size_def digits_in_number_def to_u32_def digit_count.simps [of "nat v"])
  qed
  ultimately show ?thesis using True assms
    by (simp add: parse_minutes_def atoi_field ptr_diff_less)
next
  case False
  with assms show ?thesis by (simp add: parse_minutes_def)
qed

text \<open>Strings of durations: where the letters are.\<close>

definition field_ok :: "time_t \<Rightarrow> bool" where
  "field_ok v \<longleftrightarrow> 0 \<le> v \<and> v < 2 ^ 31"

definition date_part :: "duration \<Rightarrow> string" where
  "date_part d = field (years d) CHR ''Y'' @ field (months d) CHR ''M'' @ field (days d) CHR ''D''"

definition time_part :: "duration \<Rightarrow> string" where
  "time_part d = time_flag d @
     field (hours d) CHR ''H'' @ field (minutes d) CHR ''M'' @ field (seconds d) CHR ''S''"

lemma duration_string_no_weeks:
  "weeks d = 0 \<Longrightarrow> duration_string d = CHR ''P'' # date_part d @ time_part d"
  by (simp add: duration_string_def date_part_def time_part_def)

lemma strchr_T_time_part:
  "strchr (time_part d) CHR ''T'' = (if time_part d = [] then None else Some (time_part d))"
  by (simp add: time_part_def time_flag_def)

lemma notin_date_part [simp]:
  "\<not> is_digit x \<Longrightarrow> x \<notin> {CHR ''Y'', CHR ''M'', CHR ''D''} \<Longrightarrow> x \<notin> set (date_part d)"
  by (simp add: date_part_def)

lemma notin_time_part [simp]:
  "\<not> is_digit x \<Longrightarrow> x \<notin> {CHR ''T'', CHR ''H'', CHR ''M'', CHR ''S''} \<Longrightarrow> x \<notin> set (time_part d)"
  by (simp add: time_part_def time_flag_def)

lemma length_parts:
  assumes "\<forall>v \<in> {years d, months d, days d, hours d, minutes d, seconds d}. field_ok v"
  shows "length (date_part d) \<le> 33" "length (time_part d) \<le> 34"
proof -
  have "\<forall>v \<in> {years d, months d, days d, hours d, minutes d, seconds d}. field_size v \<le> 11"
    using assms field_size_le by (auto simp: field_ok_def)
  then show "length (date_part d) \<le> 33" "length (time_part d) \<le> 34"
    by (auto simp: date_part_def time_part_def time_flag_def)
qed

text \<open>The two halves of the parser on the two halves of the string.\<close>

lemma parse_date:
  assumes ok: "\<forall>v \<in> {years d, months d, days d, hours d, minutes d, seconds d}. field_ok v"
    and p: "p = CHR ''P'' # date_part d @ time_part d"
  shows "\<exists>c nw. parse_days (parse_months p (if time_part d = [] then None else Some (time_part d))
          (parse_years (duration_create, p, False))) =
      (duration_create\<lparr>years := years d, months := months d, days := days d\<rparr>, c # time_part d, nw) \<and>
      c \<in> {CHR ''P'', CHR ''Y'', CHR ''M'', CHR ''D''}"
proof -
  let ?t = "if time_part d = [] then None else Some (time_part d)"
  let ?m = "field (months d) CHR ''M''" and ?d = "field (days d) CHR ''D''"
  have v: "0 \<le> years d" "years d < 2 ^ 31" "0 \<le> months d" "months d < 2 ^ 31" "0 \<le> days d" "days d < 2 ^ 31"
    using ok by (auto simp: field_ok_def)
  have len: "length p < 2 ^ 64" using length_parts [OF ok] p by simp
  let ?d1 = "if years d > 0 then duration_create\<lparr>years := years d\<rparr> else duration_create"
  obtain c1 where y: "parse_years (duration_create, p, False) = (?d1, c1 # ?m @ ?d @ time_part d, years d > 0)"
    and c1: "c1 \<in> {CHR ''P'', CHR ''Y''}"
    using parse_years_step [of "years d" "CHR ''P''" "?m @ ?d @ time_part d" duration_create False] v
    by (auto simp: p date_part_def)
  let ?d2 = "if months d > 0 then ?d1\<lparr>months := months d\<rparr> else ?d1"
  obtain c2 nw2 where m: "parse_months p ?t (?d1, c1 # ?m @ ?d @ time_part d, years d > 0) =
      (?d2, c2 # ?d @ time_part d, nw2)" and c2: "c2 \<in> {CHR ''P'', CHR ''Y'', CHR ''M''}"
    using parse_months_step [of "months d" c1 p "?d @ time_part d" ?t "time_part d" "?d" ?d1 "years d > 0"] v c1 len
    by (auto simp: p date_part_def)
  obtain c3 nw3 where e: "parse_days (?d2, c2 # ?d @ time_part d, nw2) =
      (if days d > 0 then ?d2\<lparr>days := days d\<rparr> else ?d2, c3 # time_part d, nw3)"
    and c3: "c3 \<in> {CHR ''P'', CHR ''Y'', CHR ''M'', CHR ''D''}"
    using parse_days_step [of "days d" c2 "time_part d" ?d2 nw2] v c2 by auto
  have "(if days d > 0 then ?d2\<lparr>days := days d\<rparr> else ?d2) =
      duration_create\<lparr>years := years d, months := months d, days := days d\<rparr>"
    using v by (auto simp: duration_create_def)
  with y m e c3 show ?thesis by auto
qed

lemma parse_time:
  assumes ok: "field_ok (hours d)" "field_ok (minutes d)" "field_ok (seconds d)"
    and d0: "hours d0 = 0" "minutes d0 = 0" "seconds d0 = 0"
    and p: "length p < 2 ^ 64" "length (time_part d) \<le> length p" and t: "time_part d \<noteq> []"
  shows "\<exists>nw c. parse_seconds (Some (time_part d)) (parse_minutes p (Some (time_part d))
        (parse_hours (Some (time_part d)) (d0, time_part d, nw0))) =
      (d0\<lparr>hours := hours d, minutes := minutes d, seconds := seconds d\<rparr>, [c], nw) \<and> c \<noteq> CHR ''W''"
proof -
  let ?t = "Some (time_part d)"
  let ?m = "field (minutes d) CHR ''M''" and ?s = "field (seconds d) CHR ''S''"
  have v: "0 \<le> hours d" "hours d < 2 ^ 31" "0 \<le> minutes d" "minutes d < 2 ^ 31" "0 \<le> seconds d" "seconds d < 2 ^ 31"
    using ok by (auto simp: field_ok_def)
  have tp: "time_part d = CHR ''T'' # field (hours d) CHR ''H'' @ ?m @ ?s"
    using t by (cases "hours d > 0 \<or> minutes d > 0 \<or> seconds d > 0") (simp_all add: time_part_def time_flag_def)
  let ?d1 = "if hours d > 0 then d0\<lparr>hours := hours d\<rparr> else d0"
  obtain c1 nw1 where h: "parse_hours ?t (d0, time_part d, nw0) = (?d1, c1 # ?m @ ?s, nw1)"
    and c1: "c1 \<in> {CHR ''T'', CHR ''H''}"
    using parse_hours_step [of "hours d" "CHR ''T''" "?m @ ?s" "time_part d" d0 nw0] v
    by (auto simp: tp)
  let ?d2 = "if minutes d > 0 then ?d1\<lparr>minutes := minutes d\<rparr> else ?d1"
  obtain c2 nw2 where m: "parse_minutes p ?t (?d1, c1 # ?m @ ?s, nw1) = (?d2, c2 # ?s, nw2)"
    and c2: "c2 \<in> {CHR ''T'', CHR ''H'', CHR ''M''}"
    using parse_minutes_step [of "minutes d" c1 "?s" p "time_part d" ?d1 nw1] v c1 p by (auto simp: tp)
  obtain c3 nw3 where e: "parse_seconds ?t (?d2, c2 # ?s, nw2) =
      (if seconds d > 0 then ?d2\<lparr>seconds := seconds d\<rparr> else ?d2, [c3], nw3)"
    and c3: "c3 \<in> {CHR ''T'', CHR ''H'', CHR ''M'', CHR ''S''}"
    using parse_seconds_step [of "seconds d" c2 "[]" "time_part d" ?d2 nw2] v c2 by auto
  have "(if seconds d > 0 then ?d2\<lparr>seconds := seconds d\<rparr> else ?d2) =
      d0\<lparr>hours := hours d, minutes := minutes d, seconds := seconds d\<rparr>"
    using v d0 by (cases d0) auto
  with h m e c3 show ?thesis by auto
qed

text \<open>
  C31. Parsing the string printed for a duration gives the duration back: for non-negative
  fields that fit in an \<^verbatim>\<open>int\<close> (the parser reads each with \<^verbatim>\<open>atoi\<close>), in a duration that
  is either in weeks only or has no weeks, the two forms ISO 8601 allows.
\<close>

theorem duration_roundtrip:
  assumes ok: "\<forall>v \<in> {years d, months d, weeks d, days d, hours d, minutes d, seconds d}. 0 \<le> v \<and> v < 2 ^ 31"
    and form: "weeks d = 0 \<or> years d = 0 \<and> months d = 0 \<and> days d = 0 \<and> hours d = 0 \<and> minutes d = 0 \<and> seconds d = 0"
  shows "\<exists>s. duration2string (Some d) = Ok (Some s) \<and> duration_create_from_string (Some s) = Some d"
proof -
  have ok': "\<forall>v \<in> {years d, months d, days d, hours d, minutes d, seconds d}. field_ok v"
    using ok by (auto simp: field_ok_def)
  have "duration_create_from_string (Some (duration_string d)) = Some d"
  proof (cases "weeks d = 0")
    case True
    let ?p = "CHR ''P'' # date_part d @ time_part d" and ?t = "if time_part d = [] then None else Some (time_part d)"
    let ?d0 = "duration_create\<lparr>years := years d, months := months d, days := days d\<rparr>"
    obtain c nw where dp: "parse_days (parse_months ?p ?t (parse_years (duration_create, ?p, False))) =
        (?d0, c # time_part d, nw)" and c: "c \<in> {CHR ''P'', CHR ''Y'', CHR ''M'', CHR ''D''}"
      using parse_date [OF ok' refl] by blast
    have d: "d = ?d0\<lparr>hours := hours d, minutes := minutes d, seconds := seconds d\<rparr>"
      using True by (cases d) (simp add: duration_create_def)
    have parsed: "duration_create_from_string (Some (duration_string d)) =
        parse_weeks (parse_seconds ?t (parse_minutes ?p ?t (parse_hours ?t (parse_T ?t (?d0, c # time_part d, nw)))))"
      by (simp add: duration_create_from_string_def duration_string_no_weeks [OF True] strchr_T_time_part
          dp [symmetric] Let_def)
    show ?thesis
    proof (cases "time_part d = []")
      case True
      then have "hours d \<le> 0" "minutes d \<le> 0" "seconds d \<le> 0"
        by (auto simp: time_part_def time_flag_def split: if_splits)
      with ok have z: "hours d = 0" "minutes d = 0" "seconds d = 0" by auto
      have "parse_weeks (parse_seconds ?t (parse_minutes ?p ?t (parse_hours ?t (parse_T ?t (?d0, c # time_part d, nw)))))
          = Some ?d0"
        using c True by (auto simp: parse_T_def parse_hours_def parse_minutes_def parse_seconds_def parse_weeks_def)
      with parsed show ?thesis using d z by (simp add: duration_create_def)
    next
      case False
      obtain nw' c' where "parse_seconds ?t (parse_minutes ?p ?t (parse_hours ?t (?d0, time_part d, True))) =
          (?d0\<lparr>hours := hours d, minutes := minutes d, seconds := seconds d\<rparr>, [c'], nw')" "c' \<noteq> CHR ''W''"
        using parse_time [of d ?d0 ?p True] ok' False length_parts [OF ok'] by (auto simp: duration_create_def)
      then show ?thesis using False parsed d by (simp add: parse_T_def parse_weeks_def)
    qed
  next
    case False
    let ?w = "field (weeks d) CHR ''W''"
    have "strchr ?w CHR ''W'' = Some ''W''" "atoi ?w = weeks d"
      using ok False strchr_field [of "weeks d" "CHR ''W''" "[]"] atoi_field [of "weeks d" "CHR ''W''" "[]"] by auto
    with False form show ?thesis
      by (cases d) (simp add: duration_string_def time_flag_def duration_create_from_string_def parse_years_def
          parse_months_def parse_days_def parse_T_def parse_hours_def parse_minutes_def parse_seconds_def
          parse_weeks_def duration_create_def)
  qed
  then show ?thesis by (simp add: duration2string_eval)
qed

text \<open>Witness: one year, two months, ten days, an hour and a half.\<close>

theorem duration_roundtrip_witness:
  "\<exists>s. duration2string (Some \<lparr>years = 1, months = 2, weeks = 0, days = 10, hours = 1, minutes = 30, seconds = 0\<rparr>)
       = Ok (Some s) \<and> duration_create_from_string (Some s) =
       Some \<lparr>years = 1, months = 2, weeks = 0, days = 10, hours = 1, minutes = 30, seconds = 0\<rparr>"
  by (rule duration_roundtrip) simp_all

section \<open>Calendar\<close>

text \<open>The Gregorian calendar: days of a year and of a month, and the days before a date.\<close>

definition leap :: "int \<Rightarrow> bool" where
  "leap y \<longleftrightarrow> 4 dvd y \<and> (\<not> 100 dvd y \<or> 400 dvd y)"

definition year_days :: "int \<Rightarrow> int" where
  "year_days y = (if leap y then 366 else 365)"

definition month_days :: "int \<Rightarrow> int \<Rightarrow> int" where
  "month_days y m = (if m = 1 then (if leap y then 29 else 28) else if m \<in> {3, 5, 8, 10} then 30 else 31)"

definition days_since_epoch :: "int \<Rightarrow> int \<Rightarrow> int \<Rightarrow> int" where
  "days_since_epoch y m d = (\<Sum>k = 1970..y - 1. year_days k) + (\<Sum>k = 0..m - 1. month_days y k) + (d - 1)"

lemma cdiv_nonneg: "0 \<le> a \<Longrightarrow> 0 < b \<Longrightarrow> cdiv a b = a div b"
  by (cases "a = 0") (simp_all add: cdiv_def sgn_if)

lemma cmod_nonneg: "0 \<le> a \<Longrightarrow> 0 < b \<Longrightarrow> cmod a b = a mod b"
  by (simp add: cmod_def cdiv_nonneg minus_div_mult_eq_mod)

lemma is_leap_year_leap: "0 \<le> y \<Longrightarrow> is_leap_year y = leap y"
  by (simp add: is_leap_year_def leap_def cmod_nonneg dvd_eq_mod_eq_0)

lemma div_step: "0 < k \<Longrightarrow> (y div k) = ((y - 1) div k) + (if k dvd y then 1 else (0::int))"
proof -
  assume k: "0 < k"
  show ?thesis
  proof (cases "k dvd y")
    case True
    then obtain q where q: "y = k * q" ..
    have "(k * q - 1) div k = q - 1"
      by (rule int_div_pos_eq [where r = "k - 1"]) (use k in \<open>auto simp: algebra_simps\<close>)
    with q k True show ?thesis by simp
  next
    case False
    have r: "0 \<le> y mod k" "y mod k < k" "y mod k \<noteq> 0" using k False by (auto simp: dvd_eq_mod_eq_0)
    have "(y - 1) div k = y div k"
      by (rule int_div_pos_eq [where r = "y mod k - 1"]) (use r mult_div_mod_eq [of k y] in linarith)+
    with False show ?thesis by simp
  qed
qed

lemma leap_days_step:
  assumes y: "1970 \<le> y"
  shows "leap_days 1970 (y + 1) = leap_days 1970 y + (if leap y then 1 else 0)"
proof -
  have "4 dvd y" if "100 dvd y" by (rule dvd_trans [OF _ that]) simp
  moreover have "100 dvd y" if "400 dvd y" by (rule dvd_trans [OF _ that]) simp
  ultimately have l: "(if leap y then 1 else 0) =
      (if 4 dvd y then 1 else 0) - (if 100 dvd y then 1 else 0) + (if 400 dvd y then 1 else (0::int))"
    unfolding leap_def by (cases "100 dvd y"; cases "400 dvd y") simp_all
  have e: "leap_days 1970 (y + 1) = (y div 4 - 492) - (y div 100 - 19) + (y div 400 - 4)"
    "leap_days 1970 y = ((y - 1) div 4 - 492) - ((y - 1) div 100 - 19) + ((y - 1) div 400 - 4)"
    using y by (simp_all add: leap_days_def cdiv_nonneg Let_def)
  have d: "y div 4 = (y - 1) div 4 + (if 4 dvd y then 1 else 0)"
    "y div 100 = (y - 1) div 100 + (if 100 dvd y then 1 else 0)"
    "y div 400 = (y - 1) div 400 + (if 400 dvd y then 1 else 0)"
    by (rule div_step, simp)+
  show ?thesis unfolding e l d by (simp only: algebra_simps)
qed

lemma sum_year_days: "1970 \<le> y \<Longrightarrow> (\<Sum>k = 1970..y - 1. year_days k) = 365 * (y - 1970) + leap_days 1970 y"
proof (induction y rule: int_ge_induct)
  case base
  then show ?case by (simp add: leap_days_def)
next
  case (step y)
  have "{1970..y} = insert y {1970..y - 1}" using step.hyps by auto
  then have "(\<Sum>k = 1970..y. year_days k) = year_days y + (\<Sum>k = 1970..y - 1. year_days k)" by simp
  with step show ?case by (simp add: leap_days_step year_days_def)
qed

text \<open>The loop over the month lengths of a common year.\<close>

lemma add_mdays_eval:
  assumes "0 \<le> i" "mon \<le> 12"
  shows "add_mdays i mon d = Ok (d + (\<Sum>k = i..mon - 1. mdays ! nat k))"
  using assms
proof (induction i mon d rule: add_mdays.induct)
  case (1 i mon d)
  show ?case
  proof (cases "i < mon")
    case True
    have "{i..mon - 1} = insert i {i + 1..mon - 1}" using True by auto
    moreover have "mem_get mdays (nat i) = Ok (mdays ! nat i)"
      using 1 True by (simp add: mem_get_def mdays_def nat_less_iff)
    ultimately show ?thesis using 1 True by (simp add: add_mdays.simps [of i])
  next
    case False
    then show ?thesis by (simp add: add_mdays.simps [of i])
  qed
qed

lemma mdays_month_days: "0 \<le> k \<Longrightarrow> k \<le> 11 \<Longrightarrow> mdays ! nat k = month_days y k - (if k = 1 \<and> leap y then 1 else 0)"
proof -
  assume "0 \<le> k" "k \<le> 11"
  then have "k \<in> {0, 1, 2, 3, 4, 5, 6, 7, 8, 9, 10, 11}" unfolding insert_iff empty_iff by presburger
  then show ?thesis by (auto simp: mdays_def month_days_def)
qed

lemma sum_mdays:
  assumes "0 \<le> m" "m \<le> 11"
  shows "(\<Sum>k = 0..m - 1. mdays ! nat k) + (if m > 1 \<and> leap y then 1 else 0) = (\<Sum>k = 0..m - 1. month_days y k)"
proof -
  have "(\<Sum>k = 0..m - 1. mdays ! nat k) = (\<Sum>k = 0..m - 1. month_days y k - (if k = 1 \<and> leap y then 1 else 0))"
    using assms by (intro sum.cong) (auto simp: mdays_month_days)
  also have "\<dots> = (\<Sum>k = 0..m - 1. month_days y k) - (\<Sum>k = 0..m - 1. if k = 1 then (if leap y then 1 else 0) else 0)"
    unfolding sum_subtractf [symmetric] by (intro sum.cong) auto
  also have "(\<Sum>k = 0..m - 1. if k = 1 then (if leap y then 1 else 0) else 0) = (if m > 1 \<and> leap y then 1 else (0::int))"
    by simp
  finally show ?thesis by simp
qed

text \<open>
  A broken-down UTC time from 1970 on, with a month from 0 to 11, is converted by the
  Gregorian calendar: the days of all years since 1970 and of all months before the given
  one, leap days included, then hours, minutes and seconds.  No month length outside
  \<^verbatim>\<open>mdays\<close> is read.
\<close>

theorem mktime_from_utc_correct:
  assumes "70 \<le> tm_year tm" and "0 \<le> tm_mon tm" "tm_mon tm \<le> 11"
  shows "mktime_from_utc tm =
    Ok (86400 * days_since_epoch (1900 + tm_year tm) (tm_mon tm) (tm_mday tm) +
        3600 * tm_hour tm + 60 * tm_min tm + tm_sec tm)"
proof -
  let ?y = "1900 + tm_year tm"
  have y: "1970 \<le> ?y" using assms by simp
  note s = sum_mdays [of "tm_mon tm" ?y] sum_year_days [OF y]
  show ?thesis
    using assms y s by (cases "tm_mon tm > 1 \<and> leap ?y")
      (simp_all add: mktime_from_utc_def add_mdays_eval is_leap_year_leap days_since_epoch_def Let_def)
qed

theorem mktime_from_utc_witness:
  "mktime_from_utc \<lparr>tm_year = 72, tm_mon = 2, tm_mday = 1, tm_hour = 0, tm_min = 0, tm_sec = 5\<rparr> =
     Ok (86400 * days_since_epoch 1972 2 1 + 5)"
  using mktime_from_utc_correct [of "\<lparr>tm_year = 72, tm_mon = 2, tm_mday = 1, tm_hour = 0, tm_min = 0, tm_sec = 5\<rparr>"]
  by simp

section \<open>Printing a time\<close>

lemma char_of_int: "(char_of (int k) :: char) = char_of k"
  by (simp add: char_of_eq_iff of_nat_of_char [symmetric] take_bit_of_nat del: of_nat_of_char)

lemma itoa_digits_rev: "0 \<le> n \<Longrightarrow> itoa_digits n = rev (dec (nat n))"
proof (induction n rule: itoa_digits.induct)
  case (1 n)
  have d: "cdiv n 10 = n div 10" "cmod n 10 = n mod 10" using 1 by (simp_all add: cdiv_nonneg cmod_nonneg)
  have c: "char_of (n mod 10 + 48) = digit_char (nat n mod 10)"
    using 1 char_of_int [of "48 + nat n mod 10"] by (simp add: digit_char_def zmod_int add.commute)
  show ?case
    using 1 d c by (cases "n < 10")
      (simp_all add: itoa_digits.simps [of n] dec.simps [of "nat n"] nat_div_distrib nat_less_iff pos_imp_zdiv_pos_iff)
qed

text \<open>
  The in-place reversal: after swapping everything outside \<open>i..j\<close> the loop reverses the
  segment that is left.
\<close>

lemma reverse_loop_segment:
  "length ys = j + 1 - i \<Longrightarrow> length xs = i \<Longrightarrow> i \<le> j + 1 \<Longrightarrow>
   reverse_loop i j (xs @ ys @ zs) = xs @ rev ys @ zs"
proof (induction i j "xs @ ys @ zs" arbitrary: xs ys zs rule: reverse_loop.induct)
  case (1 i j)
  show ?case
  proof (cases "i < j")
    case True
    then obtain a r where "ys = a # r" "r \<noteq> []" using 1(2) by (cases ys; cases "tl ys") auto
    then obtain m b where ys: "ys = a # m @ [b]" by (metis rev_exhaust)
    then have m: "length m + i + 1 = j" using 1(2) True by simp
    let ?s = "xs @ ys @ zs"
    have s: "?s ! i = a" "?s ! j = b" using 1(3) ys m by (auto simp: nth_append)
    have upd: "?s[i := ?s ! j, j := ?s ! i] = (xs @ [b]) @ m @ ([a] @ zs)"
    proof -
      have "?s[i := b] = xs @ b # m @ b # zs" using 1(3) ys by (simp add: list_update_append)
      moreover have "(xs @ b # m @ b # zs)[j := a] = ((xs @ b # m) @ b # zs)[length (xs @ b # m) := a]"
        using 1(3) m [symmetric] by (simp add: add.commute)
      ultimately show ?thesis unfolding s by (simp only: list_update_length) simp
    qed
    have "reverse_loop (i + 1) (j - 1) ((xs @ [b]) @ m @ ([a] @ zs)) = (xs @ [b]) @ rev m @ ([a] @ zs)"
      by (rule 1(1) [OF True upd]) (use m 1(3) True in auto)
    then show ?thesis using True upd ys by (simp add: reverse_loop.simps [of i])
  next
    case False
    then have "length ys \<le> 1" using 1 by simp
    then have "rev ys = ys" by (cases ys) auto
    with False show ?thesis by (simp add: reverse_loop.simps [of i])
  qed
qed

lemma time_itoa_reverse_rev: "s \<noteq> [] \<Longrightarrow> time_itoa_reverse s = rev s"
  using reverse_loop_segment [of s "length s - 1" 0 "[]" "[]"] by (simp add: time_itoa_reverse_def)

text \<open>
  \<^verbatim>\<open>time_itoa\<close> writes a non-negative time as its decimal digits, most significant
  first and without leading zeros, so that reading it back as a decimal number gives the
  time.
\<close>

lemma time_itoa_correct:
  "0 \<le> n \<Longrightarrow> time_itoa n = dec (nat n) \<and> int (digits_value (time_itoa n)) = n"
  using digits_value_dec [of "[]" "nat n"] by (simp add: time_itoa_def itoa_digits_rev time_itoa_reverse_rev)

theorem time_itoa_witness: "time_itoa 1203 = dec (nat 1203) \<and> int (digits_value (time_itoa 1203)) = 1203"
  by (rule time_itoa_correct) simp

section \<open>Random jitter\<close>

text \<open>
  The random time \<^verbatim>\<open>ods_rand(mod)\<close> depends on how the program is built: with
  \<^verbatim>\<open>arc4random_uniform\<close> it is from 0 to \<open>mod\<close>, while the two fallback variants bind as
  \<open>(r mod m) + 1\<close>, so they never return 0, and trap on \<open>mod = 0\<close>.
\<close>

theorem ods_rand_range:
  assumes "0 \<le> m" "m < 2 ^ 32 - 1"
  shows "\<exists>v. ods_rand ARC4RANDOM_UNIFORM r m = Ok v \<and> 0 \<le> v \<and> v \<le> m \<and>
    (\<forall>variant. variant \<noteq> ARC4RANDOM_UNIFORM \<longrightarrow>
       ods_rand variant r 0 = Fault \<and> (m > 0 \<longrightarrow> (\<exists>v. ods_rand variant r m = Ok v \<and> 1 \<le> v \<and> v \<le> m)))"
proof -
  have u: "to_u32 m = nat m" using assms by (simp add: to_u32_def)
  have "r mod Suc (nat m) \<le> nat m" using mod_less_divisor [of "Suc (nat m)" r] by linarith
  then have "int (r mod Suc (nat m)) \<le> m" using assms by linarith
  moreover have "\<exists>v. ods_rand variant r m = Ok v \<and> 1 \<le> v \<and> v \<le> m" if "variant \<noteq> ARC4RANDOM_UNIFORM" "m > 0" for variant
    using that u pos_mod_bound [of m "int r"] by (cases variant) (auto simp: zmod_int simp flip: zless_iff_Suc_zadd add1_zle_eq)
  moreover have "ods_rand variant r 0 = Fault" if "variant \<noteq> ARC4RANDOM_UNIFORM" for variant
    using that by (cases variant) (simp_all add: to_u32_def)
  ultimately show ?thesis using assms u by (simp add: Let_def)
qed

theorem ods_rand_witness:
  "\<exists>v. ods_rand ARC4RANDOM_UNIFORM 17 5 = Ok v \<and> 0 \<le> v \<and> v \<le> 5 \<and>
    (\<forall>variant. variant \<noteq> ARC4RANDOM_UNIFORM \<longrightarrow>
       ods_rand variant 17 0 = Fault \<and> (\<exists>v. ods_rand variant 17 5 = Ok v \<and> 1 \<le> v \<and> v \<le> 5))"
  using ods_rand_range [of 5 17] by simp

end
