(* ===== verification/Fifoq.thy ===== *)
theory Fifoq
  imports Prelude
begin

text \<open>
  The bounded queue between the workers and the drudgers of the signer,
  \<^verbatim>\<open>signer/src/scheduler/fifoq.c\<close>: two arrays of \<^verbatim>\<open>FIFOQ_MAX_COUNT\<close> pointers and a count.
  A null pointer is \<open>None\<close>.  Broadcasts on the condition variables are returned as a list of
  signals; the queue is only used with its lock held, so each operation is one step.  The
  operations are on an existing queue: on a null pointer they return at once, with a null
  pointer or \<^verbatim>\<open>ODS_STATUS_ASSERT_ERR\<close>, and have no effect.
\<close>

section \<open>Model\<close>

definition FIFOQ_MAX_COUNT :: nat where "FIFOQ_MAX_COUNT = 1000"
definition FIFOQ_TRIES_COUNT :: int where "FIFOQ_TRIES_COUNT = 10"

record ('a, 'w) fifoq =
  blob :: "'a option list"
  owner :: "'w option list"
  count :: nat

datatype signal = q_threshold | q_nonfull

text \<open>The loop of \<^verbatim>\<open>fifoq_wipe\<close>, from index \<open>i\<close>.\<close>

function wipe_loop :: "nat \<Rightarrow> ('a, 'w) fifoq \<Rightarrow> ('a, 'w) fifoq exec" where
  "wipe_loop i q =
     (if i < FIFOQ_MAX_COUNT then
        exec_bind (mem_set (blob q) i None) (\<lambda>b.
        exec_bind (mem_set (owner q) i None) (\<lambda>w.
        wipe_loop (i + 1) (q\<lparr>blob := b, owner := w\<rparr>)))
      else Ok q)"
  by pat_completeness auto
termination
  by (relation "measure (\<lambda>(i, q). FIFOQ_MAX_COUNT - i)") auto

declare wipe_loop.simps [simp del]

definition fifoq_wipe :: "('a, 'w) fifoq \<Rightarrow> ('a, 'w) fifoq exec" where
  "fifoq_wipe q = exec_bind (wipe_loop 0 q) (\<lambda>q. Ok (q\<lparr>count := 0\<rparr>))"

text \<open>\<^verbatim>\<open>fifoq_create\<close> wipes whatever the allocator returned.\<close>

definition fifoq_create :: "('a, 'w) fifoq option \<Rightarrow> ('a, 'w) fifoq option exec" where
  "fifoq_create mem =
    (case mem of None \<Rightarrow> Ok None
     | Some q \<Rightarrow> exec_bind (fifoq_wipe q) (\<lambda>q. Ok (Some q)))"

text \<open>The loop of \<^verbatim>\<open>fifoq_pop\<close> that moves every element one place to the front.\<close>

function shift_loop :: "nat \<Rightarrow> ('a, 'w) fifoq \<Rightarrow> ('a, 'w) fifoq exec" where
  "shift_loop i q =
     (if i < count q - 1 then
        exec_bind (mem_get (blob q) (i + 1)) (\<lambda>x.
        exec_bind (mem_set (blob q) i x) (\<lambda>b.
        exec_bind (mem_get (owner q) (i + 1)) (\<lambda>y.
        exec_bind (mem_set (owner q) i y) (\<lambda>w.
        shift_loop (i + 1) (q\<lparr>blob := b, owner := w\<rparr>)))))
      else Ok q)"
  by pat_completeness auto
termination
  by (relation "measure (\<lambda>(i, q). count q - 1 - i)") auto

declare shift_loop.simps [simp del]

text \<open>
  The result is the item popped, the owner stored through \<^verbatim>\<open>worker\<close> (\<open>None\<close> when nothing is
  stored), the queue and the signals.
\<close>

definition fifoq_pop ::
  "('a, 'w) fifoq \<Rightarrow> ('a option \<times> 'w option option \<times> ('a, 'w) fifoq \<times> signal list) exec" where
  "fifoq_pop q =
    (if count q \<le> 0 then Ok (None, None, q, [])
     else
       exec_bind (mem_get (blob q) 0) (\<lambda>pop.
       exec_bind (mem_get (owner q) 0) (\<lambda>worker.
       exec_bind (shift_loop 0 q) (\<lambda>q.
       let q = q\<lparr>count := count q - 1\<rparr> in
       Ok (pop, Some worker, q, if 10 * count q \<le> FIFOQ_MAX_COUNT then [q_nonfull] else [])))))"

text \<open>The result is the status, the queue, the counter \<^verbatim>\<open>*tries\<close> and the signals.\<close>

definition fifoq_push ::
  "('a, 'w) fifoq \<Rightarrow> 'a option \<Rightarrow> 'w option \<Rightarrow> int \<Rightarrow>
   (ods_status \<times> ('a, 'w) fifoq \<times> int \<times> signal list) exec" where
  "fifoq_push q item worker tries =
    (if item = None \<or> worker = None then Ok (ODS_STATUS_ASSERT_ERR, q, tries, [])
     else if count q \<ge> FIFOQ_MAX_COUNT then
       (if tries > FIFOQ_TRIES_COUNT then Ok (ODS_STATUS_UNCHANGED, q, 0, [q_threshold])
        else Ok (ODS_STATUS_UNCHANGED, q, tries, []))
     else
       exec_bind (mem_set (blob q) (count q) item) (\<lambda>b.
       exec_bind (mem_set (owner q) (count q) worker) (\<lambda>w.
       let q = q\<lparr>blob := b, owner := w, count := count q + 1\<rparr> in
       Ok (ODS_STATUS_OK, q, tries, if count q = 1 then [q_threshold] else []))))"

section \<open>The interface: a bounded first-in first-out queue\<close>

text \<open>
  What the users of the queue rely on.  \<open>contents\<close> is the abstract queue, oldest element
  first.  A push on a queue with room appends, a push on a full queue changes nothing, a pop
  takes the oldest element, and drudgers are woken whenever the queue stops being empty.
\<close>

locale bounded_queue =
  fixes wf :: "'q \<Rightarrow> bool"
    and contents :: "'q \<Rightarrow> 'x list"
    and capacity :: nat
    and push :: "'q \<Rightarrow> 'x \<Rightarrow> int \<Rightarrow> (ods_status \<times> 'q \<times> int \<times> signal list) exec"
    and pop :: "'q \<Rightarrow> ('x option \<times> 'q \<times> signal list) exec"
  assumes push_room: "wf q \<Longrightarrow> length (contents q) < capacity \<Longrightarrow>
      \<exists>q' sig. push q x tries = Ok (ODS_STATUS_OK, q', tries, sig) \<and> wf q' \<and>
        contents q' = contents q @ [x] \<and> (q_threshold \<in> set sig \<longleftrightarrow> contents q = [])"
    and push_full: "wf q \<Longrightarrow> length (contents q) \<ge> capacity \<Longrightarrow>
      \<exists>tries' sig. push q x tries = Ok (ODS_STATUS_UNCHANGED, q, tries', sig)"
    and pop_empty: "wf q \<Longrightarrow> contents q = [] \<Longrightarrow> pop q = Ok (None, q, [])"
    and pop_cons: "wf q \<Longrightarrow> contents q = x # xs \<Longrightarrow>
      \<exists>q' sig. pop q = Ok (Some x, q', sig) \<and> wf q' \<and> contents q' = xs"

text \<open>A history of a queue: pushes and pops in the order in which the lock serialises them.\<close>

datatype 'x queue_op = Push 'x | Pop

text \<open>The elements accepted, the elements handed out, and the queue afterwards.\<close>

fun queue_run ::
  "('q \<Rightarrow> 'x \<Rightarrow> int \<Rightarrow> (ods_status \<times> 'q \<times> int \<times> signal list) exec) \<Rightarrow>
   ('q \<Rightarrow> ('x option \<times> 'q \<times> signal list) exec) \<Rightarrow>
   'x queue_op list \<Rightarrow> 'q \<Rightarrow> int \<Rightarrow> ('x list \<times> 'x list \<times> 'q) exec" where
  "queue_run push pop [] q tries = Ok ([], [], q)"
| "queue_run push pop (Push x # ops) q tries =
     exec_bind (push q x tries) (\<lambda>(st, q, tries, sig).
     exec_bind (queue_run push pop ops q (tries + 1)) (\<lambda>(ins, outs, q).
     Ok ((if st = ODS_STATUS_OK then [x] else []) @ ins, outs, q)))"
| "queue_run push pop (Pop # ops) q tries =
     exec_bind (pop q) (\<lambda>(y, q, sig).
     exec_bind (queue_run push pop ops q tries) (\<lambda>(ins, outs, q).
     Ok (ins, (case y of Some y \<Rightarrow> [y] | None \<Rightarrow> []) @ outs, q)))"

context bounded_queue
begin

lemma history_fifo:
  "wf q \<Longrightarrow> \<exists>ins outs q'. queue_run push pop ops q tries = Ok (ins, outs, q') \<and> wf q' \<and>
     contents q @ ins = outs @ contents q'"
proof (induction ops arbitrary: q tries)
  case (Cons op ops)
  show ?case
  proof (cases op)
    case (Push x)
    show ?thesis
    proof (cases "length (contents q) < capacity")
      case True
      with Cons.prems obtain q1 sig where p: "push q x tries = Ok (ODS_STATUS_OK, q1, tries, sig)" "wf q1"
        "contents q1 = contents q @ [x]" using push_room by blast
      with Cons.IH [of q1 "tries + 1"] Push show ?thesis by auto
    next
      case False
      with Cons.prems obtain tries' sig where "push q x tries = Ok (ODS_STATUS_UNCHANGED, q, tries', sig)"
        using push_full by (meson leI)
      with Cons.IH [of q "tries' + 1"] Cons.prems Push show ?thesis by auto
    qed
  next
    case Pop
    show ?thesis
    proof (cases "contents q")
      case Nil
      with Cons.IH [of q tries] Cons.prems Pop pop_empty [of q] show ?thesis by auto
    next
      case (Cons x xs)
      with Cons.prems obtain q1 sig where p: "pop q = Ok (Some x, q1, sig)" "wf q1" "contents q1 = xs"
        using pop_cons by blast
      with Cons.IH [of q1 tries] Pop Cons show ?thesis by auto
    qed
  qed
qed simp

end

section \<open>The model provides the interface\<close>

definition fifoq_wf :: "('a, 'w) fifoq \<Rightarrow> bool" where
  "fifoq_wf q \<longleftrightarrow> length (blob q) = FIFOQ_MAX_COUNT \<and> length (owner q) = FIFOQ_MAX_COUNT \<and>
     count q \<le> FIFOQ_MAX_COUNT \<and> (\<forall>i < count q. blob q ! i \<noteq> None \<and> owner q ! i \<noteq> None)"

definition fifoq_contents :: "('a, 'w) fifoq \<Rightarrow> ('a \<times> 'w) list" where
  "fifoq_contents q = map (\<lambda>i. (the (blob q ! i), the (owner q ! i))) [0..<count q]"

text \<open>The calls as the workers make them: with an item and an owner.\<close>

definition fifoq_enqueue ::
  "('a, 'w) fifoq \<Rightarrow> 'a \<times> 'w \<Rightarrow> int \<Rightarrow> (ods_status \<times> ('a, 'w) fifoq \<times> int \<times> signal list) exec" where
  "fifoq_enqueue q x tries = fifoq_push q (Some (fst x)) (Some (snd x)) tries"

definition fifoq_dequeue :: "('a, 'w) fifoq \<Rightarrow> (('a \<times> 'w) option \<times> ('a, 'w) fifoq \<times> signal list) exec" where
  "fifoq_dequeue q =
     exec_bind (fifoq_pop q) (\<lambda>(pop, worker, q, sig).
       case (pop, worker) of (Some x, Some (Some w)) \<Rightarrow> Ok (Some (x, w), q, sig) | _ \<Rightarrow> Ok (None, q, sig))"

lemma length_contents [simp]: "length (fifoq_contents q) = count q"
  by (simp add: fifoq_contents_def)

lemma contents_Nil [simp]: "fifoq_contents q = [] \<longleftrightarrow> count q = 0"
  by (simp add: fifoq_contents_def)

lemma wipe_loop_eval:
  "length (blob q) = FIFOQ_MAX_COUNT \<Longrightarrow> length (owner q) = FIFOQ_MAX_COUNT \<Longrightarrow> i \<le> FIFOQ_MAX_COUNT \<Longrightarrow>
   \<exists>b w. wipe_loop i q = Ok (q\<lparr>blob := b, owner := w\<rparr>) \<and> length b = FIFOQ_MAX_COUNT \<and> length w = FIFOQ_MAX_COUNT"
proof (induction i q rule: wipe_loop.induct)
  case (1 i q)
  show ?case
  proof (cases "i < FIFOQ_MAX_COUNT")
    case True
    then have "mem_set (blob q) i None = Ok ((blob q)[i := None])" "mem_set (owner q) i None = Ok ((owner q)[i := None])"
      using 1 by (simp_all add: mem_set_def)
    with 1(1) [OF True this] 1 True show ?thesis by (simp add: wipe_loop.simps [of i])
  next
    case False
    then show ?thesis using 1 by (intro exI [of _ "blob q"] exI [of _ "owner q"]) (simp add: wipe_loop.simps [of FIFOQ_MAX_COUNT])
  qed
qed

text \<open>
  The shift loop, started at \<open>i\<close>, leaves the elements before \<open>i\<close> alone and moves those after
  it one place down.
\<close>

lemma shift_loop_eval:
  "count q \<le> length (blob q) \<Longrightarrow> length (owner q) = length (blob q) \<Longrightarrow> i \<le> count q - 1 \<Longrightarrow>
   \<exists>b w. shift_loop i q = Ok (q\<lparr>blob := b, owner := w\<rparr>) \<and> length b = length (blob q) \<and> length w = length (blob q) \<and>
     (\<forall>j < count q - 1. b ! j = blob q ! (if j < i then j else j + 1) \<and>
                        w ! j = owner q ! (if j < i then j else j + 1))"
proof (induction i q rule: shift_loop.induct)
  case (1 i q)
  show ?case
  proof (cases "i < count q - 1")
    case True
    let ?q = "q\<lparr>blob := (blob q)[i := blob q ! (i + 1)], owner := (owner q)[i := owner q ! (i + 1)]\<rparr>"
    have step: "mem_get (blob q) (i + 1) = Ok (blob q ! (i + 1))"
      "mem_set (blob q) i (blob q ! (i + 1)) = Ok ((blob q)[i := blob q ! (i + 1)])"
      "mem_get (owner q) (i + 1) = Ok (owner q ! (i + 1))"
      "mem_set (owner q) i (owner q ! (i + 1)) = Ok ((owner q)[i := owner q ! (i + 1)])"
      using 1 True by (simp_all add: mem_set_def mem_get_def)
    obtain b w where bw: "shift_loop (i + 1) ?q = Ok (?q\<lparr>blob := b, owner := w\<rparr>)"
      "length b = length (blob q)" "length w = length (blob q)"
      "\<forall>j < count q - 1. b ! j = blob ?q ! (if j < i + 1 then j else j + 1) \<and>
                        w ! j = owner ?q ! (if j < i + 1 then j else j + 1)"
      using 1(1) [OF True step] 1 True by auto
    moreover have "shift_loop i q = shift_loop (i + 1) ?q"
      using True step by (simp add: shift_loop.simps [of i])
    ultimately show ?thesis using 1 True
      by (intro exI [of _ b] exI [of _ w]) (auto simp: nth_list_update less_Suc_eq)
  next
    case False
    then have "shift_loop i q = Ok q" by (simp add: shift_loop.simps [of i])
    then show ?thesis using False 1 by (intro exI [of _ "blob q"] exI [of _ "owner q"]) auto
  qed
qed

lemma fifoq_pop_eval:
  assumes "fifoq_wf q" "count q > 0"
  shows "\<exists>q' sig. fifoq_pop q = Ok (blob q ! 0, Some (owner q ! 0), q', sig) \<and> fifoq_wf q' \<and>
    fifoq_contents q' = tl (fifoq_contents q) \<and> (q_nonfull \<in> set sig \<longleftrightarrow> count q' \<le> 100)"
proof -
  have wf: "length (blob q) = FIFOQ_MAX_COUNT" "length (owner q) = FIFOQ_MAX_COUNT" "count q \<le> FIFOQ_MAX_COUNT"
    and some: "\<And>i. i < count q \<Longrightarrow> blob q ! i \<noteq> None \<and> owner q ! i \<noteq> None"
    using assms by (auto simp: fifoq_wf_def)
  obtain b w where s: "shift_loop 0 q = Ok (q\<lparr>blob := b, owner := w\<rparr>)" "length b = FIFOQ_MAX_COUNT"
    "length w = FIFOQ_MAX_COUNT" "\<forall>j < count q - 1. b ! j = blob q ! (j + 1) \<and> w ! j = owner q ! (j + 1)"
    using shift_loop_eval [of q 0] wf by auto
  let ?q = "q\<lparr>blob := b, owner := w, count := count q - 1\<rparr>"
  have "mem_get (blob q) 0 = Ok (blob q ! 0)" "mem_get (owner q) 0 = Ok (owner q ! 0)"
    using wf assms by (simp_all add: mem_get_def)
  then have "fifoq_pop q = Ok (blob q ! 0, Some (owner q ! 0), ?q,
      if 10 * count ?q \<le> FIFOQ_MAX_COUNT then [q_nonfull] else [])"
    using assms s by (simp add: fifoq_pop_def Let_def)
  moreover have "fifoq_wf ?q" using wf s some [of "Suc i" for i] by (simp add: fifoq_wf_def)
  moreover have "fifoq_contents ?q = tl (fifoq_contents q)"
    using s(4) by (intro nth_equalityI) (auto simp: fifoq_contents_def nth_tl)
  ultimately show ?thesis by (auto simp: FIFOQ_MAX_COUNT_def)
qed

lemma fifoq_push_eval:
  assumes "fifoq_wf q" "count q < FIFOQ_MAX_COUNT"
  shows "\<exists>q' sig. fifoq_push q (Some x) (Some w) tries = Ok (ODS_STATUS_OK, q', tries, sig) \<and> fifoq_wf q' \<and>
    fifoq_contents q' = fifoq_contents q @ [(x, w)] \<and> (q_threshold \<in> set sig \<longleftrightarrow> count q = 0)"
proof -
  let ?q = "q\<lparr>blob := (blob q)[count q := Some x], owner := (owner q)[count q := Some w], count := count q + 1\<rparr>"
  have "fifoq_push q (Some x) (Some w) tries = Ok (ODS_STATUS_OK, ?q, tries, if count ?q = 1 then [q_threshold] else [])"
    using assms by (simp add: fifoq_push_def mem_set_def fifoq_wf_def)
  moreover have "fifoq_wf ?q" using assms by (auto simp: fifoq_wf_def nth_list_update less_Suc_eq)
  moreover have "fifoq_contents ?q = fifoq_contents q @ [(x, w)]"
    using assms by (auto simp: fifoq_contents_def fifoq_wf_def)
  ultimately show ?thesis by auto
qed

interpretation fq: bounded_queue fifoq_wf fifoq_contents FIFOQ_MAX_COUNT fifoq_enqueue fifoq_dequeue
proof (unfold_locales, goal_cases)
  case (1 q x tries)
  then show ?case
    using fifoq_push_eval [of q "fst x" "snd x" tries] by (simp add: fifoq_enqueue_def)
next
  case (2 q x tries)
  then show ?case by (simp add: fifoq_enqueue_def fifoq_push_def)
next
  case (3 q)
  then show ?case by (simp add: fifoq_dequeue_def fifoq_pop_def)
next
  case (4 q x xs)
  then have c: "count q > 0" using contents_Nil [of q] by (metis gr0I list.distinct(1))
  then obtain y w where "blob q ! 0 = Some y" "owner q ! 0 = Some w"
    using 4(1) by (auto simp: fifoq_wf_def)
  moreover have "x = (the (blob q ! 0), the (owner q ! 0))"
    using 4(2) c by (simp add: fifoq_contents_def upt_conv_Cons)
  ultimately show ?case
    using fifoq_pop_eval [OF 4(1) c] 4(2) by (auto simp: fifoq_dequeue_def)
qed

lemma fifoq_create_eval:
  assumes "length (blob mem) = FIFOQ_MAX_COUNT" "length (owner mem) = FIFOQ_MAX_COUNT"
  shows "\<exists>q. fifoq_create (Some mem) = Ok (Some q) \<and> fifoq_wf q \<and> fifoq_contents q = []"
  using wipe_loop_eval [of mem 0] assms
  by (auto simp: fifoq_create_def fifoq_wipe_def fifoq_wf_def)

text \<open>
  C26. Whatever workers and drudgers do with a fresh queue, in whatever order the lock lets
  them, every operation returns without touching memory outside the arrays, and the
  elements accepted by the pushes are, in order, the elements handed out by the pops
  followed by those still queued: nothing is lost, duplicated or reordered, owners stay with
  their items, and at most \<^verbatim>\<open>FIFOQ_MAX_COUNT\<close> elements are queued.
\<close>

theorem fifoq_history:
  assumes "length (blob mem) = FIFOQ_MAX_COUNT" "length (owner mem) = FIFOQ_MAX_COUNT"
  shows "\<exists>q ins outs q'. fifoq_create (Some mem) = Ok (Some q) \<and>
    queue_run fifoq_enqueue fifoq_dequeue ops q tries = Ok (ins, outs, q') \<and>
    ins = outs @ fifoq_contents q' \<and> count q' \<le> FIFOQ_MAX_COUNT"
proof -
  obtain q where q: "fifoq_create (Some mem) = Ok (Some q)" "fifoq_wf q" "fifoq_contents q = []"
    using fifoq_create_eval [OF assms] by blast
  from fq.history_fifo [OF q(2), of ops tries] obtain ins outs q' where
    "queue_run fifoq_enqueue fifoq_dequeue ops q tries = Ok (ins, outs, q')" "fifoq_wf q'"
    "[] @ ins = outs @ fifoq_contents q'" unfolding q(3) by blast
  with q(1) show ?thesis by (auto simp: fifoq_wf_def)
qed

text \<open>Witness: two pushes and a pop.\<close>

theorem fifoq_history_witness:
  "\<exists>q ins outs q'.
    fifoq_create (Some \<lparr>blob = replicate 1000 None, owner = replicate 1000 None, count = 7\<rparr>) = Ok (Some q) \<and>
    queue_run fifoq_enqueue fifoq_dequeue [Push (5 :: nat, True), Push (6, False), Pop] q 0 = Ok (ins, outs, q') \<and>
    ins = outs @ fifoq_contents q' \<and> count q' \<le> FIFOQ_MAX_COUNT"
  by (rule fifoq_history) (simp_all add: FIFOQ_MAX_COUNT_def)

end
