(* ===== verification/Task.thy ===== *)
theory Task
  imports Cstring
begin

text \<open>
  Tasks, \<^verbatim>\<open>signer/src/scheduler/task.c\<close>: what a worker has to do next with a zone, and when.
  The zone pointer of a task is represented by what the scheduler uses of the zone, its apex
  name, of a type \<open>'z\<close>; the comparison of names, \<^verbatim>\<open>ldns_dname_compare\<close>, is library code and a
  parameter.
\<close>

section \<open>Model\<close>

datatype task_id = TASK_NONE | TASK_SIGNCONF | TASK_READ | TASK_NSECIFY | TASK_SIGN | TASK_WRITE

fun task_id_num :: "task_id \<Rightarrow> int" where
  "task_id_num TASK_NONE = 0"
| "task_id_num TASK_SIGNCONF = 1"
| "task_id_num TASK_READ = 2"
| "task_id_num TASK_NSECIFY = 3"
| "task_id_num TASK_SIGN = 4"
| "task_id_num TASK_WRITE = 5"

text \<open>The sources compare task identifiers as numbers.\<close>

instantiation task_id :: linorder
begin

definition less_eq_task_id :: "task_id \<Rightarrow> task_id \<Rightarrow> bool" where
  "less_eq_task_id a b \<longleftrightarrow> task_id_num a \<le> task_id_num b"

definition less_task_id :: "task_id \<Rightarrow> task_id \<Rightarrow> bool" where
  "less_task_id a b \<longleftrightarrow> task_id_num a < task_id_num b"

instance
proof
  fix a b c :: task_id
  show "a < b \<longleftrightarrow> a \<le> b \<and> \<not> b \<le> a" by (auto simp: less_eq_task_id_def less_task_id_def)
  show "a \<le> a" by (simp add: less_eq_task_id_def)
  show "a \<le> b \<Longrightarrow> b \<le> c \<Longrightarrow> a \<le> c" by (simp add: less_eq_task_id_def)
  show "a \<le> b \<Longrightarrow> b \<le> a \<Longrightarrow> a = b" by (cases a; cases b) (auto simp: less_eq_task_id_def)
  show "a \<le> b \<or> b \<le> a" by (auto simp: less_eq_task_id_def)
qed

end

record 'z task =
  what :: task_id
  interrupt :: task_id
  halted :: task_id
  when_t :: time_t
  halted_when :: time_t
  backoff :: time_t
  flush :: bool
  zone :: 'z

definition task_create :: "task_id \<Rightarrow> time_t \<Rightarrow> 'z option \<Rightarrow> 'z task option" where
  "task_create wh at z =
    (case z of None \<Rightarrow> None
     | Some z \<Rightarrow> Some \<lparr>what = wh, interrupt = TASK_NONE, halted = TASK_NONE, when_t = at, halted_when = 0,
         backoff = 0, flush = False, zone = z\<rparr>)"

text \<open>
  The cast in \<^verbatim>\<open>(int) x->when - y->when\<close> is on the first operand only; the difference is a
  \<^verbatim>\<open>time_t\<close>, converted to \<^verbatim>\<open>int\<close> when it is returned.
\<close>

definition task_compare :: "('z \<Rightarrow> 'z \<Rightarrow> int) \<Rightarrow> 'z task \<Rightarrow> 'z task \<Rightarrow> int" where
  "task_compare dname_compare x y =
    (if dname_compare (zone x) (zone y) = 0 then 0
     else if when_t x \<noteq> when_t y then to_int (to_int (when_t x) - when_t y)
     else if what x \<noteq> what y then task_id_num (what x) - task_id_num (what y)
     else dname_compare (zone x) (zone y))"

definition task_what2str :: "task_id \<Rightarrow> string" where
  "task_what2str w =
    (case w of TASK_NONE \<Rightarrow> ''[ignore]'' | TASK_SIGNCONF \<Rightarrow> ''[configure]'' | TASK_READ \<Rightarrow> ''[read]''
     | TASK_SIGN \<Rightarrow> ''[sign]'' | TASK_WRITE \<Rightarrow> ''[write]'' | _ \<Rightarrow> ''[???]'')"

section \<open>The order of tasks\<close>

text \<open>What the code relies on of \<^verbatim>\<open>ldns_dname_compare\<close>: it is a total order on names.\<close>

definition dname_order :: "('z \<Rightarrow> 'z \<Rightarrow> int) \<Rightarrow> bool" where
  "dname_order cmp \<longleftrightarrow>
     (\<forall>a b. sgn (cmp a b) = - sgn (cmp b a)) \<and>
     (\<forall>a b c. cmp a b \<le> 0 \<longrightarrow> cmp b c \<le> 0 \<longrightarrow> cmp a c \<le> 0)"

lemma dname_order_refl: "dname_order cmp \<Longrightarrow> cmp a a = 0"
  by (metis dname_order_def neg_equal_iff_equal neg_equal_zero sgn_0_0)

lemma dname_order_sym:
  assumes "dname_order cmp"
  shows "cmp a b < 0 \<longleftrightarrow> cmp b a > 0" "cmp a b = 0 \<longleftrightarrow> cmp b a = 0"
proof -
  have "sgn (cmp a b) = - sgn (cmp b a)" using assms unfolding dname_order_def by blast
  then show "cmp a b < 0 \<longleftrightarrow> cmp b a > 0" "cmp a b = 0 \<longleftrightarrow> cmp b a = 0"
    by (auto simp: sgn_if split: if_splits)
qed

lemma dname_order_trans:
  assumes "dname_order cmp" "cmp a b < 0" "cmp b c < 0"
  shows "cmp a c < 0"
proof -
  have le: "cmp a c \<le> 0" using assms unfolding dname_order_def by (meson less_imp_le)
  have "cmp a c \<noteq> 0"
  proof
    assume "cmp a c = 0"
    then have "cmp c a \<le> 0" using dname_order_sym(2) [OF assms(1)] by (metis order.refl)
    with assms have "cmp c b \<le> 0" unfolding dname_order_def by (meson less_imp_le)
    then show False using assms(3) dname_order_sym(1) [OF assms(1), of b c] by simp
  qed
  with le show ?thesis by simp
qed

text \<open>The times for which the comparison of two times does not overflow an \<^verbatim>\<open>int\<close>.\<close>

definition task_ok :: "'z task \<Rightarrow> bool" where
  "task_ok x \<longleftrightarrow> 0 \<le> when_t x \<and> when_t x < 2 ^ 31"

definition task_less :: "('z \<Rightarrow> 'z \<Rightarrow> int) \<Rightarrow> 'z task \<Rightarrow> 'z task \<Rightarrow> bool" where
  "task_less cmp x y \<longleftrightarrow> when_t x < when_t y \<or> when_t x = when_t y \<and>
     (what x < what y \<or> what x = what y \<and> cmp (zone x) (zone y) < 0)"

lemma task_id_num_inj: "task_id_num a = task_id_num b \<longleftrightarrow> a = b"
  by (cases a; cases b) auto

text \<open>
  On tasks of different zones the comparison is a total order: by time, by what to do, by
  name.
\<close>

lemma task_compare_less:
  assumes "task_ok x" "task_ok y" "cmp (zone x) (zone y) \<noteq> 0"
  shows "task_compare cmp x y < 0 \<longleftrightarrow> task_less cmp x y"
  using assms by (auto simp: task_compare_def task_less_def task_ok_def to_int_id less_task_id_def)

lemma task_compare_sym:
  assumes "dname_order cmp" "task_ok x" "task_ok y"
  shows "task_compare cmp x y > 0 \<longleftrightarrow> task_compare cmp y x < 0" "task_compare cmp x y = 0 \<longleftrightarrow> task_compare cmp y x = 0"
  using assms dname_order_sym [OF assms(1), of "zone x" "zone y"] dname_order_sym [OF assms(1), of "zone y" "zone x"]
  by (auto simp: task_compare_def task_ok_def to_int_id)

lemma task_compare_zero:
  assumes "task_ok x" "task_ok y"
  shows "task_compare cmp x y = 0 \<longleftrightarrow> cmp (zone x) (zone y) = 0"
  using assms by (auto simp: task_compare_def task_ok_def to_int_id task_id_num_inj)

lemma task_less_trans:
  "dname_order cmp \<Longrightarrow> task_less cmp x y \<Longrightarrow> task_less cmp y z \<Longrightarrow> task_less cmp x z"
  using dname_order_trans [of cmp "zone x" "zone y" "zone z"] by (auto simp: task_less_def)

lemma task_less_linear:
  "dname_order cmp \<Longrightarrow> cmp (zone x) (zone y) \<noteq> 0 \<Longrightarrow> task_less cmp x y \<or> task_less cmp y x"
  using dname_order_sym [of cmp "zone x" "zone y"] by (auto simp: task_less_def) 

end
