(* ===== verification/Rbtree.thy ===== *)
theory Rbtree
  imports Prelude "HOL-Library.Tree"
begin

text \<open>
  The search trees of ldns (\<^verbatim>\<open>ldns_rbtree_t\<close>) are library code.  The model takes their
  operations as a parameter, a record of functions, and states what the library documents of
  them: a tree is a sequence of nodes (the order in which \<^verbatim>\<open>ldns_rbtree_first\<close> and
  \<^verbatim>\<open>ldns_rbtree_next\<close> visit them), each a key and a data pointer, and searching, inserting and
  deleting work by comparing keys.  The comparison function is an argument of every operation,
  because the keys are pointers to objects that the program changes while they are in a tree.
\<close>

section \<open>Operations\<close>

record ('t, 'k, 'd) rbtree =
  rb_create :: 't
  rb_search :: "('k \<Rightarrow> 'k \<Rightarrow> int) \<Rightarrow> 't \<Rightarrow> 'k \<Rightarrow> 'd option"
  rb_insert :: "('k \<Rightarrow> 'k \<Rightarrow> int) \<Rightarrow> 't \<Rightarrow> 'k \<Rightarrow> 'd \<Rightarrow> 't option"
  rb_delete :: "('k \<Rightarrow> 'k \<Rightarrow> int) \<Rightarrow> 't \<Rightarrow> 'k \<Rightarrow> ('d \<times> 't) option"
  rb_nodes :: "'t \<Rightarrow> ('k \<times> 'd) list"

section \<open>Contract\<close>

text \<open>
  Descending a search tree for the key \<open>k\<close> is only meaningful if, along the nodes, \<open>k\<close>
  compares greater first, then equal to at most one node, then less.
\<close>

definition keys_before :: "('k \<Rightarrow> 'k \<Rightarrow> int) \<Rightarrow> 'k \<Rightarrow> ('k \<times> 'd) list \<Rightarrow> ('k \<times> 'd) list" where
  "keys_before cmp k ns = takeWhile (\<lambda>n. cmp k (fst n) > 0) ns"

definition keys_from :: "('k \<Rightarrow> 'k \<Rightarrow> int) \<Rightarrow> 'k \<Rightarrow> ('k \<times> 'd) list \<Rightarrow> ('k \<times> 'd) list" where
  "keys_from cmp k ns = dropWhile (\<lambda>n. cmp k (fst n) > 0) ns"

definition positioned :: "('k \<Rightarrow> 'k \<Rightarrow> int) \<Rightarrow> 'k \<Rightarrow> ('k \<times> 'd) list \<Rightarrow> bool" where
  "positioned cmp k ns \<longleftrightarrow>
     (case keys_from cmp k ns of [] \<Rightarrow> True | n # ms \<Rightarrow> \<forall>m \<in> set ms. cmp k (fst m) < 0)"

text \<open>The node found, if any.\<close>

definition lookup :: "('k \<Rightarrow> 'k \<Rightarrow> int) \<Rightarrow> 'k \<Rightarrow> ('k \<times> 'd) list \<Rightarrow> 'd option" where
  "lookup cmp k ns =
     (case keys_from cmp k ns of n # ms \<Rightarrow> if cmp k (fst n) = 0 then Some (snd n) else None | [] \<Rightarrow> None)"

definition rbtree_law :: "('t, 'k, 'd) rbtree \<Rightarrow> ('k \<Rightarrow> 'k \<Rightarrow> int) \<Rightarrow> 't \<Rightarrow> 'k \<Rightarrow> bool" where
  "rbtree_law rb cmp t k \<longleftrightarrow>
     (let ns = rb_nodes rb t in
      rb_search rb cmp t k = lookup cmp k ns \<and>
      (case lookup cmp k ns of
         None \<Rightarrow> rb_delete rb cmp t k = None \<and>
           (\<forall>d. \<exists>t'. rb_insert rb cmp t k d = Some t' \<and>
              rb_nodes rb t' = keys_before cmp k ns @ (k, d) # keys_from cmp k ns)
       | Some e \<Rightarrow> (\<forall>d. rb_insert rb cmp t k d = None) \<and>
           (\<exists>t'. rb_delete rb cmp t k = Some (e, t') \<and>
              rb_nodes rb t' = keys_before cmp k ns @ tl (keys_from cmp k ns))))"

definition rbtree_contract :: "('t, 'k, 'd) rbtree \<Rightarrow> bool" where
  "rbtree_contract rb \<longleftrightarrow>
     rb_nodes rb (rb_create rb) = [] \<and>
     (\<forall>cmp t k. positioned cmp k (rb_nodes rb t) \<longrightarrow> rbtree_law rb cmp t k)"

lemma rb_create_nodes: "rbtree_contract rb \<Longrightarrow> rb_nodes rb (rb_create rb) = []"
  by (simp add: rbtree_contract_def)

lemma rbtree_contractD: "rbtree_contract rb \<Longrightarrow> positioned cmp k (rb_nodes rb t) \<Longrightarrow> rbtree_law rb cmp t k"
  by (simp add: rbtree_contract_def)

lemma above_upto: "keys_before cmp k ns @ keys_from cmp k ns = ns"
  by (simp add: keys_before_def keys_from_def)

section \<open>Positions in a sequence of nodes\<close>

lemma split_above:
  assumes "\<forall>n \<in> set xs. cmp k (fst n) > 0" "ys = [] \<or> cmp k (fst (hd ys)) \<le> 0"
  shows "keys_before cmp k (xs @ ys) = xs" "keys_from cmp k (xs @ ys) = ys"
  using assms by (cases ys; auto simp: keys_before_def keys_from_def takeWhile_append dropWhile_append)+

text \<open>Where \<open>k\<close> is between two groups of nodes, or on a node.\<close>

lemma position_between:
  assumes "\<forall>n \<in> set xs. cmp k (fst n) > 0" "\<forall>n \<in> set ys. cmp k (fst n) < 0"
  shows "keys_before cmp k (xs @ ys) = xs" "keys_from cmp k (xs @ ys) = ys" "positioned cmp k (xs @ ys)"
    "lookup cmp k (xs @ ys) = None"
  using assms split_above [of xs cmp k ys] by (cases ys; auto simp: positioned_def lookup_def)+

lemma position_on:
  assumes "\<forall>n \<in> set xs. cmp k (fst n) > 0" "cmp k (fst n) = 0" "\<forall>n \<in> set ys. cmp k (fst n) < 0"
  shows "keys_before cmp k (xs @ n # ys) = xs" "keys_from cmp k (xs @ n # ys) = n # ys" "positioned cmp k (xs @ n # ys)"
    "lookup cmp k (xs @ n # ys) = Some (snd n)"
  using assms split_above [of xs cmp k "n # ys"] by (auto simp: positioned_def lookup_def)

lemma positioned_cases:
  assumes "positioned cmp k ns"
  obtains (between) xs ys where "ns = xs @ ys" "\<forall>n \<in> set xs. cmp k (fst n) > 0" "\<forall>n \<in> set ys. cmp k (fst n) < 0"
  | (on) xs n ys where "ns = xs @ n # ys" "\<forall>n \<in> set xs. cmp k (fst n) > 0" "cmp k (fst n) = 0"
      "\<forall>n \<in> set ys. cmp k (fst n) < 0"
proof -
  let ?xs = "keys_before cmp k ns" and ?ys = "keys_from cmp k ns"
  have xs: "\<forall>n \<in> set ?xs. cmp k (fst n) > 0" by (auto simp: keys_before_def dest: set_takeWhileD)
  have split: "ns = ?xs @ ?ys" by (simp add: above_upto)
  show ?thesis
  proof (cases ?ys)
    case Nil
    then show ?thesis using between [of ?xs "[]"] xs split by simp
  next
    case (Cons n ys)
    then have "cmp k (fst n) \<le> 0" by (auto simp: keys_from_def dropWhile_eq_Cons_conv)
    moreover have "\<forall>m \<in> set ys. cmp k (fst m) < 0" using assms Cons by (simp add: positioned_def)
    ultimately show ?thesis using between [of ?xs "n # ys"] on [of ?xs n ys] xs split Cons by fastforce
  qed
qed

text \<open>The contract for a key that is between two groups of nodes, and for one that is on a node.\<close>

lemma rb_between:
  assumes rb: "rbtree_contract rb" and ns: "rb_nodes rb t = xs @ ys"
    and "\<forall>n \<in> set xs. cmp k (fst n) > 0" "\<forall>n \<in> set ys. cmp k (fst n) < 0"
  shows "rb_search rb cmp t k = None" "rb_delete rb cmp t k = None"
    "\<exists>t'. rb_insert rb cmp t k d = Some t' \<and> rb_nodes rb t' = xs @ (k, d) # ys"
  using rbtree_contractD [OF rb, of cmp k t] position_between [of xs cmp k ys] assms
  by (auto simp: rbtree_law_def)

lemma rb_on:
  assumes rb: "rbtree_contract rb" and ns: "rb_nodes rb t = xs @ n # ys"
    and "\<forall>n \<in> set xs. cmp k (fst n) > 0" "cmp k (fst n) = 0" "\<forall>n \<in> set ys. cmp k (fst n) < 0"
  shows "rb_search rb cmp t k = Some (snd n)" "rb_insert rb cmp t k d = None"
    "\<exists>t'. rb_delete rb cmp t k = Some (snd n, t') \<and> rb_nodes rb t' = xs @ ys"
  using rbtree_contractD [OF rb, of cmp k t] position_on [of xs cmp k n ys] assms
  by (auto simp: rbtree_law_def)

section \<open>A search tree that keeps the contract\<close>

text \<open>
  Unbalanced binary search trees, descended as ldns descends its trees: the key is compared
  with the node, and the search goes left if it is less and right if it is greater.
\<close>

fun bst_search :: "('k \<Rightarrow> 'k \<Rightarrow> int) \<Rightarrow> ('k \<times> 'd) tree \<Rightarrow> 'k \<Rightarrow> 'd option" where
  "bst_search cmp Leaf k = None"
| "bst_search cmp (Node l n r) k =
     (if cmp k (fst n) = 0 then Some (snd n)
      else if cmp k (fst n) < 0 then bst_search cmp l k else bst_search cmp r k)"

fun bst_insert :: "('k \<Rightarrow> 'k \<Rightarrow> int) \<Rightarrow> ('k \<times> 'd) tree \<Rightarrow> 'k \<Rightarrow> 'd \<Rightarrow> ('k \<times> 'd) tree option" where
  "bst_insert cmp Leaf k d = Some (Node Leaf (k, d) Leaf)"
| "bst_insert cmp (Node l n r) k d =
     (if cmp k (fst n) = 0 then None
      else if cmp k (fst n) < 0 then map_option (\<lambda>l. Node l n r) (bst_insert cmp l k d)
      else map_option (\<lambda>r. Node l n r) (bst_insert cmp r k d))"

fun bst_join :: "'a tree \<Rightarrow> 'a tree \<Rightarrow> 'a tree" where
  "bst_join l Leaf = l"
| "bst_join l (Node rl n rr) = Node (bst_join l rl) n rr"

fun bst_delete :: "('k \<Rightarrow> 'k \<Rightarrow> int) \<Rightarrow> ('k \<times> 'd) tree \<Rightarrow> 'k \<Rightarrow> ('d \<times> ('k \<times> 'd) tree) option" where
  "bst_delete cmp Leaf k = None"
| "bst_delete cmp (Node l n r) k =
     (if cmp k (fst n) = 0 then Some (snd n, bst_join l r)
      else if cmp k (fst n) < 0 then map_option (\<lambda>(d, l). (d, Node l n r)) (bst_delete cmp l k)
      else map_option (\<lambda>(d, r). (d, Node l n r)) (bst_delete cmp r k))"

definition bst :: "(('k \<times> 'd) tree, 'k, 'd) rbtree" where
  "bst = \<lparr>rb_create = Leaf, rb_search = bst_search, rb_insert = bst_insert, rb_delete = bst_delete,
     rb_nodes = inorder\<rparr>"

lemma inorder_join [simp]: "inorder (bst_join l r) = inorder l @ inorder r"
  by (induction r) auto

text \<open>Cutting a positioned sequence at a node.\<close>

lemma split_less:
  assumes "cmp k (fst n) < 0"
  shows "keys_before cmp k (xs @ n # ys) = keys_before cmp k xs" "keys_from cmp k (xs @ n # ys) = keys_from cmp k xs @ n # ys"
  using assms by (induction xs) (auto simp: keys_before_def keys_from_def)

lemma split_greater:
  assumes "cmp k (fst n) > 0" "\<forall>m \<in> set xs. cmp k (fst m) > 0"
  shows "keys_before cmp k (xs @ n # ys) = xs @ n # keys_before cmp k ys" "keys_from cmp k (xs @ n # ys) = keys_from cmp k ys"
  using assms by (auto simp: keys_before_def keys_from_def takeWhile_append dropWhile_append)

lemma positioned_less:
  assumes "positioned cmp k (xs @ n # ys)" "cmp k (fst n) < 0"
  shows "positioned cmp k xs" "lookup cmp k (xs @ n # ys) = lookup cmp k xs"
  using assms by (cases "keys_from cmp k xs"; simp add: positioned_def lookup_def split_less)+

lemma positioned_greater:
  assumes "positioned cmp k (xs @ n # ys)" "cmp k (fst n) > 0"
  shows "\<forall>m \<in> set xs. cmp k (fst m) > 0" "positioned cmp k ys" "lookup cmp k (xs @ n # ys) = lookup cmp k ys"
proof -
  show *: "\<forall>m \<in> set xs. cmp k (fst m) > 0"
  proof (rule ccontr)
    assume "\<not> ?thesis"
    then obtain m where m: "m \<in> set xs" "\<not> cmp k (fst m) > 0" by blast
    then have "keys_from cmp k (xs @ n # ys) = keys_from cmp k xs @ n # ys"
      by (simp add: keys_from_def dropWhile_append1)
    moreover have "keys_from cmp k xs \<noteq> []" using m by (auto simp: keys_from_def dropWhile_eq_Nil_conv)
    ultimately show False using assms by (cases "keys_from cmp k xs") (auto simp: positioned_def)
  qed
  show "positioned cmp k ys" "lookup cmp k (xs @ n # ys) = lookup cmp k ys"
    using assms split_greater [of cmp k n xs ys] * by (auto simp: positioned_def lookup_def)
qed

lemma positioned_equal:
  assumes "positioned cmp k (xs @ n # ys)" "cmp k (fst n) = 0"
  shows "keys_before cmp k (xs @ n # ys) = xs" "keys_from cmp k (xs @ n # ys) = n # ys"
    "lookup cmp k (xs @ n # ys) = Some (snd n)"
proof -
  have *: "\<forall>m \<in> set xs. cmp k (fst m) > 0"
  proof (rule ccontr)
    assume "\<not> ?thesis"
    then obtain m where m: "m \<in> set xs" "\<not> cmp k (fst m) > 0" by blast
    then have "keys_from cmp k (xs @ n # ys) = keys_from cmp k xs @ n # ys"
      by (simp add: keys_from_def dropWhile_append1)
    moreover have "keys_from cmp k xs \<noteq> []" using m by (auto simp: keys_from_def dropWhile_eq_Nil_conv)
    ultimately show False using assms by (cases "keys_from cmp k xs") (auto simp: positioned_def)
  qed
  then show "keys_before cmp k (xs @ n # ys) = xs" "keys_from cmp k (xs @ n # ys) = n # ys"
    using split_above [of xs cmp k "n # ys"] assms by auto
  then show "lookup cmp k (xs @ n # ys) = Some (snd n)" using assms by (simp add: lookup_def)
qed

text \<open>The three operations, each by cases on the comparison with the root.\<close>

lemma compare_cases:
  obtains "(c :: int) = 0" | "c < 0" "c \<noteq> 0" | "c > 0" "c \<noteq> 0" "\<not> c < 0"
  by linarith

lemma bst_search_eval:
  "positioned cmp k (inorder t) \<Longrightarrow> bst_search cmp t k = lookup cmp k (inorder t)"
proof (induction t)
  case (Node l n r)
  have p: "positioned cmp k (inorder l @ n # inorder r)" using Node.prems by simp
  show ?case
    by (cases "cmp k (fst n)" rule: compare_cases)
      (simp_all add: positioned_equal [OF p] positioned_less [OF p] positioned_greater [OF p] Node.IH)
qed (simp add: lookup_def keys_from_def)

definition inserted :: "('k \<Rightarrow> 'k \<Rightarrow> int) \<Rightarrow> 'k \<Rightarrow> 'd \<Rightarrow> ('k \<times> 'd) list \<Rightarrow> ('k \<times> 'd) tree option \<Rightarrow> bool" where
  "inserted cmp k d ns r \<longleftrightarrow>
     (case lookup cmp k ns of Some _ \<Rightarrow> r = None
      | None \<Rightarrow> \<exists>t'. r = Some t' \<and> inorder t' = keys_before cmp k ns @ (k, d) # keys_from cmp k ns)"

lemma bst_insert_eval:
  "positioned cmp k (inorder t) \<Longrightarrow> inserted cmp k d (inorder t) (bst_insert cmp t k d)"
proof (induction t)
  case (Node l n r)
  have p: "positioned cmp k (inorder l @ n # inorder r)" using Node.prems by simp
  show ?case
  proof (cases "cmp k (fst n)" rule: compare_cases)
    case 1
    then show ?thesis by (simp add: inserted_def positioned_equal [OF p])
  next
    case 2
    note c = positioned_less [OF p 2(1)] split_less [of cmp k n "inorder l" "inorder r", OF 2(1)]
    from Node.IH(1) [OF c(1)] show ?thesis
      by (cases "lookup cmp k (inorder l)") (auto simp: inserted_def c 2)
  next
    case 3
    note c = positioned_greater [OF p 3(1)]
    note c' = split_greater [of cmp k n "inorder l" "inorder r", OF 3(1) c(1)]
    from Node.IH(2) [OF c(2)] show ?thesis
      by (cases "lookup cmp k (inorder r)") (auto simp: inserted_def c(2,3) c' 3)
  qed
qed (simp add: inserted_def lookup_def keys_from_def keys_before_def)

definition deleted :: "('k \<Rightarrow> 'k \<Rightarrow> int) \<Rightarrow> 'k \<Rightarrow> ('k \<times> 'd) list \<Rightarrow> ('d \<times> ('k \<times> 'd) tree) option \<Rightarrow> bool" where
  "deleted cmp k ns r \<longleftrightarrow>
     (case lookup cmp k ns of None \<Rightarrow> r = None
      | Some d \<Rightarrow> \<exists>t'. r = Some (d, t') \<and> inorder t' = keys_before cmp k ns @ tl (keys_from cmp k ns))"

lemma bst_delete_eval:
  "positioned cmp k (inorder t) \<Longrightarrow> deleted cmp k (inorder t) (bst_delete cmp t k)"
proof (induction t)
  case (Node l n r)
  have p: "positioned cmp k (inorder l @ n # inorder r)" using Node.prems by simp
  show ?case
  proof (cases "cmp k (fst n)" rule: compare_cases)
    case 1
    then show ?thesis by (simp add: deleted_def positioned_equal [OF p])
  next
    case 2
    note c = positioned_less [OF p 2(1)] split_less [of cmp k n "inorder l" "inorder r", OF 2(1)]
    have "keys_from cmp k (inorder l) \<noteq> []" if "lookup cmp k (inorder l) \<noteq> None"
      using that by (auto simp: lookup_def)
    with Node.IH(1) [OF c(1)] show ?thesis
      by (cases "lookup cmp k (inorder l)") (auto simp: deleted_def c 2)
  next
    case 3
    note c = positioned_greater [OF p 3(1)]
    note c' = split_greater [of cmp k n "inorder l" "inorder r", OF 3(1) c(1)]
    from Node.IH(2) [OF c(2)] show ?thesis
      by (cases "lookup cmp k (inorder r)") (auto simp: deleted_def c(2,3) c' 3)
  qed
qed (simp add: deleted_def lookup_def keys_from_def)

lemma bst_contract: "rbtree_contract bst"
proof -
  have "rbtree_law bst cmp t k" if "positioned cmp k (inorder t)" for cmp k and t :: "('a \<times> 'b) tree"
    using bst_search_eval [OF that] bst_insert_eval [OF that] bst_delete_eval [OF that]
    by (cases "lookup cmp k (inorder t)") (simp_all add: rbtree_law_def bst_def Let_def inserted_def deleted_def)
  then show ?thesis by (simp add: rbtree_contract_def bst_def)
qed

end
