(* ===== verification/Schedule.thy ===== *)
theory Schedule
  imports Task Rbtree
begin

text \<open>
  The task schedule, \<^verbatim>\<open>signer/src/scheduler/schedule.c\<close>, with \<^verbatim>\<open>zone_reschedule_task\<close> of
  \<^verbatim>\<open>signer/src/signer/zone.c\<close>.  Tasks are objects on a heap; the tree of the schedule holds
  pointers to them, as keys and as data, and compares them with the contents they have at the
  moment of the comparison.  The tree operations and the comparison of names are library code,
  parameters \<open>rb\<close> and \<open>dc\<close>.  Memory for tree nodes is assumed to be available, and a schedule
  to have a tree; the operations run with the schedule lock held.
\<close>

section \<open>Model\<close>

type_synonym addr = nat
type_synonym 'z heap = "addr \<Rightarrow> 'z task"

record 't schedule =
  tasks :: 't
  flushcount :: int
  loading :: int

definition schedule_create :: "('t, addr, addr) rbtree \<Rightarrow> 't schedule" where
  "schedule_create rb = \<lparr>tasks = rb_create rb, flushcount = 0, loading = 0\<rparr>"

text \<open>The comparison of two task pointers in a heap.\<close>

definition compare_at :: "('z \<Rightarrow> 'z \<Rightarrow> int) \<Rightarrow> 'z heap \<Rightarrow> addr \<Rightarrow> addr \<Rightarrow> int" where
  "compare_at dc h a b = task_compare dc (h a) (h b)"

fun flush_loop :: "task_id \<Rightarrow> (addr \<times> addr) list \<Rightarrow> 't schedule \<Rightarrow> 'z heap \<Rightarrow> 't schedule \<times> 'z heap" where
  "flush_loop override [] s h = (s, h)"
| "flush_loop override (n # ns) s h =
    (let t = snd n;
         h = h(t := (h t)\<lparr>flush := True\<rparr>);
         s = s\<lparr>flushcount := flushcount s + 1\<rparr>;
         h = (if override \<noteq> TASK_NONE then h(t := (h t)\<lparr>what := override\<rparr>) else h)
     in flush_loop override ns s h)"

definition schedule_flush ::
  "('t, addr, addr) rbtree \<Rightarrow> task_id \<Rightarrow> 't schedule \<Rightarrow> 'z heap \<Rightarrow> 't schedule \<times> 'z heap" where
  "schedule_flush rb override s h = flush_loop override (rb_nodes rb (tasks s)) s h"

definition schedule_lookup_task ::
  "('t, addr, addr) rbtree \<Rightarrow> ('z \<Rightarrow> 'z \<Rightarrow> int) \<Rightarrow> 't schedule \<Rightarrow> 'z heap \<Rightarrow> addr \<Rightarrow> addr option" where
  "schedule_lookup_task rb dc s h task = rb_search rb (compare_at dc h) (tasks s) task"

definition schedule_task ::
  "('t, addr, addr) rbtree \<Rightarrow> ('z \<Rightarrow> 'z \<Rightarrow> int) \<Rightarrow> 't schedule \<Rightarrow> 'z heap \<Rightarrow> addr option \<Rightarrow> ods_status \<times> 't schedule" where
  "schedule_task rb dc s h task =
    (case task of None \<Rightarrow> (ODS_STATUS_ASSERT_ERR, s)
     | Some task \<Rightarrow>
       if schedule_lookup_task rb dc s h task \<noteq> None then (ODS_STATUS_ERR, s)
       else
         (case rb_insert rb (compare_at dc h) (tasks s) task task of
            None \<Rightarrow> (ODS_STATUS_ERR, s)
          | Some t \<Rightarrow>
              (ODS_STATUS_OK,
               s\<lparr>tasks := t, flushcount := (if flush (h task) then flushcount s + 1 else flushcount s)\<rparr>)))"

definition unschedule_task ::
  "('t, addr, addr) rbtree \<Rightarrow> ('z \<Rightarrow> 'z \<Rightarrow> int) \<Rightarrow> 't schedule \<Rightarrow> 'z heap \<Rightarrow> addr option \<Rightarrow>
   addr option \<times> 't schedule \<times> 'z heap" where
  "unschedule_task rb dc s h task =
    (case task of None \<Rightarrow> (None, s, h)
     | Some task \<Rightarrow>
       (case rb_delete rb (compare_at dc h) (tasks s) task of
          None \<Rightarrow> (None, s, h)
        | Some (del, t) \<Rightarrow>
            let s = s\<lparr>tasks := t\<rparr> in
            if flush (h del) then (Some del, s\<lparr>flushcount := flushcount s - 1\<rparr>, h(del := (h del)\<lparr>flush := False\<rparr>))
            else (Some del, s, h)))"

definition reschedule_task ::
  "('t, addr, addr) rbtree \<Rightarrow> ('z \<Rightarrow> 'z \<Rightarrow> int) \<Rightarrow> 't schedule \<Rightarrow> 'z heap \<Rightarrow> addr option \<Rightarrow> task_id \<Rightarrow> time_t \<Rightarrow>
   ods_status \<times> 't schedule \<times> 'z heap" where
  "reschedule_task rb dc s h task wh at =
    (case task of None \<Rightarrow> (ODS_STATUS_ASSERT_ERR, s, h)
     | Some a \<Rightarrow>
       let (del, s, h) = unschedule_task rb dc s h task;
           del = (case del of None \<Rightarrow> a | Some del \<Rightarrow> del);
           h = h(del := (h del)\<lparr>what := wh, when_t := at\<rparr>);
           (st, s) = schedule_task rb dc s h (Some del)
       in (st, s, h))"

text \<open>The search for a task that is to be flushed, from a node on.\<close>

fun find_flush :: "'z heap \<Rightarrow> (addr \<times> addr) list \<Rightarrow> addr option" where
  "find_flush h [] = None"
| "find_flush h (n # ns) = (if flush (h (snd n)) then Some (snd n) else find_flush h ns)"

definition schedule_get_first_task ::
  "('t, addr, addr) rbtree \<Rightarrow> 't schedule \<Rightarrow> 'z heap \<Rightarrow> addr option \<times> 't schedule" where
  "schedule_get_first_task rb s h =
    (case rb_nodes rb (tasks s) of [] \<Rightarrow> (None, s)
     | first # ns \<Rightarrow>
       if flushcount s > 0 then
         (case find_flush h (first # ns) of
            Some pop \<Rightarrow> (Some pop, s)
          | None \<Rightarrow> (Some (snd first), s\<lparr>flushcount := 0\<rparr>))
       else (Some (snd first), s))"

text \<open>The current time is an argument.\<close>

definition schedule_pop_task ::
  "('t, addr, addr) rbtree \<Rightarrow> ('z \<Rightarrow> 'z \<Rightarrow> int) \<Rightarrow> time_t \<Rightarrow> 't schedule \<Rightarrow> 'z heap \<Rightarrow>
   addr option \<times> 't schedule \<times> 'z heap" where
  "schedule_pop_task rb dc now s h =
    (let (pop, s) = schedule_get_first_task rb s h in
     case pop of
       Some p \<Rightarrow> if flush (h p) \<or> when_t (h p) \<le> now then unschedule_task rb dc s h (Some p) else (None, s, h)
     | None \<Rightarrow> (None, s, h))"

text \<open>
  \<^verbatim>\<open>zone_reschedule_task\<close>: \<open>task\<close> is the task of the zone, which the function assigns back to
  the zone unchanged (a task that is unscheduled is the one that was looked for).
\<close>

definition zone_reschedule_task ::
  "('t, addr, addr) rbtree \<Rightarrow> ('z \<Rightarrow> 'z \<Rightarrow> int) \<Rightarrow> time_t \<Rightarrow> 't schedule \<Rightarrow> 'z heap \<Rightarrow> addr \<Rightarrow> task_id \<Rightarrow>
   ods_status \<times> 't schedule \<times> 'z heap \<times> addr" where
  "zone_reschedule_task rb dc now s h ztask wh =
    (let (task, s, h) = unschedule_task rb dc s h (Some ztask) in
     case task of
       Some t \<Rightarrow>
         let h = (if what (h t) \<noteq> wh
                  then h(t := (h t)\<lparr>halted := what (h t), halted_when := when_t (h t), interrupt := wh\<rparr>) else h);
             h = (if what (h t) > wh then h(t := (h t)\<lparr>what := wh\<rparr>) else h);
             h = h(t := (h t)\<lparr>when_t := now\<rparr>);
             (st, s) = schedule_task rb dc s h (Some t)
         in (st, s, h, t)
     | None \<Rightarrow> (ODS_STATUS_OK, s, h(ztask := (h ztask)\<lparr>interrupt := wh\<rparr>), ztask))"

section \<open>Invariant\<close>

text \<open>
  The nodes are in strictly increasing task order, hold tasks of pairwise different zones with
  times that fit, and \<open>flushcount\<close> is at least the number of tasks to be flushed.
\<close>

definition flushing :: "'z heap \<Rightarrow> (addr \<times> addr) list \<Rightarrow> nat" where
  "flushing h ns = length (filter (\<lambda>n. flush (h (fst n))) ns)"

definition addr_less :: "('z \<Rightarrow> 'z \<Rightarrow> int) \<Rightarrow> 'z heap \<Rightarrow> addr \<Rightarrow> addr \<Rightarrow> bool" where
  "addr_less dc h a b \<longleftrightarrow> dc (zone (h a)) (zone (h b)) \<noteq> 0 \<and> task_less dc (h a) (h b)"

abbreviation node_less :: "('z \<Rightarrow> 'z \<Rightarrow> int) \<Rightarrow> 'z heap \<Rightarrow> addr \<times> addr \<Rightarrow> addr \<times> addr \<Rightarrow> bool" where
  "node_less dc h m n \<equiv> addr_less dc h (fst m) (fst n)"

definition nodes_ok :: "('z \<Rightarrow> 'z \<Rightarrow> int) \<Rightarrow> 'z heap \<Rightarrow> (addr \<times> addr) list \<Rightarrow> bool" where
  "nodes_ok dc h ns \<longleftrightarrow>
     (\<forall>n \<in> set ns. snd n = fst n \<and> task_ok (h (fst n))) \<and> sorted_wrt (node_less dc h) ns"

definition schedule_inv :: "('t, addr, addr) rbtree \<Rightarrow> ('z \<Rightarrow> 'z \<Rightarrow> int) \<Rightarrow> 't schedule \<Rightarrow> 'z heap \<Rightarrow> bool" where
  "schedule_inv rb dc s h \<longleftrightarrow>
     nodes_ok dc h (rb_nodes rb (tasks s)) \<and> int (flushing h (rb_nodes rb (tasks s))) \<le> flushcount s"

text \<open>The pointers scheduled.\<close>

definition scheduled :: "('t, addr, addr) rbtree \<Rightarrow> 't schedule \<Rightarrow> addr list" where
  "scheduled rb s = map fst (rb_nodes rb (tasks s))"

section \<open>Positions in the tree\<close>

lemma compare_less:
  assumes "dname_order dc" "task_ok (h a)" "task_ok (h b)" "addr_less dc h a b"
  shows "compare_at dc h a b < 0" "compare_at dc h b a > 0"
  using assms task_compare_less [of "h a" "h b" dc] task_compare_sym [of dc "h b" "h a"]
  by (auto simp: compare_at_def addr_less_def)

lemma nodes_on:
  assumes dc: "dname_order dc" and ok: "nodes_ok dc h (xs @ n # ys)"
  shows "\<forall>m \<in> set xs. compare_at dc h (fst n) (fst m) > 0" "compare_at dc h (fst n) (fst n) = 0"
    "\<forall>m \<in> set ys. compare_at dc h (fst n) (fst m) < 0"
proof -
  have t: "task_ok (h (fst n))" "\<And>m. m \<in> set xs \<union> set ys \<Longrightarrow> task_ok (h (fst m))"
    and s: "sorted_wrt (node_less dc h) (xs @ n # ys)"
    using ok by (auto simp: nodes_ok_def)
  show "\<forall>m \<in> set xs. compare_at dc h (fst n) (fst m) > 0"
  proof
    fix m assume m: "m \<in> set xs"
    then have "addr_less dc h (fst m) (fst n)" using s by (auto simp: sorted_wrt_append)
    with m t show "compare_at dc h (fst n) (fst m) > 0" by (intro compare_less(2) [OF dc]) auto
  qed
  show "\<forall>m \<in> set ys. compare_at dc h (fst n) (fst m) < 0"
  proof
    fix m assume m: "m \<in> set ys"
    then have "addr_less dc h (fst n) (fst m)" using s by (auto simp: sorted_wrt_append)
    with m t show "compare_at dc h (fst n) (fst m) < 0" by (intro compare_less(1) [OF dc]) auto
  qed
  show "compare_at dc h (fst n) (fst n) = 0"
    using dname_order_refl [OF dc] by (simp add: compare_at_def task_compare_def)
qed

lemma nodes_remove: "nodes_ok dc h (xs @ n # ys) \<Longrightarrow> nodes_ok dc h (xs @ ys)"
  by (auto simp: nodes_ok_def sorted_wrt_append)

text \<open>A task of a zone that is not scheduled has a place between two groups of nodes.\<close>

lemma nodes_between:
  assumes dc: "dname_order dc" and ok: "nodes_ok dc h ns" and a: "task_ok (h a)"
    and fresh: "\<forall>n \<in> set ns. dc (zone (h a)) (zone (h (fst n))) \<noteq> 0"
  obtains xs ys where "ns = xs @ ys" "\<forall>m \<in> set xs. compare_at dc h a (fst m) > 0"
    "\<forall>m \<in> set ys. compare_at dc h a (fst m) < 0" "nodes_ok dc h (xs @ (a, a) # ys)"
proof -
  let ?P = "\<lambda>m. task_less dc (h (fst m)) (h a)"
  let ?xs = "takeWhile ?P ns" and ?ys = "dropWhile ?P ns"
  have z: "dc (zone (h (fst n))) (zone (h a)) \<noteq> 0" if "n \<in> set ns" for n
    using fresh that dname_order_sym(2) [OF dc] by blast
  have t: "task_ok (h (fst n))" if "n \<in> set ns" for n using ok that by (simp add: nodes_ok_def)
  have split: "ns = ?xs @ ?ys" by simp
  have s: "sorted_wrt (node_less dc h) (?xs @ ?ys)" using ok by (simp add: nodes_ok_def)
  have xs: "addr_less dc h (fst m) a" if "m \<in> set ?xs" for m
    using that z set_takeWhileD [OF that] by (auto simp: addr_less_def)
  have ys: "addr_less dc h a (fst m)" if "m \<in> set ?ys" for m
  proof -
    have mns: "m \<in> set ns" using that by (rule set_dropWhileD)
    have "?ys \<noteq> []" using that by force
    then obtain n ns' where n: "?ys = n # ns'" by (meson neq_Nil_conv)
    then have "\<not> ?P n" by (simp add: dropWhile_eq_Cons_conv)
    moreover have "n \<in> set ns" using n set_dropWhileD [of n ?P ns] by simp
    ultimately have an: "task_less dc (h a) (h (fst n))"
      using task_less_linear [OF dc, of "h a" "h (fst n)"] fresh by blast
    have "m = n \<or> task_less dc (h (fst n)) (h (fst m))"
      using s that unfolding n by (auto simp: sorted_wrt_append addr_less_def)
    with an have "task_less dc (h a) (h (fst m))" using task_less_trans [OF dc] by blast
    with fresh mns show ?thesis by (simp add: addr_less_def)
  qed
  show ?thesis
  proof (rule that [of ?xs ?ys])
    show "ns = ?xs @ ?ys" by simp
    show "\<forall>m \<in> set ?xs. compare_at dc h a (fst m) > 0"
      using xs t a set_takeWhileD [of _ ?P ns] by (blast intro: compare_less(2) [OF dc])
    show "\<forall>m \<in> set ?ys. compare_at dc h a (fst m) < 0"
      using ys t a set_dropWhileD [of _ ?P ns] by (blast intro: compare_less(1) [OF dc])
    show "nodes_ok dc h (?xs @ (a, a) # ?ys)"
    proof -
      note s' = s [unfolded sorted_wrt_append]
      have "sorted_wrt (node_less dc h) (?xs @ (a, a) # ?ys)"
        unfolding sorted_wrt_append using s' xs ys by (simp add: ball_Un)
      moreover have "\<forall>n \<in> set (?xs @ (a, a) # ?ys). snd n = fst n \<and> task_ok (h (fst n))"
        using ok a by (auto simp: nodes_ok_def dest: set_takeWhileD set_dropWhileD)
      ultimately show ?thesis by (simp add: nodes_ok_def)
    qed
  qed
qed

text \<open>Changes of the heap that keep the order of the nodes.\<close>

lemma nodes_ok_cong:
  assumes "\<And>n. n \<in> set ns \<Longrightarrow> zone (h' (fst n)) = zone (h (fst n)) \<and> when_t (h' (fst n)) = when_t (h (fst n)) \<and>
      what (h' (fst n)) = what (h (fst n))"
  shows "nodes_ok dc h' ns = nodes_ok dc h ns"
proof -
  have "sorted_wrt (node_less dc h') ns = sorted_wrt (node_less dc h) ns"
    by (rule iffI; erule sorted_wrt_mono_rel [rotated]) (use assms in \<open>auto simp: addr_less_def task_less_def\<close>)
  with assms show ?thesis by (auto simp: nodes_ok_def task_ok_def)
qed

lemma nodes_distinct:
  assumes "dname_order dc" "nodes_ok dc h (xs @ n # ys)" "m \<in> set xs \<union> set ys"
  shows "fst m \<noteq> fst n" "dc (zone (h (fst n))) (zone (h (fst m))) \<noteq> 0"
proof -
  have "dc (zone (h (fst m))) (zone (h (fst n))) \<noteq> 0 \<or> dc (zone (h (fst n))) (zone (h (fst m))) \<noteq> 0"
    using assms(2,3) by (auto simp: nodes_ok_def sorted_wrt_append addr_less_def)
  then show *: "dc (zone (h (fst n))) (zone (h (fst m))) \<noteq> 0" using dname_order_sym(2) [OF assms(1)] by blast
  then show "fst m \<noteq> fst n" using dname_order_refl [OF assms(1)] by metis
qed

lemma flushing_simps [simp]:
  "flushing h [] = 0" "flushing h (n # ns) = (if flush (h (fst n)) then 1 else 0) + flushing h ns"
  "flushing h (xs @ ys) = flushing h xs + flushing h ys"
  by (simp_all add: flushing_def)

lemma flushing_cong:
  "(\<And>n. n \<in> set ns \<Longrightarrow> flush (h' (fst n)) = flush (h (fst n))) \<Longrightarrow> flushing h' ns = flushing h ns"
  unfolding flushing_def by (metis (mono_tags, lifting) filter_cong)

lemma flushing_pos: "flushing h ns > 0 \<longleftrightarrow> (\<exists>n \<in> set ns. flush (h (fst n)))"
  by (induction ns) auto

section \<open>The operations\<close>

lemma scheduled_split:
  assumes "a \<in> set (scheduled rb s)" "nodes_ok dc h (rb_nodes rb (tasks s))"
  obtains xs ys where "rb_nodes rb (tasks s) = xs @ (a, a) # ys"
proof -
  obtain n where n: "n \<in> set (rb_nodes rb (tasks s))" "fst n = a" using assms(1) by (auto simp: scheduled_def)
  then have "snd n = a" using assms(2) unfolding nodes_ok_def by blast
  with n have "(a, a) \<in> set (rb_nodes rb (tasks s))" by (metis prod.collapse)
  then show ?thesis using that by (metis split_list)
qed

text \<open>Unscheduling a task that is scheduled.\<close>

lemma unschedule_present:
  assumes rb: "rbtree_contract rb" and dc: "dname_order dc" and inv: "schedule_inv rb dc s h"
    and ns: "rb_nodes rb (tasks s) = xs @ (a, a) # ys"
  shows "\<exists>s'. unschedule_task rb dc s h (Some a) = (Some a, s', h(a := (h a)\<lparr>flush := False\<rparr>)) \<and>
    schedule_inv rb dc s' (h(a := (h a)\<lparr>flush := False\<rparr>)) \<and> rb_nodes rb (tasks s') = xs @ ys \<and>
    flushcount s' = flushcount s - (if flush (h a) then 1 else 0) \<and> loading s' = loading s"
proof -
  let ?h = "h(a := (h a)\<lparr>flush := False\<rparr>)"
  have ok: "nodes_ok dc h (xs @ (a, a) # ys)" and fc: "int (flushing h (xs @ (a, a) # ys)) \<le> flushcount s"
    using inv ns by (auto simp: schedule_inv_def)
  obtain t where t: "rb_delete rb (compare_at dc h) (tasks s) a = Some (a, t)" "rb_nodes rb t = xs @ ys"
    using rb_on(3) [OF rb ns, of "compare_at dc h" a] nodes_on [OF dc ok] by auto
  let ?s = "s\<lparr>tasks := t, flushcount := flushcount s - (if flush (h a) then 1 else 0)\<rparr>"
  have u: "unschedule_task rb dc s h (Some a) = (Some a, ?s, ?h)"
    using t by (cases "flush (h a)") (auto simp: unschedule_task_def Let_def)
  have ne: "fst m \<noteq> a" if "m \<in> set (xs @ ys)" for m using nodes_distinct(1) [OF dc ok, of m] that by auto
  have "nodes_ok dc ?h (xs @ ys) = nodes_ok dc h (xs @ ys)" by (rule nodes_ok_cong) (use ne in auto)
  moreover have "flushing ?h (xs @ ys) = flushing h (xs @ ys)" by (rule flushing_cong) (use ne in auto)
  ultimately have "schedule_inv rb dc ?s ?h"
    using nodes_remove [OF ok] fc t by (auto simp: schedule_inv_def)
  with u t show ?thesis by auto
qed

text \<open>Scheduling a task of a zone that has none, and one that is already there.\<close>

lemma schedule_fresh:
  assumes rb: "rbtree_contract rb" and dc: "dname_order dc" and inv: "schedule_inv rb dc s h" and a: "task_ok (h a)"
    and fresh: "\<forall>b \<in> set (scheduled rb s). dc (zone (h a)) (zone (h b)) \<noteq> 0"
  shows "\<exists>s' xs ys. schedule_task rb dc s h (Some a) = (ODS_STATUS_OK, s') \<and> schedule_inv rb dc s' h \<and>
    rb_nodes rb (tasks s) = xs @ ys \<and> rb_nodes rb (tasks s') = xs @ (a, a) # ys \<and>
    flushcount s' = flushcount s + (if flush (h a) then 1 else 0) \<and> loading s' = loading s"
proof -
  have ok: "nodes_ok dc h (rb_nodes rb (tasks s))" and fc: "int (flushing h (rb_nodes rb (tasks s))) \<le> flushcount s"
    using inv by (auto simp: schedule_inv_def)
  have f: "\<forall>n \<in> set (rb_nodes rb (tasks s)). dc (zone (h a)) (zone (h (fst n))) \<noteq> 0"
    using fresh by (auto simp: scheduled_def)
  obtain xs ys where p: "rb_nodes rb (tasks s) = xs @ ys" "\<forall>m \<in> set xs. compare_at dc h a (fst m) > 0"
    "\<forall>m \<in> set ys. compare_at dc h a (fst m) < 0" "nodes_ok dc h (xs @ (a, a) # ys)"
    by (rule nodes_between [OF dc ok a f])
  obtain t where t: "rb_insert rb (compare_at dc h) (tasks s) a a = Some t" "rb_nodes rb t = xs @ (a, a) # ys"
    using rb_between(3) [OF rb p(1), of "compare_at dc h" a] p(2,3) by blast
  have l: "rb_search rb (compare_at dc h) (tasks s) a = None" using rb_between(1) [OF rb p(1), of "compare_at dc h" a] p(2,3) by blast
  let ?s = "s\<lparr>tasks := t, flushcount := (if flush (h a) then flushcount s + 1 else flushcount s)\<rparr>"
  have "schedule_task rb dc s h (Some a) = (ODS_STATUS_OK, ?s)"
    using t l by (simp add: schedule_task_def schedule_lookup_task_def)
  moreover have "schedule_inv rb dc ?s h" using fc p t by (auto simp: schedule_inv_def)
  ultimately show ?thesis using p t by (intro exI [of _ ?s] exI [of _ xs] exI [of _ ys]) auto
qed

lemma schedule_present:
  assumes rb: "rbtree_contract rb" and dc: "dname_order dc" and inv: "schedule_inv rb dc s h"
    and a: "a \<in> set (scheduled rb s)"
  shows "schedule_task rb dc s h (Some a) = (ODS_STATUS_ERR, s)" "schedule_lookup_task rb dc s h a = Some a"
proof -
  have ok: "nodes_ok dc h (rb_nodes rb (tasks s))" using inv by (simp add: schedule_inv_def)
  obtain xs ys where ns: "rb_nodes rb (tasks s) = xs @ (a, a) # ys" using scheduled_split [OF a ok] .
  show l: "schedule_lookup_task rb dc s h a = Some a"
    using rb_on(1) [OF rb ns, of "compare_at dc h" a] nodes_on [OF dc ok [unfolded ns]] by (simp add: schedule_lookup_task_def)
  then show "schedule_task rb dc s h (Some a) = (ODS_STATUS_ERR, s)" by (simp add: schedule_task_def)
qed

lemma unschedule_absent:
  assumes rb: "rbtree_contract rb" and dc: "dname_order dc" and inv: "schedule_inv rb dc s h" and a: "task_ok (h a)"
    and fresh: "\<forall>b \<in> set (scheduled rb s). dc (zone (h a)) (zone (h b)) \<noteq> 0"
  shows "unschedule_task rb dc s h (Some a) = (None, s, h)"
proof -
  have ok: "nodes_ok dc h (rb_nodes rb (tasks s))" using inv by (simp add: schedule_inv_def)
  have f: "\<forall>n \<in> set (rb_nodes rb (tasks s)). dc (zone (h a)) (zone (h (fst n))) \<noteq> 0"
    using fresh by (auto simp: scheduled_def)
  obtain xs ys where p: "rb_nodes rb (tasks s) = xs @ ys" "\<forall>m \<in> set xs. compare_at dc h a (fst m) > 0"
    "\<forall>m \<in> set ys. compare_at dc h a (fst m) < 0"
    by (rule nodes_between [OF dc ok a f])
  show ?thesis using rb_between(2) [OF rb p(1), of "compare_at dc h" a] p(2,3) by (simp add: unschedule_task_def)
qed

section \<open>Properties\<close>

text \<open>What \<^verbatim>\<open>schedule_get_first_task\<close> selects.\<close>

lemma find_flush_some:
  "flushing h ns > 0 \<Longrightarrow> \<forall>n \<in> set ns. snd n = fst n \<Longrightarrow>
   \<exists>xs a ys. ns = xs @ (a, a) # ys \<and> find_flush h ns = Some a \<and> flush (h a) \<and> flushing h xs = 0"
proof (induction ns)
  case (Cons n ns)
  show ?case
  proof (cases "flush (h (fst n))")
    case True
    with Cons.prems show ?thesis by (intro exI [of _ "[]"] exI [of _ "fst n"] exI [of _ ns]) (auto simp: prod_eq_iff)
  next
    case False
    with Cons obtain xs a ys where "ns = xs @ (a, a) # ys" "find_flush h ns = Some a" "flush (h a)" "flushing h xs = 0"
      by auto
    with False Cons.prems show ?thesis by (intro exI [of _ "n # xs"] exI [of _ a] exI [of _ ys]) auto
  qed
qed simp

lemma find_flush_none: "flushing h ns = 0 \<Longrightarrow> \<forall>n \<in> set ns. snd n = fst n \<Longrightarrow> find_flush h ns = None"
  by (induction ns) (auto split: if_splits)

lemma inv_links: "schedule_inv rb dc s h \<Longrightarrow> \<forall>n \<in> set (rb_nodes rb (tasks s)). snd n = fst n"
  by (simp add: schedule_inv_def nodes_ok_def)

lemma pop_flush:
  assumes "rbtree_contract rb" "dname_order dc" and inv: "schedule_inv rb dc s h"
    and f: "flushing h (rb_nodes rb (tasks s)) > 0"
  shows "\<exists>xs a ys s'. rb_nodes rb (tasks s) = xs @ (a, a) # ys \<and> flush (h a) \<and> flushing h xs = 0 \<and>
    schedule_pop_task rb dc now s h = (Some a, s', h(a := (h a)\<lparr>flush := False\<rparr>)) \<and>
    schedule_inv rb dc s' (h(a := (h a)\<lparr>flush := False\<rparr>)) \<and> rb_nodes rb (tasks s') = xs @ ys"
proof -
  obtain xs a ys where n: "rb_nodes rb (tasks s) = xs @ (a, a) # ys" "find_flush h (rb_nodes rb (tasks s)) = Some a"
    "flush (h a)" "flushing h xs = 0"
    using find_flush_some [OF f inv_links [OF inv]] by blast
  have "flushcount s > 0" using inv f by (simp add: schedule_inv_def)
  then have "schedule_get_first_task rb s h = (Some a, s)"
    using n(2) f by (cases "rb_nodes rb (tasks s)") (auto simp: schedule_get_first_task_def)
  then have "schedule_pop_task rb dc now s h = unschedule_task rb dc s h (Some a)"
    using n(3) by (simp add: schedule_pop_task_def)
  with unschedule_present [OF assms(1,2) inv n(1)] n show ?thesis by auto
qed

lemma pop_no_flush:
  assumes "rbtree_contract rb" "dname_order dc" and inv: "schedule_inv rb dc s h"
    and f: "flushing h (rb_nodes rb (tasks s)) = 0" and ns: "rb_nodes rb (tasks s) = n # ns"
  shows "if when_t (h (fst n)) \<le> now then
      \<exists>s'. schedule_pop_task rb dc now s h = (Some (fst n), s', h(fst n := (h (fst n))\<lparr>flush := False\<rparr>)) \<and>
        schedule_inv rb dc s' (h(fst n := (h (fst n))\<lparr>flush := False\<rparr>)) \<and> rb_nodes rb (tasks s') = ns
    else \<exists>s'. schedule_pop_task rb dc now s h = (None, s', h) \<and> schedule_inv rb dc s' h \<and> tasks s' = tasks s"
proof -
  let ?s = "if flushcount s > 0 then s\<lparr>flushcount := 0\<rparr> else s"
  have n: "n = (fst n, fst n)" using inv_links [OF inv] ns by (simp add: prod_eq_iff)
  have g: "schedule_get_first_task rb s h = (Some (fst n), ?s)"
    using find_flush_none [OF f inv_links [OF inv]] inv_links [OF inv] ns by (simp add: schedule_get_first_task_def)
  have inv': "schedule_inv rb dc ?s h" using inv f by (simp add: schedule_inv_def)
  have "\<not> flush (h (fst n))" using f ns by (auto split: if_splits)
  with g have "schedule_pop_task rb dc now s h =
      (if when_t (h (fst n)) \<le> now then unschedule_task rb dc ?s h (Some (fst n)) else (None, ?s, h))"
    by (simp add: schedule_pop_task_def)
  moreover have "rb_nodes rb (tasks ?s) = [] @ (fst n, fst n) # ns" using ns n by simp
  ultimately show ?thesis using unschedule_present [OF assms(1,2) inv'] inv' by fastforce
qed

lemma pop_correct:
  assumes "rbtree_contract rb" "dname_order dc" "schedule_inv rb dc s h"
    and "schedule_pop_task rb dc now s h = (r, s', h')"
  shows "schedule_inv rb dc s' h' \<and>
    (case r of
       None \<Rightarrow> h' = h \<and> tasks s' = tasks s \<and> (\<forall>a \<in> set (scheduled rb s). \<not> flush (h a) \<and> now < when_t (h a))
     | Some a \<Rightarrow> a \<in> set (scheduled rb s) \<and> scheduled rb s' = remove1 a (scheduled rb s) \<and> a \<notin> set (scheduled rb s') \<and>
         h' = h(a := (h a)\<lparr>flush := False\<rparr>) \<and>
         (flush (h a) \<or> when_t (h a) \<le> now \<and>
            (\<forall>b \<in> set (scheduled rb s). \<not> flush (h b) \<and> when_t (h a) \<le> when_t (h b))))"
proof (cases "flushing h (rb_nodes rb (tasks s)) > 0")
  case True
  from pop_flush [OF assms(1-3) True, of now] assms(4) obtain xs a ys where
    n: "rb_nodes rb (tasks s) = xs @ (a, a) # ys" "flush (h a)" "r = Some a" "h' = h(a := (h a)\<lparr>flush := False\<rparr>)"
      "schedule_inv rb dc s' h'" "rb_nodes rb (tasks s') = xs @ ys" by auto
  have "a \<notin> fst ` set (xs @ ys)"
    using nodes_distinct(1) [OF assms(2), of h xs "(a, a)" ys] assms(3) n(1) by (auto simp: schedule_inv_def)
  then show ?thesis using n by (auto simp: scheduled_def remove1_append)
next
  case False
  then have f: "flushing h (rb_nodes rb (tasks s)) = 0" by simp
  have nf: "\<not> flush (h a)" if "a \<in> set (scheduled rb s)" for a
    using False that by (auto simp: flushing_pos scheduled_def)
  show ?thesis
  proof (cases "rb_nodes rb (tasks s)")
    case Nil
    then show ?thesis using assms(3,4) by (auto simp: schedule_pop_task_def schedule_get_first_task_def scheduled_def)
  next
    case (Cons n ns)
    have ok: "nodes_ok dc h ([] @ n # ns)" using assms(3) Cons by (simp add: schedule_inv_def)
    have min: "when_t (h (fst n)) \<le> when_t (h b)" if "b \<in> set (scheduled rb s)" for b
      using that ok Cons by (auto simp: scheduled_def nodes_ok_def addr_less_def task_less_def)
    have "fst n \<notin> fst ` set ns" using nodes_distinct(1) [OF assms(2) ok] by force
    with pop_no_flush [OF assms(1-3) f Cons, of now] assms(4) Cons nf min show ?thesis
      by (fastforce simp: scheduled_def split: if_splits)
  qed
qed


text \<open>
  Marking all tasks to be flushed, without a new task identifier, and then popping: a fresh
  invocation of the pop per task.
\<close>

fun pop_tasks ::
  "('t, addr, addr) rbtree \<Rightarrow> ('z \<Rightarrow> 'z \<Rightarrow> int) \<Rightarrow> time_t list \<Rightarrow> 't schedule \<Rightarrow> 'z heap \<Rightarrow> addr list \<times> 't schedule \<times> 'z heap" where
  "pop_tasks rb dc [] s h = ([], s, h)"
| "pop_tasks rb dc (now # nows) s h =
    (let (r, s, h) = schedule_pop_task rb dc now s h; (as, s, h) = pop_tasks rb dc nows s h
     in (case r of Some a \<Rightarrow> a # as | None \<Rightarrow> as, s, h))"

lemma flush_loop_eval:
  "\<forall>n \<in> set ns. snd n = fst n \<Longrightarrow> flush_loop TASK_NONE ns s h =
     (s\<lparr>flushcount := flushcount s + int (length ns)\<rparr>,
      \<lambda>a. if a \<in> fst ` set ns then (h a)\<lparr>flush := True\<rparr> else h a)"
  by (induction ns arbitrary: s h) (auto simp: fun_eq_iff Let_def)

lemma flush_all:
  assumes "schedule_inv rb dc s h" "schedule_flush rb TASK_NONE s h = (s', h')"
  shows "schedule_inv rb dc s' h'" "tasks s' = tasks s" "\<forall>n \<in> set (rb_nodes rb (tasks s')). flush (h' (fst n))"
    "\<forall>a. h' a = h a \<or> h' a = (h a)\<lparr>flush := True\<rparr>"
proof -
  let ?ns = "rb_nodes rb (tasks s)"
  have e: "s' = s\<lparr>flushcount := flushcount s + int (length ?ns)\<rparr>"
    "h' = (\<lambda>a. if a \<in> fst ` set ?ns then (h a)\<lparr>flush := True\<rparr> else h a)"
    using assms(2) flush_loop_eval [OF inv_links [OF assms(1)], of s h] by (simp_all add: schedule_flush_def)
  have "nodes_ok dc h' ?ns = nodes_ok dc h ?ns" by (rule nodes_ok_cong) (simp add: e)
  moreover have "flushing h' ?ns \<le> length ?ns" by (simp add: flushing_def)
  ultimately show "schedule_inv rb dc s' h'" "tasks s' = tasks s"
    using assms(1) e by (auto simp: schedule_inv_def)
  show "\<forall>n \<in> set (rb_nodes rb (tasks s')). flush (h' (fst n))" using e by auto
  show "\<forall>a. h' a = h a \<or> h' a = (h a)\<lparr>flush := True\<rparr>" using e by auto
qed

lemma drain:
  assumes "rbtree_contract rb" "dname_order dc"
  shows "schedule_inv rb dc s h \<Longrightarrow> \<forall>n \<in> set (rb_nodes rb (tasks s)). flush (h (fst n)) \<Longrightarrow>
    length nows = length (rb_nodes rb (tasks s)) \<Longrightarrow>
    \<exists>s' h'. pop_tasks rb dc nows s h = (scheduled rb s, s', h') \<and> rb_nodes rb (tasks s') = []"
proof (induction nows arbitrary: s h)
  case (Cons now nows)
  obtain n ns where ns: "rb_nodes rb (tasks s) = n # ns" using Cons.prems(3) by (cases "rb_nodes rb (tasks s)") auto
  then have "flushing h (rb_nodes rb (tasks s)) > 0" using Cons.prems(2) by (auto simp: flushing_pos)
  from pop_flush [OF assms Cons.prems(1) this, of now] obtain xs a ys s1 where
    p: "rb_nodes rb (tasks s) = xs @ (a, a) # ys" "flushing h xs = 0"
      "schedule_pop_task rb dc now s h = (Some a, s1, h(a := (h a)\<lparr>flush := False\<rparr>))"
      "schedule_inv rb dc s1 (h(a := (h a)\<lparr>flush := False\<rparr>))" "rb_nodes rb (tasks s1) = xs @ ys" by blast
  have "xs = []" using p(1,2) Cons.prems(2) by (cases xs) auto
  have ok: "nodes_ok dc h ([] @ (a, a) # ys)" using Cons.prems(1) p(1) \<open>xs = []\<close> by (simp add: schedule_inv_def)
  let ?h = "h(a := (h a)\<lparr>flush := False\<rparr>)"
  have "\<forall>n \<in> set (rb_nodes rb (tasks s1)). flush (?h (fst n))"
    using nodes_distinct(1) [OF assms(2) ok] Cons.prems(2) p(1,5) \<open>xs = []\<close> by auto
  moreover have "length nows = length (rb_nodes rb (tasks s1))" using Cons.prems(3) p(1,5) by simp
  ultimately obtain s2 h2 where
    "pop_tasks rb dc nows s1 ?h = (scheduled rb s1, s2, h2)" "rb_nodes rb (tasks s2) = []"
    using Cons.IH [of s1 ?h] p(4) by blast
  with p(1,3,5) \<open>xs = []\<close> show ?case by (simp add: scheduled_def)
qed (simp add: scheduled_def)

text \<open>
  C21. Flushing the schedule makes every task run: after \<^verbatim>\<open>schedule_flush\<close> with
  \<^verbatim>\<open>TASK_NONE\<close>, popping as many times as there are tasks returns every scheduled task, each
  once and in schedule order, whatever the clock says at each pop, and empties the schedule.
\<close>

theorem schedule_flush_drains:
  assumes "rbtree_contract rb" "dname_order dc" "schedule_inv rb dc s h"
    and "schedule_flush rb TASK_NONE s h = (s1, h1)" "length nows = length (scheduled rb s)"
  shows "\<exists>s2 h2. pop_tasks rb dc nows s1 h1 = (scheduled rb s, s2, h2) \<and> scheduled rb s2 = []"
  using drain [OF assms(1,2) flush_all(1) [OF assms(3,4)] flush_all(3) [OF assms(3,4)], of nows]
    flush_all(2) [OF assms(3,4)] assms(5) by (auto simp: scheduled_def)

section \<open>The task of a zone\<close>

lemma scheduled_zones:
  assumes "dname_order dc" "schedule_inv rb dc s h" "a \<in> set (scheduled rb s)" "b \<in> set (scheduled rb s)" "b \<noteq> a"
  shows "dc (zone (h a)) (zone (h b)) \<noteq> 0"
proof -
  have ok: "nodes_ok dc h (rb_nodes rb (tasks s))" using assms(2) by (simp add: schedule_inv_def)
  obtain xs ys where ns: "rb_nodes rb (tasks s) = xs @ (a, a) # ys" using scheduled_split [OF assms(3) ok] .
  obtain m where m: "m \<in> set xs \<union> set ys" "fst m = b" using assms(4,5) ns by (auto simp: scheduled_def)
  show ?thesis using nodes_distinct(2) [OF assms(1) ok [unfolded ns] m(1)] m(2) by simp
qed

lemma reschedule_present:
  assumes rb: "rbtree_contract rb" and dc: "dname_order dc" and inv: "schedule_inv rb dc s h"
    and ns: "rb_nodes rb (tasks s) = xs @ (a, a) # ys"
    and u: "unschedule_task rb dc s h (Some a) = (Some a, s1, h1)"
    and h2: "h2 = h1(a := t)" "zone t = zone (h a)" "\<not> flush t" "task_ok t"
  shows "\<exists>s2 us vs. schedule_task rb dc s1 h2 (Some a) = (ODS_STATUS_OK, s2) \<and> schedule_inv rb dc s2 h2 \<and>
    xs @ ys = us @ vs \<and> rb_nodes rb (tasks s2) = us @ (a, a) # vs \<and>
    flushcount s2 = flushcount s - (if flush (h a) then 1 else 0) \<and> loading s2 = loading s"
proof -
  have ok: "nodes_ok dc h (xs @ (a, a) # ys)" using inv ns by (simp add: schedule_inv_def)
  from unschedule_present [OF rb dc inv ns] u have
    p: "h1 = h(a := (h a)\<lparr>flush := False\<rparr>)" "schedule_inv rb dc s1 h1" "rb_nodes rb (tasks s1) = xs @ ys"
      "flushcount s1 = flushcount s - (if flush (h a) then 1 else 0)" "loading s1 = loading s" by auto
  have ne: "fst m \<noteq> a" "dc (zone (h a)) (zone (h (fst m))) \<noteq> 0" if "m \<in> set (xs @ ys)" for m
    using nodes_distinct [OF dc ok, of m] that by auto
  have "nodes_ok dc h2 (xs @ ys) = nodes_ok dc h1 (xs @ ys)" by (rule nodes_ok_cong) (use ne h2 in auto)
  moreover have "flushing h2 (xs @ ys) = flushing h1 (xs @ ys)" by (rule flushing_cong) (use ne h2 in auto)
  ultimately have inv2: "schedule_inv rb dc s1 h2" using p by (simp add: schedule_inv_def)
  have "\<forall>b \<in> set (scheduled rb s1). dc (zone (h2 a)) (zone (h2 b)) \<noteq> 0"
    using ne h2 p by (auto simp: scheduled_def)
  moreover have "task_ok (h2 a)" using h2 by simp
  ultimately obtain s2 us vs where
    "schedule_task rb dc s1 h2 (Some a) = (ODS_STATUS_OK, s2)" "schedule_inv rb dc s2 h2"
    "rb_nodes rb (tasks s1) = us @ vs" "rb_nodes rb (tasks s2) = us @ (a, a) # vs"
    "flushcount s2 = flushcount s1 + (if flush (h2 a) then 1 else 0)" "loading s2 = loading s1"
    using schedule_fresh [OF rb dc inv2] by blast
  then show ?thesis using h2 p by (intro exI [of _ s2] exI [of _ us] exI [of _ vs]) simp
qed

text \<open>The task that \<^verbatim>\<open>zone_reschedule_task\<close> puts back.\<close>

definition rescheduled :: "time_t \<Rightarrow> task_id \<Rightarrow> 'z task \<Rightarrow> 'z task" where
  "rescheduled now wh t =
    (let t = t\<lparr>flush := False\<rparr>;
         t = (if what t \<noteq> wh then t\<lparr>halted := what t, halted_when := when_t t, interrupt := wh\<rparr> else t);
         t = (if what t > wh then t\<lparr>what := wh\<rparr> else t)
     in t\<lparr>when_t := now\<rparr>)"

lemma rescheduled_simps [simp]:
  "zone (rescheduled now wh t) = zone t" "\<not> flush (rescheduled now wh t)" "when_t (rescheduled now wh t) = now"
  "what (rescheduled now wh t) = min (what t) wh"
  "what t = wh \<Longrightarrow> interrupt (rescheduled now wh t) = interrupt t"
  "what t = wh \<Longrightarrow> halted (rescheduled now wh t) = halted t"
  "what t \<noteq> wh \<Longrightarrow> interrupt (rescheduled now wh t) = wh"
  "what t \<noteq> wh \<Longrightarrow> halted (rescheduled now wh t) = what t"
  "what t \<noteq> wh \<Longrightarrow> halted_when (rescheduled now wh t) = when_t t"
  by (auto simp: rescheduled_def Let_def min_def)

lemma zone_reschedule_eval:
  assumes "unschedule_task rb dc s h (Some a) = (Some a, s1, h(a := (h a)\<lparr>flush := False\<rparr>))"
  shows "zone_reschedule_task rb dc now s h a wh =
    (let h2 = h(a := rescheduled now wh (h a)); (st, s2) = schedule_task rb dc s1 h2 (Some a) in (st, s2, h2, a))"
  unfolding zone_reschedule_task_def assms by (simp add: Let_def rescheduled_def split: prod.splits)

text \<open>
  Rescheduling the task of a zone that is queued: the task stays queued, exactly once,
  with the current time; its identifier becomes the more urgent (smaller) of the old and the
  requested one; if the requested one differs, the interrupted work is remembered in
  \<open>halted\<close>.  The other tasks of the schedule are untouched and the invariant is kept, so the
  zone is handed to a worker by a later pop.
\<close>

lemma zone_reschedule_task_queued:
  assumes rb: "rbtree_contract rb" and dc: "dname_order dc" and inv: "schedule_inv rb dc s h"
    and a: "a \<in> set (scheduled rb s)" and now: "0 \<le> now" "now < 2 ^ 31"
    and r: "zone_reschedule_task rb dc now s h a wh = (st, s', h', t)"
  shows "st = ODS_STATUS_OK \<and> t = a \<and> schedule_inv rb dc s' h' \<and> a \<in> set (scheduled rb s') \<and>
    remove1 a (scheduled rb s') = remove1 a (scheduled rb s) \<and> (\<forall>b. b \<noteq> a \<longrightarrow> h' b = h b) \<and>
    when_t (h' a) = now \<and> what (h' a) = min (what (h a)) wh \<and> \<not> flush (h' a) \<and> zone (h' a) = zone (h a) \<and>
    (if what (h a) = wh then interrupt (h' a) = interrupt (h a) \<and> halted (h' a) = halted (h a)
     else interrupt (h' a) = wh \<and> halted (h' a) = what (h a) \<and> halted_when (h' a) = when_t (h a))"
proof -
  have ok: "nodes_ok dc h (rb_nodes rb (tasks s))" using inv by (simp add: schedule_inv_def)
  obtain xs ys where ns: "rb_nodes rb (tasks s) = xs @ (a, a) # ys" using scheduled_split [OF a ok] .
  let ?h1 = "h(a := (h a)\<lparr>flush := False\<rparr>)"
  obtain s1 where u: "unschedule_task rb dc s h (Some a) = (Some a, s1, ?h1)"
    using unschedule_present [OF rb dc inv ns] by blast
  let ?t = "rescheduled now wh (h a)"
  let ?h2 = "h(a := ?t)"
  note z = zone_reschedule_eval [OF u, of now wh]
  have "task_ok ?t" using now by (simp add: task_ok_def)
  then obtain s2 us vs where s2: "schedule_task rb dc s1 ?h2 (Some a) = (ODS_STATUS_OK, s2)" "schedule_inv rb dc s2 ?h2"
    "xs @ ys = us @ vs" "rb_nodes rb (tasks s2) = us @ (a, a) # vs"
    using reschedule_present [OF rb dc inv ns u refl, of ?t] by auto
  have e: "st = ODS_STATUS_OK" "s' = s2" "h' = ?h2" "t = a" using z s2(1) r by (auto simp: Let_def)
  have "a \<notin> set (map fst (xs @ ys))"
    using nodes_distinct(1) [OF dc ok [unfolded ns]] by force
  moreover have "a \<notin> set (map fst (us @ vs))" using calculation s2(3) by simp
  ultimately have "remove1 a (scheduled rb s2) = map fst (us @ vs)" "remove1 a (scheduled rb s) = map fst (xs @ ys)"
    using ns s2(4) by (auto simp: scheduled_def remove1_append)
  then have "remove1 a (scheduled rb s2) = remove1 a (scheduled rb s)" using s2(3) by simp
  moreover have "a \<in> set (scheduled rb s2)" using s2(4) by (simp add: scheduled_def)
  ultimately show ?thesis using s2(2) unfolding e by simp
qed

section \<open>Reachable schedules\<close>

text \<open>
  The operations are called with the task of a zone: it is in the schedule, or no task of its
  zone is.
\<close>

definition own_task ::
  "('t, addr, addr) rbtree \<Rightarrow> ('z \<Rightarrow> 'z \<Rightarrow> int) \<Rightarrow> 't schedule \<Rightarrow> 'z heap \<Rightarrow> addr \<Rightarrow> bool" where
  "own_task rb dc s h a \<longleftrightarrow> task_ok (h a) \<and>
     (a \<in> set (scheduled rb s) \<or> (\<forall>b \<in> set (scheduled rb s). dc (zone (h a)) (zone (h b)) \<noteq> 0))"

text \<open>
  A step of the system: an operation on the schedule, or a change of tasks that are not
  scheduled (a worker with the task it has popped).
\<close>

inductive schedule_step ::
  "('t, addr, addr) rbtree \<Rightarrow> ('z \<Rightarrow> 'z \<Rightarrow> int) \<Rightarrow> 't schedule \<times> 'z heap \<Rightarrow> 't schedule \<times> 'z heap \<Rightarrow> bool"
  for rb dc where
  step_schedule: "own_task rb dc s h a \<Longrightarrow> schedule_task rb dc s h (Some a) = (st, s') \<Longrightarrow>
     schedule_step rb dc (s, h) (s', h)"
| step_unschedule: "own_task rb dc s h a \<Longrightarrow> unschedule_task rb dc s h (Some a) = (r, s', h') \<Longrightarrow>
     schedule_step rb dc (s, h) (s', h')"
| step_reschedule: "a \<in> set (scheduled rb s) \<Longrightarrow> 0 \<le> at \<Longrightarrow> at < 2 ^ 31 \<Longrightarrow>
     reschedule_task rb dc s h (Some a) wh at = (st, s', h') \<Longrightarrow> schedule_step rb dc (s, h) (s', h')"
| step_zone_reschedule: "own_task rb dc s h a \<Longrightarrow> 0 \<le> now \<Longrightarrow> now < 2 ^ 31 \<Longrightarrow>
     zone_reschedule_task rb dc now s h a wh = (st, s', h', t) \<Longrightarrow> schedule_step rb dc (s, h) (s', h')"
| step_pop: "schedule_pop_task rb dc now s h = (r, s', h') \<Longrightarrow> schedule_step rb dc (s, h) (s', h')"
| step_flush: "schedule_flush rb TASK_NONE s h = (s', h') \<Longrightarrow> schedule_step rb dc (s, h) (s', h')"
| step_work: "(\<And>a. a \<in> set (scheduled rb s) \<Longrightarrow> h' a = h a) \<Longrightarrow> schedule_step rb dc (s, h) (s, h')"

inductive schedule_reach ::
  "('t, addr, addr) rbtree \<Rightarrow> ('z \<Rightarrow> 'z \<Rightarrow> int) \<Rightarrow> 't schedule \<times> 'z heap \<Rightarrow> bool" for rb dc where
  reach_create: "schedule_reach rb dc (schedule_create rb, h)"
| reach_step: "schedule_reach rb dc c \<Longrightarrow> schedule_step rb dc c c' \<Longrightarrow> schedule_reach rb dc c'"

lemma inv_work:
  assumes "schedule_inv rb dc s h" "\<And>a. a \<in> set (scheduled rb s) \<Longrightarrow> h' a = h a"
  shows "schedule_inv rb dc s h'"
proof -
  let ?ns = "rb_nodes rb (tasks s)"
  have e: "h' (fst n) = h (fst n)" if "n \<in> set ?ns" for n using assms(2) that by (simp add: scheduled_def)
  have "nodes_ok dc h' ?ns = nodes_ok dc h ?ns" by (rule nodes_ok_cong) (simp add: e)
  moreover have "flushing h' ?ns = flushing h ?ns" by (rule flushing_cong) (simp add: e)
  ultimately show ?thesis using assms(1) by (simp add: schedule_inv_def)
qed

lemma own_task_cases:
  assumes "own_task rb dc s h a" "schedule_inv rb dc s h"
  obtains (present) xs ys where "rb_nodes rb (tasks s) = xs @ (a, a) # ys" "a \<in> set (scheduled rb s)"
  | (absent) "task_ok (h a)" "\<forall>b \<in> set (scheduled rb s). dc (zone (h a)) (zone (h b)) \<noteq> 0"
  using assms scheduled_split [of a rb s dc h] by (auto simp: own_task_def schedule_inv_def)

lemma step_inv:
  assumes rb: "rbtree_contract rb" and dc: "dname_order dc"
    and "schedule_step rb dc c c'" "schedule_inv rb dc (fst c) (snd c)"
  shows "schedule_inv rb dc (fst c') (snd c')"
  using assms(3,4)
proof cases
  case (step_schedule s h a st s')
  then have inv: "schedule_inv rb dc s h" using assms(4) by simp
  from step_schedule(3) inv show ?thesis
  proof (cases rule: own_task_cases)
    case present
    then show ?thesis using schedule_present [OF rb dc inv] step_schedule inv by simp
  next
    case absent
    then show ?thesis using schedule_fresh [OF rb dc inv] step_schedule by fastforce
  qed
next
  case (step_unschedule s h a r s' h')
  then have inv: "schedule_inv rb dc s h" using assms(4) by simp
  from step_unschedule(3) inv show ?thesis
  proof (cases rule: own_task_cases)
    case present
    then show ?thesis using unschedule_present [OF rb dc inv] step_unschedule by fastforce
  next
    case absent
    then show ?thesis using unschedule_absent [OF rb dc inv] step_unschedule inv by simp
  qed
next
  case (step_reschedule a s at h wh st s' h')
  then have inv: "schedule_inv rb dc s h" using assms(4) by simp
  obtain xs ys where ns: "rb_nodes rb (tasks s) = xs @ (a, a) # ys"
    using scheduled_split step_reschedule(3) inv by (metis schedule_inv_def)
  obtain s1 where u: "unschedule_task rb dc s h (Some a) = (Some a, s1, h(a := (h a)\<lparr>flush := False\<rparr>))"
    using unschedule_present [OF rb dc inv ns] by blast
  let ?t = "(h a)\<lparr>flush := False, what := wh, when_t := at\<rparr>"
  have "task_ok ?t" using step_reschedule by (simp add: task_ok_def)
  then show ?thesis
    using reschedule_present [OF rb dc inv ns u refl, of ?t] step_reschedule u
    by (auto simp: reschedule_task_def Let_def)
next
  case (step_zone_reschedule s h a now wh st s' h' t)
  then have inv: "schedule_inv rb dc s h" using assms(4) by simp
  from step_zone_reschedule(3) inv show ?thesis
  proof (cases rule: own_task_cases)
    case (present xs ys)
    obtain s1 where u: "unschedule_task rb dc s h (Some a) = (Some a, s1, h(a := (h a)\<lparr>flush := False\<rparr>))"
      using unschedule_present [OF rb dc inv present(1)] by blast
    have "task_ok (rescheduled now wh (h a))" using step_zone_reschedule by (simp add: task_ok_def)
    then show ?thesis
      using reschedule_present [OF rb dc inv present(1) u refl, of "rescheduled now wh (h a)"] step_zone_reschedule
        zone_reschedule_eval [OF u, of now wh] by (auto simp: Let_def)
  next
    case absent
    have "a \<notin> set (scheduled rb s)" using absent(2) dname_order_refl [OF dc] by blast
    then have "schedule_inv rb dc s (h(a := (h a)\<lparr>interrupt := wh\<rparr>))" by (intro inv_work [OF inv]) auto
    then show ?thesis using unschedule_absent [OF rb dc inv absent] step_zone_reschedule
      by (auto simp: zone_reschedule_task_def)
  qed
next
  case (step_pop now s h r s' h')
  then have inv: "schedule_inv rb dc s h" using assms(4) by simp
  show ?thesis
  proof (cases "flushing h (rb_nodes rb (tasks s)) > 0")
    case True
    then show ?thesis using pop_flush [OF rb dc inv, of now] step_pop by auto
  next
    case False
    then show ?thesis
      using pop_no_flush [OF rb dc inv, of _ _ now] step_pop inv
      by (cases "rb_nodes rb (tasks s)")
        (auto simp: schedule_pop_task_def schedule_get_first_task_def split: if_splits)
  qed
next
  case (step_flush s h s' h')
  then show ?thesis using flush_all(1) assms(4) by fastforce
next
  case (step_work s h' h)
  then show ?thesis using inv_work assms(4) by fastforce
qed

lemma reach_inv:
  assumes rb: "rbtree_contract rb" and dc: "dname_order dc"
  shows "schedule_reach rb dc c \<Longrightarrow> schedule_inv rb dc (fst c) (snd c)"
proof (induction rule: schedule_reach.induct)
  case (reach_create h)
  then show ?case
    using rb_create_nodes [OF rb] by (simp add: schedule_inv_def schedule_create_def nodes_ok_def)
next
  case (reach_step c c')
  then show ?case using step_inv [OF rb dc] by blast
qed


section \<open>Witnesses\<close>

text \<open>Names that are numbers, and three tasks.\<close>

definition num_compare :: "int \<Rightarrow> int \<Rightarrow> int" where
  "num_compare a b = a - b"

lemma num_compare_order: "dname_order num_compare"
  by (auto simp: dname_order_def num_compare_def sgn_if)

definition sample_task :: "task_id \<Rightarrow> time_t \<Rightarrow> int \<Rightarrow> int task" where
  "sample_task wh at z = \<lparr>what = wh, interrupt = TASK_NONE, halted = TASK_NONE, when_t = at, halted_when = 0,
     backoff = 0, flush = False, zone = z\<rparr>"

definition sample_heap :: "int heap" where
  "sample_heap a = (if a = 1 then sample_task TASK_READ 100 2 else sample_task TASK_SIGN 100 1)"

definition sample_schedule :: "(addr \<times> addr) tree schedule" where
  "sample_schedule = \<lparr>tasks = Node (Node Leaf (1, 1) Leaf) (2, 2) Leaf, flushcount = 0, loading = 0\<rparr>"

lemmas sample_defs = sample_task_def sample_heap_def sample_schedule_def num_compare_def bst_def
  scheduled_def schedule_create_def schedule_task_def schedule_lookup_task_def compare_at_def task_compare_def
  to_int_def

lemma sample_schedule_1:
  "schedule_task bst num_compare (schedule_create bst) sample_heap (Some 2) =
     (ODS_STATUS_OK, \<lparr>tasks = Node Leaf (2, 2) Leaf, flushcount = 0, loading = 0\<rparr>)"
  by (simp add: sample_defs)

lemma sample_schedule_2:
  "schedule_task bst num_compare \<lparr>tasks = Node Leaf (2, 2) Leaf, flushcount = 0, loading = 0\<rparr> sample_heap (Some 1) =
     (ODS_STATUS_OK, sample_schedule)"
  by (simp add: sample_defs)

lemma sample_reach: "schedule_reach bst num_compare (sample_schedule, sample_heap)"
proof -
  have "schedule_reach bst num_compare (schedule_create bst, sample_heap)" by (rule reach_create)
  moreover have "own_task bst num_compare (schedule_create bst) sample_heap 2"
    "own_task bst num_compare \<lparr>tasks = Node Leaf (2, 2) Leaf, flushcount = 0, loading = 0\<rparr> sample_heap 1"
    by (simp_all add: own_task_def task_ok_def sample_defs)
  ultimately show ?thesis
    using sample_schedule_1 sample_schedule_2 by (meson reach_step step_schedule)
qed

lemma sample_inv: "schedule_inv bst num_compare sample_schedule sample_heap"
  using reach_inv [OF bst_contract num_compare_order sample_reach] by simp



theorem schedule_flush_drains_witness:
  "\<exists>s1 h1 s2 h2. schedule_flush bst TASK_NONE sample_schedule sample_heap = (s1, h1) \<and>
     pop_tasks bst num_compare [5, 6] s1 h1 = ([1, 2], s2, h2) \<and> scheduled bst s2 = []"
proof -
  obtain s1 h1 where f: "schedule_flush bst TASK_NONE sample_schedule sample_heap = (s1, h1)" by fastforce
  from schedule_flush_drains [OF bst_contract num_compare_order sample_inv f, of "[5, 6]"] f show ?thesis
    by (auto simp: scheduled_def sample_schedule_def bst_def)
qed

theorem zone_reschedule_task_witness:
  "\<exists>s h t. zone_reschedule_task bst num_compare 50 sample_schedule sample_heap 2 TASK_SIGNCONF =
      (ODS_STATUS_OK, s, h, t) \<and> when_t (h 2) = 50 \<and> what (h 2) = TASK_SIGNCONF \<and> halted (h 2) = TASK_SIGN"
proof -
  obtain st s h t where r: "zone_reschedule_task bst num_compare 50 sample_schedule sample_heap 2 TASK_SIGNCONF = (st, s, h, t)"
    by (metis prod_cases4)
  have "2 \<in> set (scheduled bst sample_schedule)" by (simp add: scheduled_def sample_schedule_def bst_def)
  from zone_reschedule_task_queued [OF bst_contract num_compare_order sample_inv this _ _ r] r show ?thesis
    by (simp add: sample_heap_def sample_task_def min_def less_eq_task_id_def)
qed

text \<open>
  Flushing with an override rewrites \<open>what\<close>, part of the key, of tasks that are in the
  tree.  With two tasks due at the same time this can break the order of the tree: the pop that
  follows selects a task to be flushed, does not find it in the tree and returns nothing, and so
  does every later one, whatever the time.
\<close>

theorem schedule_flush_override_stuck:
  "schedule_reach bst num_compare (sample_schedule, sample_heap) \<and>
   (let (s1, h1) = schedule_flush bst TASK_READ sample_schedule sample_heap in
    scheduled bst s1 = [1, 2] \<and> flush (h1 1) \<and> flush (h1 2) \<and>
    schedule_pop_task bst num_compare now s1 h1 = (None, s1, h1))"
  using sample_reach
  by (simp add: schedule_flush_def schedule_pop_task_def schedule_get_first_task_def unschedule_task_def sample_defs Let_def)

end
