(* ===== verification/Stats.thy ===== *)
theory Stats
  imports Prelude
begin

text \<open>
  Statistics of a zone, \<^verbatim>\<open>signer/src/signer/stats.c\<close>; the audit time, which nothing sets, and the
  lock are left out.
\<close>

record stats =
  sort_count :: u32
  sort_time :: time_t
  sort_done :: int
  nsec_count :: u32
  nsec_time :: time_t
  sig_count :: u32
  sig_soa_count :: u32
  sig_reuse :: u32
  sig_time :: time_t
  start_time :: time_t
  end_time :: time_t

definition stats_clear :: "stats \<Rightarrow> stats" where
  "stats_clear s = s\<lparr>sort_count := 0, sort_time := 0, sort_done := 0, nsec_count := 0, nsec_time := 0, sig_count := 0,
     sig_soa_count := 0, sig_reuse := 0, sig_time := 0, start_time := 0, end_time := 0\<rparr>"

end
