(* ===== verification/Worker.thy ===== *)
theory Worker
  imports Schedule Duration Stats
begin

text \<open>
  The workers, \<^verbatim>\<open>signer/src/daemon/worker.c\<close>: what a worker does with the task it has popped.
  \<^verbatim>\<open>worker_perform_task\<close> runs through the stages configure, read, sign and write by falling
  through the cases of a switch; every stage may fall through to the next, fail, or go back to
  a task that was interrupted.  The outcomes of the stages themselves (parsing the signer
  configuration, the adapters, the serial update, the jobs done by the drudgers) and the clock
  are inputs, a record of type \<open>work_env\<close>; the calls made are recorded in order.
\<close>

section \<open>Model\<close>

definition ODS_SE_MAX_BACKOFF :: time_t where "ODS_SE_MAX_BACKOFF = 3600"

record worker =
  working_with :: task_id
  clock_in :: time_t
  jobs_appointed :: nat
  jobs_completed :: nat
  jobs_failed :: nat
  need_to_exit :: bool
  sleeping :: bool
  waiting :: bool

definition worker_create :: worker where
  "worker_create = \<lparr>working_with = TASK_NONE, clock_in = 0, jobs_appointed = 0, jobs_completed = 0, jobs_failed = 0,
     need_to_exit = False, sleeping = False, waiting = False\<rparr>"

definition worker_fulfilled :: "worker \<Rightarrow> bool" where
  "worker_fulfilled w \<longleftrightarrow> jobs_completed w + jobs_failed w = jobs_appointed w"

definition worker_clear_jobs :: "worker \<Rightarrow> worker" where
  "worker_clear_jobs w = w\<lparr>jobs_appointed := 0, jobs_completed := 0, jobs_failed := 0\<rparr>"

text \<open>The last branch asserts what the branches before it have established.\<close>

definition worker_check_jobs :: "worker \<Rightarrow> ods_status" where
  "worker_check_jobs w =
    (if jobs_failed w \<noteq> 0 then ODS_STATUS_ERR
     else if jobs_completed w \<noteq> jobs_appointed w then ODS_STATUS_ERR
     else if need_to_exit w then ODS_STATUS_ERR
     else ODS_STATUS_OK)"

datatype call = tools_signconf | tools_input | zone_update_serial | worker_queue_zone | tools_output | zone_backup2

text \<open>
  The inputs: the clock in each stage and after the switch, the results of the calls, whether a
  signer configuration is loaded, the worker when it wakes up after the signing (with the jobs
  done by then), the resign interval, and the times around the signing.
\<close>

record work_env =
  time_now_in :: "task_id \<Rightarrow> time_t"
  time_now_end :: time_t
  signconf_status :: ods_status
  last_modified :: bool
  input_status :: ods_status
  serial_status :: ods_status
  woken :: worker
  output_status :: ods_status
  resign_interval :: "duration option"
  sign_start :: time_t
  sign_end :: time_t

record 'z work_state =
  wtask :: "'z task"
  worker :: worker
  stats :: "stats option"
  is_processed :: bool
  calls :: "call list"

datatype flow = Fallthrough | task_perform_fail ods_status | task_perform_continue | Break task_id time_t bool

definition worker_working_with :: "task_id \<Rightarrow> 'z work_state \<Rightarrow> 'z work_state" where
  "worker_working_with w s = s\<lparr>worker := (worker s)\<lparr>working_with := w\<rparr>\<rparr>"

definition record_call :: "call \<Rightarrow> 'z work_state \<Rightarrow> 'z work_state" where
  "record_call c s = s\<lparr>calls := calls s @ [c]\<rparr>"

text \<open>The jump taken when a stage has failed.\<close>

definition stage_failed :: "ods_status \<Rightarrow> 'z work_state \<Rightarrow> flow \<times> 'z work_state" where
  "stage_failed st s =
    (if halted (wtask s) = TASK_NONE then (task_perform_fail st, s) else (task_perform_continue, s))"

definition end_interrupt :: "'z work_state \<Rightarrow> 'z work_state" where
  "end_interrupt s =
    (if interrupt (wtask s) > TASK_SIGNCONF
     then s\<lparr>wtask := (wtask s)\<lparr>interrupt := TASK_NONE, halted := TASK_NONE\<rparr>\<rparr> else s)"

definition perform_signconf :: "work_env \<Rightarrow> 'z work_state \<Rightarrow> flow \<times> 'z work_state" where
  "perform_signconf e s =
    (let s = record_call tools_signconf (worker_working_with TASK_SIGNCONF s);
         st = signconf_status e;
         st = (if st = ODS_STATUS_UNCHANGED \<and> \<not> last_modified e then ODS_STATUS_ERR else st)
     in
     if st = ODS_STATUS_UNCHANGED then
       if halted (wtask s) \<noteq> TASK_NONE \<and> halted (wtask s) \<noteq> TASK_SIGNCONF then (task_perform_continue, s)
       else (Fallthrough, s)
     else if st = ODS_STATUS_OK then
       (Fallthrough, s\<lparr>wtask := (wtask s)\<lparr>interrupt := TASK_NONE, halted := TASK_NONE\<rparr>\<rparr>)
     else stage_failed st s)"

definition perform_read :: "work_env \<Rightarrow> 'z work_state \<Rightarrow> flow \<times> 'z work_state" where
  "perform_read e s =
    (let s = worker_working_with TASK_READ s;
         s = s\<lparr>wtask := (wtask s)\<lparr>what := TASK_READ\<rparr>\<rparr>;
         (st, s) = (if \<not> last_modified e then (ODS_STATUS_ERR, s) else (input_status e, record_call tools_input s));
         st = (if st = ODS_STATUS_UNCHANGED then ODS_STATUS_OK else st)
     in
     if st = ODS_STATUS_OK then (Fallthrough, end_interrupt s) else stage_failed st s)"

text \<open>Signing: the serial, then the jobs of the drudgers.\<close>

definition start_stats :: "work_env \<Rightarrow> stats \<Rightarrow> stats" where
  "start_stats e s = s\<lparr>start_time := (if start_time s = 0 then sign_start e else start_time s), sig_count := 0,
     sig_soa_count := 0, sig_reuse := 0, sig_time := 0\<rparr>"

definition perform_sign :: "work_env \<Rightarrow> 'z work_state \<Rightarrow> flow \<times> 'z work_state" where
  "perform_sign e s =
    (let s = worker_working_with TASK_SIGN s;
         s = s\<lparr>wtask := (wtask s)\<lparr>what := TASK_SIGN\<rparr>\<rparr>;
         s = record_call zone_update_serial s;
         st = serial_status e
     in
     if st \<noteq> ODS_STATUS_OK then stage_failed st s
     else
       let s = end_interrupt s;
           s = s\<lparr>stats := map_option (start_stats e) (stats s)\<rparr>;
           s = record_call worker_queue_zone s;
           w = woken e;
           st = worker_check_jobs w;
           s = s\<lparr>worker := worker_clear_jobs w\<rparr>;
           s = (if st = ODS_STATUS_OK
                then s\<lparr>stats := map_option (\<lambda>x. x\<lparr>sig_time := sign_end e - sign_start e\<rparr>) (stats s)\<rparr> else s)
       in
       if st \<noteq> ODS_STATUS_OK then stage_failed st s else (Fallthrough, end_interrupt s))"

definition perform_write :: "work_env \<Rightarrow> 'z work_state \<Rightarrow> flow \<times> 'z work_state" where
  "perform_write e s =
    (let s = worker_working_with TASK_WRITE s;
         s = s\<lparr>wtask := (wtask s)\<lparr>what := TASK_WRITE\<rparr>\<rparr>;
         s = record_call tools_output s;
         st = output_status e
     in
     if st \<noteq> ODS_STATUS_OK then stage_failed st s
     else
       let s = (end_interrupt s)\<lparr>is_processed := True\<rparr> in
       if resign_interval e \<noteq> None \<and> duration2time (resign_interval e) \<noteq> 0 then
         (Break TASK_SIGN (clock_in (worker s) + duration2time (resign_interval e)) True, s)
       else (Break TASK_SIGN (clock_in (worker s) + 3600) True, s))"

text \<open>Falling through to the next case.\<close>

definition then_stage ::
  "flow \<times> 'z work_state \<Rightarrow> ('z work_state \<Rightarrow> flow \<times> 'z work_state) \<Rightarrow> flow \<times> 'z work_state" where
  "then_stage r f = (case r of (Fallthrough, s) \<Rightarrow> f s | _ \<Rightarrow> r)"

definition perform_switch :: "work_env \<Rightarrow> 'z work_state \<Rightarrow> flow \<times> 'z work_state" where
  "perform_switch e s =
    (case what (wtask s) of
       TASK_SIGNCONF \<Rightarrow>
         then_stage (then_stage (then_stage (perform_signconf e s) (perform_read e)) (perform_sign e)) (perform_write e)
     | TASK_READ \<Rightarrow> then_stage (then_stage (perform_read e s) (perform_sign e)) (perform_write e)
     | TASK_SIGN \<Rightarrow> then_stage (perform_sign e s) (perform_write e)
     | TASK_WRITE \<Rightarrow> perform_write e s
     | TASK_NONE \<Rightarrow>
         (Break TASK_NONE (time_now_in e TASK_NONE + 3600 * 24 * 365) False, worker_working_with TASK_NONE s)
     | TASK_NSECIFY \<Rightarrow> (Break TASK_SIGNCONF (time_now_in e TASK_NSECIFY) False, worker_working_with TASK_NONE s))"

definition perform_done :: "work_env \<Rightarrow> task_id \<Rightarrow> time_t \<Rightarrow> bool \<Rightarrow> 'z work_state \<Rightarrow> 'z work_state" where
  "perform_done e wh at backup s =
    (let t = (wtask s)\<lparr>backoff := 0\<rparr>;
         t = (if interrupt t \<noteq> TASK_NONE \<and> interrupt t \<noteq> wh
              then t\<lparr>halted := wh, halted_when := at, what := interrupt t, when_t := time_now_end e\<rparr>
              else t\<lparr>what := wh, when_t := at, interrupt := TASK_NONE, halted := TASK_NONE, halted_when := 0\<rparr>);
         s = s\<lparr>wtask := t\<rparr>
     in if backup then record_call zone_backup2 s else s)"

definition next_backoff :: "time_t \<Rightarrow> time_t" where
  "next_backoff b =
    (let b = (if b \<noteq> 0 then b * 2 else 60) in if b > ODS_SE_MAX_BACKOFF then ODS_SE_MAX_BACKOFF else b)"

definition perform_failed :: "work_env \<Rightarrow> 'z work_state \<Rightarrow> 'z work_state" where
  "perform_failed e s =
    (let t = (wtask s)\<lparr>backoff := next_backoff (backoff (wtask s))\<rparr>
     in s\<lparr>is_processed := True, wtask := t\<lparr>when_t := time_now_end e + backoff t\<rparr>\<rparr>)"

definition perform_continued :: "'z work_state \<Rightarrow> 'z work_state" where
  "perform_continued s =
    (let t = wtask s
     in s\<lparr>wtask := t\<lparr>what := halted t, when_t := halted_when t, interrupt := TASK_NONE, halted := TASK_NONE,
            halted_when := 0\<rparr>\<rparr>)"

definition worker_perform_task :: "work_env \<Rightarrow> 'z work_state \<Rightarrow> 'z work_state" where
  "worker_perform_task e s =
    (case perform_switch e s of
       (Break wh at backup, s) \<Rightarrow> perform_done e wh at backup s
     | (task_perform_fail st, s) \<Rightarrow> perform_failed e s
     | (task_perform_continue, s) \<Rightarrow> perform_continued s
     | (Fallthrough, s) \<Rightarrow> s)"

text \<open>
  One round of \<^verbatim>\<open>worker_work\<close>.  With a task: it is performed and put back on the schedule.
  Without one: the worker sleeps, until the first task is due or, when the schedule is empty or
  still loading, twice as long as the last time, but never longer than the maximal backoff.
  The results are the schedule, the heap, the state of the worker and its timeout.
\<close>

definition idle_timeout :: "time_t \<Rightarrow> time_t \<Rightarrow> time_t option \<Rightarrow> int \<Rightarrow> time_t" where
  "idle_timeout now timeout first ld =
    (let timeout = (case first of Some at \<Rightarrow> if ld = 0 then at - now else timeout * 2 | None \<Rightarrow> timeout * 2)
     in if timeout > ODS_SE_MAX_BACKOFF then ODS_SE_MAX_BACKOFF else timeout)"

definition worker_work ::
  "('t, addr, addr) rbtree \<Rightarrow> ('z \<Rightarrow> 'z \<Rightarrow> int) \<Rightarrow> time_t \<Rightarrow> work_env \<Rightarrow> time_t \<Rightarrow> time_t \<Rightarrow>
   't schedule \<Rightarrow> 'z heap \<Rightarrow> worker \<Rightarrow> stats option \<Rightarrow> bool \<Rightarrow>
   't schedule \<times> 'z heap \<times> worker \<times> time_t \<times> ods_status" where
  "worker_work rb dc now e clock timeout s h w zst processed =
    (case schedule_pop_task rb dc now s h of
       (Some a, s, h) \<Rightarrow>
         let w = w\<lparr>working_with := what (h a), clock_in := clock\<rparr>;
             r = worker_perform_task e \<lparr>wtask = h a, worker = w, stats = zst, is_processed = processed, calls = []\<rparr>;
             h = h(a := wtask r);
             w = (worker r)\<lparr>working_with := TASK_NONE\<rparr>;
             (st, s) = schedule_task rb dc s h (Some a)
         in (s, h, w, 1, st)
     | (None, s, h) \<Rightarrow>
         let (first, s) = schedule_get_first_task rb s h
         in (s, h, w\<lparr>sleeping := True\<rparr>, idle_timeout now timeout (map_option (\<lambda>a. when_t (h a)) first) (loading s),
             ODS_STATUS_OK))"

section \<open>Backoff\<close>

lemma next_backoff_range: "0 \<le> b \<Longrightarrow> 0 < next_backoff b \<and> next_backoff b \<le> ODS_SE_MAX_BACKOFF"
  by (auto simp: next_backoff_def ODS_SE_MAX_BACKOFF_def Let_def)

text \<open>
  The waiting time after failures: it doubles from a minute up to an hour, so that the
  \<open>k\<close>-th failure in a row is followed by a wait of \<open>60 * 2 ^ (k - 1)\<close> seconds, at most
  \<^verbatim>\<open>ODS_SE_MAX_BACKOFF\<close>.
\<close>

lemma backoff_doubles: "(next_backoff ^^ Suc k) 0 = min (60 * 2 ^ k) ODS_SE_MAX_BACKOFF"
proof (induction k)
  case 0
  then show ?case by (simp add: next_backoff_def ODS_SE_MAX_BACKOFF_def)
next
  case (Suc k)
  have p: "(1 :: int) \<le> 2 ^ k" by simp
  have "(next_backoff ^^ Suc (Suc k)) 0 = next_backoff (min (60 * 2 ^ k) ODS_SE_MAX_BACKOFF)"
    using Suc.IH by simp
  also have "\<dots> = min (60 * 2 ^ Suc k) ODS_SE_MAX_BACKOFF"
    using p by (auto simp: next_backoff_def ODS_SE_MAX_BACKOFF_def min_def Let_def)
  finally show ?case .
qed

section \<open>The stages\<close>

lemmas stage_defs = perform_signconf_def perform_read_def perform_sign_def perform_write_def stage_failed_def
  end_interrupt_def worker_working_with_def record_call_def Let_def

text \<open>What performing a task never changes.\<close>

lemma stage_zone:
  "zone (wtask (snd (perform_signconf e s))) = zone (wtask s)"
  "zone (wtask (snd (perform_read e s))) = zone (wtask s)"
  "zone (wtask (snd (perform_sign e s))) = zone (wtask s)"
  "zone (wtask (snd (perform_write e s))) = zone (wtask s)"
  by (simp_all add: stage_defs)

lemma then_stage_pred:
  assumes "P (snd r)" "\<And>s. P s \<Longrightarrow> P (snd (f s))"
  shows "P (snd (then_stage r f))"
  using assms by (auto simp: then_stage_def split: prod.splits flow.splits)

lemma perform_zone: "zone (wtask (worker_perform_task e s)) = zone (wtask s)"
proof -
  let ?P = "\<lambda>s'. zone (wtask s') = zone (wtask s)"
  have "?P (snd (perform_switch e s))"
    unfolding perform_switch_def
    by (cases "what (wtask s)")
      (auto intro!: then_stage_pred [where P = ?P] simp: stage_zone worker_working_with_def)
  then show ?thesis
    by (auto simp: worker_perform_task_def perform_done_def perform_failed_def perform_continued_def record_call_def
        Let_def split: prod.splits flow.splits)
qed

lemma stage_flush:
  "flush (wtask (snd (perform_signconf e s))) = flush (wtask s)"
  "flush (wtask (snd (perform_read e s))) = flush (wtask s)"
  "flush (wtask (snd (perform_sign e s))) = flush (wtask s)"
  "flush (wtask (snd (perform_write e s))) = flush (wtask s)"
  by (simp_all add: stage_defs)

text \<open>Which stages a task runs through, and when a stage succeeds.\<close>

fun stages_from :: "task_id \<Rightarrow> task_id list" where
  "stages_from TASK_SIGNCONF = [TASK_SIGNCONF, TASK_READ, TASK_SIGN, TASK_WRITE]"
| "stages_from TASK_READ = [TASK_READ, TASK_SIGN, TASK_WRITE]"
| "stages_from TASK_SIGN = [TASK_SIGN, TASK_WRITE]"
| "stages_from TASK_WRITE = [TASK_WRITE]"
| "stages_from _ = []"

fun stage_ok :: "work_env \<Rightarrow> task_id \<Rightarrow> bool" where
  "stage_ok e TASK_SIGNCONF \<longleftrightarrow>
     signconf_status e = ODS_STATUS_OK \<or> signconf_status e = ODS_STATUS_UNCHANGED \<and> last_modified e"
| "stage_ok e TASK_READ \<longleftrightarrow> last_modified e \<and> input_status e \<in> {ODS_STATUS_OK, ODS_STATUS_UNCHANGED}"
| "stage_ok e TASK_SIGN \<longleftrightarrow> serial_status e = ODS_STATUS_OK \<and> worker_check_jobs (woken e) = ODS_STATUS_OK"
| "stage_ok e TASK_WRITE \<longleftrightarrow> output_status e = ODS_STATUS_OK"
| "stage_ok e _ \<longleftrightarrow> True"

definition quiet :: "'z task \<Rightarrow> bool" where
  "quiet t \<longleftrightarrow> interrupt t = TASK_NONE \<and> halted t = TASK_NONE"

text \<open>The result of a stage that is not interrupted.\<close>

definition stage_result :: "work_env \<Rightarrow> task_id \<Rightarrow> 'z work_state \<Rightarrow> flow \<times> 'z work_state \<Rightarrow> bool" where
  "stage_result e w s r \<longleftrightarrow>
     quiet (wtask (snd r)) \<and> what (wtask (snd r)) = w \<and> backoff (wtask (snd r)) = backoff (wtask s) \<and>
     clock_in (worker (snd r)) = clock_in (worker s) \<and>
     (if stage_ok e w then fst r = Fallthrough else \<exists>st. fst r = task_perform_fail st)"

lemma stage_results:
  assumes "quiet (wtask s)"
  shows "what (wtask s) = TASK_SIGNCONF \<Longrightarrow> stage_result e TASK_SIGNCONF s (perform_signconf e s)"
    "stage_result e TASK_READ s (perform_read e s)"
    "clock_in (woken e) = clock_in (worker s) \<Longrightarrow> stage_result e TASK_SIGN s (perform_sign e s)"
  using assms
  by (auto simp: stage_result_def quiet_def stage_defs less_task_id_def worker_clear_jobs_def)

definition resign_time :: "work_env \<Rightarrow> time_t" where
  "resign_time e = (if duration2time (resign_interval e) \<noteq> 0 then duration2time (resign_interval e) else 3600)"

lemma write_result:
  assumes "quiet (wtask s)"
  shows "if stage_ok e TASK_WRITE
    then \<exists>s'. perform_write e s = (Break TASK_SIGN (clock_in (worker s) + resign_time e) True, s') \<and>
      quiet (wtask s') \<and> is_processed s'
    else \<exists>s' st. perform_write e s = (task_perform_fail st, s') \<and> quiet (wtask s') \<and>
      what (wtask s') = TASK_WRITE \<and> backoff (wtask s') = backoff (wtask s)"
  using assms
  by (auto simp: quiet_def stage_defs less_task_id_def resign_time_def duration2time_def)

lemma then_stage_result:
  assumes "stage_result e w s r"
  shows "if stage_ok e w then then_stage r f = f (snd r)
    else then_stage r f = r \<and> (\<exists>st. fst r = task_perform_fail st)"
  using assms by (cases r; cases "fst r") (auto simp: stage_result_def then_stage_def split: if_splits)

text \<open>
  The outcome of a run of stages on a task that is not interrupted: \<open>first\<close> is the first
  stage that failed, if any.
\<close>

definition run_outcome :: "work_env \<Rightarrow> time_t \<Rightarrow> time_t \<Rightarrow> task_id option \<Rightarrow> flow \<times> 'z work_state \<Rightarrow> bool" where
  "run_outcome e clock b first r \<longleftrightarrow> quiet (wtask (snd r)) \<and>
     (case first of
        None \<Rightarrow> fst r = Break TASK_SIGN (clock + resign_time e) True \<and> is_processed (snd r)
      | Some f \<Rightarrow> (\<exists>st. fst r = task_perform_fail st) \<and> what (wtask (snd r)) = f \<and> backoff (wtask (snd r)) = b)"

lemma run_write:
  assumes "quiet (wtask s)"
  shows "run_outcome e (clock_in (worker s)) (backoff (wtask s))
    (find (\<lambda>w. \<not> stage_ok e w) [TASK_WRITE]) (perform_write e s)"
  using write_result [OF assms, of e] by (auto simp: run_outcome_def split: if_splits)

lemma run_then:
  assumes "stage_result e w s r" "\<And>s'. quiet (wtask s') \<Longrightarrow> clock_in (worker s') = clock_in (worker s) \<Longrightarrow>
      run_outcome e (clock_in (worker s')) (backoff (wtask s')) (find (\<lambda>w. \<not> stage_ok e w) ws) (f s')"
  shows "run_outcome e (clock_in (worker s)) (backoff (wtask s)) (find (\<lambda>w. \<not> stage_ok e w) (w # ws)) (then_stage r f)"
proof (cases "stage_ok e w")
  case True
  with then_stage_result [OF assms(1), of f] have "then_stage r f = f (snd r)" by simp
  with True assms(1) assms(2) [of "snd r"] show ?thesis by (simp add: stage_result_def)
next
  case False
  with then_stage_result [OF assms(1), of f] assms(1) show ?thesis by (auto simp: stage_result_def run_outcome_def)
qed

lemma then_stage_assoc: "then_stage (then_stage r f) g = then_stage r (\<lambda>s. then_stage (f s) g)"
  by (auto simp: then_stage_def split: prod.splits flow.splits)

lemma perform_switch_outcome:
  assumes q: "quiet (wtask s)" and w: "what (wtask s) \<in> {TASK_SIGNCONF, TASK_READ, TASK_SIGN, TASK_WRITE}"
    and c: "clock_in (woken e) = clock_in (worker s)"
  shows "run_outcome e (clock_in (worker s)) (backoff (wtask s))
    (find (\<lambda>w. \<not> stage_ok e w) (stages_from (what (wtask s)))) (perform_switch e s)"
proof -
  have sign: "run_outcome e (clock_in (worker s')) (backoff (wtask s'))
      (find (\<lambda>w. \<not> stage_ok e w) [TASK_SIGN, TASK_WRITE]) (then_stage (perform_sign e s') (perform_write e))"
    if "quiet (wtask s')" "clock_in (worker s') = clock_in (worker s)" for s' :: "'a work_state"
    using that c by (intro run_then stage_results(3) run_write) auto
  have read: "run_outcome e (clock_in (worker s')) (backoff (wtask s'))
      (find (\<lambda>w. \<not> stage_ok e w) [TASK_READ, TASK_SIGN, TASK_WRITE])
      (then_stage (perform_read e s') (\<lambda>s. then_stage (perform_sign e s) (perform_write e)))"
    if "quiet (wtask s')" "clock_in (worker s') = clock_in (worker s)" for s' :: "'a work_state"
    using that by (intro run_then stage_results(2) sign) auto
  have conf: "run_outcome e (clock_in (worker s)) (backoff (wtask s))
      (find (\<lambda>w. \<not> stage_ok e w) [TASK_SIGNCONF, TASK_READ, TASK_SIGN, TASK_WRITE])
      (then_stage (perform_signconf e s)
        (\<lambda>s. then_stage (perform_read e s) (\<lambda>s. then_stage (perform_sign e s) (perform_write e))))"
    if "what (wtask s) = TASK_SIGNCONF"
    using that q by (intro run_then stage_results(1) read) auto
  show ?thesis
    using w conf read [OF q refl] sign [OF q refl] run_write [OF q, of e]
    by (cases "what (wtask s)") (simp_all add: perform_switch_def then_stage_assoc del: find.simps)
qed

section \<open>Properties\<close>

text \<open>
  Performing a task that nobody interrupts: the stages from the task's own on are run in
  order.  If all succeed, the zone is scheduled to be signed again after the resign interval
  (an hour if there is none) and the backoff is reset.  Otherwise the task stays at the first
  stage that failed, so that the next attempt starts there, and waits for the next backoff
  time.
\<close>

theorem worker_perform_task_outcome:
  assumes "interrupt (wtask s) = TASK_NONE" "halted (wtask s) = TASK_NONE"
    and "what (wtask s) \<in> {TASK_SIGNCONF, TASK_READ, TASK_SIGN, TASK_WRITE}"
    and "clock_in (woken e) = clock_in (worker s)"
  shows "let t = wtask (worker_perform_task e s) in
    is_processed (worker_perform_task e s) \<and> interrupt t = TASK_NONE \<and> halted t = TASK_NONE \<and>
    (case find (\<lambda>w. \<not> stage_ok e w) (stages_from (what (wtask s))) of
       None \<Rightarrow> what t = TASK_SIGN \<and> when_t t = clock_in (worker s) + resign_time e \<and> backoff t = 0
     | Some f \<Rightarrow> what t = f \<and> backoff t = next_backoff (backoff (wtask s)) \<and>
         when_t t = time_now_end e + next_backoff (backoff (wtask s)))"
proof -
  obtain f s' where p: "perform_switch e s = (f, s')" by fastforce
  have "run_outcome e (clock_in (worker s)) (backoff (wtask s))
      (find (\<lambda>w. \<not> stage_ok e w) (stages_from (what (wtask s)))) (f, s')"
    using perform_switch_outcome [of s e] assms p by (simp add: quiet_def)
  then show ?thesis
    by (auto simp: run_outcome_def quiet_def worker_perform_task_def p perform_done_def perform_failed_def
        record_call_def Let_def split: option.splits)
qed

text \<open>Which calls have been made: nothing is written before it has been signed.\<close>

definition write_guard :: "work_env \<Rightarrow> task_id \<Rightarrow> 'z work_state \<Rightarrow> bool" where
  "write_guard e w s \<longleftrightarrow>
     (worker_queue_zone \<in> set (calls s) \<longrightarrow> serial_status e = ODS_STATUS_OK) \<and>
     (tools_output \<in> set (calls s) \<longrightarrow> w = TASK_WRITE \<or> worker_queue_zone \<in> set (calls s) \<and>
        worker_check_jobs (woken e) = ODS_STATUS_OK) \<and>
     (zone_update_serial \<in> set (calls s) \<longrightarrow> w \<in> {TASK_SIGN, TASK_WRITE} \<or>
        last_modified e \<and> input_status e \<in> {ODS_STATUS_OK, ODS_STATUS_UNCHANGED})"

lemma perform_signconf_calls:
  "calls (snd (perform_signconf e s)) = calls s @ [tools_signconf]"
  by (simp add: stage_defs)

lemma perform_read_calls:
  "calls (snd (perform_read e s)) = calls s @ (if last_modified e then [tools_input] else [])"
  "fst (perform_read e s) = Fallthrough \<Longrightarrow> last_modified e \<and> input_status e \<in> {ODS_STATUS_OK, ODS_STATUS_UNCHANGED}"
  by (auto simp: stage_defs split: if_splits)

lemma perform_sign_calls:
  "calls (snd (perform_sign e s)) =
     calls s @ zone_update_serial # (if serial_status e = ODS_STATUS_OK then [worker_queue_zone] else [])"
  "fst (perform_sign e s) = Fallthrough \<Longrightarrow> serial_status e = ODS_STATUS_OK \<and> worker_check_jobs (woken e) = ODS_STATUS_OK"
  by (auto simp: stage_defs split: if_splits)

lemma perform_write_calls: "calls (snd (perform_write e s)) = calls s @ [tools_output]"
  by (simp add: stage_defs)

lemma then_stage_calls:
  "calls (snd (then_stage r f)) = (if fst r = Fallthrough then calls (snd (f (snd r))) else calls (snd r))"
  by (auto simp: then_stage_def split: prod.splits flow.splits)

lemma then_stage_fallthrough:
  "fst (then_stage r f) = Fallthrough \<longleftrightarrow> fst r = Fallthrough \<and> fst (f (snd r)) = Fallthrough"
  by (auto simp: then_stage_def split: prod.splits flow.splits)

text \<open>
  C24. A worker never writes a zone that it has not signed: the output adapter is called only
  for a task that was already at the write stage, or after the serial has been updated and all
  the jobs given to the drudgers in this run have been completed, none failed.  Likewise
  signing is started only by a task at that stage or after reading the input succeeded with a
  signer configuration loaded.
\<close>

theorem worker_writes_only_signed:
  assumes "calls s = []"
  shows "write_guard e (what (wtask s)) (worker_perform_task e s)"
proof -
  have "set (calls (worker_perform_task e s)) \<subseteq> set (calls (snd (perform_switch e s))) \<union> {zone_backup2}"
    "set (calls (snd (perform_switch e s))) \<subseteq> set (calls (worker_perform_task e s))"
    by (auto simp: worker_perform_task_def perform_done_def perform_failed_def perform_continued_def
        record_call_def Let_def split: prod.splits flow.splits)
  then have "write_guard e w (worker_perform_task e s) = write_guard e w (snd (perform_switch e s))" for w
    unfolding write_guard_def by blast
  moreover have "write_guard e (what (wtask s)) (snd (perform_switch e s))"
    using assms perform_read_calls(2) [of e] perform_sign_calls(2) [of e]
    by (cases "what (wtask s)")
      (auto simp: perform_switch_def write_guard_def then_stage_calls then_stage_fallthrough perform_signconf_calls
        perform_read_calls(1) perform_sign_calls(1) perform_write_calls worker_working_with_def split: if_splits)
  ultimately show ?thesis by simp
qed

text \<open>
  C25. No zone drops out of the schedule: a round of a worker that pops a task puts the same
  task back, whatever the stages did, so that exactly the same tasks are scheduled and the
  schedule keeps its invariant.  (The times the round assigns have to fit the comparison of
  tasks.)
\<close>

theorem worker_work_keeps_tasks:
  assumes rb: "rbtree_contract rb" and dc: "dname_order dc" and inv: "schedule_inv rb dc s h"
    and pop: "schedule_pop_task rb dc now s h = (Some a, s1, h1)"
    and run: "worker_work rb dc now e clock timeout s h w zst processed = (s', h', w', timeout', st)"
    and ok: "task_ok (h' a)"
  shows "st = ODS_STATUS_OK \<and> schedule_inv rb dc s' h' \<and> set (scheduled rb s') = set (scheduled rb s) \<and>
    (\<forall>b. b \<noteq> a \<longrightarrow> h' b = h b) \<and> zone (h' a) = zone (h a)"
proof -
  have inv1: "schedule_inv rb dc s1 h1" and a: "a \<in> set (scheduled rb s)" "scheduled rb s1 = remove1 a (scheduled rb s)"
    "a \<notin> set (scheduled rb s1)" and h1: "h1 = h(a := (h a)\<lparr>flush := False\<rparr>)"
    using pop_correct [OF rb dc inv pop] by auto
  let ?r = "worker_perform_task e \<lparr>wtask = h1 a, worker = w\<lparr>working_with := what (h1 a), clock_in := clock\<rparr>,
    stats = zst, is_processed = processed, calls = []\<rparr>"
  have h': "h' = h1(a := wtask ?r)" and st: "schedule_task rb dc s1 h' (Some a) = (st, s')"
    using run by (auto simp: worker_work_def pop Let_def split: prod.splits)
  have z: "zone (h' a) = zone (h a)" using h' h1 by (simp add: perform_zone)
  have inv2: "schedule_inv rb dc s1 h'" by (rule inv_work [OF inv1]) (use a h' in auto)
  have "\<forall>b \<in> set (scheduled rb s1). dc (zone (h' a)) (zone (h' b)) \<noteq> 0"
    using scheduled_zones [OF dc inv a(1)] a z h' h1 by (auto dest: notin_set_remove1)
  from schedule_fresh [OF rb dc inv2 ok this] obtain xs ys where
    "st = ODS_STATUS_OK" "schedule_inv rb dc s' h'" "rb_nodes rb (tasks s1) = xs @ ys"
    "rb_nodes rb (tasks s') = xs @ (a, a) # ys" using st by auto
  moreover from this have "set (scheduled rb s') = insert a (set (scheduled rb s1))" by (auto simp: scheduled_def)
  moreover have "insert a (set (remove1 a (scheduled rb s))) = set (scheduled rb s)"
  proof (rule set_eqI)
    show "x \<in> insert a (set (remove1 a (scheduled rb s))) \<longleftrightarrow> x \<in> set (scheduled rb s)" for x
      using a(1) in_set_remove1 [of x a "scheduled rb s"] by (cases "x = a") auto
  qed
  ultimately show ?thesis using a z h' h1 by auto
qed

section \<open>Witnesses\<close>

definition sample_env :: work_env where
  "sample_env = \<lparr>time_now_in = (\<lambda>_. 100), time_now_end = 110, signconf_status = ODS_STATUS_UNCHANGED,
     last_modified = True, input_status = ODS_STATUS_OK, serial_status = ODS_STATUS_OK,
     woken = worker_create\<lparr>jobs_appointed := 5, jobs_completed := 5, clock_in := 100\<rparr>, output_status = ODS_STATUS_FWRITE_ERR,
     resign_interval = None, sign_start = 101, sign_end = 103\<rparr>"

definition sample_work :: "int work_state" where
  "sample_work = \<lparr>wtask = sample_task TASK_READ 100 2, worker = worker_create\<lparr>clock_in := 100\<rparr>, stats = None,
     is_processed = False, calls = []\<rparr>"

theorem worker_perform_task_witness:
  "what (wtask (worker_perform_task sample_env sample_work)) = TASK_WRITE \<and>
   when_t (wtask (worker_perform_task sample_env sample_work)) = 170"
  using worker_perform_task_outcome [of sample_work sample_env]
  by (simp add: sample_work_def sample_env_def sample_task_def worker_create_def worker_check_jobs_def
      next_backoff_def ODS_SE_MAX_BACKOFF_def Let_def)

theorem worker_writes_only_signed_witness:
  "write_guard sample_env TASK_READ (worker_perform_task sample_env sample_work)"
  using worker_writes_only_signed [of sample_work sample_env] by (simp add: sample_work_def sample_task_def)

definition unconfigured_env :: work_env where
  "unconfigured_env = sample_env\<lparr>last_modified := False\<rparr>"

theorem worker_work_keeps_tasks_witness:
  "\<exists>s' h' w' timeout'.
    worker_work bst num_compare 100 unconfigured_env 100 1 sample_schedule sample_heap worker_create None False =
      (s', h', w', timeout', ODS_STATUS_OK) \<and>
    set (scheduled bst s') = {1, 2} \<and> when_t (h' 1) = 170"
proof -
  have p: "schedule_pop_task bst num_compare 100 sample_schedule sample_heap =
      (Some 1, sample_schedule\<lparr>tasks := Node Leaf (2, 2) Leaf\<rparr>, sample_heap)"
    by (simp add: schedule_pop_task_def schedule_get_first_task_def unschedule_task_def sample_defs)
  obtain s' h' w' timeout' st where
    r: "worker_work bst num_compare 100 unconfigured_env 100 1 sample_schedule sample_heap worker_create None False =
      (s', h', w', timeout', st)" by (metis prod_cases5)
  have h: "when_t (h' 1) = 170"
    using r unfolding worker_work_def p
    by (auto simp: worker_perform_task_def perform_switch_def then_stage_def perform_failed_def stage_defs
        unconfigured_env_def sample_env_def sample_heap_def sample_task_def next_backoff_def ODS_SE_MAX_BACKOFF_def
        split: prod.splits)
  then have "task_ok (h' 1)" by (simp add: task_ok_def)
  with worker_work_keeps_tasks [OF bst_contract num_compare_order sample_inv p r] r h show ?thesis
    by (simp add: scheduled_def sample_schedule_def bst_def)
qed

end
