(* ===== verification/Drudge.thy ===== *)
theory Drudge
  imports Worker Fifoq
begin

text \<open>
  How workers and drudgers cooperate on the signing of a zone (\<^verbatim>\<open>worker_queue_rrset\<close>,
  \<^verbatim>\<open>worker_queue_zone\<close>, \<^verbatim>\<open>worker_sleep_unless\<close>, \<^verbatim>\<open>worker_drudge\<close> and \<^verbatim>\<open>worker_wakeup\<close> of
  \<^verbatim>\<open>signer/src/daemon/worker.c\<close>).  A worker queues all RRsets of its zone, counting the jobs it
  appoints, and sleeps until they are done; drudgers take RRsets from the queue, sign them, count
  the result with the worker that owns the RRset, and wake it up when all its jobs are done.

  A step of the model is a section of the code that holds a lock, or one unlocked read of the
  shared flags; steps of all threads interleave freely.  The queue is the list of owners of the
  queued RRsets, which is what \<^verbatim>\<open>fifoq.c\<close> implements (theory \<open>Fifoq\<close>).  Condition variables may
  wake a thread spuriously.  Shutting down (\<^verbatim>\<open>need_to_exit\<close>) is not part of this model.
\<close>

section \<open>Model\<close>

text \<open>
  Where a worker is: before queueing the next of \<open>k\<close> RRsets, between pushing one and counting it,
  at the test of the loop of \<^verbatim>\<open>worker_sleep_unless\<close>, asleep on its alarm, or past the loop.
\<close>

datatype wphase = Queueing nat | Pushed nat | Testing | Asleep | Finished

text \<open>
  Where a drudger is: before taking an RRset, waiting for the threshold, woken up, signing an
  RRset of a worker, past the count of the result, in \<^verbatim>\<open>worker_wakeup\<close>, and about to send the
  alarm.
\<close>

datatype dphase = Reporting | Waiting | Woken | Signing nat | Counted nat | Waking nat | Alarming nat

record job_worker =
  phase :: wphase
  job_counts :: worker
  rrsets :: nat

record pool =
  workers :: "nat \<Rightarrow> job_worker"
  signq :: "nat list"
  drudgers :: "dphase list"

definition set_worker :: "nat \<Rightarrow> job_worker \<Rightarrow> pool \<Rightarrow> pool" where
  "set_worker w x p = p\<lparr>workers := (workers p)(w := x)\<rparr>"

definition set_drudger :: "nat \<Rightarrow> dphase \<Rightarrow> pool \<Rightarrow> pool" where
  "set_drudger i d p = p\<lparr>drudgers := (drudgers p)[i := d]\<rparr>"

text \<open>The sections of a worker.\<close>

definition start_run :: "nat \<Rightarrow> nat \<Rightarrow> pool \<Rightarrow> pool" where
  "start_run w n p =
     (let x = workers p w in
      set_worker w (x\<lparr>phase := Queueing n, job_counts := worker_clear_jobs (job_counts x), rrsets := n\<rparr>) p)"

definition push_rrset :: "nat \<Rightarrow> nat \<Rightarrow> pool \<Rightarrow> pool" where
  "push_rrset w k p =
     (let x = workers p w;
          p' = set_worker w (x\<lparr>phase := Pushed k\<rparr>) p;
          p' = p'\<lparr>signq := signq p @ [w]\<rparr>
      in if signq p = [] then p'\<lparr>drudgers := map (\<lambda>d. if d = Waiting then Woken else d) (drudgers p)\<rparr> else p')"

definition appoint_job :: "nat \<Rightarrow> nat \<Rightarrow> pool \<Rightarrow> pool" where
  "appoint_job w k p =
     (let x = workers p w; c = job_counts x in
      set_worker w (x\<lparr>phase := Queueing k, job_counts := c\<lparr>jobs_appointed := jobs_appointed c + 1\<rparr>\<rparr>) p)"

definition sleep_test :: "nat \<Rightarrow> pool \<Rightarrow> pool" where
  "sleep_test w p =
     (let x = workers p w; c = job_counts x in
      if worker_fulfilled c then set_worker w (x\<lparr>phase := Finished\<rparr>) p
      else set_worker w (x\<lparr>phase := Asleep, job_counts := c\<lparr>sleeping := True\<rparr>\<rparr>) p)"

text \<open>The sections of a drudger.  \<open>otherwise\<close> is where it goes when the queue is empty.\<close>

definition pop_rrset :: "nat \<Rightarrow> dphase \<Rightarrow> pool \<Rightarrow> pool" where
  "pop_rrset i otherwise p =
     (case signq p of [] \<Rightarrow> set_drudger i otherwise p
      | w # q \<Rightarrow> set_drudger i (Signing w) (p\<lparr>signq := q\<rparr>))"

definition count_job :: "nat \<Rightarrow> nat \<Rightarrow> bool \<Rightarrow> pool \<Rightarrow> pool" where
  "count_job i w ok p =
     (let x = workers p w; c = job_counts x;
          c = (if ok then c\<lparr>jobs_completed := jobs_completed c + 1\<rparr> else c\<lparr>jobs_failed := jobs_failed c + 1\<rparr>)
      in set_drudger i (Counted w) (set_worker w (x\<lparr>job_counts := c\<rparr>) p))"

definition test_superior :: "nat \<Rightarrow> nat \<Rightarrow> pool \<Rightarrow> pool" where
  "test_superior i w p =
     (let c = job_counts (workers p w) in
      set_drudger i (if worker_fulfilled c \<and> sleeping c then Waking w else Reporting) p)"

definition wakeup_test :: "nat \<Rightarrow> nat \<Rightarrow> pool \<Rightarrow> pool" where
  "wakeup_test i w p =
     (let c = job_counts (workers p w) in
      set_drudger i (if sleeping c \<and> \<not> waiting c then Alarming w else Reporting) p)"

definition wakeup_alarm :: "nat \<Rightarrow> nat \<Rightarrow> pool \<Rightarrow> pool" where
  "wakeup_alarm i w p =
     (let x = workers p w; c = job_counts x in
      set_drudger i Reporting
        (set_worker w (x\<lparr>phase := (if phase x = Asleep then Testing else phase x),
                         job_counts := c\<lparr>sleeping := False\<rparr>\<rparr>) p))"

inductive pool_step :: "pool \<Rightarrow> pool \<Rightarrow> bool" where
  run: "phase (workers p w) = Finished \<Longrightarrow> pool_step p (start_run w n p)"
| push: "phase (workers p w) = Queueing (Suc k) \<Longrightarrow> length (signq p) < FIFOQ_MAX_COUNT \<Longrightarrow> pool_step p (push_rrset w k p)"
| appoint: "phase (workers p w) = Pushed k \<Longrightarrow> pool_step p (appoint_job w k p)"
| queued: "phase (workers p w) = Queueing 0 \<Longrightarrow> pool_step p (set_worker w ((workers p w)\<lparr>phase := Testing\<rparr>) p)"
| test: "phase (workers p w) = Testing \<Longrightarrow> pool_step p (sleep_test w p)"
| spurious_worker: "phase (workers p w) = Asleep \<Longrightarrow> pool_step p (set_worker w ((workers p w)\<lparr>phase := Testing\<rparr>) p)"
| pop: "i < length (drudgers p) \<Longrightarrow> drudgers p ! i = Reporting \<Longrightarrow> pool_step p (pop_rrset i Waiting p)"
| pop_again: "i < length (drudgers p) \<Longrightarrow> drudgers p ! i = Woken \<Longrightarrow> pool_step p (pop_rrset i Reporting p)"
| spurious_drudger: "i < length (drudgers p) \<Longrightarrow> drudgers p ! i = Waiting \<Longrightarrow> pool_step p (set_drudger i Woken p)"
| sign: "i < length (drudgers p) \<Longrightarrow> drudgers p ! i = Signing w \<Longrightarrow> pool_step p (count_job i w ok p)"
| check: "i < length (drudgers p) \<Longrightarrow> drudgers p ! i = Counted w \<Longrightarrow> pool_step p (test_superior i w p)"
| wakeup: "i < length (drudgers p) \<Longrightarrow> drudgers p ! i = Waking w \<Longrightarrow> pool_step p (wakeup_test i w p)"
| alarm: "i < length (drudgers p) \<Longrightarrow> drudgers p ! i = Alarming w \<Longrightarrow> pool_step p (wakeup_alarm i w p)"

text \<open>At the start all workers are idle and all drudgers report for duty.\<close>

definition pool_init :: "nat \<Rightarrow> pool" where
  "pool_init n = \<lparr>workers = (\<lambda>_. \<lparr>phase = Finished, job_counts = worker_create, rrsets = 0\<rparr>), signq = [],
     drudgers = replicate n Reporting\<rparr>"

inductive pool_reach :: "nat \<Rightarrow> pool \<Rightarrow> bool" for n where
  init: "pool_reach n (pool_init n)"
| step: "pool_reach n p \<Longrightarrow> pool_step p p' \<Longrightarrow> pool_reach n p'"

section \<open>Invariant\<close>

text \<open>Jobs of a worker that are queued or being signed are exactly those not yet counted.\<close>

definition outstanding :: "pool \<Rightarrow> nat \<Rightarrow> nat" where
  "outstanding p w = count_list (signq p) w + count_list (drudgers p) (Signing w)"

fun phase_ok :: "pool \<Rightarrow> nat \<Rightarrow> wphase \<Rightarrow> bool" where
  "phase_ok p w (Queueing k) \<longleftrightarrow> jobs_appointed (job_counts (workers p w)) + k = rrsets (workers p w)"
| "phase_ok p w (Pushed k) \<longleftrightarrow> jobs_appointed (job_counts (workers p w)) + 1 + k = rrsets (workers p w)"
| "phase_ok p w Testing \<longleftrightarrow> jobs_appointed (job_counts (workers p w)) = rrsets (workers p w)"
| "phase_ok p w Asleep \<longleftrightarrow> jobs_appointed (job_counts (workers p w)) = rrsets (workers p w) \<and>
     sleeping (job_counts (workers p w)) \<and>
     (\<not> worker_fulfilled (job_counts (workers p w)) \<or>
      Counted w \<in> set (drudgers p) \<or> Waking w \<in> set (drudgers p) \<or> Alarming w \<in> set (drudgers p))"
| "phase_ok p w Finished \<longleftrightarrow> jobs_appointed (job_counts (workers p w)) = rrsets (workers p w) \<and>
     worker_fulfilled (job_counts (workers p w))"

definition counts_ok :: "pool \<Rightarrow> nat \<Rightarrow> bool" where
  "counts_ok p w \<longleftrightarrow>
     (let x = workers p w; c = job_counts x in
      jobs_appointed c + (case phase x of Pushed _ \<Rightarrow> 1 | _ \<Rightarrow> 0) =
        jobs_completed c + jobs_failed c + outstanding p w \<and> \<not> waiting c)"

definition pool_inv :: "pool \<Rightarrow> bool" where
  "pool_inv p \<longleftrightarrow> (\<forall>w. counts_ok p w \<and> phase_ok p w (phase (workers p w))) \<and>
     (signq p \<noteq> [] \<longrightarrow> Waiting \<notin> set (drudgers p))"

lemma pool_invD:
  "pool_inv p \<Longrightarrow> counts_ok p w" "pool_inv p \<Longrightarrow> phase (workers p w) = ph \<Longrightarrow> phase_ok p w ph"
  "pool_inv p \<Longrightarrow> signq p \<noteq> [] \<Longrightarrow> Waiting \<notin> set (drudgers p)"
  by (auto simp: pool_inv_def)

lemma count_list_update:
  "i < length xs \<Longrightarrow> count_list (xs[i := y]) a + (if xs ! i = a then 1 else 0) =
     count_list xs a + (if y = a then 1 else 0)"
proof (induction xs arbitrary: i)
  case (Cons x xs)
  show ?case
  proof (cases i)
    case (Suc j)
    with Cons.IH [of j] Cons.prems show ?thesis by (auto split: if_splits)
  qed simp
qed simp

lemma count_list_zero: "count_list xs a = 0 \<longleftrightarrow> a \<notin> set xs"
  by (induction xs) auto

lemma in_set_update_other: "i < length xs \<Longrightarrow> xs ! i \<noteq> a \<Longrightarrow> a \<in> set (xs[i := y]) \<longleftrightarrow> a \<in> set xs \<or> y = a"
  by (metis in_set_conv_nth length_list_update nth_list_update_eq nth_list_update_neq set_update_memI)

text \<open>Changing one worker leaves the others alone.\<close>

lemma set_worker_simps [simp]:
  "workers (set_worker w x p) = (workers p)(w := x)" "signq (set_worker w x p) = signq p"
  "drudgers (set_worker w x p) = drudgers p" "outstanding (set_worker w x p) v = outstanding p v"
  by (simp_all add: set_worker_def outstanding_def)

lemma set_drudger_simps [simp]:
  "workers (set_drudger i d p) = workers p" "signq (set_drudger i d p) = signq p"
  "drudgers (set_drudger i d p) = (drudgers p)[i := d]"
  by (simp_all add: set_drudger_def)

lemma phase_ok_cong:
  assumes "workers p' w = workers p w"
    and "\<And>d. d \<in> {Counted w, Waking w, Alarming w} \<Longrightarrow> d \<in> set (drudgers p) \<Longrightarrow> d \<in> set (drudgers p')"
  shows "phase_ok p w ph \<Longrightarrow> phase_ok p' w ph"
  using assms by (cases ph) auto

lemma counts_ok_cong:
  "workers p' w = workers p w \<Longrightarrow> outstanding p' w = outstanding p w \<Longrightarrow> counts_ok p' w = counts_ok p w"
  by (simp add: counts_ok_def)

text \<open>A step of a worker that leaves the queue and the drudgers alone.\<close>

lemma worker_step_inv:
  assumes "pool_inv p" and "counts_ok (set_worker w x p) w" "phase_ok (set_worker w x p) w (phase x)"
  shows "pool_inv (set_worker w x p)"
proof -
  have "counts_ok (set_worker w x p) v \<and> phase_ok (set_worker w x p) v (phase (workers (set_worker w x p) v))" for v
  proof (cases "v = w")
    case True
    then show ?thesis using assms by simp
  next
    case False
    then show ?thesis using assms(1)
      by (auto simp: pool_inv_def counts_ok_cong [of "set_worker w x p" v p] intro: phase_ok_cong [of "set_worker w x p" v p])
  qed
  then show ?thesis using assms(1) by (simp add: pool_inv_def)
qed

text \<open>A step of a drudger from the phase \<open>d\<close> that no worker waits for.\<close>

lemma drudger_step_inv:
  assumes inv: "pool_inv p" and i: "i < length (drudgers p)"
    and "\<And>w. drudgers p ! i \<noteq> Signing w" "\<And>w. d \<noteq> Signing w" "d = Waiting \<Longrightarrow> signq p = []"
    and wake: "\<And>w. drudgers p ! i \<in> {Counted w, Waking w, Alarming w} \<Longrightarrow> phase (workers p w) = Asleep \<Longrightarrow>
        worker_fulfilled (job_counts (workers p w)) \<Longrightarrow> d \<in> {Counted w, Waking w, Alarming w}"
  shows "pool_inv (set_drudger i d p)"
proof -
  let ?p = "set_drudger i d p"
  have c: "count_list ((drudgers p)[i := d]) (Signing w) = count_list (drudgers p) (Signing w)" for w
    using count_list_update [OF i, of d "Signing w"] assms(3,4) by simp
  have "phase_ok ?p w (phase (workers p w))" for w
  proof -
    have old: "phase_ok p w (phase (workers p w))" using inv by (simp add: pool_inv_def)
    show ?thesis
    proof (cases "phase (workers p w) = Asleep \<and> worker_fulfilled (job_counts (workers p w))")
      case True
      show ?thesis
      proof (cases "drudgers p ! i \<in> {Counted w, Waking w, Alarming w}")
        case on: True
        have "d \<in> set ((drudgers p)[i := d])" using i by (simp add: set_update_memI)
        with True wake [OF on] old show ?thesis by auto
      next
        case False
        with True old i show ?thesis by (auto simp: in_set_update_other)
      qed
    next
      case False
      then show ?thesis using old by (cases "phase (workers p w)") auto
    qed
  qed
  moreover have "counts_ok ?p w" for w
    using inv c by (simp add: pool_inv_def counts_ok_def outstanding_def)
  moreover have "signq p \<noteq> [] \<longrightarrow> Waiting \<notin> set ((drudgers p)[i := d])"
    using inv assms(5) set_update_subset_insert [of "drudgers p" i d] by (auto simp: pool_inv_def)
  ultimately show ?thesis using inv by (simp add: pool_inv_def)
qed

lemma push_inv:
  assumes inv: "pool_inv p" and ph: "phase (workers p w) = Queueing (Suc k)"
  shows "pool_inv (push_rrset w k p)"
proof -
  let ?f = "\<lambda>d. if d = Waiting then Woken else d"
  have m: "count_list (map ?f ds) (Signing v) = count_list ds (Signing v)" for ds v by (induction ds) auto
  have s: "x \<in> set ds \<Longrightarrow> x \<noteq> Waiting \<Longrightarrow> x \<in> set (map ?f ds)" for x ds by force
  have d: "drudgers (push_rrset w k p) = (if signq p = [] then map ?f (drudgers p) else drudgers p)"
    "signq (push_rrset w k p) = signq p @ [w]"
    "workers (push_rrset w k p) = (workers p)(w := (workers p w)\<lparr>phase := Pushed k\<rparr>)"
    by (simp_all add: push_rrset_def Let_def)
  have "counts_ok (push_rrset w k p) v \<and> phase_ok (push_rrset w k p) v (phase (workers (push_rrset w k p) v))" for v
  proof (cases "v = w")
    case True
    have "counts_ok p w" "phase_ok p w (phase (workers p w))" using inv by (auto simp: pool_inv_def)
    then show ?thesis using True ph by (auto simp: counts_ok_def outstanding_def d m Let_def)
  next
    case False
    have old: "counts_ok p v" "phase_ok p v (phase (workers p v))" using inv by (auto simp: pool_inv_def)
    have "phase_ok (push_rrset w k p) v (phase (workers p v))"
      by (rule phase_ok_cong [OF _ _ old(2)]) (use False s in \<open>auto simp: d\<close>)
    then show ?thesis using False old(1) by (auto simp: counts_ok_def outstanding_def d m Let_def)
  qed
  moreover have "Waiting \<notin> set (drudgers (push_rrset w k p))" using inv by (auto simp: d pool_inv_def)
  ultimately show ?thesis by (simp add: pool_inv_def)
qed

lemma pop_inv:
  assumes inv: "pool_inv p" and i: "i < length (drudgers p)"
    and d: "drudgers p ! i \<in> {Reporting, Woken}" "otherwise \<in> {Reporting, Waiting}"
  shows "pool_inv (pop_rrset i otherwise p)"
proof (cases "signq p")
  case Nil
  then show ?thesis using drudger_step_inv [OF inv i, of otherwise] d by (auto simp: pop_rrset_def)
next
  case (Cons w q)
  let ?p = "set_drudger i (Signing w) (p\<lparr>signq := q\<rparr>)"
  have c: "outstanding ?p v = outstanding p v" for v
    using count_list_update [OF i, of "Signing w" "Signing v"] d Cons by (auto simp: outstanding_def)
  have "counts_ok ?p v \<and> phase_ok ?p v (phase (workers ?p v))" for v
  proof -
    have old: "counts_ok p v" "phase_ok p v (phase (workers p v))" using inv by (auto simp: pool_inv_def)
    have "phase_ok ?p v (phase (workers p v))"
      by (rule phase_ok_cong [OF _ _ old(2)]) (use i d in \<open>auto simp: in_set_update_other\<close>)
    with old(1) c show ?thesis by (simp add: counts_ok_cong [of ?p v p])
  qed
  moreover have "q \<noteq> [] \<longrightarrow> Waiting \<notin> set (drudgers ?p)"
    using inv Cons set_update_subset_insert [of "drudgers p" i "Signing w"] by (auto simp: pool_inv_def)
  ultimately show ?thesis using Cons by (simp add: pop_rrset_def pool_inv_def)
qed

lemma count_job_inv:
  assumes inv: "pool_inv p" and i: "i < length (drudgers p)" and d: "drudgers p ! i = Signing w"
  shows "pool_inv (count_job i w ok p)"
proof -
  let ?p = "count_job i w ok p"
  have out: "outstanding ?p v + (if v = w then 1 else 0) = outstanding p v" for v
    using count_list_update [OF i, of "Counted w" "Signing v"] d by (auto simp: count_job_def outstanding_def Let_def)
  have w: "workers ?p v = workers p v" if "v \<noteq> w" for v using that by (simp add: count_job_def Let_def)
  have mem: "Counted w \<in> set (drudgers ?p)" using i by (simp add: count_job_def Let_def set_update_memI)
  have keep: "x \<in> set (drudgers p) \<Longrightarrow> x \<noteq> Signing w \<Longrightarrow> x \<in> set (drudgers ?p)" for x
    using i d by (auto simp: count_job_def Let_def in_set_update_other)
  have "counts_ok ?p v \<and> phase_ok ?p v (phase (workers ?p v))" for v
  proof -
    have old: "counts_ok p v" "phase_ok p v (phase (workers p v))" using inv by (auto simp: pool_inv_def)
    show ?thesis
    proof (cases "v = w")
      case False
      then have "phase_ok ?p v (phase (workers p v))"
        by (intro phase_ok_cong [OF _ _ old(2)]) (use w keep in auto)
      then show ?thesis using False w out [of v] old(1) counts_ok_cong [of ?p v p] by simp
    next
      case True
      have c: "counts_ok ?p w" using old(1) out [of w] True by (auto simp: counts_ok_def count_job_def Let_def)
      have "outstanding p w > 0" using out [of w] by simp
      then have "\<not> worker_fulfilled (job_counts (workers p w))" if "phase (workers p w) = Finished"
        using that old(1) True by (simp add: counts_ok_def worker_fulfilled_def Let_def)
      then have "phase_ok ?p w (phase (workers p w))"
        using old(2) True mem
        by (cases "phase (workers p w)") (auto simp: count_job_def Let_def)
      then show ?thesis using c True by (simp add: count_job_def Let_def)
    qed
  qed
  moreover have "signq ?p \<noteq> [] \<longrightarrow> Waiting \<notin> set (drudgers ?p)"
    using inv i d by (auto simp: pool_inv_def count_job_def Let_def in_set_update_other)
  ultimately show ?thesis by (simp add: pool_inv_def)
qed

lemma alarm_inv:
  assumes inv: "pool_inv p" and i: "i < length (drudgers p)" and d: "drudgers p ! i = Alarming w"
  shows "pool_inv (wakeup_alarm i w p)"
proof -
  let ?x = "(workers p w)\<lparr>phase := (if phase (workers p w) = Asleep then Testing else phase (workers p w)),
    job_counts := (job_counts (workers p w))\<lparr>sleeping := False\<rparr>\<rparr>"
  let ?q = "set_worker w ?x p"
  have old: "counts_ok p w" "phase_ok p w (phase (workers p w))" using inv by (auto simp: pool_inv_def)
  have "pool_inv ?q"
    using old by (intro worker_step_inv [OF inv])
      (auto simp: counts_ok_def Let_def worker_fulfilled_def split: wphase.splits; cases "phase (workers p w)"; auto)+
  moreover have "phase (workers ?q w) \<noteq> Asleep" by simp
  ultimately have "pool_inv (set_drudger i Reporting ?q)"
    using i d by (intro drudger_step_inv) auto
  then show ?thesis by (simp add: wakeup_alarm_def Let_def)
qed

lemma pool_step_inv: "pool_step p p' \<Longrightarrow> pool_inv p \<Longrightarrow> pool_inv p'"
proof (induction rule: pool_step.induct)
  case (run p w n)
  note old = pool_invD(1) [OF run(2), of w] pool_invD(2) [OF run(2,1)]
  then have "outstanding p w = 0" using run(1) by (simp add: counts_ok_def worker_fulfilled_def Let_def)
  with old show ?case unfolding start_run_def Let_def
    by (intro worker_step_inv [OF run(2)]) (auto simp: counts_ok_def worker_clear_jobs_def Let_def)
next
  case (push p w k)
  then show ?case by (simp add: push_inv)
next
  case (appoint p w k)
  from pool_invD(1) [OF appoint(2), of w] pool_invD(2) [OF appoint(2,1)] appoint show ?case unfolding appoint_job_def Let_def
    by (intro worker_step_inv) (auto simp: counts_ok_def Let_def)
next
  case (queued p w)
  from pool_invD(1) [OF queued(2), of w] pool_invD(2) [OF queued(2,1)] queued show ?case by (intro worker_step_inv) (auto simp: counts_ok_def Let_def)
next
  case (test p w)
  from pool_invD(1) [OF test(2), of w] pool_invD(2) [OF test(2,1)] test show ?case unfolding sleep_test_def Let_def
    by (auto intro!: worker_step_inv simp: counts_ok_def worker_fulfilled_def Let_def)
next
  case (spurious_worker p w)
  from pool_invD(1) [OF spurious_worker(2), of w] pool_invD(2) [OF spurious_worker(2,1)] spurious_worker show ?case by (intro worker_step_inv) (auto simp: counts_ok_def Let_def)
next
  case (pop i p)
  then show ?case by (intro pop_inv) auto
next
  case (pop_again i p)
  then show ?case by (intro pop_inv) auto
next
  case (spurious_drudger i p)
  then show ?case by (intro drudger_step_inv) auto
next
  case (sign i p w ok)
  then show ?case by (intro count_job_inv)
next
  case (check i p w)
  then have "phase_ok p w (phase (workers p w))" by (simp add: pool_inv_def)
  with check show ?case unfolding test_superior_def Let_def by (intro drudger_step_inv) (auto split: if_splits)
next
  case (wakeup i p w)
  then have "counts_ok p w" "phase_ok p w (phase (workers p w))" by (auto simp: pool_inv_def)
  with wakeup show ?case unfolding wakeup_test_def Let_def
    by (intro drudger_step_inv) (auto simp: counts_ok_def Let_def split: if_splits)
next
  case (alarm i p w)
  then show ?case by (intro alarm_inv)
qed

lemma pool_reach_inv: "pool_reach n p \<Longrightarrow> pool_inv p \<and> length (drudgers p) = n"
proof (induction rule: pool_reach.induct)
  case init
  have "count_list (replicate n Reporting) (Signing w) = 0" for w by (simp add: count_list_zero)
  then show ?case
    by (simp add: pool_inv_def pool_init_def counts_ok_def outstanding_def worker_create_def worker_fulfilled_def)
next
  case (step p p')
  from step(2) have "length (drudgers p') = length (drudgers p)"
    by cases (auto simp: start_run_def push_rrset_def appoint_job_def sleep_test_def pop_rrset_def count_job_def
        test_superior_def wakeup_test_def wakeup_alarm_def Let_def split: list.splits)
  with step pool_step_inv show ?case by auto
qed

section \<open>Properties\<close>


text \<open>
  C9. No wake-up is lost: in every reachable state in which a worker sleeps there is work under
  way for it: a drudger is signing one of its RRsets or is on its way to wake it, or one of its
  RRsets is queued and no drudger is waiting for the queue, so each will take the next RRset.
  In particular workers and drudgers never all sleep.
\<close>

theorem no_lost_wakeup:
  assumes "pool_reach n p" "phase (workers p w) = Asleep"
  shows "sleeping (job_counts (workers p w)) \<and>
    ((\<exists>d \<in> {Signing w, Counted w, Waking w, Alarming w}. d \<in> set (drudgers p)) \<or>
     w \<in> set (signq p) \<and> Waiting \<notin> set (drudgers p))"
proof -
  have i: "counts_ok p w" "phase_ok p w Asleep" "signq p \<noteq> [] \<longrightarrow> Waiting \<notin> set (drudgers p)"
    using pool_reach_inv [OF assms(1)] pool_invD [of p] assms(2) by blast+
  show ?thesis
  proof (cases "worker_fulfilled (job_counts (workers p w))")
    case True
    with i(2) show ?thesis by auto
  next
    case False
    with i(1) have "outstanding p w > 0" using assms(2) by (auto simp: counts_ok_def worker_fulfilled_def Let_def)
    then have "w \<in> set (signq p) \<or> Signing w \<in> set (drudgers p)"
      using count_list_zero [of "signq p" w] count_list_zero [of "drudgers p" "Signing w"]
      by (auto simp: outstanding_def)
    with i(2,3) show ?thesis by auto
  qed
qed

text \<open>Witnesses: one worker with one RRset and one drudger; the worker falls asleep while it is signed.\<close>

definition pool_asleep :: pool where
  "pool_asleep = sleep_test 0 (set_worker 0 (\<lparr>phase = Testing, job_counts = worker_create\<lparr>jobs_appointed := 1\<rparr>, rrsets = 1\<rparr>)
     (appoint_job 0 0 (pop_rrset 0 Waiting (push_rrset 0 0 (start_run 0 1 (pool_init 1))))))"

lemmas pool_eval = sleep_test_def set_worker_def set_drudger_def appoint_job_def pop_rrset_def push_rrset_def
  start_run_def pool_init_def worker_create_def worker_clear_jobs_def worker_fulfilled_def count_job_def Let_def

lemma pool_asleep_reach: "pool_reach 1 pool_asleep"
proof -
  let ?p1 = "start_run 0 1 (pool_init 1)"
  let ?p2 = "push_rrset 0 0 ?p1"
  let ?p3 = "pop_rrset 0 Waiting ?p2"
  let ?p4 = "appoint_job 0 0 ?p3"
  let ?p5 = "set_worker 0 ((workers ?p4 0)\<lparr>phase := Testing\<rparr>) ?p4"
  have "pool_reach 1 ?p1"
    by (rule pool_reach.step [OF pool_reach.init pool_step.run]) (simp add: pool_init_def)
  then have "pool_reach 1 ?p2"
    by (rule pool_reach.step [OF _ pool_step.push]) (simp_all add: pool_eval FIFOQ_MAX_COUNT_def)
  then have "pool_reach 1 ?p3"
    by (rule pool_reach.step [OF _ pool_step.pop]) (simp_all add: pool_eval)
  then have "pool_reach 1 ?p4"
    by (rule pool_reach.step [OF _ pool_step.appoint]) (simp_all add: pool_eval)
  then have "pool_reach 1 ?p5"
    by (rule pool_reach.step [OF _ pool_step.queued]) (simp_all add: pool_eval)
  then have "pool_reach 1 (sleep_test 0 ?p5)"
    by (rule pool_reach.step [OF _ pool_step.test]) (simp_all add: set_worker_def)
  moreover have "workers ?p4 0 = \<lparr>phase = Queueing 0, job_counts = worker_create\<lparr>jobs_appointed := 1\<rparr>, rrsets = 1\<rparr>"
    by (simp add: pool_eval)
  ultimately show ?thesis by (simp add: pool_asleep_def)
qed

theorem no_lost_wakeup_witness:
  "phase (workers pool_asleep 0) = Asleep \<and>
   (\<exists>d \<in> {Signing 0, Counted 0, Waking 0, Alarming 0}. d \<in> set (drudgers pool_asleep))"
proof -
  have "phase (workers pool_asleep 0) = Asleep" "signq pool_asleep = []"
    by (simp_all add: pool_asleep_def pool_eval)
  with no_lost_wakeup [OF pool_asleep_reach this(1)] show ?thesis by simp
qed

definition pool_done :: pool where
  "pool_done = sleep_test 0 (wakeup_alarm 0 0 (wakeup_test 0 0 (test_superior 0 0 (count_job 0 0 True pool_asleep))))"

lemmas pool_done_eval = pool_eval pool_asleep_def pool_done_def wakeup_alarm_def wakeup_test_def test_superior_def

lemma pool_done_reach: "pool_reach 1 pool_done"
proof -
  let ?p1 = "count_job 0 0 True pool_asleep"
  let ?p2 = "test_superior 0 0 ?p1"
  let ?p3 = "wakeup_test 0 0 ?p2"
  have "pool_reach 1 ?p1"
    by (rule pool_reach.step [OF pool_asleep_reach pool_step.sign]) (simp_all add: pool_done_eval)
  then have "pool_reach 1 ?p2"
    by (rule pool_reach.step [OF _ pool_step.check]) (simp_all add: pool_done_eval)
  then have "pool_reach 1 ?p3"
    by (rule pool_reach.step [OF _ pool_step.wakeup]) (simp_all add: pool_done_eval)
  then have "pool_reach 1 (wakeup_alarm 0 0 ?p3)"
    by (rule pool_reach.step [OF _ pool_step.alarm]) (simp_all add: pool_done_eval)
  then show ?thesis unfolding pool_done_def
    by (rule pool_reach.step [OF _ pool_step.test]) (simp_all add: pool_done_eval)
qed


end
