(* ===== verification/Acl.thy ===== *)
theory Acl
  imports Cstring
begin

text \<open>
  Access control lists, \<^verbatim>\<open>signer/src/wire/acl.c\<close>, which decide who may transfer a zone or send
  notifies: an entry matches by address (a single address, a mask, a subnet or a range) and by
  TSIG key.  Addresses are the bytes of \<^verbatim>\<open>struct in_addr\<close> and \<^verbatim>\<open>struct in6_addr\<close>, in network
  order; the code reads them as 32-bit words in the byte order of the machine, which is a
  parameter.  \<^verbatim>\<open>inet_pton\<close> of the operating system and \<^verbatim>\<open>ldns_dname_compare\<close> are parameters too.
\<close>

section \<open>Model\<close>

datatype acl_range_type = ACL_RANGE_SINGLE | ACL_RANGE_MASK | ACL_RANGE_SUBNET | ACL_RANGE_MINMAX

datatype family = AF_INET | AF_INET6

datatype tsig_status = TSIG_NOT_PRESENT | TSIG_OK | TSIG_ERROR

text \<open>What the list uses of the TSIG configuration and of the TSIG record of a request.\<close>

record 'n tsig =
  tsig_config_name :: string
  algorithm :: string
  key_dname :: "'n option"

record 'n tsig_rr =
  status :: tsig_status
  error_code :: u16
  key_name :: "'n option"
  algo_txt_name :: "string option"

record 'n acl =
  address :: "string option"
  port :: nat
  family :: family
  addr :: "u8 list"
  range_mask :: "u8 list"
  range_type :: acl_range_type
  acl_tsig :: "'n tsig option"
  ixfr_disabled :: time_t

record sockaddr =
  ss_family :: family
  sin_port :: nat
  sin_addr :: "u8 list"

text \<open>
  \<^verbatim>\<open>*p = 0\<close> cuts the string at the separator; \<^verbatim>\<open>*mask\<close> is what follows it.
\<close>

definition acl_parse_range_type :: "string \<Rightarrow> acl_range_type \<times> string \<times> string option" where
  "acl_parse_range_type ip =
    (let cut = (\<lambda>p. take (length ip - length p) ip) in
     case strchr ip CHR ''&'' of Some p \<Rightarrow> (ACL_RANGE_MASK, cut p, Some (tl p))
     | None \<Rightarrow>
     (case strchr ip CHR ''/'' of Some p \<Rightarrow> (ACL_RANGE_SUBNET, cut p, Some (tl p))
      | None \<Rightarrow>
      (case strchr ip CHR ''-'' of Some p \<Rightarrow> (ACL_RANGE_MINMAX, cut p, Some (tl p))
       | None \<Rightarrow> (ACL_RANGE_SINGLE, ip, None))))"

text \<open>The loop over whole bytes, then the partial byte.\<close>

fun subnet_fill :: "nat \<Rightarrow> nat \<Rightarrow> u8 list \<Rightarrow> (nat \<times> nat \<times> u8 list) exec" where
  "subnet_fill bits i m =
    (if bits \<ge> 8 then exec_bind (mem_set m i 0xff) (\<lambda>m. subnet_fill (bits - 8) (i + 1) m) else Ok (bits, i, m))"

declare subnet_fill.simps [simp del]

definition shifts :: "u8 list" where
  "shifts = [0x0, 0x80, 0xc0, 0xe0, 0xf0, 0xf8, 0xfc, 0xfe, 0xff]"

definition acl_parse_range_subnet :: "string \<Rightarrow> u8 list \<Rightarrow> int \<Rightarrow> (ods_status \<times> u8 list) exec" where
  "acl_parse_range_subnet p m maxbits =
    (let subnet_bits = atoi p in
     if subnet_bits = 0 \<and> p \<noteq> ''0'' then Ok (ODS_STATUS_ACL_SUBNET_BAD_RANGE, m)
     else if subnet_bits < 0 \<or> subnet_bits > maxbits then Ok (ODS_STATUS_ACL_SUBNET_OUT_RANGE, m)
     else
       exec_bind (subnet_fill (nat subnet_bits) 0 m) (\<lambda>(bits, i, m).
       if bits > 0 then
         exec_bind (mem_get shifts bits) (\<lambda>b. exec_bind (mem_set m i b) (\<lambda>m. Ok (ODS_STATUS_OK, m)))
       else Ok (ODS_STATUS_OK, m)))"

fun acl_parse_family :: "string \<Rightarrow> family" where
  "acl_parse_family [] = AF_INET"
| "acl_parse_family (c # cs) =
     (if c = CHR ''.'' then AF_INET else if c = CHR '':'' then AF_INET6 else acl_parse_family cs)"

text \<open>\<^verbatim>\<open>tolower\<close> in the C locale, on a \<^verbatim>\<open>char\<close> that is signed.\<close>

definition tolower :: "char \<Rightarrow> int" where
  "tolower c =
    (let n = int (of_char c); n = (if n \<ge> 128 then n - 256 else n)
     in if 65 \<le> n \<and> n \<le> 90 then n + 32 else n)"

fun ods_strlowercmp :: "string \<Rightarrow> string \<Rightarrow> int" where
  "ods_strlowercmp (a # as) (b # bs) =
     (if tolower a \<noteq> tolower b then if tolower a < tolower b then -1 else 1 else ods_strlowercmp as bs)"
| "ods_strlowercmp [] [] = 0"
| "ods_strlowercmp [] (b # bs) = -1"
| "ods_strlowercmp (a # as) [] = 1"

fun tsig_lookup_by_name :: "'n tsig list \<Rightarrow> string \<Rightarrow> 'n tsig option" where
  "tsig_lookup_by_name [] name = None"
| "tsig_lookup_by_name (t # ts) name =
     (if ods_strlowercmp (tsig_config_name t) name = 0 then Some t else tsig_lookup_by_name ts name)"

text \<open>Storing an address at the start of the zeroed 16 bytes of the union.\<close>

definition store_addr :: "u8 list \<Rightarrow> u8 list" where
  "store_addr bs = patch (replicate 16 0) 0 bs"

definition family_bits :: "family \<Rightarrow> int" where
  "family_bits f = (case f of AF_INET \<Rightarrow> 32 | AF_INET6 \<Rightarrow> 128)"

text \<open>
  \<^verbatim>\<open>acl_create\<close>; the two branches of the code for the two families differ only in the family
  given to \<^verbatim>\<open>inet_pton\<close> and in the number of bits.  \<open>Ok None\<close> is the null pointer returned on
  errors.
\<close>

definition acl_create ::
  "(family \<Rightarrow> string \<Rightarrow> u8 list option) \<Rightarrow> string option \<Rightarrow> string option \<Rightarrow> string option \<Rightarrow> 'n tsig list \<Rightarrow> 'n acl option exec" where
  "acl_create inet_pton adr prt tsig_name tsigs =
    (let tsig = (case tsig_name of None \<Rightarrow> None | Some n \<Rightarrow> tsig_lookup_by_name tsigs n);
         prt = (case prt of None \<Rightarrow> 0 | Some p \<Rightarrow> nat (atoi p mod 2 ^ 32));
         entry = (\<lambda>ip f bytes msk t. \<lparr>address = ip, port = prt, family = f, addr = bytes, range_mask = msk,
                    range_type = t, acl_tsig = tsig, ixfr_disabled = 0\<rparr>)
     in
     if tsig_name \<noteq> None \<and> tsig = None then Ok None
     else
       (case adr of
          None \<Rightarrow> Ok (Some (entry None AF_INET (replicate 16 0) (replicate 16 0) ACL_RANGE_SINGLE))
        | Some adr \<Rightarrow>
          let f = acl_parse_family adr; (t, ip, p) = acl_parse_range_type adr in
          (case inet_pton f ip of
             None \<Rightarrow> Ok None
           | Some bytes \<Rightarrow>
             if t = ACL_RANGE_MASK \<or> t = ACL_RANGE_MINMAX then
               (case inet_pton f (the p) of
                  None \<Rightarrow> Ok None
                | Some msk \<Rightarrow> Ok (Some (entry (Some ip) f (store_addr bytes) (store_addr msk) t)))
             else if t = ACL_RANGE_SUBNET then
               exec_bind (acl_parse_range_subnet (the p) (replicate 16 0) (family_bits f)) (\<lambda>(st, msk).
               if st = ODS_STATUS_OK then Ok (Some (entry (Some ip) f (store_addr bytes) msk t)) else Ok None)
             else Ok (Some (entry (Some ip) f (store_addr bytes) (replicate 16 0) t)))))"

text \<open>Reading bytes as 32-bit words of the machine.\<close>

datatype byte_order = Little_Endian | Big_Endian

definition be32 :: "u8 \<Rightarrow> u8 \<Rightarrow> u8 \<Rightarrow> u8 \<Rightarrow> u32" where
  "be32 a b c d = push_bit 24 (ucast a) OR push_bit 16 (ucast b) OR push_bit 8 (ucast c) OR ucast d"

fun load32 :: "byte_order \<Rightarrow> u8 \<Rightarrow> u8 \<Rightarrow> u8 \<Rightarrow> u8 \<Rightarrow> u32" where
  "load32 Big_Endian a b c d = be32 a b c d"
| "load32 Little_Endian a b c d = be32 d c b a"

fun load_words :: "byte_order \<Rightarrow> nat \<Rightarrow> u8 list \<Rightarrow> u32 list exec" where
  "load_words e 0 m = Ok []"
| "load_words e (Suc n) (a # b # c # d # m) = exec_bind (load_words e n m) (\<lambda>ws. Ok (load32 e a b c d # ws))"
| "load_words e (Suc n) _ = Fault"

fun matches_mask_loop :: "u32 list \<Rightarrow> u32 list \<Rightarrow> u32 list \<Rightarrow> bool" where
  "matches_mask_loop (a # as) (b # bs) (m # ms) =
     (if a AND m \<noteq> b AND m then False else matches_mask_loop as bs ms)"
| "matches_mask_loop _ _ _ = True"

definition acl_addr_matches_mask :: "byte_order \<Rightarrow> u8 list \<Rightarrow> u8 list \<Rightarrow> u8 list \<Rightarrow> nat \<Rightarrow> bool exec" where
  "acl_addr_matches_mask e a b msk sz =
     ods_log_assert (sz mod 4 = 0)
       (exec_bind (load_words e (sz div 4) a) (\<lambda>a.
        exec_bind (load_words e (sz div 4) b) (\<lambda>b.
        exec_bind (load_words e (sz div 4) msk) (\<lambda>msk. Ok (matches_mask_loop a b msk)))))"

fun matches_range_loop :: "bool \<Rightarrow> bool \<Rightarrow> u32 list \<Rightarrow> u32 list \<Rightarrow> u32 list \<Rightarrow> bool" where
  "matches_range_loop checkmin checkmax (lo # los) (x # xs) (hi # his) =
    (if checkmin \<and> lo > x then False
     else if checkmax \<and> hi < x then False
     else
       let checkmin = (if checkmin \<and> lo \<noteq> x then False else checkmin);
           checkmax = (if checkmax \<and> hi \<noteq> x then False else checkmax)
       in if \<not> checkmin \<and> \<not> checkmax then True else matches_range_loop checkmin checkmax los xs his)"
| "matches_range_loop _ _ _ _ _ = True"

definition acl_addr_matches_range :: "byte_order \<Rightarrow> u8 list \<Rightarrow> u8 list \<Rightarrow> u8 list \<Rightarrow> nat \<Rightarrow> bool exec" where
  "acl_addr_matches_range e minval x maxval sz =
     ods_log_assert (sz mod 4 = 0)
       (exec_bind (load_words e (sz div 4) minval) (\<lambda>lo.
        exec_bind (load_words e (sz div 4) x) (\<lambda>x.
        exec_bind (load_words e (sz div 4) maxval) (\<lambda>hi. Ok (matches_range_loop True True lo x hi)))))"

definition addr_size :: "family \<Rightarrow> nat" where
  "addr_size f = (case f of AF_INET \<Rightarrow> 4 | AF_INET6 \<Rightarrow> 16)"

definition acl_addr_matches :: "byte_order \<Rightarrow> 'n acl \<Rightarrow> sockaddr \<Rightarrow> bool exec" where
  "acl_addr_matches e acl sa =
    (if address acl = None then Ok True
     else if ss_family sa \<noteq> family acl then Ok False
     else if port acl \<noteq> 0 \<and> port acl \<noteq> sin_port sa then Ok False
     else
       let sz = addr_size (family acl) in
       (case range_type acl of
          ACL_RANGE_MASK \<Rightarrow> acl_addr_matches_mask e (addr acl) (sin_addr sa) (range_mask acl) sz
        | ACL_RANGE_SUBNET \<Rightarrow> acl_addr_matches_mask e (addr acl) (sin_addr sa) (range_mask acl) sz
        | ACL_RANGE_MINMAX \<Rightarrow> acl_addr_matches_range e (addr acl) (sin_addr sa) (range_mask acl) sz
        | ACL_RANGE_SINGLE \<Rightarrow>
            exec_bind (mem_read (sin_addr sa) 0 sz) (\<lambda>a. exec_bind (mem_read (addr acl) 0 sz) (\<lambda>b. Ok (a = b)))))"

definition acl_tsig_matches :: "('n \<Rightarrow> 'n \<Rightarrow> int) \<Rightarrow> 'n acl \<Rightarrow> 'n tsig_rr option \<Rightarrow> bool" where
  "acl_tsig_matches dc acl tsig =
    (case tsig of None \<Rightarrow> False
     | Some t \<Rightarrow>
       (case acl_tsig acl of
          None \<Rightarrow> status t = TSIG_NOT_PRESENT
        | Some config \<Rightarrow>
          if status t \<noteq> TSIG_OK then False
          else if error_code t \<noteq> 0 then False
          else
            (case (key_name t, algo_txt_name t) of
               (Some key, Some algo) \<Rightarrow>
                 (case key_dname config of
                    None \<Rightarrow> False
                  | Some dname \<Rightarrow>
                    if dc key dname \<noteq> 0 then False
                    else if ods_strlowercmp algo (algorithm config) \<noteq> 0 then False
                    else True)
             | _ \<Rightarrow> False)))"

fun acl_find :: "byte_order \<Rightarrow> ('n \<Rightarrow> 'n \<Rightarrow> int) \<Rightarrow> 'n acl list \<Rightarrow> sockaddr \<Rightarrow> 'n tsig_rr option \<Rightarrow> 'n acl option exec" where
  "acl_find e dc [] sa trr = Ok None"
| "acl_find e dc (acl # acls) sa trr =
     exec_bind (acl_addr_matches e acl sa) (\<lambda>m.
     if m \<and> acl_tsig_matches dc acl trr then Ok (Some acl) else acl_find e dc acls sa trr)"

section \<open>Bits and numbers of addresses\<close>

lemma bit_be32:
  "bit (be32 a b c d) n \<longleftrightarrow>
     (if n < 8 then bit d n else if n < 16 then bit c (n - 8) else if n < 24 then bit b (n - 16)
      else n < 32 \<and> bit a (n - 24))"
  unfolding be32_def by (auto simp: byte_bits)

lemma be32_and: "be32 a b c d AND be32 a' b' c' d' = be32 (a AND a') (b AND b') (c AND c') (d AND d')"
  by (rule bit_eqI) (simp add: bit_and_iff bit_be32)

lemma be32_inj: "be32 a b c d = be32 a' b' c' d' \<longleftrightarrow> a = a' \<and> b = b' \<and> c = c' \<and> d = d'"
proof
  assume e: "be32 a b c d = be32 a' b' c' d'"
  have at: "bit (be32 a b c d) n = bit (be32 a' b' c' d') n" for n using e by simp
  have "d = d'" by (rule bit_eqI) (use at in \<open>metis bit_be32 bit_u8_above\<close>)
  moreover have "c = c'"
  proof (rule bit_eqI)
    show "bit c n = bit c' n" for n using at [of "n + 8"] bit_u8_above [of c n] bit_u8_above [of c' n]
      by (auto simp: bit_be32 split: if_splits)
  qed
  moreover have "b = b'"
  proof (rule bit_eqI)
    show "bit b n = bit b' n" for n using at [of "n + 16"] bit_u8_above [of b n] bit_u8_above [of b' n]
      by (auto simp: bit_be32 split: if_splits)
  qed
  moreover have "a = a'"
  proof (rule bit_eqI)
    show "bit a n = bit a' n" for n using at [of "n + 24"] bit_u8_above [of a n] bit_u8_above [of a' n]
      by (auto simp: bit_be32 split: if_splits)
  qed
  ultimately show "a = a' \<and> b = b' \<and> c = c' \<and> d = d'" by simp
qed simp

lemma load32_masked:
  "load32 e a b c d AND load32 e m n p q = load32 e a' b' c' d' AND load32 e m n p q \<longleftrightarrow>
     a AND m = a' AND m \<and> b AND n = b' AND n \<and> c AND p = c' AND p \<and> d AND q = d' AND q"
  by (cases e) (auto simp: be32_and be32_inj)

lemma take4:
  assumes "4 * Suc n \<le> length m"
  obtains a b c d m' where "m = a # b # c # d # m'" "4 * n \<le> length m'"
proof -
  obtain a m1 where "m = a # m1" "3 + 4 * n \<le> length m1" using assms by (cases m) auto
  moreover from this obtain b m2 where "m1 = b # m2" "2 + 4 * n \<le> length m2" by (cases m1) auto
  moreover from this obtain c m3 where "m2 = c # m3" "1 + 4 * n \<le> length m3" by (cases m2) auto
  moreover from this obtain d m4 where "m3 = d # m4" "4 * n \<le> length m4" by (cases m3) auto
  ultimately show ?thesis using that by simp
qed

lemma load_words_Ok: "4 * n \<le> length m \<Longrightarrow> \<exists>ws. load_words e n m = Ok ws \<and> length ws = n"
proof (induction n arbitrary: m)
  case (Suc n)
  obtain a b c d m' where m: "m = a # b # c # d # m'" "4 * n \<le> length m'" using Suc.prems by (rule take4)
  with Suc.IH [OF m(2)] show ?case by auto
qed simp

lemma all_less_4: "(\<forall>i < 4 + n. P i) \<longleftrightarrow> P 0 \<and> P 1 \<and> P 2 \<and> P 3 \<and> (\<forall>i < n. P (4 + i))" for n :: nat
proof -
  have "P i" if "P 0" "P 1" "P 2" "P 3" "\<forall>i < n. P (4 + i)" "i < 4 + n" for i
  proof (cases "i < 4")
    case True
    then have "i = 0 \<or> i = 1 \<or> i = 2 \<or> i = 3" by linarith
    with that show ?thesis by auto
  next
    case False
    then have "i = 4 + (i - 4)" "i - 4 < n" using that by auto
    with that(5) show ?thesis by metis
  qed
  then show ?thesis by auto
qed

text \<open>Masked matching is matching of the masked bytes, on machines of either byte order.\<close>

lemma matches_mask_words:
  "4 * n \<le> length a \<Longrightarrow> 4 * n \<le> length b \<Longrightarrow> 4 * n \<le> length m \<Longrightarrow>
   \<exists>wa wb wm. load_words e n a = Ok wa \<and> load_words e n b = Ok wb \<and> load_words e n m = Ok wm \<and>
     (matches_mask_loop wa wb wm \<longleftrightarrow> (\<forall>i < 4 * n. a ! i AND m ! i = b ! i AND m ! i))"
proof (induction n arbitrary: a b m)
  case (Suc n)
  obtain a0 a1 a2 a3 a' where a: "a = a0 # a1 # a2 # a3 # a'" "4 * n \<le> length a'" using Suc.prems(1) by (rule take4)
  obtain b0 b1 b2 b3 b' where b: "b = b0 # b1 # b2 # b3 # b'" "4 * n \<le> length b'" using Suc.prems(2) by (rule take4)
  obtain m0 m1 m2 m3 m' where m: "m = m0 # m1 # m2 # m3 # m'" "4 * n \<le> length m'" using Suc.prems(3) by (rule take4)
  from Suc.IH [OF a(2) b(2) m(2)] obtain wa wb wm where
    w: "load_words e n a' = Ok wa" "load_words e n b' = Ok wb" "load_words e n m' = Ok wm"
      "matches_mask_loop wa wb wm \<longleftrightarrow> (\<forall>i < 4 * n. a' ! i AND m' ! i = b' ! i AND m' ! i)" by blast
  have "(\<forall>i < 4 * Suc n. a ! i AND m ! i = b ! i AND m ! i) \<longleftrightarrow>
      (a0 AND m0 = b0 AND m0 \<and> a1 AND m1 = b1 AND m1 \<and> a2 AND m2 = b2 AND m2 \<and> a3 AND m3 = b3 AND m3) \<and>
      (\<forall>i < 4 * n. a' ! i AND m' ! i = b' ! i AND m' ! i)"
    using all_less_4 [of "4 * n" "\<lambda>i. a ! i AND m ! i = b ! i AND m ! i"] by (simp add: a b m numeral_eq_Suc)
  with w show ?case by (auto simp: a b m load32_masked)
qed simp

lemma acl_addr_matches_mask_eval:
  assumes "sz mod 4 = 0" "sz \<le> length a" "sz \<le> length b" "sz \<le> length m"
  shows "acl_addr_matches_mask e a b m sz = Ok (\<forall>i < sz. a ! i AND m ! i = b ! i AND m ! i)"
proof -
  have s: "4 * (sz div 4) = sz" using assms(1) by (simp add: minus_mod_eq_mult_div [symmetric])
  with matches_mask_words [of "sz div 4" a b m e] assms show ?thesis by (auto simp: acl_addr_matches_mask_def)
qed

text \<open>The \<open>j\<close>-th bit of an address, counted from the most significant one.\<close>

definition addr_bit :: "u8 list \<Rightarrow> nat \<Rightarrow> bool" where
  "addr_bit bs j = bit (bs ! (j div 8)) (7 - j mod 8)"

lemma addr_bit_at: "k < 8 \<Longrightarrow> addr_bit bs (8 * i + (7 - k)) = bit (bs ! i) k"
proof -
  assume k: "k < 8"
  have "addr_bit bs (8 * i + r) = bit (bs ! i) (7 - r)" if "r < 8" for r
    using that by (simp add: addr_bit_def)
  from this [of "7 - k"] k show ?thesis by simp
qed

lemma masked_byte:
  fixes a b m :: u8
  assumes "\<And>k. k < 8 \<Longrightarrow> bit m k \<longleftrightarrow> P k"
  shows "a AND m = b AND m \<longleftrightarrow> (\<forall>k < 8. P k \<longrightarrow> bit a k = bit b k)"
proof -
  have "a AND m = b AND m \<longleftrightarrow> (\<forall>k < 8. bit (a AND m) k = bit (b AND m) k)"
    using bit_u8_above by (auto intro!: bit_eqI)
  also have "\<dots> \<longleftrightarrow> (\<forall>k < 8. P k \<longrightarrow> bit a k = bit b k)" using assms by (auto simp: bit_and_iff)
  finally show ?thesis .
qed

lemma masked_prefix:
  assumes "8 * sz \<le> 8 * length m" and m: "\<And>j. j < 8 * sz \<Longrightarrow> addr_bit m j \<longleftrightarrow> j < n" and "n \<le> 8 * sz"
  shows "(\<forall>i < sz. a ! i AND m ! i = b ! i AND m ! i) \<longleftrightarrow> (\<forall>j < n. addr_bit a j = addr_bit b j)"
proof -
  have bits: "a ! i AND m ! i = b ! i AND m ! i \<longleftrightarrow> (\<forall>k < 8. 8 * i + (7 - k) < n \<longrightarrow> bit (a ! i) k = bit (b ! i) k)"
    if "i < sz" for i
  proof (rule masked_byte)
    fix k :: nat assume k: "k < 8"
    have "addr_bit m (8 * i + (7 - k)) \<longleftrightarrow> 8 * i + (7 - k) < n" using m that by simp
    with k show "bit (m ! i) k \<longleftrightarrow> 8 * i + (7 - k) < n" by (simp only: addr_bit_at)
  qed
  show ?thesis
  proof
    assume L: "\<forall>i < sz. a ! i AND m ! i = b ! i AND m ! i"
    show "\<forall>j < n. addr_bit a j = addr_bit b j"
    proof (intro allI impI)
      fix j assume j: "j < n"
      then have i: "j div 8 < sz" using assms(3) by linarith
      have "8 * (j div 8) + (7 - (7 - j mod 8)) = j" by (simp add: algebra_simps)
      with L i bits [OF i] j show "addr_bit a j = addr_bit b j"
        by (auto simp: addr_bit_def dest!: spec [of _ "7 - j mod 8"])
    qed
  next
    assume R: "\<forall>j < n. addr_bit a j = addr_bit b j"
    show "\<forall>i < sz. a ! i AND m ! i = b ! i AND m ! i"
    proof (intro allI impI)
      fix i assume i: "i < sz"
      show "a ! i AND m ! i = b ! i AND m ! i"
        unfolding bits [OF i]
      proof (intro allI impI)
        fix k assume "k < (8 :: nat)" "8 * i + (7 - k) < n"
        with R show "bit (a ! i) k = bit (b ! i) k" by (metis addr_bit_at)
      qed
    qed
  qed
qed

section \<open>Subnets\<close>

lemma subnet_fill_eval:
  "bits \<le> 8 * (length m - i) \<Longrightarrow> i \<le> length m \<Longrightarrow>
   \<exists>m'. subnet_fill bits i m = Ok (bits mod 8, i + bits div 8, m') \<and> length m' = length m \<and>
     (\<forall>j < length m. m' ! j = (if i \<le> j \<and> j < i + bits div 8 then 0xff else m ! j))"
proof (induction bits i m rule: subnet_fill.induct)
  case (1 bits i m)
  show ?case
  proof (cases "bits \<ge> 8")
    case True
    then have i: "i < length m" using 1(2) by auto
    then have s: "mem_set m i 0xff = Ok (m[i := 0xff])" by (simp add: mem_set_def)
    have d: "bits div 8 = Suc ((bits - 8) div 8)" "bits mod 8 = (bits - 8) mod 8"
      using True by (auto simp: le_div_geq le_mod_geq)
    have "bits - 8 \<le> 8 * (length (m[i := 0xff]) - (i + 1))" using 1(2) i by simp
    from 1(1) [OF True s this] i obtain m' where m': "subnet_fill (bits - 8) (i + 1) (m[i := 0xff]) =
        Ok ((bits - 8) mod 8, i + 1 + (bits - 8) div 8, m')" "length m' = length m"
      "\<forall>j < length m. m' ! j = (if i + 1 \<le> j \<and> j < i + 1 + (bits - 8) div 8 then 0xff else (m[i := 0xff]) ! j)"
      by auto
    have "subnet_fill bits i m = subnet_fill (bits - 8) (i + 1) (m[i := 0xff])"
      using True s by (subst subnet_fill.simps) simp
    with m' d show ?thesis by (intro exI [of _ m']) (auto simp: nth_list_update)
  next
    case False
    then show ?thesis by (intro exI [of _ m]) (subst subnet_fill.simps, auto)
  qed
qed

lemma bit_ff: "k < 8 \<Longrightarrow> bit (0xff :: u8) k"
proof -
  assume "k < 8"
  then have "k \<in> {0, 1, 2, 3, 4, 5, 6, 7}" by auto
  then show ?thesis by (auto simp: bit_numeral_rec)
qed

lemma bit_shifts: "r < 8 \<Longrightarrow> s < 8 \<Longrightarrow> bit (shifts ! r) (7 - s) \<longleftrightarrow> s < r"
proof -
  assume "r < 8" "s < 8"
  then have "r \<in> {0, 1, 2, 3, 4, 5, 6, 7}" "s \<in> {0, 1, 2, 3, 4, 5, 6, 7}" by auto
  then show ?thesis by (elim insertE emptyE) (simp_all add: shifts_def bit_numeral_rec)
qed

lemma subnet_mask:
  assumes "0 \<le> atoi p" "atoi p \<le> maxbits" "atoi p = 0 \<Longrightarrow> p = ''0''" "maxbits \<le> 8 * int sz"
  shows "\<exists>m. acl_parse_range_subnet p (replicate sz 0) maxbits = Ok (ODS_STATUS_OK, m) \<and> length m = sz \<and>
    (\<forall>j < 8 * sz. addr_bit m j \<longleftrightarrow> j < nat (atoi p))"
proof -
  let ?n = "nat (atoi p)"
  have n: "?n \<le> 8 * sz" using assms by linarith
  obtain m where m: "subnet_fill ?n 0 (replicate sz 0) = Ok (?n mod 8, ?n div 8, m)" "length m = sz"
    "\<And>j. j < sz \<Longrightarrow> m ! j = (if j < ?n div 8 then 0xff else 0)"
    using subnet_fill_eval [of ?n "replicate sz 0" 0] n by auto
  let ?m = "if ?n mod 8 > 0 then m[?n div 8 := shifts ! (?n mod 8)] else m"
  have lt: "?n div 8 < sz" if "?n mod 8 > 0" using n that by (metis div_less_dividend div_mult_self1_is_m
      less_mult_imp_div_less mod_greater_zero_iff_not_dvd dvd_triv_left le_neq_implies_less mult.commute zero_less_numeral)
  have "acl_parse_range_subnet p (replicate sz 0) maxbits = Ok (ODS_STATUS_OK, ?m)"
    using assms m(1,2) lt by (auto simp: acl_parse_range_subnet_def Let_def mem_get_def mem_set_def shifts_def)
  moreover have "addr_bit ?m j \<longleftrightarrow> j < ?n" if "j < 8 * sz" for j
  proof -
    have j: "j div 8 < sz" "j mod 8 < 8" using that by auto
    have e: "?n = 8 * (?n div 8) + ?n mod 8" "j = 8 * (j div 8) + j mod 8" by simp_all
    consider "j div 8 < ?n div 8" | "j div 8 = ?n div 8" | "j div 8 > ?n div 8" by linarith
    then show ?thesis
    proof cases
      case 1
      then have "?m ! (j div 8) = 0xff" using m(3) [OF j(1)] by simp
      moreover have "j < ?n" using 1 e j(2) by linarith
      ultimately show ?thesis using bit_ff [of "7 - j mod 8"] by (simp add: addr_bit_def)
    next
      case 2
      then have "?m ! (j div 8) = shifts ! (?n mod 8)"
        using m(2) m(3) [OF j(1)] lt by (auto simp: shifts_def)
      moreover have "j < ?n \<longleftrightarrow> j mod 8 < ?n mod 8" using 2 e by linarith
      ultimately show ?thesis using bit_shifts [of "?n mod 8" "j mod 8"] j(2) by (simp add: addr_bit_def)
    next
      case 3
      then have "?m ! (j div 8) = 0" using m(3) [OF j(1)] by simp
      moreover have "\<not> j < ?n" using 3 e mod_less_divisor [of 8 ?n] by linarith
      ultimately show ?thesis by (simp add: addr_bit_def)
    qed
  qed
  ultimately show ?thesis using m(2) by (intro exI [of _ ?m]) simp
qed

section \<open>Ranges\<close>

text \<open>A list of words, and a list of bytes, as one number.\<close>

fun words_num :: "u32 list \<Rightarrow> nat" where
  "words_num [] = 0"
| "words_num (w # ws) = unat w * 2 ^ (32 * length ws) + words_num ws"

fun bytes_num :: "u8 list \<Rightarrow> nat" where
  "bytes_num [] = 0"
| "bytes_num (b # bs) = unat b * 256 ^ length bs + bytes_num bs"

lemma words_num_less: "words_num ws < 2 ^ (32 * length ws)"
proof (induction ws)
  case (Cons w ws)
  have "unat w + 1 \<le> 2 ^ 32" using unsigned_less [of w, where ?'a = nat] by simp
  then have "(unat w + 1) * 2 ^ (32 * length ws) \<le> 2 ^ 32 * 2 ^ (32 * length ws)" by (rule mult_le_mono1)
  moreover have "(unat w + 1) * 2 ^ (32 * length ws) = unat w * 2 ^ (32 * length ws) + 2 ^ (32 * length ws)"
    by (simp add: algebra_simps)
  ultimately have "unat w * 2 ^ (32 * length ws) + words_num ws < 2 ^ 32 * 2 ^ (32 * length ws)" using Cons by linarith
  also have "2 ^ 32 * 2 ^ (32 * length ws) = (2 :: nat) ^ (32 * length (w # ws))" unfolding power_add [symmetric] by simp
  finally show ?case by simp
qed simp

lemma words_num_le:
  assumes "length as = length bs"
  shows "words_num (a # as) \<le> words_num (b # bs) \<longleftrightarrow> a < b \<or> a = b \<and> words_num as \<le> words_num bs"
proof -
  let ?k = "2 ^ (32 * length bs)"
  have ab: "words_num as < ?k" "words_num bs < ?k" using words_num_less [of as] words_num_less [of bs] assms by simp_all
  consider "unat a < unat b" | "unat a = unat b" | "unat a > unat b" by linarith
  then show ?thesis
  proof cases
    case 1
    then have "(unat a + 1) * ?k \<le> unat b * ?k" by (intro mult_le_mono1) simp
    with ab have "words_num (a # as) \<le> words_num (b # bs)" using assms by (simp add: algebra_simps)
    with 1 show ?thesis by (simp add: word_less_nat_alt)
  next
    case 2
    then have "a = b" by (simp add: word_unat_eq_iff)
    then show ?thesis using assms by simp
  next
    case 3
    then have "(unat b + 1) * ?k \<le> unat a * ?k" by (intro mult_le_mono1) simp
    with ab have "\<not> words_num (a # as) \<le> words_num (b # bs)" using assms by (simp add: algebra_simps)
    with 3 show ?thesis by (auto simp: word_less_nat_alt)
  qed
qed

text \<open>The loop compares the words as one number, with the first word most significant.\<close>

lemma matches_range_words:
  "length los = length xs \<Longrightarrow> length his = length xs \<Longrightarrow> cmin \<or> cmax \<Longrightarrow>
   matches_range_loop cmin cmax los xs his \<longleftrightarrow>
     (cmin \<longrightarrow> words_num los \<le> words_num xs) \<and> (cmax \<longrightarrow> words_num xs \<le> words_num his)"
proof (induction xs arbitrary: cmin cmax los his)
  case (Cons x xs)
  obtain lo los' where lo: "los = lo # los'" using Cons.prems(1) by (cases los) auto
  obtain hi his' where hi: "his = hi # his'" using Cons.prems(2) by (cases his) auto
  have l: "length los' = length xs" "length his' = length xs" "length xs = length his'" using Cons.prems lo hi by auto
  note le = words_num_le [OF l(1), of lo x] words_num_le [OF l(3), of x hi]
  note IH = Cons.IH [OF l(1,2)]
  show ?case
  proof (cases "cmin \<and> x < lo \<or> cmax \<and> hi < x")
    case True
    then show ?thesis using le unfolding lo hi by (auto simp del: words_num.simps)
  next
    case False
    have c: "(if cmin \<and> lo \<noteq> x then False else cmin) = (cmin \<and> lo = x)"
      "(if cmax \<and> hi \<noteq> x then False else cmax) = (cmax \<and> hi = x)" by auto
    have "matches_range_loop cmin cmax (lo # los') (x # xs) (hi # his') \<longleftrightarrow>
        (cmin \<and> lo = x \<or> cmax \<and> hi = x \<longrightarrow> matches_range_loop (cmin \<and> lo = x) (cmax \<and> hi = x) los' xs his')"
      unfolding matches_range_loop.simps Let_def c using False by auto
    also have "\<dots> \<longleftrightarrow> (cmin \<and> lo = x \<longrightarrow> words_num los' \<le> words_num xs) \<and> (cmax \<and> hi = x \<longrightarrow> words_num xs \<le> words_num his')"
      using IH [of "cmin \<and> lo = x" "cmax \<and> hi = x"] by blast
    also have "\<dots> \<longleftrightarrow> (cmin \<longrightarrow> words_num (lo # los') \<le> words_num (x # xs)) \<and> (cmax \<longrightarrow> words_num (x # xs) \<le> words_num (hi # his'))"
      unfolding le using False by (meson linorder_less_linear)
    finally show ?thesis unfolding lo hi .
  qed
qed auto

lemma be32_sum: "be32 a b c d = push_bit 24 (ucast a) + (push_bit 16 (ucast b) + (push_bit 8 (ucast c) + ucast d))"
proof -
  have "push_bit 8 (ucast c :: u32) AND ucast d = 0"
    "push_bit 16 (ucast b :: u32) AND (push_bit 8 (ucast c) OR ucast d) = 0"
    "push_bit 24 (ucast a :: u32) AND (push_bit 16 (ucast b) OR (push_bit 8 (ucast c) OR ucast d)) = 0"
    by (rule bit_eqI; auto simp: bit_and_iff byte_bits dest!: bit_u8_above)+
  then show ?thesis by (simp add: be32_def disjunctive_add_eq_or or.assoc)
qed

lemma unat_be32: "unat (be32 a b c d) = unat a * 256 ^ 3 + (unat b * 256 ^ 2 + (unat c * 256 + unat d))"
proof -
  let ?n = "unat a * 256 ^ 3 + (unat b * 256 ^ 2 + (unat c * 256 + unat d))"
  have "unat a < 256" "unat b < 256" "unat c < 256" "unat d < 256" using unsigned_less [of _, where ?'a = nat and ?'b = 8] by simp_all
  then have n: "?n < 2 ^ 32" by simp
  have "be32 a b c d = of_nat ?n"
    unfolding be32_sum by (simp add: push_bit_eq_mult of_nat_unat mult.commute)
  then have "unat (be32 a b c d) = take_bit 32 ?n" by (simp only: unsigned_of_nat) simp
  then show ?thesis using n by (simp only: take_bit_nat_eq_self)
qed

lemma words_num_big_endian:
  "4 * n \<le> length m \<Longrightarrow> \<exists>ws. load_words Big_Endian n m = Ok ws \<and> length ws = n \<and>
     words_num ws = bytes_num (take (4 * n) m)"
proof (induction n arbitrary: m)
  case (Suc n)
  obtain a b c d m' where m: "m = a # b # c # d # m'" "4 * n \<le> length m'" using Suc.prems by (rule take4)
  from Suc.IH [OF m(2)] obtain ws where ws: "load_words Big_Endian n m' = Ok ws" "length ws = n"
    "words_num ws = bytes_num (take (4 * n) m')" by blast
  have k: "(2 :: nat) ^ (32 * n) = 256 ^ (4 * n)"
    using power_mult [of "2 :: nat" 8 "4 * n"] by simp
  have "take (4 * Suc n) m = a # b # c # d # take (4 * n) m'" by (simp add: m(1) numeral_eq_Suc)
  then have "bytes_num (take (4 * Suc n) m) =
      (unat a * 256 ^ 3 + (unat b * 256 ^ 2 + (unat c * 256 + unat d))) * 256 ^ (4 * n) + bytes_num (take (4 * n) m')"
    using m(2) by (simp add: algebra_simps power_add)
  then have "words_num (be32 a b c d # ws) = bytes_num (take (4 * Suc n) m)"
    using ws by (simp only: words_num.simps unat_be32 k)
  with ws m(1) show ?case by simp
qed simp

lemma acl_addr_matches_range_eval:
  assumes "sz mod 4 = 0" "length lo \<ge> sz" "length x \<ge> sz" "length hi \<ge> sz"
  shows "acl_addr_matches_range Big_Endian lo x hi sz =
    Ok (bytes_num (take sz lo) \<le> bytes_num (take sz x) \<and> bytes_num (take sz x) \<le> bytes_num (take sz hi))"
proof -
  have s: "4 * (sz div 4) = sz" using assms(1) by (simp add: minus_mod_eq_mult_div [symmetric])
  obtain wl wx wh where
    "load_words Big_Endian (sz div 4) lo = Ok wl" "length wl = sz div 4" "words_num wl = bytes_num (take sz lo)"
    "load_words Big_Endian (sz div 4) x = Ok wx" "length wx = sz div 4" "words_num wx = bytes_num (take sz x)"
    "load_words Big_Endian (sz div 4) hi = Ok wh" "length wh = sz div 4" "words_num wh = bytes_num (take sz hi)"
    using words_num_big_endian [of "sz div 4" lo] words_num_big_endian [of "sz div 4" x]
      words_num_big_endian [of "sz div 4" hi] assms(2-4) s by auto
  then show ?thesis
    using assms(1) matches_range_words [of wl wx wh True True] by (simp add: acl_addr_matches_range_def)
qed

section \<open>Properties\<close>

text \<open>
  What the code relies on of \<^verbatim>\<open>inet_pton\<close>: an address it accepts has the size of its family.
\<close>

definition inet_pton_ok :: "(family \<Rightarrow> string \<Rightarrow> u8 list option) \<Rightarrow> bool" where
  "inet_pton_ok inet_pton \<longleftrightarrow> (\<forall>f s bs. inet_pton f s = Some bs \<longrightarrow> length bs = addr_size f)"

lemma length_store_addr: "length bs = addr_size f \<Longrightarrow> length (store_addr bs) = 16"
  by (cases f) (simp_all add: store_addr_def addr_size_def)

lemma take_store_addr: "length bs = addr_size f \<Longrightarrow> take (addr_size f) (store_addr bs) = bs"
  by (cases f) (simp_all add: store_addr_def addr_size_def patch_def)

lemma nth_store_addr: "length bs = addr_size f \<Longrightarrow> i < addr_size f \<Longrightarrow> store_addr bs ! i = bs ! i"
  using take_store_addr [of bs f] by (metis nth_take)

lemma family_bits_size: "family_bits f = 8 * int (addr_size f)" "addr_size f mod 4 = 0" "addr_size f \<le> 16"
  by (cases f; simp add: family_bits_def addr_size_def)+

lemma addr_bit_cong: "(\<And>i. i < sz \<Longrightarrow> a ! i = b ! i) \<Longrightarrow> j < 8 * sz \<Longrightarrow> addr_bit a j = addr_bit b j"
  by (simp add: addr_bit_def less_mult_imp_div_less mult.commute)

lemma strchr_cut:
  assumes "c \<notin> set ip"
  shows "strchr (ip @ c # q) c = Some (c # q)" "take (length (ip @ c # q) - length (c # q)) (ip @ c # q) = ip"
  using assms by simp_all

lemma parse_family_append:
  "CHR ''.'' \<in> set ip \<or> CHR '':'' \<in> set ip \<Longrightarrow> acl_parse_family (ip @ q) = acl_parse_family ip"
  by (induction ip) auto

lemma dec_zero: "dec n = ''0'' \<longleftrightarrow> n = 0"
proof
  assume "dec n = ''0''"
  then have "digits_value (dec n @ []) = digits_value ''0''" by simp
  then show "n = 0" using digits_value_dec [of "[]" n] by (simp add: digits_value_def is_digit_def)
qed (simp add: dec.simps [of 0] digit_char_def char_of_eq_iff)

text \<open>
  C28. A subnet entry \<open>ip/n\<close> admits exactly the addresses of its family that agree with \<open>ip\<close> in
  the first \<open>n\<close> bits (from a matching port, if one is given), on machines of either byte order;
  creating the entry and matching it touch no memory outside the addresses.
\<close>

theorem acl_subnet_correct:
  assumes pton: "inet_pton_ok inet_pton"
    and ip: "CHR ''&'' \<notin> set ip" "CHR ''/'' \<notin> set ip" "CHR ''.'' \<in> set ip \<or> CHR '':'' \<in> set ip"
    and f: "f = acl_parse_family ip" and bytes: "inet_pton f ip = Some bytes"
    and n: "8 * addr_size f \<ge> n" and sa: "length (sin_addr sa) = addr_size (ss_family sa)"
  shows "\<exists>acl. acl_create inet_pton (Some (ip @ CHR ''/'' # dec n)) prt None tsigs = Ok (Some acl) \<and>
    acl_addr_matches e acl sa =
      Ok (ss_family sa = f \<and> (port acl = 0 \<or> port acl = sin_port sa) \<and>
          (\<forall>j < n. addr_bit (sin_addr sa) j = addr_bit bytes j))"
proof -
  have lb: "length bytes = addr_size f" using pton bytes by (simp add: inet_pton_ok_def)
  have n2: "n < 2 ^ 31" using n family_bits_size(3) [of f] by simp
  have at: "atoi (dec n) = int n" using atoi_dec [OF n2, of "[]"] by simp
  have amp: "CHR ''&'' \<notin> set (ip @ CHR ''/'' # dec n)" using ip(1) dec_digits [of "CHR ''&''" n] by (auto simp: is_digit_def)
  have rt: "acl_parse_range_type (ip @ CHR ''/'' # dec n) = (ACL_RANGE_SUBNET, ip, Some (dec n))"
    using strchr_none [OF amp] strchr_cut [OF ip(2)] by (simp add: acl_parse_range_type_def)
  have fam: "acl_parse_family (ip @ CHR ''/'' # dec n) = f" using parse_family_append [OF ip(3)] f by simp
  obtain m where m: "acl_parse_range_subnet (dec n) (replicate 16 0) (family_bits f) = Ok (ODS_STATUS_OK, m)"
    "length m = 16" "\<forall>j < 128. addr_bit m j \<longleftrightarrow> j < n"
    using subnet_mask [of "dec n" "family_bits f" 16] at n family_bits_size [of f] dec_zero [of n] by auto
  let ?acl = "\<lparr>address = Some ip, port = (case prt of None \<Rightarrow> 0 | Some p \<Rightarrow> nat (atoi p mod 2 ^ 32)), family = f,
    addr = store_addr bytes, range_mask = m, range_type = ACL_RANGE_SUBNET, acl_tsig = None, ixfr_disabled = 0\<rparr>"
  have c: "acl_create inet_pton (Some (ip @ CHR ''/'' # dec n)) prt None tsigs = Ok (Some ?acl)"
    using rt fam bytes m(1) by (simp add: acl_create_def)
  have "acl_addr_matches_mask e (store_addr bytes) (sin_addr sa) m (addr_size f) =
      Ok (\<forall>j < n. addr_bit (store_addr bytes) j = addr_bit (sin_addr sa) j)" if "ss_family sa = f"
  proof -
    have "acl_addr_matches_mask e (store_addr bytes) (sin_addr sa) m (addr_size f) =
        Ok (\<forall>i < addr_size f. store_addr bytes ! i AND m ! i = sin_addr sa ! i AND m ! i)"
      using family_bits_size(2,3) [of f] that sa m(2) length_store_addr [OF lb]
      by (intro acl_addr_matches_mask_eval) auto
    moreover have "(\<forall>i < addr_size f. store_addr bytes ! i AND m ! i = sin_addr sa ! i AND m ! i) \<longleftrightarrow>
        (\<forall>j < n. addr_bit (store_addr bytes) j = addr_bit (sin_addr sa) j)"
      using m(2,3) n family_bits_size(3) [of f] by (intro masked_prefix) auto
    ultimately show ?thesis by simp
  qed
  moreover have "addr_bit (store_addr bytes) j = addr_bit bytes j" if "j < n" for j
    by (rule addr_bit_cong [of "addr_size f"]) (use nth_store_addr [OF lb] that n in auto)
  ultimately have "acl_addr_matches e ?acl sa =
      Ok (ss_family sa = f \<and> (port ?acl = 0 \<or> port ?acl = sin_port sa) \<and>
          (\<forall>j < n. addr_bit (sin_addr sa) j = addr_bit bytes j))"
    by (auto simp: acl_addr_matches_def Let_def)
  with c show ?thesis by blast
qed

text \<open>
  A range entry \<open>low-high\<close> is matched as its comment says, with the address as one big
  number between \<open>low\<close> and \<open>high\<close>, on big-endian machines.
\<close>

theorem acl_range_big_endian:
  assumes "address acl \<noteq> None" "range_type acl = ACL_RANGE_MINMAX" "port acl = 0"
    and "length (addr acl) = 16" "length (range_mask acl) = 16"
    and "ss_family sa = family acl" "length (sin_addr sa) = addr_size (family acl)"
  shows "acl_addr_matches Big_Endian acl sa =
    Ok (bytes_num (take (addr_size (family acl)) (addr acl)) \<le> bytes_num (sin_addr sa) \<and>
        bytes_num (sin_addr sa) \<le> bytes_num (take (addr_size (family acl)) (range_mask acl)))"
  using assms family_bits_size(2,3) [of "family acl"]
    acl_addr_matches_range_eval [of "addr_size (family acl)" "addr acl" "sin_addr sa" "range_mask acl"]
  by (auto simp: acl_addr_matches_def Let_def)

text \<open>The range from 10.0.0.1 to 10.0.0.200, as the entry \<open>10.0.0.1-10.0.0.200\<close> is stored.\<close>

definition sample_range :: "unit acl" where
  "sample_range = \<lparr>address = Some ''10.0.0.1'', port = 0, family = AF_INET, addr = store_addr [10, 0, 0, 1],
     range_mask = store_addr [10, 0, 0, 200], range_type = ACL_RANGE_MINMAX, acl_tsig = None, ixfr_disabled = 0\<rparr>"

definition inet_sockaddr :: "u8 list \<Rightarrow> sockaddr" where
  "inet_sockaddr bs = \<lparr>ss_family = AF_INET, sin_port = 53, sin_addr = bs\<rparr>"

lemma load_inet: "load_words e (Suc 0) (a # b # c # d # m) = Ok [load32 e a b c d]"
  by simp

lemma sample_range_matches:
  "acl_addr_matches e sample_range (inet_sockaddr [a, b, c, d]) =
     Ok (load32 e 10 0 0 1 \<le> load32 e a b c d \<and> load32 e a b c d \<le> load32 e 10 0 0 200)"
proof -
  have s: "store_addr [a, b, c, d] = a # b # c # d # replicate 12 0" for a b c d
    by (simp add: store_addr_def patch_def)
  have "matches_range_loop True True [lo] [x] [hi] \<longleftrightarrow> lo \<le> x \<and> x \<le> hi" for lo x hi by (auto simp: Let_def)
  then show ?thesis
    by (simp only: sample_range_def inet_sockaddr_def acl_addr_matches_def acl_addr_matches_range_def acl.simps
        sockaddr.simps addr_size_def family.case acl_range_type.case s Let_def option.distinct) (simp add: load_inet del: load_words.simps matches_range_loop.simps)
qed


text \<open>Entries as \<^verbatim>\<open>acl_create\<close> makes them: matching them reads only the addresses.\<close>

definition acl_ok :: "'n acl \<Rightarrow> bool" where
  "acl_ok acl \<longleftrightarrow> length (addr acl) = 16 \<and> length (range_mask acl) = 16"

lemma acl_create_ok:
  assumes "inet_pton_ok inet_pton" "acl_create inet_pton adr prt tsig_name tsigs = Ok (Some acl)"
  shows "acl_ok acl"
proof (cases adr)
  case None
  with assms show ?thesis by (auto simp: acl_create_def Let_def acl_ok_def split: if_splits)
next
  case (Some a)
  have len: "length (store_addr bs) = 16" if "inet_pton f s = Some bs" for f s bs
    using assms(1) that length_store_addr by (auto simp: inet_pton_ok_def)
  have sub: "length m = 16" if "acl_parse_range_subnet p (replicate 16 0) mb = Ok (ODS_STATUS_OK, m)"
      "mb \<le> 128" for p mb m
    using that subnet_mask [of p mb 16]
    by (cases "0 \<le> atoi p \<and> atoi p \<le> mb \<and> (atoi p = 0 \<longrightarrow> p = ''0'')") (auto simp: acl_parse_range_subnet_def Let_def split: if_splits)
  obtain t ip p where r: "acl_parse_range_type a = (t, ip, p)" by (metis prod_cases3)
  show ?thesis
    using assms(2) Some r family_bits_size [of "acl_parse_family a"]
    by (auto simp: acl_create_def Let_def acl_ok_def len sub exec_simps split: if_splits option.splits)
qed

lemma acl_addr_matches_total:
  assumes "acl_ok acl" "length (sin_addr sa) = addr_size (ss_family sa)"
  shows "\<exists>b. acl_addr_matches e acl sa = Ok b"
proof -
  let ?sz = "addr_size (family acl)"
  have m: "acl_addr_matches_mask e (addr acl) (sin_addr sa) (range_mask acl) ?sz =
      Ok (\<forall>i < ?sz. addr acl ! i AND range_mask acl ! i = sin_addr sa ! i AND range_mask acl ! i)"
    if "ss_family sa = family acl"
    using assms that family_bits_size(2,3) [of "family acl"] by (intro acl_addr_matches_mask_eval) (auto simp: acl_ok_def)
  have r: "\<exists>b. acl_addr_matches_range e (addr acl) (sin_addr sa) (range_mask acl) ?sz = Ok b" if "ss_family sa = family acl"
  proof -
    have s: "4 * (?sz div 4) = ?sz" using family_bits_size(2) [of "family acl"] by (simp add: minus_mod_eq_mult_div [symmetric])
    then show ?thesis
      using assms that family_bits_size(2,3) [of "family acl"] load_words_Ok [of "?sz div 4" "addr acl" e]
        load_words_Ok [of "?sz div 4" "sin_addr sa" e] load_words_Ok [of "?sz div 4" "range_mask acl" e]
      by (auto simp: acl_addr_matches_range_def acl_ok_def)
  qed
  show ?thesis
    using m r assms family_bits_size(3) [of "family acl"]
    by (cases "range_type acl") (auto simp: acl_addr_matches_def acl_ok_def mem_read_def Let_def)
qed

lemma acl_tsig_matchesD:
  "acl_tsig_matches dc acl (Some t) \<Longrightarrow>
   (case acl_tsig acl of
      None \<Rightarrow> status t = TSIG_NOT_PRESENT
    | Some config \<Rightarrow> status t = TSIG_OK \<and> error_code t = 0 \<and>
        (\<exists>key algo dname. key_name t = Some key \<and> algo_txt_name t = Some algo \<and> key_dname config = Some dname \<and>
           dc key dname = 0 \<and> ods_strlowercmp algo (algorithm config) = 0))"
  by (auto simp: acl_tsig_matches_def split: option.splits if_splits)


section \<open>Witnesses\<close>

definition sample_pton :: "family \<Rightarrow> string \<Rightarrow> u8 list option" where
  "sample_pton f s = (if f = AF_INET \<and> s = ''10.0.0.0'' then Some [10, 0, 0, 0] else None)"

theorem acl_subnet_witness:
  "\<exists>acl. acl_create sample_pton (Some (''10.0.0.0'' @ CHR ''/'' # dec 8)) None None ([] :: unit tsig list) = Ok (Some acl) \<and>
     acl_addr_matches Little_Endian acl (inet_sockaddr [10, 9, 9, 9]) =
       Ok (ss_family (inet_sockaddr [10, 9, 9, 9]) = AF_INET \<and>
           (port acl = 0 \<or> port acl = sin_port (inet_sockaddr [10, 9, 9, 9])) \<and>
           (\<forall>j < 8. addr_bit (sin_addr (inet_sockaddr [10, 9, 9, 9])) j = addr_bit [10, 0, 0, 0] j))"
  by (rule acl_subnet_correct) (auto simp: sample_pton_def inet_pton_ok_def addr_size_def inet_sockaddr_def)

theorem acl_range_witness:
  "acl_addr_matches Big_Endian sample_range (inet_sockaddr [10, 0, 0, 7]) =
     Ok (bytes_num [10, 0, 0, 1] \<le> bytes_num [10, 0, 0, 7] \<and> bytes_num [10, 0, 0, 7] \<le> bytes_num [10, 0, 0, 200])"
  using acl_range_big_endian [of sample_range "inet_sockaddr [10, 0, 0, 7]"]
  by (simp add: sample_range_def inet_sockaddr_def addr_size_def store_addr_def patch_def)


end
