(* ===== verification/Ldns.thy ===== *)
theory Ldns
  imports Rbtree Task "HOL-Library.Sublist"
begin

text \<open>
  What the zone database uses of the ldns library.  A resource record is its public fields;
  an \<^verbatim>\<open>ldns_rdf\<close>, which holds a domain name or a field of the record data, is a value of a
  type \<open>'f\<close> that the model leaves open.  The functions of the library are a parameter, the
  record \<open>ldns\<close>; \<open>dname_contract\<close> states what its documentation says of domain names.
\<close>

section \<open>Records and functions of the library\<close>

record 'f ldns_rr =
  rr_owner :: 'f
  rr_get_type :: u16
  rr_ttl :: u32
  rr_class :: u16
  rr_rdfs :: "'f list"

text \<open>
  \<open>None\<close> is the null pointer, or for \<open>rr_wire_canonical\<close> and \<open>str2rdf_b32_ext\<close> a status other
  than \<^verbatim>\<open>LDNS_STATUS_OK\<close>.  \<open>rrsig_expiration\<close> and its neighbours are the field of the signature
  record read as a number, \<^verbatim>\<open>ldns_rdf2native_int32(ldns_rr_rrsig_expiration(rr))\<close>.
\<close>

record 'f ldns =
  dname_compare :: "'f \<Rightarrow> 'f \<Rightarrow> int"
  dname_is_subdomain :: "'f \<Rightarrow> 'f \<Rightarrow> bool"
  dname_left_chop :: "'f \<Rightarrow> 'f option"
  dname_cat_clone :: "'f \<Rightarrow> 'f \<Rightarrow> 'f option"
  dname_label :: "'f \<Rightarrow> nat \<Rightarrow> 'f option"
  rdf2str :: "'f \<Rightarrow> string option"
  str2rdf_b32_ext :: "string \<Rightarrow> 'f option"
  nsec3_hash_name :: "'f \<Rightarrow> u8 \<Rightarrow> u16 \<Rightarrow> u8 list \<Rightarrow> 'f option"
  nsec3_param_rdfs :: "u8 \<Rightarrow> u8 \<Rightarrow> u16 \<Rightarrow> u8 list \<Rightarrow> 'f list"
  create_nsec_bitmap :: "u16 list \<Rightarrow> u16 \<Rightarrow> 'f option"
  rr_wire_canonical :: "'f ldns_rr \<Rightarrow> u8 list option"
  rr_compare_wire :: "u8 list \<Rightarrow> u8 list \<Rightarrow> int"
  rr2canonical :: "'f ldns_rr \<Rightarrow> 'f ldns_rr"
  rr_list_sort :: "'f ldns_rr list \<Rightarrow> 'f ldns_rr list"
  native2rdf_int32 :: "u32 \<Rightarrow> 'f"
  rdf2native_int32 :: "'f \<Rightarrow> u32"
  rrsig_expiration :: "'f ldns_rr \<Rightarrow> u32"
  rrsig_inception :: "'f ldns_rr \<Rightarrow> u32"
  rrsig_algorithm :: "'f ldns_rr \<Rightarrow> u8"
  calc_keytag :: "'f ldns_rr \<Rightarrow> u16"
  rr_compare :: "'f ldns_rr \<Rightarrow> 'f ldns_rr \<Rightarrow> int"
  hexdigit_to_int :: "char \<Rightarrow> int"

text \<open>The numbers of the record types, from the registry of DNS parameters.\<close>

abbreviation "LDNS_RR_TYPE_FIRST \<equiv> (0 :: u16)"
abbreviation "LDNS_RR_TYPE_A \<equiv> (1 :: u16)"
abbreviation "LDNS_RR_TYPE_NS \<equiv> (2 :: u16)"
abbreviation "LDNS_RR_TYPE_CNAME \<equiv> (5 :: u16)"
abbreviation "LDNS_RR_TYPE_SOA \<equiv> (6 :: u16)"
abbreviation "LDNS_RR_TYPE_DNAME \<equiv> (39 :: u16)"
abbreviation "LDNS_RR_TYPE_DS \<equiv> (43 :: u16)"
abbreviation "LDNS_RR_TYPE_RRSIG \<equiv> (46 :: u16)"
abbreviation "LDNS_RR_TYPE_NSEC \<equiv> (47 :: u16)"
abbreviation "LDNS_RR_TYPE_DNSKEY \<equiv> (48 :: u16)"
abbreviation "LDNS_RR_TYPE_NSEC3 \<equiv> (50 :: u16)"
abbreviation "LDNS_RR_TYPE_NSEC3PARAMS \<equiv> (51 :: u16)"

section \<open>Domain names\<close>

text \<open>
  A name is the sequence of its labels from the root down, its path.  Names are compared in
  the canonical order of RFC 4034, section 6.1: label by label from the root, an ancestor
  before its descendants.
\<close>

fun lex_cmp :: "'l::linorder list \<Rightarrow> 'l list \<Rightarrow> int" where
  "lex_cmp [] [] = 0"
| "lex_cmp [] (y # ys) = -1"
| "lex_cmp (x # xs) [] = 1"
| "lex_cmp (x # xs) (y # ys) = (if x < y then -1 else if y < x then 1 else lex_cmp xs ys)"

definition dname_contract :: "'f ldns \<Rightarrow> ('f \<Rightarrow> 'l::linorder list) \<Rightarrow> bool" where
  "dname_contract L path \<longleftrightarrow>
     (\<forall>a b. sgn (dname_compare L a b) = lex_cmp (path a) (path b)) \<and>
     (\<forall>a b. path a \<noteq> path b \<longrightarrow> dname_is_subdomain L a b = prefix (path b) (path a)) \<and>
     (\<forall>a. path a \<noteq> [] \<longrightarrow> (\<exists>p. dname_left_chop L a = Some p \<and> path p = butlast (path a)))"

lemma lex_cmp_sgn [simp]: "sgn (lex_cmp xs ys) = lex_cmp xs ys"
  by (induction xs ys rule: lex_cmp.induct) auto

lemma lex_cmp_zero [simp]: "lex_cmp xs ys = 0 \<longleftrightarrow> xs = ys"
  by (induction xs ys rule: lex_cmp.induct) auto

lemma lex_cmp_refl [simp]: "lex_cmp xs xs = 0"
  by simp

lemma lex_cmp_sym: "lex_cmp ys xs = - lex_cmp xs ys"
  by (induction xs ys rule: lex_cmp.induct) auto

lemma lex_cmp_trans: "lex_cmp xs ys \<le> 0 \<Longrightarrow> lex_cmp ys zs \<le> 0 \<Longrightarrow> lex_cmp xs zs \<le> 0"
proof (induction xs zs arbitrary: ys rule: lex_cmp.induct)
  case (4 x xs z zs)
  then show ?case by (cases ys) (auto split: if_splits)
next
  case (3 x xs)
  then show ?case by (cases ys) auto
qed auto

lemma lex_cmp_prefix: "prefix xs ys \<Longrightarrow> xs \<noteq> ys \<Longrightarrow> lex_cmp xs ys < 0"
  by (induction xs ys rule: lex_cmp.induct) auto

text \<open>The names under a name are together: what lies between it and one of them is under it too.\<close>

lemma lex_cmp_between: "lex_cmp xs ys \<le> 0 \<Longrightarrow> lex_cmp ys zs \<le> 0 \<Longrightarrow> prefix xs zs \<Longrightarrow> prefix xs ys"
proof (induction xs zs arbitrary: ys rule: lex_cmp.induct)
  case (4 x xs z zs)
  then show ?case by (cases ys) (auto split: if_splits)
qed auto

lemma dname_contract_sgn:
  assumes "dname_contract L path"
  shows "dname_compare L a b < 0 \<longleftrightarrow> lex_cmp (path a) (path b) < 0"
    "dname_compare L a b = 0 \<longleftrightarrow> path a = path b" "dname_compare L a b > 0 \<longleftrightarrow> lex_cmp (path a) (path b) > 0"
proof -
  have "sgn (dname_compare L a b) = lex_cmp (path a) (path b)" using assms by (simp add: dname_contract_def)
  then show "dname_compare L a b < 0 \<longleftrightarrow> lex_cmp (path a) (path b) < 0"
    "dname_compare L a b = 0 \<longleftrightarrow> path a = path b" "dname_compare L a b > 0 \<longleftrightarrow> lex_cmp (path a) (path b) > 0"
    by (metis sgn_less sgn_0_0 lex_cmp_zero sgn_greater)+
qed

lemma dname_contract_le:
  "dname_contract L path \<Longrightarrow> dname_compare L a b \<le> 0 \<longleftrightarrow> lex_cmp (path a) (path b) \<le> 0"
  by (metis dname_contract_sgn(3) not_less)

lemma dname_contract_order: "dname_contract L path \<Longrightarrow> dname_order (dname_compare L)"
  unfolding dname_order_def
  by (simp add: dname_contract_le) (metis dname_contract_def lex_cmp_sym lex_cmp_trans)

lemma dname_subdomain:
  "dname_contract L path \<Longrightarrow> path a \<noteq> path b \<Longrightarrow> dname_is_subdomain L a b = prefix (path b) (path a)"
  by (simp add: dname_contract_def)

lemma dname_chop:
  assumes "dname_contract L path" "path a \<noteq> []"
  obtains p where "dname_left_chop L a = Some p" "path p = butlast (path a)"
  using assms by (auto simp: dname_contract_def)

section \<open>Trees of names\<close>

text \<open>The nodes of a tree whose keys are names, in order.\<close>

definition names_sorted :: "('f \<Rightarrow> 'l::linorder list) \<Rightarrow> ('f \<times> 'd) list \<Rightarrow> bool" where
  "names_sorted path ns \<longleftrightarrow> sorted_wrt (\<lambda>m n. lex_cmp (path (fst m)) (path (fst n)) < 0) ns"

lemma names_sorted_append:
  "names_sorted path (xs @ ys) \<longleftrightarrow>
     names_sorted path xs \<and> names_sorted path ys \<and>
     (\<forall>m \<in> set xs. \<forall>n \<in> set ys. lex_cmp (path (fst m)) (path (fst n)) < 0)"
  by (simp add: names_sorted_def sorted_wrt_append)

lemma names_sorted_Cons:
  "names_sorted path (m # ns) \<longleftrightarrow>
     (\<forall>n \<in> set ns. lex_cmp (path (fst m)) (path (fst n)) < 0) \<and> names_sorted path ns"
  by (simp add: names_sorted_def)

lemma names_sorted_distinct: "names_sorted path ns \<Longrightarrow> distinct (map (\<lambda>n. path (fst n)) ns)"
  by (induction ns) (fastforce simp: names_sorted_Cons)+

text \<open>A name that no node has goes between two groups of nodes.\<close>

lemma names_between:
  assumes "names_sorted path ns" "path k \<notin> (path \<circ> fst) ` set ns"
  obtains xs ys where "ns = xs @ ys"
    "\<forall>n \<in> set xs. lex_cmp (path k) (path (fst n)) > 0" "\<forall>n \<in> set ys. lex_cmp (path k) (path (fst n)) < 0"
  using assms
proof (induction ns arbitrary: thesis)
  case (Cons n ns)
  have ne: "lex_cmp (path k) (path (fst n)) \<noteq> 0" using Cons.prems(3) by auto
  obtain xs ys where xy: "ns = xs @ ys"
    "\<forall>n \<in> set xs. lex_cmp (path k) (path (fst n)) > 0" "\<forall>n \<in> set ys. lex_cmp (path k) (path (fst n)) < 0"
    using Cons.IH Cons.prems(2,3) by (auto simp: names_sorted_Cons)
  show ?case
  proof (cases "lex_cmp (path k) (path (fst n)) > 0")
    case True
    then show ?thesis using Cons.prems(1) [of "n # xs" ys] xy by auto
  next
    case False
    have "lex_cmp (path k) (path (fst m)) < 0" if "m \<in> set ns" for m
    proof -
      have "lex_cmp (path (fst n)) (path (fst m)) < 0" using Cons.prems(2) that by (simp add: names_sorted_Cons)
      then have "lex_cmp (path k) (path (fst m)) \<le> 0" using False lex_cmp_trans by (metis less_imp_le not_less)
      moreover have "path k \<noteq> path (fst m)" using Cons.prems(3) that by auto
      ultimately show ?thesis by (simp add: order.order_iff_strict)
    qed
    then show ?thesis using Cons.prems(1) [of "[]" "n # ns"] False ne by auto
  qed
qed auto

lemma dname_tree_absent:
  assumes rb: "rbtree_contract rb" and dn: "dname_contract L path"
    and so: "names_sorted path (rb_nodes rb t)" and new: "path k \<notin> (path \<circ> fst) ` set (rb_nodes rb t)"
  shows "rb_search rb (dname_compare L) t k = None" "rb_delete rb (dname_compare L) t k = None"
    "\<exists>t' xs ys. rb_insert rb (dname_compare L) t k d = Some t' \<and> rb_nodes rb t = xs @ ys \<and>
       rb_nodes rb t' = xs @ (k, d) # ys \<and> names_sorted path (rb_nodes rb t')"
proof -
  obtain xs ys where xy: "rb_nodes rb t = xs @ ys"
    "\<forall>n \<in> set xs. lex_cmp (path k) (path (fst n)) > 0" "\<forall>n \<in> set ys. lex_cmp (path k) (path (fst n)) < 0"
    using names_between [OF so new] by blast
  note b = rb_between [where cmp = "dname_compare L" and k = k, OF rb xy(1)]
  show "rb_search rb (dname_compare L) t k = None" "rb_delete rb (dname_compare L) t k = None"
    using b(1,2) xy by (simp_all add: dname_contract_sgn [OF dn])
  have "names_sorted path (xs @ (k, d) # ys)"
    using so xy lex_cmp_sym [of "path k"] by (auto simp: names_sorted_append names_sorted_Cons)
  then show "\<exists>t' xs ys. rb_insert rb (dname_compare L) t k d = Some t' \<and> rb_nodes rb t = xs @ ys \<and>
       rb_nodes rb t' = xs @ (k, d) # ys \<and> names_sorted path (rb_nodes rb t')"
    using b(3) [of d] xy by (fastforce simp: dname_contract_sgn [OF dn])
qed

lemma dname_tree_present:
  assumes rb: "rbtree_contract rb" and dn: "dname_contract L path"
    and so: "names_sorted path (rb_nodes rb t)" and ns: "rb_nodes rb t = xs @ n # ys" and k: "path k = path (fst n)"
  shows "rb_search rb (dname_compare L) t k = Some (snd n)"
    "\<exists>t'. rb_delete rb (dname_compare L) t k = Some (snd n, t') \<and> rb_nodes rb t' = xs @ ys \<and>
       names_sorted path (rb_nodes rb t')"
proof -
  have "\<forall>m \<in> set xs. lex_cmp (path k) (path (fst m)) > 0" "\<forall>m \<in> set ys. lex_cmp (path k) (path (fst m)) < 0"
    using so lex_cmp_sym [of "path (fst n)"] by (auto simp: ns k names_sorted_append names_sorted_Cons)
  then have *: "\<forall>m \<in> set xs. dname_compare L k (fst m) > 0" "dname_compare L k (fst n) = 0"
    "\<forall>m \<in> set ys. dname_compare L k (fst m) < 0"
    by (simp_all add: dname_contract_sgn [OF dn] k)
  note o = rb_on [where cmp = "dname_compare L" and k = k, OF rb ns *]
  show "rb_search rb (dname_compare L) t k = Some (snd n)" by (rule o(1))
  have "names_sorted path (xs @ ys)" using so by (simp add: ns names_sorted_append names_sorted_Cons)
  then show "\<exists>t'. rb_delete rb (dname_compare L) t k = Some (snd n, t') \<and> rb_nodes rb t' = xs @ ys \<and>
       names_sorted path (rb_nodes rb t')" using o(3) by auto
qed

end
