(* ===== verification/Ixfr.thy ===== *)
theory Ixfr
  imports Ldns
begin

text \<open>
  The journal of changes to a zone, \<^verbatim>\<open>signer/src/signer/ixfr.c\<close>: the last three differences
  between published versions, newest first, each the records removed and the records added.
  The journal holds records, not pointers to them.  \<open>ini\<close> is \<^verbatim>\<open>zone->db->is_initialized\<close>: before
  the zone has been published nothing is recorded.
\<close>

section \<open>Model\<close>

definition IXFR_MAX_PARTS :: nat where "IXFR_MAX_PARTS = 3"

record 'f part =
  soamin :: "'f ldns_rr option"
  min_rrs :: "'f ldns_rr list"
  soaplus :: "'f ldns_rr option"
  plus_rrs :: "'f ldns_rr list"

type_synonym 'f ixfr = "'f part option list"

definition part_create :: "'f part" where
  "part_create = \<lparr>soamin = None, min_rrs = [], soaplus = None, plus_rrs = []\<rparr>"

definition ixfr_create :: "'f ixfr" where
  "ixfr_create = replicate IXFR_MAX_PARTS None"

definition plus_rr :: "'f ldns_rr \<Rightarrow> 'f part \<Rightarrow> 'f part" where
  "plus_rr rr p = p\<lparr>plus_rrs := plus_rrs p @ [rr],
     soaplus := if rr_get_type rr = LDNS_RR_TYPE_SOA then Some rr else soaplus p\<rparr>"

definition min_rr :: "'f ldns_rr \<Rightarrow> 'f part \<Rightarrow> 'f part" where
  "min_rr rr p = p\<lparr>min_rrs := min_rrs p @ [rr],
     soamin := if rr_get_type rr = LDNS_RR_TYPE_SOA then Some rr else soamin p\<rparr>"

definition ixfr_add_rr :: "bool \<Rightarrow> 'f ixfr \<Rightarrow> 'f ldns_rr \<Rightarrow> 'f ixfr exec" where
  "ixfr_add_rr ini ixfr rr =
    (if \<not> ini then Ok ixfr
     else case ixfr ! 0 of None \<Rightarrow> Abort | Some p \<Rightarrow> Ok (ixfr[0 := Some (plus_rr rr p)]))"

definition ixfr_del_rr :: "bool \<Rightarrow> 'f ixfr \<Rightarrow> 'f ldns_rr \<Rightarrow> 'f ixfr exec" where
  "ixfr_del_rr ini ixfr rr =
    (if \<not> ini then Ok ixfr
     else case ixfr ! 0 of None \<Rightarrow> Abort | Some p \<Rightarrow> Ok (ixfr[0 := Some (min_rr rr p)]))"

text \<open>The loop of \<^verbatim>\<open>ixfr_purge\<close>, from the oldest part to the newest: \<open>i\<close> parts are left to do.\<close>

fun purge_loop :: "nat \<Rightarrow> 'f ixfr \<Rightarrow> 'f ixfr" where
  "purge_loop 0 ixfr = ixfr"
| "purge_loop (Suc i) ixfr =
     purge_loop i (if i = IXFR_MAX_PARTS - 1 then ixfr[i := None] else ixfr[i + 1 := ixfr ! i, i := None])"

definition ixfr_purge :: "'f ixfr \<Rightarrow> 'f ixfr" where
  "ixfr_purge ixfr = (purge_loop IXFR_MAX_PARTS ixfr)[0 := Some part_create]"

text \<open>
  \<^verbatim>\<open>part_print\<close> and \<^verbatim>\<open>ixfr_print\<close>: the records in the order in which they are written, oldest part
  first; an error of the output is not modelled.  A part without its SOA records fails an
  assertion.
\<close>

definition nonsoa :: "'f ldns_rr list \<Rightarrow> 'f ldns_rr list" where
  "nonsoa l = filter (\<lambda>rr. rr_get_type rr \<noteq> LDNS_RR_TYPE_SOA) l"

definition part_print :: "'f part option \<Rightarrow> 'f ldns_rr list exec" where
  "part_print part =
    (case part of None \<Rightarrow> Ok []
     | Some p \<Rightarrow> (case (soamin p, soaplus p) of
          (Some m, Some q) \<Rightarrow> Ok ([m] @ nonsoa (min_rrs p) @ [q] @ nonsoa (plus_rrs p))
        | _ \<Rightarrow> Abort))"

fun print_loop :: "nat \<Rightarrow> 'f ixfr \<Rightarrow> 'f ldns_rr list exec" where
  "print_loop 0 ixfr = Ok []"
| "print_loop (Suc i) ixfr =
     exec_bind (part_print (ixfr ! i)) (\<lambda>a. exec_bind (print_loop i ixfr) (\<lambda>b. Ok (a @ b)))"

definition ixfr_print :: "'f ixfr \<Rightarrow> 'f ldns_rr list exec" where
  "ixfr_print ixfr = print_loop IXFR_MAX_PARTS ixfr"

section \<open>Properties\<close>

text \<open>The journal can record: it has a current part if the zone has been published.\<close>

definition ixfr_ok :: "bool \<Rightarrow> 'f ixfr \<Rightarrow> bool" where
  "ixfr_ok ini ixfr \<longleftrightarrow> length ixfr = IXFR_MAX_PARTS \<and> (ini \<longrightarrow> ixfr ! 0 \<noteq> None)"

definition journal :: "bool \<Rightarrow> ('f part \<Rightarrow> 'f part) \<Rightarrow> 'f ixfr \<Rightarrow> 'f ixfr" where
  "journal ini f ixfr = (if ini then ixfr[0 := map_option f (ixfr ! 0)] else ixfr)"

lemma ixfr_add_rr_ok: "ixfr_ok ini ixfr \<Longrightarrow> ixfr_add_rr ini ixfr rr = Ok (journal ini (plus_rr rr) ixfr)"
  by (auto simp: ixfr_ok_def ixfr_add_rr_def journal_def)

lemma ixfr_del_rr_ok: "ixfr_ok ini ixfr \<Longrightarrow> ixfr_del_rr ini ixfr rr = Ok (journal ini (min_rr rr) ixfr)"
  by (auto simp: ixfr_ok_def ixfr_del_rr_def journal_def)

lemma journal_ok [simp]: "ixfr_ok ini (journal ini f ixfr) = ixfr_ok ini ixfr"
  by (auto simp: ixfr_ok_def journal_def IXFR_MAX_PARTS_def)

lemma journal_twice: "ixfr_ok ini ixfr \<Longrightarrow> journal ini g (journal ini f ixfr) = journal ini (g \<circ> f) ixfr"
  by (auto simp: journal_def ixfr_ok_def IXFR_MAX_PARTS_def option.map_comp)

lemma journal_id [simp]: "journal ini id ixfr = ixfr"
  by (simp add: journal_def option.map_id0)

lemma ixfr_purge_eq: "length ixfr = IXFR_MAX_PARTS \<Longrightarrow> ixfr_purge ixfr = Some part_create # butlast ixfr"
proof -
  assume "length ixfr = IXFR_MAX_PARTS"
  then obtain a b c where "ixfr = [a, b, c]"
    by (auto simp: IXFR_MAX_PARTS_def numeral_eq_Suc length_Suc_conv)
  then show ?thesis by (simp add: ixfr_purge_def IXFR_MAX_PARTS_def numeral_eq_Suc)
qed

end
