(* ===== verification/Serial.thy ===== *)
theory Serial
  imports Cstring
begin

text \<open>
  SOA serial numbers: the comparison of \<^verbatim>\<open>signer/src/shared/util.c\<close> and the serial part of the
  zone database, \<^verbatim>\<open>namedb_update_serial\<close> of \<^verbatim>\<open>signer/src/signer/namedb.c\<close>, which chooses the
  serial of the next signed zone.  The clock is an argument: \<open>now\<close> is what \<^verbatim>\<open>time_now()\<close>
  returns and \<open>today\<close> the number that \<^verbatim>\<open>time_datestamp(0, "%Y%m%d", NULL)\<close> returns.
\<close>

section \<open>Model\<close>

text \<open>The characters that the strings have in common are compared, at most \<open>n\<close> of them.\<close>

fun strncmp :: "string \<Rightarrow> string \<Rightarrow> nat \<Rightarrow> int" where
  "strncmp s t 0 = 0"
| "strncmp [] [] (Suc n) = 0"
| "strncmp [] (b # bs) (Suc n) = - int (of_char b)"
| "strncmp (a # as) [] (Suc n) = int (of_char a)"
| "strncmp (a # as) (b # bs) (Suc n) =
     (if a \<noteq> b then int (of_char a) - int (of_char b) else strncmp as bs n)"

fun ods_strcmp :: "string option \<Rightarrow> string option \<Rightarrow> int" where
  "ods_strcmp None None = 0"
| "ods_strcmp None (Some s2) = -1"
| "ods_strcmp (Some s1) None = -1"
| "ods_strcmp (Some s1) (Some s2) =
     (if length s1 \<noteq> length s2 \<and> strncmp s1 s2 (length s1) = 0
      then int (length s1) - int (length s2)
      else strncmp s1 s2 (length s1))"

definition DNS_SERIAL_GT :: "u32 \<Rightarrow> u32 \<Rightarrow> bool" where
  "DNS_SERIAL_GT a b \<longleftrightarrow> sint ((a - b) AND 0xFFFFFFFF) > 0"

definition util_serial_gt :: "u32 \<Rightarrow> u32 \<Rightarrow> bool" where
  "util_serial_gt serial_new serial_old = DNS_SERIAL_GT serial_new serial_old"

definition max32 :: "u32 \<Rightarrow> u32 \<Rightarrow> u32" where
  "max32 a b = (if a < b then b else a)"

record serials =
  inbserial :: u32
  intserial :: u32
  outserial :: u32
  is_initialized :: bool
  is_processed :: bool
  serial_updated :: bool

text \<open>
  The serial chosen for a format and the serial it is counted from, or the error.  The pointers
  \<^verbatim>\<open>db\<close> and \<^verbatim>\<open>format\<close> are checked in \<open>namedb_update_serial\<close>.
\<close>

definition next_serial ::
  "time_t \<Rightarrow> u32 \<Rightarrow> 'a serials_scheme \<Rightarrow> string \<Rightarrow> u32 \<Rightarrow> ods_status + u32 \<times> u32" where
  "next_serial now today db format inbound_serial =
    (let prev = (if is_initialized db then max32 (outserial db) inbound_serial else inbound_serial)
     in
     if ods_strcmp (Some format) (Some ''unixtime'') = 0 then
       let soa = word_of_int now
       in Inr (if util_serial_gt soa prev then soa else prev + 1, prev)
     else if ods_strcmp (Some format) (Some ''datecounter'') = 0 then
       let soa = today * 100
       in Inr (if util_serial_gt soa prev then soa else prev + 1, prev)
     else if ods_strcmp (Some format) (Some ''counter'') = 0 then
       let soa = inbound_serial + 1
       in Inr (if is_initialized db \<and> \<not> util_serial_gt soa prev then prev + 1 else soa, prev)
     else if ods_strcmp (Some format) (Some ''keep'') = 0 then
       let prev = outserial db; soa = inbound_serial
       in if is_initialized db \<and> \<not> util_serial_gt soa prev then Inl ODS_STATUS_CONFLICT_ERR
          else Inr (soa, prev)
     else Inl ODS_STATUS_ERR)"

definition namedb_update_serial ::
  "time_t \<Rightarrow> u32 \<Rightarrow> 'a serials_scheme option \<Rightarrow> string option \<Rightarrow> u32 \<Rightarrow> ods_status \<times> 'a serials_scheme option" where
  "namedb_update_serial now today db format inbound_serial =
    (case (db, format) of
       (Some db, Some format) \<Rightarrow>
         (case next_serial now today db format inbound_serial of
            Inl e \<Rightarrow> (e, Some db)
          | Inr (soa, prev) \<Rightarrow>
              let update = soa - prev;
                  update = (if update > 0x7FFFFFFF then 0x7FFFFFFF else update)
              in (ODS_STATUS_OK,
                  Some (db\<lparr>intserial := if is_initialized db then intserial db + update else soa\<rparr>)))
     | _ \<Rightarrow> (ODS_STATUS_ASSERT_ERR, db))"

section \<open>Comparisons\<close>

lemma strncmp_prefix: "length s \<le> length t \<Longrightarrow> strncmp s t (length s) = 0 \<longleftrightarrow> take (length s) t = s"
proof (induction s arbitrary: t)
  case (Cons a s)
  then show ?case by (cases t) auto
qed simp

text \<open>\<^verbatim>\<open>ods_strcmp\<close> decides equality.\<close>

lemma ods_strcmp_eq: "ods_strcmp (Some s) (Some t) = 0 \<longleftrightarrow> s = t"
proof (cases "length s = length t")
  case True
  then show ?thesis using strncmp_prefix [of s t] by auto
qed auto

text \<open>
  Serial number arithmetic of RFC 1982, section 3.2, for 32-bit serials.
\<close>

definition rfc1982_gt :: "u32 \<Rightarrow> u32 \<Rightarrow> bool" where
  "rfc1982_gt s1 s2 \<longleftrightarrow>
     (unat s1 < unat s2 \<and> unat s2 - unat s1 > 2 ^ 31) \<or>
     (unat s1 > unat s2 \<and> unat s1 - unat s2 < 2 ^ 31)"

lemma sint_u32: "sint x = (if uint x < 2 ^ 31 then uint x else uint x - 2 ^ 32)" for x :: u32
proof -
  have "sint x = (uint x + 2 ^ 31) mod 2 ^ 32 - 2 ^ 31"
    using int_word_sint [of "uint x", where 'a = 32] by simp
  moreover have "0 \<le> uint x" "uint x < 2 ^ 32" using uint_lt2p [of x] by simp_all
  ultimately show ?thesis
    using mod_pos_pos_trivial [of "uint x + 2 ^ 31" "2 ^ 32"]
      mod_pos_pos_trivial [of "uint x - 2 ^ 31" "2 ^ 32"] mod_add_self2 [of "uint x - 2 ^ 31" "2 ^ 32"]
    by (auto simp: add.commute [of _ 2147483648])
qed

lemma int_range: "0 < int n \<and> int n < 2 ^ 31 \<longleftrightarrow> 0 < n \<and> n < 2 ^ 31"
  by auto

lemma serial_gt_unat: "util_serial_gt a b \<longleftrightarrow> 0 < unat (a - b) \<and> unat (a - b) < 2 ^ 31"
proof -
  have u: "uint (a - b) = int (unat (a - b))" by simp
  have "(0xFFFFFFFF :: u32) = - 1" by simp
  then have "(a - b) AND 0xFFFFFFFF = a - b" by (metis and.right_neutral)
  then have "util_serial_gt a b \<longleftrightarrow> sint (a - b) > 0"
    by (simp only: util_serial_gt_def DNS_SERIAL_GT_def)
  also have "\<dots> \<longleftrightarrow> 0 < uint (a - b) \<and> uint (a - b) < 2 ^ 31"
    using uint_lt2p [of "a - b"] by (auto simp: sint_u32)
  also have "\<dots> \<longleftrightarrow> 0 < unat (a - b) \<and> unat (a - b) < 2 ^ 31"
    unfolding u by (rule int_range)
  finally show ?thesis .
qed

lemma unat_u32: "unat a < 2 ^ 32" for a :: u32
proof -
  have "unat a < 2 ^ LENGTH(32)" by (rule unsigned_less)
  then show ?thesis by simp
qed

lemma unat_diff_u32:
  "unat (a - b) = (if unat b \<le> unat a then unat a - unat b else 2 ^ 32 + unat a - unat b)" for a b :: u32
  using unat_u32 [of b] by (auto simp: unat_sub_if')

lemma serial_gt_rfc1982: "util_serial_gt a b = rfc1982_gt a b"
proof -
  have "unat a < 2 ^ 32" "unat b < 2 ^ 32" by (rule unat_u32)+
  then show ?thesis by (auto simp: serial_gt_unat rfc1982_gt_def unat_diff_u32)
qed

text \<open>C33. \<^verbatim>\<open>util_serial_gt\<close> is the comparison of serial number arithmetic in RFC 1982.\<close>

theorem util_serial_gt_rfc1982: "util_serial_gt a b = rfc1982_gt a b"
  by (rule serial_gt_rfc1982)

section \<open>The serial of the next zone\<close>

text \<open>A serial is greater than another exactly if the difference is a step that RFC 1982 allows.\<close>

lemma serial_gt_plus: "0 < unat d \<Longrightarrow> unat d < 2 ^ 31 \<Longrightarrow> util_serial_gt (s + d) s"
  by (simp add: serial_gt_unat)

lemma serial_gt_succ: "util_serial_gt (s + 1) s"
  by (rule serial_gt_plus) simp_all

lemma serial_gt_step: "util_serial_gt s p \<Longrightarrow> \<not> s - p > 0x7FFFFFFF \<and> util_serial_gt (q + (s - p)) q"
  by (simp add: serial_gt_unat word_less_nat_alt)

definition soa_formats :: "string set" where
  "soa_formats = {''unixtime'', ''datecounter'', ''counter'', ''keep''}"

lemma next_serial_gt:
  assumes "next_serial now today db format inb = Inr (soa, prev)" "is_initialized db"
  shows "util_serial_gt soa prev"
  using assms serial_gt_succ
  by (auto simp: next_serial_def Let_def split: if_splits)

lemma next_serial_error:
  "next_serial now today db format inb = Inl e \<longleftrightarrow>
     (e = ODS_STATUS_ERR \<and> format \<notin> soa_formats) \<or>
     (e = ODS_STATUS_CONFLICT_ERR \<and> format = ''keep'' \<and> is_initialized db \<and> \<not> util_serial_gt inb (outserial db))"
  by (auto simp: next_serial_def Let_def ods_strcmp_eq soa_formats_def simp del: ods_strcmp.simps)

lemma namedb_update_serial_eval:
  assumes "next_serial now today db format inb = Inr (soa, prev)"
  shows "namedb_update_serial now today (Some db) (Some format) inb =
    (ODS_STATUS_OK, Some (db\<lparr>intserial := if is_initialized db then intserial db + (soa - prev) else soa\<rparr>))"
  using assms serial_gt_step [of soa prev] next_serial_gt [OF assms]
  by (auto simp: namedb_update_serial_def Let_def)

text \<open>
  C22. Whatever the format, the clock and the inbound serial, once the zone has been published
  an update of the serial either fails and leaves the database as it was, or moves the serial
  forward in the sense of RFC 1982.  It fails for an unknown format, and for \<^verbatim>\<open>keep\<close> if the
  inbound serial is not greater than the last one published.
\<close>

theorem namedb_update_serial_increases:
  assumes "is_initialized db"
  shows "case namedb_update_serial now today (Some db) (Some format) inb of
      (ODS_STATUS_OK, Some db') \<Rightarrow>
        format \<in> soa_formats \<and> rfc1982_gt (intserial db') (intserial db) \<and>
        db' = db\<lparr>intserial := intserial db'\<rparr>
    | (ODS_STATUS_CONFLICT_ERR, Some db') \<Rightarrow>
        format = ''keep'' \<and> \<not> rfc1982_gt inb (outserial db) \<and> db' = db
    | (ODS_STATUS_ERR, Some db') \<Rightarrow> format \<notin> soa_formats \<and> db' = db
    | _ \<Rightarrow> False"
proof (cases "next_serial now today db format inb")
  case (Inl e)
  then have "namedb_update_serial now today (Some db) (Some format) inb = (e, Some db)"
    by (simp add: namedb_update_serial_def)
  with Inl show ?thesis using next_serial_error [of now today db format inb e]
    by (auto simp: serial_gt_rfc1982)
next
  case (Inr sp)
  then obtain soa prev where sp: "next_serial now today db format inb = Inr (soa, prev)" by (cases sp) auto
  have gt: "util_serial_gt (intserial db + (soa - prev)) (intserial db)"
    using next_serial_gt [OF sp assms] serial_gt_step by blast
  have "format \<in> soa_formats" using next_serial_error [of now today db format inb ODS_STATUS_ERR] sp by auto
  then show ?thesis using gt assms by (simp add: namedb_update_serial_eval [OF sp] flip: serial_gt_rfc1982)
qed

text \<open>
  The serial that is published is the one the format asks for, as long as the serial of the
  database is the last one published and the inbound serial is not ahead of it: the current
  time for \<^verbatim>\<open>unixtime\<close>, the date with a two-digit counter for \<^verbatim>\<open>datecounter\<close>, and the successor of
  the published serial where that would not be an increase; for \<^verbatim>\<open>counter\<close> the successor of the
  published serial or of the inbound one.  For \<^verbatim>\<open>keep\<close> it is always the inbound serial.
\<close>

lemma namedb_update_serial_value:
  assumes "is_initialized db" "intserial db = outserial db"
    and "format = ''keep'' \<or> inb \<le> outserial db"
    and "namedb_update_serial now today (Some db) (Some format) inb = (ODS_STATUS_OK, Some db')"
  shows "intserial db' =
    (let next = outserial db + 1; bump = (\<lambda>s. if rfc1982_gt s (outserial db) then s else next) in
     if format = ''unixtime'' then bump (word_of_int now)
     else if format = ''datecounter'' then bump (today * 100)
     else if format = ''counter'' then bump (inb + 1)
     else inb)"
proof -
  obtain soa prev where sp: "next_serial now today db format inb = Inr (soa, prev)"
    and db': "db' = db\<lparr>intserial := intserial db + (soa - prev)\<rparr>"
  proof (cases "next_serial now today db format inb")
    case (Inl e)
    then show thesis using assms(4) next_serial_error [of now today db format inb e]
      by (auto simp: namedb_update_serial_def)
  next
    case (Inr sp)
    then show thesis using that [of "fst sp" "snd sp"] assms(1,4)
        namedb_update_serial_eval [of now today db format inb "fst sp" "snd sp"] by simp
  qed
  have prev: "prev = outserial db"
    using sp assms(1,3) by (auto simp: next_serial_def Let_def max32_def split: if_splits)
  have "intserial db' = soa" using db' prev assms(2) by simp
  moreover have "soa = (let next = outserial db + 1; bump = (\<lambda>s. if rfc1982_gt s (outserial db) then s else next) in
     if format = ''unixtime'' then bump (word_of_int now)
     else if format = ''datecounter'' then bump (today * 100)
     else if format = ''counter'' then bump (inb + 1)
     else inb)"
    using sp assms(1) prev
    by (auto simp: next_serial_def Let_def ods_strcmp_eq serial_gt_rfc1982 split: if_splits simp del: ods_strcmp.simps)
  ultimately show ?thesis by simp
qed

text \<open>A database whose zone was published with serial 10.\<close>

definition published :: "u32 \<Rightarrow> serials" where
  "published s = \<lparr>inbserial = s, intserial = s, outserial = s, is_initialized = True, is_processed = True,
     serial_updated = False\<rparr>"

lemma update_example:
  "namedb_update_serial 0 0 (Some (published 10)) (Some ''counter'') 7 = (ODS_STATUS_OK, Some ((published 10)\<lparr>intserial := 11\<rparr>))"
  by (simp add: namedb_update_serial_def next_serial_def published_def ods_strcmp_eq max32_def serial_gt_unat
      del: ods_strcmp.simps)

theorem namedb_update_serial_increases_witness: "''counter'' \<in> soa_formats \<and> rfc1982_gt 11 10"
  using namedb_update_serial_increases
    [where db = "published 10" and format = "''counter''" and inb = 7 and now = 0 and today = 0]
  unfolding update_example by (simp add: published_def)

theorem namedb_update_serial_value_witness: "(11 :: u32) = (if rfc1982_gt (7 + 1) 10 then 7 + 1 else 10 + 1)"
  using namedb_update_serial_value [OF _ _ _ update_example] by (simp add: published_def split: if_splits)

text \<open>
  If the inbound serial is ahead of the published one, the published serial is not the one
  that the format asks for: with the format \<^verbatim>\<open>counter\<close>, published serial 10 and inbound serial
  20, the code computes 21 and then publishes 11, because it adds the distance from the inbound
  serial to the published one.
\<close>

theorem counter_ignores_inbound_jump:
  "namedb_update_serial now today (Some (published 10)) (Some ''counter'') 20 =
     (ODS_STATUS_OK, Some ((published 10)\<lparr>intserial := 11\<rparr>)) \<and>
   next_serial now today (published 10) ''counter'' 20 = Inr (21, 20)"
  by (simp add: namedb_update_serial_def next_serial_def published_def ods_strcmp_eq max32_def serial_gt_unat
      del: ods_strcmp.simps)

end
