(* ===== verification/Signconf.thy ===== *)
theory Signconf
  imports Ldns Serial Duration
begin

text \<open>
  The signer configuration of a zone, \<^verbatim>\<open>signer/src/signer/signconf.c\<close>, with its keys
  (\<^verbatim>\<open>keys.c\<close>) and its NSEC3 parameters (\<^verbatim>\<open>nsec3params.c\<close>).  The handle of a key in a security
  module, \<^verbatim>\<open>hsm_key_t\<close>, is of a type \<open>'k\<close> that the model leaves open.  Memory for the
  objects is assumed to be available.
\<close>

section \<open>Keys\<close>

record 'f sign_params =
  p_owner :: 'f
  p_algorithm :: u8
  p_flags :: u32
  p_inception :: time_t
  p_expiration :: time_t
  p_keytag :: u16

record ('f, 'k) key =
  dnskey :: "'f ldns_rr option"
  hsmkey :: "'k option"
  params :: "'f sign_params option"
  locator :: string
  algorithm :: u8
  flags :: u32
  publish :: bool
  ksk :: bool
  zsk :: bool

type_synonym ('f, 'k) keylist = "('f, 'k) key list"

definition keylist_create :: "('f, 'k) keylist" where
  "keylist_create = []"

text \<open>
  The lookups return the position of the first matching key.  The code compares with a null
  locator as well; a key always has a locator (\<^verbatim>\<open>keylist_push\<close> asserts it).
\<close>

fun first_index :: "('a \<Rightarrow> bool) \<Rightarrow> 'a list \<Rightarrow> nat option" where
  "first_index P [] = None"
| "first_index P (x # xs) = (if P x then Some 0 else map_option Suc (first_index P xs))"

definition keylist_lookup_by_locator :: "('f, 'k) keylist option \<Rightarrow> string option \<Rightarrow> nat option" where
  "keylist_lookup_by_locator kl loc =
    (case (kl, loc) of (Some kl, Some loc) \<Rightarrow>
       first_index (\<lambda>k. ods_strcmp (Some (locator k)) (Some loc) = 0) kl
     | _ \<Rightarrow> None)"

definition keylist_lookup_by_dnskey :: "'f ldns \<Rightarrow> ('f, 'k) keylist option \<Rightarrow> 'f ldns_rr option \<Rightarrow> nat option" where
  "keylist_lookup_by_dnskey L kl rr =
    (case (kl, rr) of (Some kl, Some rr) \<Rightarrow>
       first_index (\<lambda>k. case dnskey k of None \<Rightarrow> False | Some d \<Rightarrow> rr_compare L d rr = 0) kl
     | _ \<Rightarrow> None)"

definition keylist_push ::
  "('f, 'k) keylist \<Rightarrow> string \<Rightarrow> u8 \<Rightarrow> u32 \<Rightarrow> bool \<Rightarrow> bool \<Rightarrow> bool \<Rightarrow> ('f, 'k) keylist" where
  "keylist_push kl loc alg fl pub k z =
    kl @ [\<lparr>dnskey = None, hsmkey = None, params = None, locator = loc, algorithm = alg, flags = fl,
           publish = pub, ksk = k, zsk = z\<rparr>]"

section \<open>NSEC3 parameters\<close>

record 'f nsec3params =
  n3_algorithm :: u8
  n3_flags :: u8
  n3_iterations :: u16
  n3_salt :: "u8 list"
  n3_rr :: "'f ldns_rr option"

definition isxdigit :: "char \<Rightarrow> bool" where
  "isxdigit c \<longleftrightarrow> is_digit c \<or> (let n = (of_char c :: nat) in 65 \<le> n \<and> n \<le> 70 \<or> 97 \<le> n \<and> n \<le> 102)"

text \<open>
  \<^verbatim>\<open>nsec3params_create_salt\<close>: the salt and \<^verbatim>\<open>salt_len\<close>, or the error.  The length of the string is
  stored in a \<^verbatim>\<open>uint8_t\<close>, and so is the position \<^verbatim>\<open>c\<close>, which therefore never passes 254.
\<close>

function salt_loop :: "'f ldns \<Rightarrow> string \<Rightarrow> nat \<Rightarrow> nat \<Rightarrow> u8 list \<Rightarrow> ods_status + u8 list" where
  "salt_loop L s len c acc =
    (if c < len then
       if isxdigit (s ! c) \<and> isxdigit (s ! (c + 1)) then
         salt_loop L s len (c + 2)
           (acc[c div 2 := word_of_int (hexdigit_to_int L (s ! c)) * 16 + word_of_int (hexdigit_to_int L (s ! (c + 1)))])
       else Inl ODS_STATUS_ERR
     else Inr acc)"
  by pat_completeness auto

termination
  by (relation "measure (\<lambda>(L, s, len, c, acc). len - c)") auto

declare salt_loop.simps [simp del]

definition nsec3params_create_salt :: "'f ldns \<Rightarrow> string option \<Rightarrow> ods_status + u8 list" where
  "nsec3params_create_salt L salt_str =
    (case salt_str of None \<Rightarrow> Inr []
     | Some s \<Rightarrow>
         let salt_len = length s mod 256
         in if salt_len = 1 \<and> s ! 0 = CHR ''-'' then Inr []
            else if salt_len mod 2 \<noteq> 0 then Inl ODS_STATUS_ERR
            else salt_loop L s salt_len 0 (replicate (salt_len div 2) 0))"

definition nsec3params_create :: "'f ldns \<Rightarrow> u8 \<Rightarrow> u8 \<Rightarrow> u16 \<Rightarrow> string option \<Rightarrow> 'f nsec3params option" where
  "nsec3params_create L algo fl iter salt =
    (case nsec3params_create_salt L salt of
       Inl e \<Rightarrow> None
     | Inr data \<Rightarrow> Some \<lparr>n3_algorithm = algo, n3_flags = fl, n3_iterations = iter, n3_salt = data, n3_rr = None\<rparr>)"

section \<open>Signer configuration\<close>

record ('f, 'k) signconf =
  sig_resign_interval :: "duration option"
  sig_refresh_interval :: "duration option"
  sig_validity_default :: "duration option"
  sig_validity_denial :: "duration option"
  sig_jitter :: "duration option"
  sig_inception_offset :: "duration option"
  nsec_type :: u16
  nsec3_optout :: int
  nsec3_algo :: u32
  nsec3_iterations :: u32
  nsec3_salt :: "string option"
  nsec3params :: "'f nsec3params option"
  dnskey_ttl :: "duration option"
  keys :: "('f, 'k) keylist option"
  soa_ttl :: "duration option"
  soa_min :: "duration option"
  soa_serial :: "string option"
  last_modified :: time_t

definition signconf_create :: "('f, 'k) signconf" where
  "signconf_create =
    \<lparr>sig_resign_interval = None, sig_refresh_interval = None, sig_validity_default = None,
     sig_validity_denial = None, sig_jitter = None, sig_inception_offset = None, nsec_type = 0,
     nsec3_optout = 0, nsec3_algo = 0, nsec3_iterations = 0, nsec3_salt = None, nsec3params = None,
     dnskey_ttl = None, keys = None, soa_ttl = None, soa_min = None, soa_serial = None, last_modified = 0\<rparr>"

text \<open>0 is a serial type that is known.\<close>

definition signconf_soa_serial_check :: "string option \<Rightarrow> int" where
  "signconf_soa_serial_check serial =
    (case serial of None \<Rightarrow> 1
     | Some s \<Rightarrow>
         if length s = 4 \<and> strncmp s ''keep'' 4 = 0 then 0
         else if length s = 7 \<and> strncmp s ''counter'' 7 = 0 then 0
         else if length s = 8 \<and> strncmp s ''unixtime'' 8 = 0 then 0
         else if length s = 11 \<and> strncmp s ''datecounter'' 11 = 0 then 0
         else 1)"

definition signconf_check :: "('f, 'k) signconf \<Rightarrow> ods_status" where
  "signconf_check sc =
    (if sig_resign_interval sc = None \<or> sig_refresh_interval sc = None \<or> sig_validity_default sc = None \<or>
        sig_validity_denial sc = None \<or> sig_jitter sc = None \<or> sig_inception_offset sc = None \<or>
        (if nsec_type sc = LDNS_RR_TYPE_NSEC3 then nsec3_algo sc = 0 else nsec_type sc \<noteq> LDNS_RR_TYPE_NSEC) \<or>
        (case keys sc of None \<Rightarrow> True | Some kl \<Rightarrow> length kl = 0) \<or>
        dnskey_ttl sc = None \<or> soa_ttl sc = None \<or> soa_min sc = None \<or>
        soa_serial sc = None \<or> signconf_soa_serial_check (soa_serial sc) \<noteq> 0
     then ODS_STATUS_CFG_ERR else ODS_STATUS_OK)"

definition signconf_compare_denial :: "('f, 'k) signconf option \<Rightarrow> ('f, 'k) signconf option \<Rightarrow> task_id" where
  "signconf_compare_denial a b =
    (case (a, b) of (Some a, Some b) \<Rightarrow>
       if duration_compare (soa_min a) (soa_min b) \<noteq> 0 then TASK_NSECIFY
       else if nsec_type a \<noteq> nsec_type b then TASK_NSECIFY
       else if nsec_type a = LDNS_RR_TYPE_NSEC3 \<and>
           (ods_strcmp (nsec3_salt a) (nsec3_salt b) \<noteq> 0 \<or> nsec3_algo a \<noteq> nsec3_algo b \<or>
            nsec3_iterations a \<noteq> nsec3_iterations b \<or> nsec3_optout a \<noteq> nsec3_optout b)
       then TASK_NSECIFY else TASK_NONE
     | _ \<Rightarrow> TASK_NONE)"

text \<open>
  \<^verbatim>\<open>signconf_update\<close>: \<open>mtime\<close> is the modification time of the file and \<open>parsed\<close> what
  \<^verbatim>\<open>signconf_read\<close> makes of it.
\<close>

definition signconf_update ::
  "time_t \<Rightarrow> (ods_status + ('f, 'k) signconf) \<Rightarrow> string option \<Rightarrow> time_t \<Rightarrow> ods_status \<times> ('f, 'k) signconf option" where
  "signconf_update mtime parsed scfile lastmod =
    (if scfile = None \<or> mtime \<le> lastmod then (ODS_STATUS_UNCHANGED, None)
     else case parsed of
        Inl e \<Rightarrow> (e, None)
      | Inr sc \<Rightarrow>
          let sc = sc\<lparr>last_modified := mtime\<rparr>
          in if signconf_check sc \<noteq> ODS_STATUS_OK then (ODS_STATUS_CFG_ERR, None)
             else (ODS_STATUS_OK, Some sc))"

section \<open>Salts\<close>

text \<open>What a string of hexadecimal digits stands for.\<close>

fun hex_bytes :: "'f ldns \<Rightarrow> string \<Rightarrow> u8 list option" where
  "hex_bytes L [] = Some []"
| "hex_bytes L [a] = None"
| "hex_bytes L (a # b # s) =
     (if isxdigit a \<and> isxdigit b
      then map_option ((#) (word_of_int (16 * hexdigit_to_int L a + hexdigit_to_int L b))) (hex_bytes L s)
      else None)"

lemma hex_bytes_odd: "odd (length s) \<Longrightarrow> hex_bytes L s = None"
  by (induction L s rule: hex_bytes.induct) auto

lemma salt_loop_eval:
  assumes "even (length t)" "s = u @ t @ v" "length u = 2 * length pre"
  shows "salt_loop L s (length u + length t) (length u) (pre @ replicate (length t div 2) 0) =
    (case hex_bytes L t of None \<Rightarrow> Inl ODS_STATUS_ERR | Some bs \<Rightarrow> Inr (pre @ bs))"
  using assms
proof (induction L t arbitrary: u pre rule: hex_bytes.induct)
  case (3 L a b t)
  let ?x = "word_of_int (16 * hexdigit_to_int L a + hexdigit_to_int L b) :: u8"
  have s: "s ! length u = a" "s ! (length u + 1) = b" using 3 by (simp_all add: nth_append)
  show ?case
  proof (cases "isxdigit a \<and> isxdigit b")
    case True
    have "salt_loop L s (length u + length (a # b # t)) (length u) (pre @ replicate (length (a # b # t) div 2) 0)
        = salt_loop L s (length (u @ [a, b]) + length t) (length (u @ [a, b]))
            ((pre @ [?x]) @ replicate (length t div 2) 0)"
      using True 3(4) s by (subst salt_loop.simps) (simp add: list_update_append mult.commute)
    also have "\<dots> = (case hex_bytes L t of None \<Rightarrow> Inl ODS_STATUS_ERR | Some bs \<Rightarrow> Inr ((pre @ [?x]) @ bs))"
      using 3 True by (intro "3.IH") auto
    finally show ?thesis using True by (simp split: option.splits)
  next
    case False
    then show ?thesis using s by (subst salt_loop.simps) auto
  qed
qed (auto simp: salt_loop.simps)

text \<open>
  C34. The salt of the configuration is decoded from its hexadecimal digits, but only from the
  first \<open>length s mod 256\<close> of them, because the length is kept in eight bits: a salt of 128
  bytes or more, which RFC 5155 and the configuration allow, is cut off without an error.  An
  odd number of digits or another character is an error, and \<^verbatim>\<open>-\<close> stands for no salt.
\<close>

theorem nsec3_salt_decoded:
  "nsec3params_create_salt L (Some s) =
    (let t = take (length s mod 256) s
     in if t = ''-'' then Inr []
        else case hex_bytes L t of None \<Rightarrow> Inl ODS_STATUS_ERR | Some bs \<Rightarrow> Inr bs)"
proof -
  let ?t = "take (length s mod 256) s"
  have len: "length ?t = length s mod 256" by (simp add: min_def)
  have minus: "length s mod 256 = 1 \<and> s ! 0 = CHR ''-'' \<longleftrightarrow> ?t = ''-''"
  proof
    assume "length s mod 256 = 1 \<and> s ! 0 = CHR ''-''"
    then show "?t = ''-''" by (cases s) auto
  next
    assume t: "?t = ''-''"
    then have "length s mod 256 = 1" using len by simp
    with t show "length s mod 256 = 1 \<and> s ! 0 = CHR ''-''" by (cases s) auto
  qed
  show ?thesis
  proof (cases "even (length s mod 256)")
    case True
    then have "salt_loop L s (length ?t) 0 (replicate (length ?t div 2) 0) =
        (case hex_bytes L ?t of None \<Rightarrow> Inl ODS_STATUS_ERR | Some bs \<Rightarrow> Inr bs)"
      using salt_loop_eval [where u = "[]" and pre = "[]" and t = ?t and s = s and v = "drop (length s mod 256) s" and L = L]
      len by (simp split: option.splits)
    then show ?thesis using True minus len by (auto simp: nsec3params_create_salt_def Let_def)
  next
    case False
    then show ?thesis using minus hex_bytes_odd [of ?t L] len
      by (auto simp: nsec3params_create_salt_def Let_def simp flip: odd_iff_mod_2_eq_one)
  qed
qed

end
