(* ===== verification/Hsm.thy ===== *)
theory Hsm
  imports Signconf
begin

text \<open>
  Signing with a security module, \<^verbatim>\<open>signer/src/shared/hsm.c\<close>.  The module is behind libhsm and
  PKCS#11: its operations are a parameter, the record \<open>hsm\<close>, on a state of type \<open>'h\<close>, so that
  the same request may succeed at one time and fail at another.  \<open>hsm_get_error\<close> says whether
  libhsm has an error message.
\<close>

section \<open>Model\<close>

record ('h, 'k, 'f) hsm =
  hsm_find_key_by_id :: "'h \<Rightarrow> string \<Rightarrow> 'k option \<times> 'h"
  hsm_get_dnskey :: "'h \<Rightarrow> 'k \<Rightarrow> 'f sign_params \<Rightarrow> 'f ldns_rr option \<times> 'h"
  hsm_sign_rrset :: "'h \<Rightarrow> 'f ldns_rr list \<Rightarrow> 'k \<Rightarrow> 'f sign_params \<Rightarrow> 'f ldns_rr option \<times> 'h"
  hsm_get_error :: "'h \<Rightarrow> bool \<times> 'h"

text \<open>\<^verbatim>\<open>hsm_sign_params_new\<close>, with the owner, algorithm and flags that its callers set next.\<close>

definition hsm_sign_params_new :: "'f \<Rightarrow> u8 \<Rightarrow> u32 \<Rightarrow> 'f sign_params" where
  "hsm_sign_params_new own alg fl =
    \<lparr>p_owner = own, p_algorithm = alg, p_flags = fl, p_inception = 0, p_expiration = 0, p_keytag = 0\<rparr>"

definition lhsm_clear_key_cache :: "('f, 'k) key \<Rightarrow> ('f, 'k) key" where
  "lhsm_clear_key_cache k = k\<lparr>dnskey := None, hsmkey := None, params := None\<rparr>"

text \<open>
  One attempt of \<^verbatim>\<open>lhsm_get_key\<close>, between the label and the first failure: whether it succeeded,
  and the key with what has been cached.  The branch for a failure to allocate the parameters
  is not modelled.
\<close>

definition get_key_once ::
  "'f ldns \<Rightarrow> ('h, 'k, 'f) hsm \<Rightarrow> 'h \<Rightarrow> 'f \<Rightarrow> ('f, 'k) key \<Rightarrow> bool \<times> ('f, 'k) key \<times> 'h" where
  "get_key_once L H h own k =
    (let p = (case params k of None \<Rightarrow> hsm_sign_params_new own (algorithm k) (flags k) | Some p \<Rightarrow> p);
         k = k\<lparr>params := Some p\<rparr>;
         (hk, h) = (case hsmkey k of Some x \<Rightarrow> (Some x, h) | None \<Rightarrow> hsm_find_key_by_id H h (locator k))
     in case hk of
          None \<Rightarrow> (False, k, h)
        | Some x \<Rightarrow>
            let k = k\<lparr>hsmkey := Some x\<rparr>;
                (d, h) = (case dnskey k of Some d \<Rightarrow> (Some d, h) | None \<Rightarrow> hsm_get_dnskey H h x p)
            in (case d of
                 None \<Rightarrow> (False, k, h)
               | Some d \<Rightarrow> (True, k\<lparr>dnskey := Some d, params := Some (p\<lparr>p_keytag := calc_keytag L d\<rparr>)\<rparr>, h)))"

text \<open>
  The whole function.  After a failure without an error message the cache of the key is cleared
  and the attempt is repeated, once: the first argument counts the retries that are left, and
  the code starts with one.
\<close>

fun lhsm_get_key ::
  "nat \<Rightarrow> 'f ldns \<Rightarrow> ('h, 'k, 'f) hsm \<Rightarrow> 'h \<Rightarrow> 'f \<Rightarrow> ('f, 'k) key \<Rightarrow> ods_status \<times> ('f, 'k) key \<times> 'h" where
  "lhsm_get_key r L H h own k =
    (case get_key_once L H h own k of
       (True, k, h) \<Rightarrow> (ODS_STATUS_OK, k, h)
     | (False, k, h) \<Rightarrow>
         (case (hsm_get_error H h, r) of
            ((False, h), Suc r') \<Rightarrow> lhsm_get_key r' L H h own (lhsm_clear_key_cache k)
          | ((_, h), _) \<Rightarrow> (ODS_STATUS_ERR, k, h)))"

declare lhsm_get_key.simps [simp del]

text \<open>One attempt of \<^verbatim>\<open>lhsm_sign\<close>, and the whole function, with the same rule for retries.\<close>

definition sign_once ::
  "'f ldns \<Rightarrow> ('h, 'k, 'f) hsm \<Rightarrow> 'h \<Rightarrow> 'f ldns_rr list \<Rightarrow> ('f, 'k) key \<Rightarrow> 'f \<Rightarrow> time_t \<Rightarrow> time_t \<Rightarrow>
   ('f ldns_rr option \<times> ('f, 'k) key \<times> 'h) exec" where
  "sign_once L H h rrset k own inception expiration =
    (let (st, k, h) = (if dnskey k = None then lhsm_get_key 1 L H h own k else (ODS_STATUS_OK, k, h))
     in if st \<noteq> ODS_STATUS_OK then Ok (None, k, h)
        else case (dnskey k, hsmkey k, params k) of
            (Some d, Some x, Some p) \<Rightarrow>
              let p = (hsm_sign_params_new (p_owner p) (algorithm k) (flags k))
                    \<lparr>p_inception := inception, p_expiration := expiration, p_keytag := calc_keytag L d\<rparr>;
                  (sig, h) = hsm_sign_rrset H h rrset x p
              in Ok (sig, k, h)
          | _ \<Rightarrow> Abort)"

fun sign_retry ::
  "nat \<Rightarrow> 'f ldns \<Rightarrow> ('h, 'k, 'f) hsm \<Rightarrow> 'h \<Rightarrow> 'f ldns_rr list \<Rightarrow> ('f, 'k) key \<Rightarrow> 'f \<Rightarrow> time_t \<Rightarrow> time_t \<Rightarrow>
   ('f ldns_rr option \<times> ('f, 'k) key \<times> 'h) exec" where
  "sign_retry r L H h rrset k own inception expiration =
    exec_bind (sign_once L H h rrset k own inception expiration) (\<lambda>(sig, k, h).
      case sig of Some sig \<Rightarrow> Ok (Some sig, k, h)
      | None \<Rightarrow>
          (case (hsm_get_error H h, r) of
             ((False, h), Suc r') \<Rightarrow> sign_retry r' L H h rrset (lhsm_clear_key_cache k) own inception expiration
           | ((_, h), _) \<Rightarrow> Ok (None, k, h)))"

declare sign_retry.simps [simp del]

definition lhsm_sign ::
  "'f ldns \<Rightarrow> ('h, 'k, 'f) hsm \<Rightarrow> 'h \<Rightarrow> 'f ldns_rr list \<Rightarrow> ('f, 'k) key \<Rightarrow> 'f \<Rightarrow> time_t \<Rightarrow> time_t \<Rightarrow>
   ('f ldns_rr option \<times> ('f, 'k) key \<times> 'h) exec" where
  "lhsm_sign L H h rrset k own inception expiration =
    (if inception = 0 \<or> expiration = 0 then Ok (None, k, h)
     else sign_retry 1 L H h rrset k own inception expiration)"

section \<open>Contract\<close>

text \<open>
  What libhsm documents of \<^verbatim>\<open>hsm_sign_rrset\<close>: the result is a signature record with the algorithm
  and the validity period of the parameters.
\<close>

definition hsm_contract :: "'f ldns \<Rightarrow> ('h, 'k, 'f) hsm \<Rightarrow> bool" where
  "hsm_contract L H \<longleftrightarrow>
     (\<forall>h rrset x p sig h'. hsm_sign_rrset H h rrset x p = (Some sig, h') \<longrightarrow>
        rr_get_type sig = LDNS_RR_TYPE_RRSIG \<and> rrsig_algorithm L sig = p_algorithm p \<and>
        rrsig_inception L sig = word_of_int (p_inception p) \<and>
        rrsig_expiration L sig = word_of_int (p_expiration p))"

text \<open>A key whose public key is cached has its handle and parameters cached too.\<close>

definition key_ok :: "('f, 'k) key \<Rightarrow> bool" where
  "key_ok k \<longleftrightarrow> (dnskey k \<noteq> None \<longrightarrow> hsmkey k \<noteq> None \<and> params k \<noteq> None)"

text \<open>The part of a key that comes from the configuration.\<close>

definition same_key :: "('f, 'k) key \<Rightarrow> ('f, 'k) key \<Rightarrow> bool" where
  "same_key k k' \<longleftrightarrow> locator k' = locator k \<and> algorithm k' = algorithm k \<and> flags k' = flags k \<and>
     publish k' = publish k \<and> ksk k' = ksk k \<and> zsk k' = zsk k"

lemma same_key_trans: "same_key a b \<Longrightarrow> same_key b c \<Longrightarrow> same_key a c"
  by (simp add: same_key_def)

lemma same_key_clear [simp]: "same_key k (lhsm_clear_key_cache k)"
  by (simp add: same_key_def lhsm_clear_key_cache_def)

definition key_cached :: "('f, 'k) key \<Rightarrow> bool" where
  "key_cached k \<longleftrightarrow> dnskey k \<noteq> None \<and> hsmkey k \<noteq> None \<and> params k \<noteq> None"

lemma key_ok_clear [simp]: "key_ok (lhsm_clear_key_cache k)"
  by (simp add: key_ok_def lhsm_clear_key_cache_def)

lemma get_key_once_result:
  assumes "get_key_once L H h own k = (b, k', h')" "key_ok k"
  shows "same_key k k' \<and> key_ok k' \<and> (b \<longrightarrow> key_cached k')"
  using assms
  by (auto simp: get_key_once_def Let_def key_ok_def key_cached_def same_key_def split: option.splits prod.splits)

lemma lhsm_get_key_result:
  assumes "lhsm_get_key r L H h own k = (st, k', h')" "key_ok k"
  shows "same_key k k' \<and> key_ok k' \<and> (st = ODS_STATUS_OK \<longrightarrow> key_cached k')"
  using assms
proof (induction r arbitrary: h k)
  case 0
  then show ?case using get_key_once_result [of L H h own k]
    by (subst (asm) lhsm_get_key.simps) (auto split: prod.splits bool.splits)
next
  case (Suc r)
  obtain b k1 h1 where g: "get_key_once L H h own k = (b, k1, h1)" by (cases "get_key_once L H h own k") auto
  note k1 = get_key_once_result [OF g Suc.prems(2)]
  show ?case
  proof (cases "b \<or> fst (hsm_get_error H h1)")
    case True
    then show ?thesis using Suc.prems(1) g k1
      by (subst (asm) lhsm_get_key.simps) (auto split: prod.splits bool.splits)
  next
    case False
    then have "lhsm_get_key r L H (snd (hsm_get_error H h1)) own (lhsm_clear_key_cache k1) = (st, k', h')"
      using Suc.prems(1) g by (subst (asm) lhsm_get_key.simps) (auto split: prod.splits bool.splits)
    from Suc.IH [OF this] show ?thesis
      using k1 same_key_trans [OF same_key_trans [OF _ same_key_clear], of k k1 k'] by simp
  qed
qed

text \<open>A signature made with a key.\<close>

definition signed_by :: "'f ldns \<Rightarrow> ('f, 'k) key \<Rightarrow> time_t \<Rightarrow> time_t \<Rightarrow> 'f ldns_rr \<Rightarrow> bool" where
  "signed_by L k inception expiration sig \<longleftrightarrow>
     rr_get_type sig = LDNS_RR_TYPE_RRSIG \<and> rrsig_algorithm L sig = algorithm k \<and>
     rrsig_inception L sig = word_of_int inception \<and> rrsig_expiration L sig = word_of_int expiration"

lemma hsm_contract_signed:
  assumes "hsm_contract L H" "hsm_sign_rrset H h rrset x p = (Some sig, h')"
    "p_algorithm p = algorithm k" "p_inception p = inception" "p_expiration p = expiration"
  shows "signed_by L k inception expiration sig"
  using assms unfolding hsm_contract_def signed_by_def by metis

lemma sign_once_result:
  assumes "hsm_contract L H" "key_ok k"
  shows "\<exists>sig k' h'. sign_once L H h rrset k own inception expiration = Ok (sig, k', h') \<and>
    same_key k k' \<and> key_ok k' \<and> (\<forall>s. sig = Some s \<longrightarrow> signed_by L k inception expiration s)"
proof -
  obtain st k1 h1 where g: "(if dnskey k = None then lhsm_get_key 1 L H h own k else (ODS_STATUS_OK, k, h)) = (st, k1, h1)"
    by (metis prod_cases3)
  have k1: "same_key k k1" "key_ok k1" "st = ODS_STATUS_OK \<Longrightarrow> key_cached k1"
    using g lhsm_get_key_result [OF _ assms(2), of 1 L H h own st k1 h1] assms(2)
    by (auto simp: key_cached_def key_ok_def same_key_def split: if_splits)
  show ?thesis
  proof (cases "st = ODS_STATUS_OK")
    case True
    then obtain d x p where c: "dnskey k1 = Some d" "hsmkey k1 = Some x" "params k1 = Some p"
      using k1(3) by (auto simp: key_cached_def)
    then show ?thesis using k1 True unfolding sign_once_def g
      by (auto simp: same_key_def hsm_sign_params_new_def Let_def split: prod.splits
          intro!: hsm_contract_signed [OF assms(1)])
  next
    case False
    then show ?thesis using k1 unfolding sign_once_def g by simp
  qed
qed

lemma sign_retry_result:
  assumes "hsm_contract L H" "key_ok k"
  shows "\<exists>sig k' h'. sign_retry r L H h rrset k own inception expiration = Ok (sig, k', h') \<and>
    same_key k k' \<and> key_ok k' \<and> (\<forall>s. sig = Some s \<longrightarrow> signed_by L k inception expiration s)"
  using assms(2)
proof (induction r arbitrary: h k)
  case 0
  obtain sig k1 h1 where "sign_once L H h rrset k own inception expiration = Ok (sig, k1, h1)"
    "same_key k k1" "key_ok k1" "\<forall>s. sig = Some s \<longrightarrow> signed_by L k inception expiration s"
    using sign_once_result [OF assms(1) 0] by blast
  then show ?case by (subst sign_retry.simps) (auto split: option.splits prod.splits bool.splits)
next
  case (Suc r)
  obtain sig k1 h1 where s: "sign_once L H h rrset k own inception expiration = Ok (sig, k1, h1)"
    and k1: "same_key k k1" "key_ok k1" "\<forall>s. sig = Some s \<longrightarrow> signed_by L k inception expiration s"
    using sign_once_result [OF assms(1) Suc.prems] by blast
  have k2: "same_key k (lhsm_clear_key_cache k1)" using same_key_trans [OF k1(1) same_key_clear] .
  have by_k: "signed_by L (lhsm_clear_key_cache k1) inception expiration s = signed_by L k inception expiration s" for s
    using k2 by (simp add: signed_by_def same_key_def)
  obtain sig2 k3 h3 where "sign_retry r L H (snd (hsm_get_error H h1)) rrset (lhsm_clear_key_cache k1) own inception expiration
      = Ok (sig2, k3, h3)" "same_key (lhsm_clear_key_cache k1) k3" "key_ok k3"
      "\<forall>s. sig2 = Some s \<longrightarrow> signed_by L k inception expiration s"
    using Suc.IH [OF key_ok_clear, of "snd (hsm_get_error H h1)" k1] unfolding by_k by blast
  then show ?case using s k1 same_key_trans [OF k2]
    by (subst sign_retry.simps) (auto split: option.splits prod.splits bool.splits)
qed

text \<open>Signing returns, with a signature made with this key or without one.\<close>

lemma lhsm_sign_result:
  assumes "hsm_contract L H" "key_ok k"
  shows "\<exists>sig k' h'. lhsm_sign L H h rrset k own inception expiration = Ok (sig, k', h') \<and>
    same_key k k' \<and> key_ok k' \<and> (\<forall>s. sig = Some s \<longrightarrow> signed_by L k inception expiration s)"
  using sign_retry_result [OF assms] assms(2) by (simp add: lhsm_sign_def same_key_def)

end
