(* ===== verification/Sample.thy ===== *)
theory Sample
  imports Hsm
begin

text \<open>
  Small functions that keep the contracts of the library and of the security module.  They show
  that the hypotheses of the theorems about zones can hold.  A name is its path, a list of
  numbers; the data of a signature is its algorithm, inception and expiration.
\<close>

definition sample_ldns :: "nat list ldns" where
  "sample_ldns =
    \<lparr>dname_compare = lex_cmp, dname_is_subdomain = (\<lambda>a b. prefix b a \<and> a \<noteq> b),
     dname_left_chop = (\<lambda>a. Some (butlast a)), dname_cat_clone = (\<lambda>a b. Some (b @ a)),
     dname_label = (\<lambda>a i. Some a), rdf2str = (\<lambda>a. Some (map char_of a)),
     str2rdf_b32_ext = (\<lambda>s. Some (map of_char s)),
     nsec3_hash_name = (\<lambda>a alg iter salt. Some a), nsec3_param_rdfs = (\<lambda>alg fl iter salt. [[unat alg], [unat fl], [unat iter], map unat salt]),
     create_nsec_bitmap = (\<lambda>ts t. Some (map unat ts)),
     rr_wire_canonical = (\<lambda>r. Some (map of_nat (concat (rr_rdfs r)))),
     rr_compare_wire = (\<lambda>a b. lex_cmp a b), rr2canonical = (\<lambda>r. r), rr_list_sort = (\<lambda>l. l),
     native2rdf_int32 = (\<lambda>n. [unat n]), rdf2native_int32 = (\<lambda>f. of_nat (hd f)),
     rrsig_expiration = (\<lambda>r. of_nat (hd (rr_rdfs r ! 2))), rrsig_inception = (\<lambda>r. of_nat (hd (rr_rdfs r ! 1))),
     rrsig_algorithm = (\<lambda>r. of_nat (hd (rr_rdfs r ! 0))), calc_keytag = (\<lambda>r. 0),
     rr_compare = (\<lambda>a b. if a = b then 0 else 1), hexdigit_to_int = (\<lambda>c. int (of_char c))\<rparr>"

lemma sample_dname_contract: "dname_contract sample_ldns (\<lambda>n. n)"
  by (auto simp: dname_contract_def sample_ldns_def)

definition sample_hsm :: "(unit, nat, nat list) hsm" where
  "sample_hsm =
    \<lparr>hsm_find_key_by_id = (\<lambda>h loc. (Some (length loc), h)),
     hsm_get_dnskey = (\<lambda>h x p. (Some \<lparr>rr_owner = p_owner p, rr_get_type = LDNS_RR_TYPE_DNSKEY, rr_ttl = 3600,
        rr_class = 1, rr_rdfs = [[x]]\<rparr>, h)),
     hsm_sign_rrset = (\<lambda>h rrset x p. (Some \<lparr>rr_owner = p_owner p, rr_get_type = LDNS_RR_TYPE_RRSIG, rr_ttl = 3600,
        rr_class = 1, rr_rdfs = [[unat (p_algorithm p)], [unat (word_of_int (p_inception p) :: u32)],
          [unat (word_of_int (p_expiration p) :: u32)]]\<rparr>, h)),
     hsm_get_error = (\<lambda>h. (True, h))\<rparr>"

lemma sample_hsm_contract: "hsm_contract sample_ldns sample_hsm"
  by (auto simp: hsm_contract_def sample_ldns_def sample_hsm_def)

definition sample_rr :: "nat list \<Rightarrow> u16 \<Rightarrow> nat \<Rightarrow> nat list ldns_rr" where
  "sample_rr n t d = \<lparr>rr_owner = n, rr_get_type = t, rr_ttl = 3600, rr_class = 1, rr_rdfs = [[d]]\<rparr>"

definition sample_key :: "(nat list, nat) key" where
  "sample_key = \<lparr>dnskey = None, hsmkey = None, params = None, locator = ''zsk'', algorithm = 8, flags = 256,
     publish = True, ksk = False, zsk = True\<rparr>"

definition hours_of :: "int \<Rightarrow> duration" where
  "hours_of n = \<lparr>years = 0, months = 0, weeks = 0, days = 0, hours = n, minutes = 0, seconds = 0\<rparr>"

definition sample_signconf :: "(nat list, nat) signconf" where
  "sample_signconf =
    signconf_create\<lparr>sig_refresh_interval := Some (hours_of 72), sig_validity_default := Some (hours_of 336),
      sig_validity_denial := Some (hours_of 336), sig_inception_offset := Some (hours_of 1),
      nsec_type := LDNS_RR_TYPE_NSEC, keys := Some [sample_key], soa_serial := Some ''counter''\<rparr>"

end
