(* ===== verification/Rrset.thy ===== *)
theory Rrset
  imports Ixfr Hsm Stats Sample "HOL-Library.Multiset"
begin

text \<open>
  RRsets, \<^verbatim>\<open>signer/src/signer/rrset.c\<close>: the records of one name and type with their signatures,
  how a set of changes is applied to them and recorded in the journal, and how they are signed.
  The arrays \<^verbatim>\<open>rrs\<close> and \<^verbatim>\<open>rrsigs\<close> are lists, whose lengths are \<^verbatim>\<open>rr_count\<close> and \<^verbatim>\<open>rrsig_count\<close>; a
  pointer to an element is its position.  The pointers back to the zone, the domain and the
  owner are not in the records: the functions that follow them get what they point to as an
  argument.

  The loops that delete elements while they walk the array do so with \<^verbatim>\<open>i--\<close> in the body,
  which the \<^verbatim>\<open>i++\<close> of the loop cancels (also at 0, the index being unsigned), so after a deletion
  the loop continues at the same index.  An increment wraps around at the width of the index,
  which is written out.  These loops take a bound on the number of iterations, of which one
  more than the number of elements is enough; running out of it is \<open>Fault\<close>.
\<close>

section \<open>Records\<close>

record 'f rr_struct =
  the_rr :: "'f ldns_rr"
  rr_exists :: bool
  is_added :: bool
  is_removed :: bool

record 'f rrsig_struct =
  sig_rr :: "'f ldns_rr"
  key_locator :: string
  key_flags :: u32

record 'f rrset_struct =
  rrtype :: u16
  rrs :: "'f rr_struct list"
  rrsigs :: "'f rrsig_struct list"
  needs_signing :: bool

definition rrset_create :: "u16 \<Rightarrow> 'f rrset_struct option" where
  "rrset_create t =
    (if t = 0 then None else Some \<lparr>rrtype = t, rrs = [], rrsigs = [], needs_signing = False\<rparr>)"

text \<open>\<open>None\<close> is a status other than \<^verbatim>\<open>LDNS_STATUS_OK\<close>.\<close>

definition util_dnssec_rrs_compare :: "'f ldns \<Rightarrow> 'f ldns_rr \<Rightarrow> 'f ldns_rr \<Rightarrow> int option" where
  "util_dnssec_rrs_compare L rr1 rr2 =
    (case rr_wire_canonical L rr1 of None \<Rightarrow> None
     | Some b1 \<Rightarrow> (case rr_wire_canonical L rr2 of None \<Rightarrow> None
         | Some b2 \<Rightarrow> Some (rr_compare_wire L b1 b2)))"

fun lookup_rr :: "'f ldns \<Rightarrow> 'f rr_struct list \<Rightarrow> 'f ldns_rr \<Rightarrow> nat option" where
  "lookup_rr L [] r = None"
| "lookup_rr L (x # xs) r =
     (case util_dnssec_rrs_compare L (the_rr x) r of
        None \<Rightarrow> None
      | Some cmp \<Rightarrow> if cmp = 0 then Some 0 else map_option Suc (lookup_rr L xs r))"

definition rrset_lookup_rr :: "'f ldns \<Rightarrow> 'f rrset_struct \<Rightarrow> 'f ldns_rr \<Rightarrow> nat option" where
  "rrset_lookup_rr L rrset r = lookup_rr L (rrs rrset) r"

definition rrset_count_rr_is_added :: "'f rrset_struct \<Rightarrow> nat" where
  "rrset_count_rr_is_added rrset = length (filter is_added (rrs rrset))"

definition rrset_add_rr :: "'f rrset_struct \<Rightarrow> 'f ldns_rr \<Rightarrow> 'f rrset_struct exec" where
  "rrset_add_rr rrset r =
    ods_log_assert (rrtype rrset = rr_get_type r)
      (Ok (rrset\<lparr>rrs := rrs rrset @ [\<lparr>the_rr = r, rr_exists = False, is_added = True, is_removed = False\<rparr>],
                 needs_signing := True\<rparr>))"

text \<open>Closing the gap in an array: every element behind position \<open>i\<close> moves one down.\<close>

function shift_down :: "'a list \<Rightarrow> nat \<Rightarrow> 'a list" where
  "shift_down xs i = (if i < length xs - 1 then shift_down (xs[i := xs ! (i + 1)]) (i + 1) else xs)"
  by pat_completeness auto

termination
  by (relation "measure (\<lambda>(xs, i). length xs - i)") auto

declare shift_down.simps [simp del]

definition rrset_del_rr :: "'f rrset_struct \<Rightarrow> nat \<Rightarrow> 'f rrset_struct exec" where
  "rrset_del_rr rrset rrnum =
    ods_log_assert (rrnum < length (rrs rrset))
      (Ok (rrset\<lparr>rrs := take (length (rrs rrset) - 1) (shift_down (rrs rrset) rrnum), needs_signing := True\<rparr>))"

definition rrset_add_rrsig :: "'f rrset_struct \<Rightarrow> 'f ldns_rr \<Rightarrow> string \<Rightarrow> u32 \<Rightarrow> 'f rrset_struct exec" where
  "rrset_add_rrsig rrset r loc fl =
    ods_log_assert (rr_get_type r = LDNS_RR_TYPE_RRSIG)
      (Ok (rrset\<lparr>rrsigs := rrsigs rrset @ [\<lparr>sig_rr = r, key_locator = loc, key_flags = fl\<rparr>]\<rparr>))"

definition rrset_del_rrsig :: "'f rrset_struct \<Rightarrow> nat \<Rightarrow> 'f rrset_struct exec" where
  "rrset_del_rrsig rrset rrnum =
    ods_log_assert (rrnum < length (rrsigs rrset))
      (Ok (rrset\<lparr>rrsigs := take (length (rrsigs rrset) - 1) (shift_down (rrsigs rrset) rrnum)\<rparr>))"

section \<open>Applying changes\<close>

text \<open>The two loops of \<^verbatim>\<open>rrset_diff\<close>; the state is the RRset, the journal and \<^verbatim>\<open>del_sigs\<close>.\<close>

type_synonym 'f diff_state = "'f rrset_struct \<times> 'f ixfr \<times> bool"

fun diff_loop :: "bool \<Rightarrow> bool \<Rightarrow> bool \<Rightarrow> nat \<Rightarrow> nat \<Rightarrow> 'f diff_state \<Rightarrow> 'f diff_state exec" where
  "diff_loop ini is_ixfr more_coming 0 i s = Fault"
| "diff_loop ini is_ixfr more_coming (Suc n) i (rrset, ixfr, del_sigs) =
    (if i < length (rrs rrset) then
       let x = rrs rrset ! i in
       if is_added x then
         exec_bind (if \<not> rr_exists x then ixfr_add_rr ini ixfr (the_rr x) else Ok ixfr) (\<lambda>ixfr.
         let del_sigs = (del_sigs \<or> \<not> rr_exists x);
             x = x\<lparr>rr_exists := True\<rparr>;
             x = (if (rrtype rrset = LDNS_RR_TYPE_DNSKEY \<or> rrtype rrset = LDNS_RR_TYPE_NSEC3PARAMS) \<and> more_coming
                  then x else x\<lparr>is_added := False\<rparr>)
         in diff_loop ini is_ixfr more_coming n ((i + 1) mod 2 ^ 16) (rrset\<lparr>rrs := (rrs rrset)[i := x]\<rparr>, ixfr, del_sigs))
       else if \<not> is_ixfr \<or> is_removed x then
         exec_bind (if rr_exists x then ixfr_del_rr ini ixfr (the_rr x) else Ok ixfr) (\<lambda>ixfr.
         exec_bind (rrset_del_rr (rrset\<lparr>rrs := (rrs rrset)[i := x\<lparr>rr_exists := False\<rparr>]\<rparr>) i) (\<lambda>rrset.
         diff_loop ini is_ixfr more_coming n i (rrset, ixfr, True)))
       else diff_loop ini is_ixfr more_coming n ((i + 1) mod 2 ^ 16) (rrset, ixfr, del_sigs)
     else Ok (rrset, ixfr, del_sigs))"

fun del_sigs_loop :: "bool \<Rightarrow> nat \<Rightarrow> nat \<Rightarrow> 'f rrset_struct \<times> 'f ixfr \<Rightarrow> ('f rrset_struct \<times> 'f ixfr) exec" where
  "del_sigs_loop ini 0 i s = Fault"
| "del_sigs_loop ini (Suc n) i (rrset, ixfr) =
    (if i < length (rrsigs rrset) then
       exec_bind (ixfr_del_rr ini ixfr (sig_rr (rrsigs rrset ! i))) (\<lambda>ixfr.
       exec_bind (rrset_del_rrsig rrset i) (\<lambda>rrset.
       del_sigs_loop ini n i (rrset, ixfr)))
     else Ok (rrset, ixfr))"

definition rrset_diff ::
  "bool \<Rightarrow> 'f rrset_struct \<Rightarrow> 'f ixfr \<Rightarrow> bool \<Rightarrow> bool \<Rightarrow> ('f rrset_struct \<times> 'f ixfr) exec" where
  "rrset_diff ini rrset ixfr is_ixfr more_coming =
    exec_bind (diff_loop ini is_ixfr more_coming (length (rrs rrset) + 1) 0 (rrset, ixfr, False))
      (\<lambda>(rrset, ixfr, del_sigs).
        if del_sigs then del_sigs_loop ini (length (rrsigs rrset) + 1) 0 (rrset, ixfr) else Ok (rrset, ixfr))"

section \<open>Loops that delete while they walk\<close>

lemma shift_down_length [simp]: "length (shift_down xs i) = length xs"
  by (induction xs i rule: shift_down.induct) (subst shift_down.simps, simp)

lemma take_shift_down:
  "i < length xs \<Longrightarrow> take (length xs - 1) (shift_down xs i) = take i xs @ drop (i + 1) xs"
proof (induction xs i rule: shift_down.induct)
  case (1 xs i)
  show ?case
  proof (cases "i < length xs - 1")
    case True
    then have "take (length xs - 1) (shift_down xs i) = take (i + 1) (xs[i := xs ! (i + 1)]) @ drop (i + 2) xs"
      using "1.IH" by (subst shift_down.simps) simp
    also have "\<dots> = take i xs @ [xs ! (i + 1)] @ drop (i + 2) xs"
      using True by (simp add: take_Suc_conv_app_nth)
    also have "\<dots> = take i xs @ drop (i + 1) xs"
      using True Cons_nth_drop_Suc [of "i + 1" xs] by simp
    finally show ?thesis .
  next
    case False
    then have "i = length xs - 1" using 1 by simp
    then show ?thesis using 1 by (subst shift_down.simps) simp
  qed
qed

text \<open>
  A loop visits the elements of an array in order, changes or deletes each, and changes the
  rest of the state on the way.  If the index does not wrap around, the result is the array of
  the changed elements that are kept, and the rest as changed by the elements in turn.
\<close>

locale sweep =
  fixes wrap :: nat
    and items :: "'s \<Rightarrow> 'x list" and others :: "'s \<Rightarrow> 'r"
    and loop :: "nat \<Rightarrow> nat \<Rightarrow> 's \<Rightarrow> 's exec"
    and keeps :: "'x \<Rightarrow> bool" and change :: "'x \<Rightarrow> 'x" and effect :: "'x \<Rightarrow> 'r \<Rightarrow> 'r"
    and good :: "'r \<Rightarrow> bool"
  assumes stop: "\<not> i < length (items s) \<Longrightarrow> loop (Suc n) i s = Ok s"
    and keep: "i < length (items s) \<Longrightarrow> good (others s) \<Longrightarrow> keeps (items s ! i) \<Longrightarrow>
      \<exists>s'. loop (Suc n) i s = loop n ((i + 1) mod wrap) s' \<and>
        items s' = (items s)[i := change (items s ! i)] \<and> others s' = effect (items s ! i) (others s)"
    and delete: "i < length (items s) \<Longrightarrow> good (others s) \<Longrightarrow> \<not> keeps (items s ! i) \<Longrightarrow>
      \<exists>s'. loop (Suc n) i s = loop n i s' \<and>
        items s' = take i (items s) @ drop (i + 1) (items s) \<and> others s' = effect (items s ! i) (others s)"
    and good: "good r \<Longrightarrow> good (effect x r)"
begin

lemma good_fold: "good r \<Longrightarrow> good (fold effect xs r)"
  by (induction xs arbitrary: r) (simp_all add: good)

lemma loop_from:
  assumes "items s = xs @ ys" "length xs + length ys < wrap" "length ys < n" "good (others s)"
  shows "\<exists>s'. loop n (length xs) s = Ok s' \<and> items s' = xs @ map change (filter keeps ys) \<and>
    others s' = fold effect ys (others s)"
  using assms
proof (induction ys arbitrary: xs n s)
  case Nil
  then obtain m where "n = Suc m" by (cases n) auto
  then show ?case using stop [of "length xs" s m] Nil by simp
next
  case (Cons y ys)
  then obtain m where n: "n = Suc m" by (cases n) auto
  have y: "length xs < length (items s)" "items s ! length xs = y" using Cons.prems(1) by simp_all
  show ?case
  proof (cases "keeps y")
    case True
    then obtain s1 where s1: "loop n (length xs) s = loop m ((length xs + 1) mod wrap) s1"
      "items s1 = (items s)[length xs := change y]" "others s1 = effect y (others s)"
      using keep [OF y(1) Cons.prems(4), of m] y(2) n by auto
    have "items s1 = (xs @ [change y]) @ ys" using s1(2) Cons.prems(1) by simp
    from Cons.IH [OF this, of m] obtain s' where
      "loop m (length (xs @ [change y])) s1 = Ok s'" "items s' = (xs @ [change y]) @ map change (filter keeps ys)"
      "others s' = fold effect ys (others s1)"
      using Cons.prems(2-4) n s1(3) good by auto
    then show ?thesis using s1 True Cons.prems(2) by auto
  next
    case False
    then obtain s1 where s1: "loop n (length xs) s = loop m (length xs) s1"
      "items s1 = take (length xs) (items s) @ drop (length xs + 1) (items s)" "others s1 = effect y (others s)"
      using delete [OF y(1) Cons.prems(4), of m] y(2) n by auto
    have "items s1 = xs @ ys" using s1(2) Cons.prems(1) by simp
    from Cons.IH [OF this, of m] show ?thesis
      using Cons.prems(2-4) n s1 False good by auto
  qed
qed

lemma loop_result:
  assumes "length (items s) < wrap" "length (items s) < n" "good (others s)"
  shows "\<exists>s'. loop n 0 s = Ok s' \<and> items s' = map change (filter keeps (items s)) \<and>
    others s' = fold effect (items s) (others s)"
  using loop_from [of s "[]" "items s" n] assms by simp

end

section \<open>What the changes amount to\<close>

text \<open>A record that becomes part of the zone, and one that the RRset loses.\<close>

definition rr_new :: "'f rr_struct \<Rightarrow> bool" where
  "rr_new x \<longleftrightarrow> is_added x \<and> \<not> rr_exists x"

definition rr_gone :: "bool \<Rightarrow> 'f rr_struct \<Rightarrow> bool" where
  "rr_gone is_ixfr x \<longleftrightarrow> \<not> is_added x \<and> (\<not> is_ixfr \<or> is_removed x)"

definition rr_after :: "u16 \<Rightarrow> bool \<Rightarrow> 'f rr_struct \<Rightarrow> 'f rr_struct" where
  "rr_after t more_coming x =
    (if \<not> is_added x then x
     else if (t = LDNS_RR_TYPE_DNSKEY \<or> t = LDNS_RR_TYPE_NSEC3PARAMS) \<and> more_coming then x\<lparr>rr_exists := True\<rparr>
     else x\<lparr>rr_exists := True, is_added := False\<rparr>)"

definition rr_journal :: "bool \<Rightarrow> 'f rr_struct \<Rightarrow> 'f part \<Rightarrow> 'f part" where
  "rr_journal is_ixfr x =
    (if rr_new x then plus_rr (the_rr x)
     else if rr_gone is_ixfr x \<and> rr_exists x then min_rr (the_rr x) else id)"

definition rr_effect :: "bool \<Rightarrow> bool \<Rightarrow> 'f rr_struct \<Rightarrow> 'f diff_state \<Rightarrow> 'f diff_state" where
  "rr_effect ini is_ixfr x = (\<lambda>(rrset, ixfr, del_sigs).
    (rrset\<lparr>needs_signing := needs_signing rrset \<or> rr_gone is_ixfr x\<rparr>, journal ini (rr_journal is_ixfr x) ixfr,
     del_sigs \<or> rr_new x \<or> rr_gone is_ixfr x))"

lemmas rr_diff_defs = rr_new_def rr_gone_def rr_after_def rr_journal_def rr_effect_def

text \<open>One round of each loop.\<close>

lemma diff_loop_keep:
  assumes "i < length (rrs rrset)" "x = rrs rrset ! i" "ixfr_ok ini ixfr" "\<not> rr_gone is_ixfr x"
  shows "diff_loop ini is_ixfr more_coming (Suc n) i (rrset, ixfr, del_sigs) =
    diff_loop ini is_ixfr more_coming n ((i + 1) mod 2 ^ 16)
      (rrset\<lparr>rrs := (rrs rrset)[i := rr_after (rrtype rrset) more_coming x]\<rparr>,
       journal ini (rr_journal is_ixfr x) ixfr, del_sigs \<or> rr_new x)"
  using assms by (auto simp: rr_diff_defs ixfr_add_rr_ok Let_def)

lemma rrset_del_rr_eq:
  "i < length (rrs rrset) \<Longrightarrow> rrset_del_rr rrset i =
     Ok (rrset\<lparr>rrs := take i (rrs rrset) @ drop (i + 1) (rrs rrset), needs_signing := True\<rparr>)"
  unfolding rrset_del_rr_def by (subst take_shift_down) simp_all

lemma rrset_del_rrsig_eq:
  "i < length (rrsigs rrset) \<Longrightarrow> rrset_del_rrsig rrset i =
     Ok (rrset\<lparr>rrsigs := take i (rrsigs rrset) @ drop (i + 1) (rrsigs rrset)\<rparr>)"
  unfolding rrset_del_rrsig_def by (subst take_shift_down) simp_all

lemma diff_loop_gone:
  assumes "i < length (rrs rrset)" "x = rrs rrset ! i" "ixfr_ok ini ixfr" "rr_gone is_ixfr x"
  shows "diff_loop ini is_ixfr more_coming (Suc n) i (rrset, ixfr, del_sigs) =
    diff_loop ini is_ixfr more_coming n i
      (rrset\<lparr>rrs := take i (rrs rrset) @ drop (i + 1) (rrs rrset), needs_signing := True\<rparr>,
       journal ini (rr_journal is_ixfr x) ixfr, True)"
  using assms by (auto simp: rr_diff_defs ixfr_del_rr_ok Let_def rrset_del_rr_eq)

interpretation dl: sweep "2 ^ 16" "\<lambda>(rrset, ixfr, del_sigs). rrs rrset"
  "\<lambda>(rrset, ixfr, del_sigs). (rrset\<lparr>rrs := []\<rparr>, ixfr, del_sigs)" "diff_loop ini is_ixfr more_coming"
  "\<lambda>x. \<not> rr_gone is_ixfr x" "rr_after t more_coming" "rr_effect ini is_ixfr"
  "\<lambda>(rrset, ixfr, del_sigs). ixfr_ok ini ixfr \<and> rrtype rrset = t" for ini is_ixfr more_coming t
proof (unfold_locales, goal_cases)
  case (2 i s n)
  obtain rrset ixfr del_sigs where s: "s = (rrset, ixfr, del_sigs)" by (cases s)
  show ?case
    using 2 unfolding s by (intro exI conjI, subst diff_loop_keep) (auto simp: rr_effect_def)
next
  case (3 i s n)
  obtain rrset ixfr del_sigs where s: "s = (rrset, ixfr, del_sigs)" by (cases s)
  show ?case
    using 3 unfolding s by (intro exI conjI, subst diff_loop_gone) (auto simp: rr_effect_def)
qed (auto simp: rr_effect_def)

interpretation ds: sweep wrap "\<lambda>(rrset, ixfr). rrsigs rrset"
  "\<lambda>(rrset, ixfr). (rrset\<lparr>rrsigs := []\<rparr>, ixfr)" "del_sigs_loop ini"
  "\<lambda>x. False" "\<lambda>x. x" "\<lambda>x (rrset, ixfr). (rrset, journal ini (min_rr (sig_rr x)) ixfr)"
  "\<lambda>(rrset, ixfr). ixfr_ok ini ixfr" for wrap ini
proof (unfold_locales, goal_cases)
  case (3 i s n)
  obtain rrset ixfr where s: "s = (rrset, ixfr)" by (cases s)
  show ?case using 3 unfolding s
    by (intro exI [of _ "(_, _)"]) (auto simp: ixfr_del_rr_ok rrset_del_rrsig_eq intro!: exI conjI)
qed auto

declare diff_loop.simps [simp del] del_sigs_loop.simps [simp del]

text \<open>The RRset and the current part of the journal after \<^verbatim>\<open>rrset_diff\<close>.\<close>

definition rrset_changed :: "bool \<Rightarrow> 'f rrset_struct \<Rightarrow> bool" where
  "rrset_changed is_ixfr rrset \<longleftrightarrow> (\<exists>x \<in> set (rrs rrset). rr_new x \<or> rr_gone is_ixfr x)"

definition rrset_after :: "bool \<Rightarrow> bool \<Rightarrow> 'f rrset_struct \<Rightarrow> 'f rrset_struct" where
  "rrset_after is_ixfr more_coming rrset =
    rrset\<lparr>rrs := map (rr_after (rrtype rrset) more_coming) (filter (\<lambda>x. \<not> rr_gone is_ixfr x) (rrs rrset)),
      needs_signing := needs_signing rrset \<or> (\<exists>x \<in> set (rrs rrset). rr_gone is_ixfr x),
      rrsigs := if rrset_changed is_ixfr rrset then [] else rrsigs rrset\<rparr>"

definition rrset_journal :: "bool \<Rightarrow> 'f rrset_struct \<Rightarrow> 'f part \<Rightarrow> 'f part" where
  "rrset_journal is_ixfr rrset p =
    fold (\<lambda>x. min_rr (sig_rr x)) (if rrset_changed is_ixfr rrset then rrsigs rrset else [])
      (fold (rr_journal is_ixfr) (rrs rrset) p)"

lemma journal_fold:
  "ixfr_ok ini ixfr \<Longrightarrow> fold (\<lambda>x. journal ini (f x)) xs ixfr = journal ini (fold f xs) ixfr"
  by (induction xs arbitrary: ixfr) (simp_all add: journal_twice comp_def del: fold_simps(2) fold.simps(2) add: fold_Cons)

lemma fold_rr_effect:
  "fold (rr_effect ini is_ixfr) xs (rrset, ixfr, del_sigs) =
    (rrset\<lparr>needs_signing := needs_signing rrset \<or> (\<exists>x \<in> set xs. rr_gone is_ixfr x)\<rparr>,
     fold (\<lambda>x. journal ini (rr_journal is_ixfr x)) xs ixfr,
     del_sigs \<or> (\<exists>x \<in> set xs. rr_new x \<or> rr_gone is_ixfr x))"
  by (induction xs arbitrary: rrset ixfr del_sigs) (auto simp: rr_effect_def)

lemma fold_sig_effect:
  "fold (\<lambda>x (rrset, ixfr). (rrset, journal ini (f x) ixfr)) xs (rrset, ixfr) =
    (rrset, fold (\<lambda>x. journal ini (f x)) xs ixfr)"
  by (induction xs arbitrary: ixfr) auto

lemma del_sigs_loop_eval:
  assumes "ixfr_ok ini ixfr"
  shows "del_sigs_loop ini (length (rrsigs rrset) + 1) 0 (rrset, ixfr) =
    Ok (rrset\<lparr>rrsigs := []\<rparr>, journal ini (fold (\<lambda>x. min_rr (sig_rr x)) (rrsigs rrset)) ixfr)"
proof -
  obtain rrset' ixfr' where r: "del_sigs_loop ini (length (rrsigs rrset) + 1) 0 (rrset, ixfr) = Ok (rrset', ixfr')"
    and r': "rrsigs rrset' = []" "rrset'\<lparr>rrsigs := []\<rparr> = rrset\<lparr>rrsigs := []\<rparr>"
      "ixfr' = fold (\<lambda>x. journal ini (min_rr (sig_rr x))) (rrsigs rrset) ixfr"
    using ds.loop_result [of "(rrset, ixfr)" "length (rrsigs rrset) + 1" "length (rrsigs rrset) + 1" ini] assms
    by (auto simp: fold_sig_effect)
  have "rrset' = (rrset'\<lparr>rrsigs := []\<rparr>)\<lparr>rrsigs := rrsigs rrset'\<rparr>" by simp
  also have "\<dots> = rrset\<lparr>rrsigs := []\<rparr>" using r'(1,2) by simp
  finally have "rrset' = rrset\<lparr>rrsigs := []\<rparr>" .
  then show ?thesis using r r'(3) journal_fold [OF assms] by simp
qed

lemma rrset_diff_eval:
  assumes "ixfr_ok ini ixfr" "length (rrs rrset) < 2 ^ 16"
  shows "rrset_diff ini rrset ixfr is_ixfr more_coming =
    Ok (rrset_after is_ixfr more_coming rrset, journal ini (rrset_journal is_ixfr rrset) ixfr)"
proof -
  obtain rrset' ixfr' del_sigs where
    l: "diff_loop ini is_ixfr more_coming (length (rrs rrset) + 1) 0 (rrset, ixfr, False) = Ok (rrset', ixfr', del_sigs)"
    and l': "rrs rrset' = map (rr_after (rrtype rrset) more_coming) (filter (\<lambda>x. \<not> rr_gone is_ixfr x) (rrs rrset))"
      "rrset'\<lparr>rrs := []\<rparr> = rrset\<lparr>rrs := [], needs_signing := needs_signing rrset \<or> (\<exists>x \<in> set (rrs rrset). rr_gone is_ixfr x)\<rparr>"
      "ixfr' = fold (\<lambda>x. journal ini (rr_journal is_ixfr x)) (rrs rrset) ixfr"
      "del_sigs = rrset_changed is_ixfr rrset"
    using dl.loop_result [of "(rrset, ixfr, False)" "length (rrs rrset) + 1" ini "rrtype rrset" is_ixfr more_coming] assms
    by (auto simp: fold_rr_effect rrset_changed_def)
  have rs: "rrset' = (rrset'\<lparr>rrs := []\<rparr>)\<lparr>rrs := rrs rrset'\<rparr>" by simp
  have sg: "rrsigs rrset' = rrsigs rrset" using arg_cong [OF l'(2), of rrsigs] by simp
  have ix: "ixfr' = journal ini (fold (rr_journal is_ixfr) (rrs rrset)) ixfr" using l'(3) journal_fold [OF assms(1)] by simp
  have j: "rrset_journal is_ixfr rrset = (if rrset_changed is_ixfr rrset
      then fold (\<lambda>x. min_rr (sig_rr x)) (rrsigs rrset) \<circ> fold (rr_journal is_ixfr) (rrs rrset)
      else fold (rr_journal is_ixfr) (rrs rrset))"
    by (auto simp: rrset_journal_def)
  have "rrset_diff ini rrset ixfr is_ixfr more_coming =
      Ok (if rrset_changed is_ixfr rrset then rrset'\<lparr>rrsigs := []\<rparr> else rrset', journal ini (rrset_journal is_ixfr rrset) ixfr)"
    using l l'(4) del_sigs_loop_eval [of ini ixfr' rrset'] assms(1)
    by (auto simp: rrset_diff_def ix sg j journal_twice)
  moreover have "(if rrset_changed is_ixfr rrset then rrset'\<lparr>rrsigs := []\<rparr> else rrset') =
      rrset_after is_ixfr more_coming rrset"
    by (subst (1 2) rs) (simp add: l'(1,2) rrset_after_def)
  ultimately show ?thesis by simp
qed

section \<open>The journal is the difference\<close>

text \<open>What an RRset contributes to the published zone: its records and its signatures.\<close>

definition published_rrs :: "'f rrset_struct \<Rightarrow> 'f ldns_rr multiset" where
  "published_rrs rrset = mset (map the_rr (filter rr_exists (rrs rrset))) + mset (map sig_rr (rrsigs rrset))"

lemma fold_min_rr: "min_rrs (fold (\<lambda>x. min_rr (f x)) xs p) = min_rrs p @ map f xs"
  "plus_rrs (fold (\<lambda>x. min_rr (f x)) xs p) = plus_rrs p"
  by (induction xs arbitrary: p) (auto simp: min_rr_def)

lemma fold_rr_journal:
  "plus_rrs (fold (rr_journal is_ixfr) xs p) = plus_rrs p @ map the_rr (filter rr_new xs)"
  "min_rrs (fold (rr_journal is_ixfr) xs p) =
     min_rrs p @ map the_rr (filter (\<lambda>x. rr_gone is_ixfr x \<and> rr_exists x) xs)"
  by (induction xs arbitrary: p) (auto simp: rr_journal_def plus_rr_def min_rr_def rr_new_def rr_gone_def)

lemma journal_records:
  "plus_rrs (rrset_journal is_ixfr rrset p) = plus_rrs p @ map the_rr (filter rr_new (rrs rrset))"
  "min_rrs (rrset_journal is_ixfr rrset p) =
     min_rrs p @ map the_rr (filter (\<lambda>x. rr_gone is_ixfr x \<and> rr_exists x) (rrs rrset)) @
     (if rrset_changed is_ixfr rrset then map sig_rr (rrsigs rrset) else [])"
  by (simp_all add: rrset_journal_def fold_min_rr fold_rr_journal)

lemma rr_after_simps [simp]:
  "the_rr (rr_after t m x) = the_rr x" "rr_exists (rr_after t m x) = (is_added x \<or> rr_exists x)"
  by (auto simp: rr_after_def)

lemma mset_diff_records:
  "mset (map the_rr (filter rr_exists (map (rr_after t m) (filter (\<lambda>x. \<not> rr_gone is_ixfr x) xs)))) +
   mset (map the_rr (filter (\<lambda>x. rr_gone is_ixfr x \<and> rr_exists x) xs)) =
   mset (map the_rr (filter rr_exists xs)) + mset (map the_rr (filter rr_new xs))"
  by (induction xs) (auto simp: rr_new_def rr_gone_def)

text \<open>
  C8. Applying the changes to an RRset of at most 65535 records returns, and the journal gets
  exactly the difference it made: what the RRset publishes afterwards together with what was
  recorded as removed is what it published before together with what was recorded as added.  A
  full update (\<^verbatim>\<open>is_ixfr\<close> 0) leaves exactly the records that were marked as added; if anything
  changed, no signature is left.
\<close>

theorem rrset_diff_journal:
  assumes "length ixfr = IXFR_MAX_PARTS" "ixfr ! 0 = Some p" "length (rrs rrset) < 2 ^ 16"
  shows "\<exists>rrset' p'. rrset_diff True rrset ixfr is_ixfr more_coming = Ok (rrset', ixfr[0 := Some p']) \<and>
    (\<exists>mins plus. min_rrs p' = min_rrs p @ mins \<and> plus_rrs p' = plus_rrs p @ plus \<and>
       published_rrs rrset' + mset mins = published_rrs rrset + mset plus) \<and>
    (\<not> is_ixfr \<longrightarrow> map the_rr (rrs rrset') = map the_rr (filter is_added (rrs rrset)) \<and>
       list_all rr_exists (rrs rrset')) \<and>
    (published_rrs rrset' \<noteq> published_rrs rrset \<longrightarrow> rrsigs rrset' = [])"
proof -
  have ok: "ixfr_ok True ixfr" using assms by (simp add: ixfr_ok_def)
  let ?r = "rrset_after is_ixfr more_coming rrset" and ?p = "rrset_journal is_ixfr rrset p"
  let ?mins = "map the_rr (filter (\<lambda>x. rr_gone is_ixfr x \<and> rr_exists x) (rrs rrset)) @
     (if rrset_changed is_ixfr rrset then map sig_rr (rrsigs rrset) else [])"
  let ?plus = "map the_rr (filter rr_new (rrs rrset))"
  have d: "rrset_diff True rrset ixfr is_ixfr more_coming = Ok (?r, ixfr[0 := Some ?p])"
    using rrset_diff_eval [OF ok assms(3)] assms(2) by (simp add: journal_def)
  have m: "published_rrs ?r + mset ?mins = published_rrs rrset + mset ?plus"
    using mset_diff_records [of "rrtype rrset" more_coming is_ixfr "rrs rrset"]
    by (simp add: published_rrs_def rrset_after_def ac_simps)
  have full: "map the_rr (rrs ?r) = map the_rr (filter is_added (rrs rrset)) \<and> list_all rr_exists (rrs ?r)" if "\<not> is_ixfr"
    using that by (simp add: rrset_after_def rr_gone_def list_all_iff comp_def)
  have "rrset_changed is_ixfr rrset" if "published_rrs ?r \<noteq> published_rrs rrset"
  proof (rule ccontr)
    assume "\<not> ?thesis"
    then have "?mins = []" "?plus = []" by (auto simp: rrset_changed_def filter_empty_conv)
    with m that show False by simp
  qed
  then have sigs: "rrsigs ?r = []" if "published_rrs ?r \<noteq> published_rrs rrset"
    using that by (simp add: rrset_after_def)
  show ?thesis using d m full sigs journal_records [of is_ixfr rrset p] by blast
qed

definition sample_rrset :: "nat list rrset_struct" where
  "sample_rrset = \<lparr>rrtype = LDNS_RR_TYPE_A,
     rrs = [\<lparr>the_rr = sample_rr [1] LDNS_RR_TYPE_A 1, rr_exists = True, is_added = False, is_removed = False\<rparr>,
            \<lparr>the_rr = sample_rr [1] LDNS_RR_TYPE_A 2, rr_exists = False, is_added = True, is_removed = False\<rparr>],
     rrsigs = [], needs_signing = True\<rparr>"

theorem rrset_diff_journal_witness:
  "\<exists>rrset' p'. rrset_diff True sample_rrset [Some part_create, None, None] False False = Ok (rrset', [Some p', None, None]) \<and>
    map the_rr (rrs rrset') = [sample_rr [1] LDNS_RR_TYPE_A 2]"
  using rrset_diff_journal [of "[Some part_create, None, None]" part_create sample_rrset False False]
  by (auto simp: sample_rrset_def IXFR_MAX_PARTS_def)

end
