(* ===== verification/Sign.thy ===== *)
theory Sign
  imports Rrset
begin

text \<open>
  Signing an RRset, \<^verbatim>\<open>rrset_sign\<close> of \<^verbatim>\<open>signer/src/signer/rrset.c\<close>: signatures that are still good
  are kept, the others dropped, and the keys of the configuration that are not covered sign.
  Where the RRset belongs to a domain, \<open>dstatus\<close> and \<open>delegpt\<close> are what \<^verbatim>\<open>domain_is_occluded\<close> and
  \<^verbatim>\<open>domain_is_delegpt\<close> return for it.
\<close>

section \<open>Recycling signatures\<close>

definition refresh_window :: "('f, 'k) signconf \<Rightarrow> time_t \<Rightarrow> u32" where
  "refresh_window sc signtime =
    (case sig_refresh_interval sc of None \<Rightarrow> 0
     | Some d \<Rightarrow> word_of_int (signtime + duration2time (Some d)))"

text \<open>The rules 0 to 5 of \<^verbatim>\<open>rrset_recycle\<close>, for an RRset of type \<open>t\<close>.\<close>

definition drop_sig ::
  "'f ldns \<Rightarrow> ('f, 'k) signconf \<Rightarrow> time_t \<Rightarrow> u16 \<Rightarrow> u16 \<Rightarrow> u16 \<Rightarrow> bool \<Rightarrow> 'f rrsig_struct \<Rightarrow> bool" where
  "drop_sig L sc signtime dstatus delegpt t changed s =
    (let refresh = refresh_window sc signtime in
     if dstatus \<noteq> LDNS_RR_TYPE_SOA \<or> delegpt \<noteq> LDNS_RR_TYPE_SOA \<and> t \<noteq> LDNS_RR_TYPE_DS then True
     else if changed \<or> refresh \<le> word_of_int signtime then True
     else if rrsig_expiration L (sig_rr s) < refresh then True
     else if rrsig_inception L (sig_rr s) > word_of_int signtime then True
     else case keylist_lookup_by_locator (keys sc) (Some (key_locator s)) of
            None \<Rightarrow> True
          | Some j \<Rightarrow> flags (the (keys sc) ! j) \<noteq> key_flags s)"

type_synonym 'f recycle_state = "'f rrset_struct \<times> 'f ixfr \<times> u32"

fun recycle_loop ::
  "'f ldns \<Rightarrow> bool \<Rightarrow> ('f, 'k) signconf \<Rightarrow> time_t \<Rightarrow> u16 \<Rightarrow> u16 \<Rightarrow> nat \<Rightarrow> nat \<Rightarrow> 'f recycle_state \<Rightarrow> 'f recycle_state exec" where
  "recycle_loop L ini sc signtime dstatus delegpt 0 i st = Fault"
| "recycle_loop L ini sc signtime dstatus delegpt (Suc n) i (rrset, ixfr, reusedsigs) =
    (if i < length (rrsigs rrset) then
       let s = rrsigs rrset ! i in
       if drop_sig L sc signtime dstatus delegpt (rrtype rrset) (needs_signing rrset) s then
         exec_bind (ixfr_del_rr ini ixfr (sig_rr s)) (\<lambda>ixfr.
         exec_bind (rrset_del_rrsig rrset i) (\<lambda>rrset.
         recycle_loop L ini sc signtime dstatus delegpt n i (rrset, ixfr, reusedsigs)))
       else recycle_loop L ini sc signtime dstatus delegpt n ((i + 1) mod 2 ^ 64) (rrset, ixfr, reusedsigs + 1)
     else Ok (rrset, ixfr, reusedsigs))"

definition rrset_recycle ::
  "'f ldns \<Rightarrow> bool \<Rightarrow> ('f, 'k) signconf \<Rightarrow> time_t \<Rightarrow> u16 \<Rightarrow> u16 \<Rightarrow> 'f rrset_struct \<Rightarrow> 'f ixfr \<Rightarrow> 'f recycle_state exec" where
  "rrset_recycle L ini sc signtime dstatus delegpt rrset ixfr =
    recycle_loop L ini sc signtime dstatus delegpt (length (rrsigs rrset) + 1) 0 (rrset, ixfr, 0)"

section \<open>Signing\<close>

definition rrset_sigalgo :: "'f ldns \<Rightarrow> 'f rrset_struct \<Rightarrow> u8 \<Rightarrow> bool" where
  "rrset_sigalgo L rrset alg \<longleftrightarrow> list_ex (\<lambda>s. alg = rrsig_algorithm L (sig_rr s)) (rrsigs rrset)"

definition rrset_siglocator :: "'f rrset_struct \<Rightarrow> string \<Rightarrow> bool" where
  "rrset_siglocator rrset loc \<longleftrightarrow> list_ex (\<lambda>s. ods_strcmp (Some loc) (Some (key_locator s)) = 0) (rrsigs rrset)"

text \<open>
  \<^verbatim>\<open>rrset2rrlist\<close> turns the records into canonical form in place and collects those that exist; of
  a CNAME or DNAME, only the first, which is returned without sorting.
\<close>

fun rrlist_loop :: "'f ldns \<Rightarrow> bool \<Rightarrow> 'f rr_struct list \<Rightarrow> 'f rr_struct list \<times> 'f ldns_rr list \<times> bool" where
  "rrlist_loop L singleton [] = ([], [], False)"
| "rrlist_loop L singleton (x # xs) =
    (if \<not> rr_exists x then case rrlist_loop L singleton xs of (ys, l, b) \<Rightarrow> (x # ys, l, b)
     else let r = rr2canonical L (the_rr x); x = x\<lparr>the_rr := r\<rparr>
          in if singleton then (x # xs, [r], True)
             else case rrlist_loop L singleton xs of (ys, l, b) \<Rightarrow> (x # ys, r # l, b))"

definition rrset2rrlist :: "'f ldns \<Rightarrow> 'f rrset_struct \<Rightarrow> 'f rrset_struct \<times> 'f ldns_rr list" where
  "rrset2rrlist L rrset =
    (case rrlist_loop L (rrtype rrset = LDNS_RR_TYPE_CNAME \<or> rrtype rrset = LDNS_RR_TYPE_DNAME) (rrs rrset) of
       (xs, l, returned) \<Rightarrow> (rrset\<lparr>rrs := xs\<rparr>, if returned then l else rr_list_sort L l))"

definition rrset_sigvalid_period ::
  "rand_variant \<Rightarrow> nat \<Rightarrow> ('f, 'k) signconf \<Rightarrow> u16 \<Rightarrow> time_t \<Rightarrow> (time_t \<times> time_t) exec" where
  "rrset_sigvalid_period variant rnd sc t signtime =
    (if t = 0 \<or> signtime = 0 then Ok (0, 0)
     else let jitter = duration2time (sig_jitter sc) in
       exec_bind (if jitter \<noteq> 0 then ods_rand variant rnd (jitter * 2) else Ok 0) (\<lambda>random_jitter.
       let offset = duration2time (sig_inception_offset sc);
           validity = duration2time (if t = LDNS_RR_TYPE_NSEC \<or> t = LDNS_RR_TYPE_NSEC3
             then sig_validity_denial sc else sig_validity_default sc)
       in Ok (signtime - offset, (signtime + validity + random_jitter) - jitter)))"

text \<open>Whether a key signs: its role, and that neither the key nor its algorithm has signed yet.\<close>

definition key_skips :: "'f ldns \<Rightarrow> 'f rrset_struct \<Rightarrow> ('f, 'k) key \<Rightarrow> bool" where
  "key_skips L rrset k \<longleftrightarrow>
    \<not> zsk k \<and> rrtype rrset \<noteq> LDNS_RR_TYPE_DNSKEY \<or>
    \<not> ksk k \<and> rrtype rrset = LDNS_RR_TYPE_DNSKEY \<or>
    rrset_siglocator rrset (locator k) \<or>
    rrtype rrset \<noteq> LDNS_RR_TYPE_DNSKEY \<and> rrset_sigalgo L rrset (algorithm k)"

fun sign_keys ::
  "'f ldns \<Rightarrow> ('h, 'k, 'f) hsm \<Rightarrow> bool \<Rightarrow> 'f \<Rightarrow> 'f ldns_rr list \<Rightarrow> time_t \<Rightarrow> time_t \<Rightarrow> ('f, 'k) key list \<Rightarrow>
   'f rrset_struct \<Rightarrow> 'f ixfr \<Rightarrow> 'h \<Rightarrow> u32 \<Rightarrow>
   (ods_status \<times> ('f, 'k) key list \<times> 'f rrset_struct \<times> 'f ixfr \<times> 'h \<times> u32) exec" where
  "sign_keys L H ini apex rr_list inception expiration [] rrset ixfr h newsigs =
     Ok (ODS_STATUS_OK, [], rrset, ixfr, h, newsigs)"
| "sign_keys L H ini apex rr_list inception expiration (k # ks) rrset ixfr h newsigs =
    (if key_skips L rrset k then
       exec_bind (sign_keys L H ini apex rr_list inception expiration ks rrset ixfr h newsigs) (\<lambda>(st, ks, r).
       Ok (st, k # ks, r))
     else
       exec_bind (lhsm_sign L H h rr_list k apex inception expiration) (\<lambda>(rrsig, k, h).
       case rrsig of
         None \<Rightarrow> Ok (ODS_STATUS_HSM_ERR, k # ks, rrset, ixfr, h, newsigs)
       | Some rrsig \<Rightarrow>
           exec_bind (rrset_add_rrsig rrset rrsig (locator k) (flags k)) (\<lambda>rrset.
           exec_bind (ixfr_add_rr ini ixfr rrsig) (\<lambda>ixfr.
           exec_bind (sign_keys L H ini apex rr_list inception expiration ks rrset ixfr h (newsigs + 1)) (\<lambda>(st, ks, r).
           Ok (st, k # ks, r))))))"

text \<open>
  \<^verbatim>\<open>rrset_sign\<close>, after the domain has been looked at.  An RRset without records fails: the code
  reads its first record.
\<close>

definition sign_here :: "u16 \<Rightarrow> u16 \<Rightarrow> u16 \<Rightarrow> bool" where
  "sign_here dstatus delegpt t \<longleftrightarrow>
     dstatus = LDNS_RR_TYPE_SOA \<and> (delegpt = LDNS_RR_TYPE_SOA \<or> t = LDNS_RR_TYPE_DS)"

definition rrset_sign_as ::
  "'f ldns \<Rightarrow> ('h, 'k, 'f) hsm \<Rightarrow> rand_variant \<Rightarrow> nat \<Rightarrow> bool \<Rightarrow> 'f \<Rightarrow> time_t \<Rightarrow> u16 \<Rightarrow> u16 \<Rightarrow>
   ('f, 'k) signconf \<Rightarrow> 'f rrset_struct \<Rightarrow> 'f ixfr \<Rightarrow> stats \<Rightarrow> 'h \<Rightarrow>
   (ods_status \<times> ('f, 'k) signconf \<times> 'f rrset_struct \<times> 'f ixfr \<times> stats \<times> 'h) exec" where
  "rrset_sign_as L H variant rnd ini apex signtime dstatus delegpt sc rrset ixfr zstats h =
    exec_bind (rrset_recycle L ini sc signtime dstatus delegpt rrset ixfr) (\<lambda>(rrset, ixfr, reusedsigs).
    let rrset = rrset\<lparr>needs_signing := False\<rparr> in
    if rrs rrset = [] then Fault
    else if dstatus \<noteq> LDNS_RR_TYPE_SOA then Ok (ODS_STATUS_OK, sc, rrset, ixfr, zstats, h)
    else if delegpt \<noteq> LDNS_RR_TYPE_SOA \<and> rrtype rrset \<noteq> LDNS_RR_TYPE_DS then Ok (ODS_STATUS_OK, sc, rrset, ixfr, zstats, h)
    else case rrset2rrlist L rrset of (rrset, rr_list) \<Rightarrow>
      if rr_list = [] then Ok (ODS_STATUS_OK, sc, rrset, ixfr, zstats, h)
      else case keys sc of None \<Rightarrow> Fault | Some kl \<Rightarrow>
        exec_bind (rrset_sigvalid_period variant rnd sc (rrtype rrset) signtime) (\<lambda>(inception, expiration).
        exec_bind (sign_keys L H ini apex rr_list inception expiration kl rrset ixfr h 0) (\<lambda>(st, kl, rrset, ixfr, h, newsigs).
        let zstats = (if st \<noteq> ODS_STATUS_OK then zstats
              else zstats\<lparr>sig_soa_count := sig_soa_count zstats + (if rrtype rrset = LDNS_RR_TYPE_SOA then newsigs else 0),
                     sig_count := sig_count zstats + newsigs, sig_reuse := sig_reuse zstats + reusedsigs\<rparr>)
        in Ok (st, sc\<lparr>keys := Some kl\<rparr>, rrset, ixfr, zstats, h))))"

definition rrset_sign ::
  "'f ldns \<Rightarrow> ('h, 'k, 'f) hsm \<Rightarrow> rand_variant \<Rightarrow> nat \<Rightarrow> bool \<Rightarrow> 'f \<Rightarrow> time_t \<Rightarrow> u16 \<Rightarrow> u16 \<Rightarrow>
   ('f, 'k) signconf \<Rightarrow> 'f rrset_struct \<Rightarrow> 'f ixfr \<Rightarrow> stats \<Rightarrow> 'h \<Rightarrow>
   (ods_status \<times> ('f, 'k) signconf \<times> 'f rrset_struct \<times> 'f ixfr \<times> stats \<times> 'h) exec" where
  "rrset_sign L H variant rnd ini apex signtime dstatus delegpt sc rrset ixfr zstats h =
    (if rrtype rrset = LDNS_RR_TYPE_NSEC \<or> rrtype rrset = LDNS_RR_TYPE_NSEC3
     then rrset_sign_as L H variant rnd ini apex signtime LDNS_RR_TYPE_SOA LDNS_RR_TYPE_SOA sc rrset ixfr zstats h
     else rrset_sign_as L H variant rnd ini apex signtime dstatus delegpt sc rrset ixfr zstats h)"

section \<open>Signatures that are kept\<close>

definition recycle_effect :: "bool \<Rightarrow> ('f rrsig_struct \<Rightarrow> bool) \<Rightarrow> 'f rrsig_struct \<Rightarrow> 'f recycle_state \<Rightarrow> 'f recycle_state" where
  "recycle_effect ini D s = (\<lambda>(rrset, ixfr, n).
    if D s then (rrset, journal ini (min_rr (sig_rr s)) ixfr, n) else (rrset, ixfr, n + 1))"

interpretation rl: sweep "2 ^ 64" "\<lambda>(rrset, ixfr, n). rrsigs rrset"
  "\<lambda>(rrset, ixfr, n). (rrset\<lparr>rrsigs := []\<rparr>, ixfr, n)" "recycle_loop L ini sc signtime dstatus delegpt"
  "\<lambda>s. \<not> drop_sig L sc signtime dstatus delegpt t changed s" "\<lambda>s. s"
  "recycle_effect ini (drop_sig L sc signtime dstatus delegpt t changed)"
  "\<lambda>(rrset, ixfr, n). ixfr_ok ini ixfr \<and> rrtype rrset = t \<and> needs_signing rrset = changed"
  for L ini sc signtime dstatus delegpt t changed
proof (unfold_locales, goal_cases)
  case (2 i st n)
  obtain rrset ixfr m where s: "st = (rrset, ixfr, m)" by (cases st)
  show ?case using 2 unfolding s by (intro exI [of _ "(_, _, _)"]) (auto simp: recycle_effect_def Let_def)
next
  case (3 i st n)
  obtain rrset ixfr m where s: "st = (rrset, ixfr, m)" by (cases st)
  show ?case using 3 unfolding s
    by (intro exI [of _ "(_, _, _)"])
      (auto simp: recycle_effect_def Let_def ixfr_del_rr_ok rrset_del_rrsig_eq intro!: exI conjI)
qed (auto simp: recycle_effect_def split: if_splits)

declare recycle_loop.simps [simp del]

lemma fold_recycle_effect:
  "fst (fold (recycle_effect ini D) xs (rrset, ixfr, n)) = rrset"
  "ixfr_ok ini (fst (snd (fold (recycle_effect ini D) xs (rrset, ixfr, n)))) = ixfr_ok ini ixfr"
  by (induction xs arbitrary: ixfr n) (simp_all add: recycle_effect_def)

text \<open>Recycling keeps exactly the signatures that pass the rules.\<close>

lemma rrset_recycle_eval:
  assumes "ixfr_ok ini ixfr" "length (rrsigs rrset) < 2 ^ 64"
  shows "\<exists>ixfr' n. rrset_recycle L ini sc signtime dstatus delegpt rrset ixfr =
    Ok (rrset\<lparr>rrsigs := filter (\<lambda>s. \<not> drop_sig L sc signtime dstatus delegpt (rrtype rrset) (needs_signing rrset) s)
          (rrsigs rrset)\<rparr>, ixfr', n) \<and> ixfr_ok ini ixfr'"
proof -
  let ?D = "drop_sig L sc signtime dstatus delegpt (rrtype rrset) (needs_signing rrset)"
  let ?f = "fold (recycle_effect ini ?D) (rrsigs rrset) (rrset\<lparr>rrsigs := []\<rparr>, ixfr, 0)"
  obtain rrset' ixfr' n where
    r: "recycle_loop L ini sc signtime dstatus delegpt (length (rrsigs rrset) + 1) 0 (rrset, ixfr, 0) = Ok (rrset', ixfr', n)"
    and r': "rrsigs rrset' = filter (\<lambda>s. \<not> ?D s) (rrsigs rrset)" "(rrset'\<lparr>rrsigs := []\<rparr>, ixfr', n) = ?f"
    using rl.loop_result [of "(rrset, ixfr, 0)" "length (rrsigs rrset) + 1" ini "rrtype rrset" "needs_signing rrset"
        L sc signtime dstatus delegpt] assms by (auto simp del: One_nat_def)
  have "rrset'\<lparr>rrsigs := []\<rparr> = rrset\<lparr>rrsigs := []\<rparr>" "ixfr_ok ini ixfr'"
    using fold_recycle_effect [of ini ?D "rrsigs rrset" "rrset\<lparr>rrsigs := []\<rparr>" ixfr 0] assms(1)
    by (simp_all flip: r'(2))
  moreover have "rrset' = (rrset'\<lparr>rrsigs := []\<rparr>)\<lparr>rrsigs := rrsigs rrset'\<rparr>" by simp
  ultimately show ?thesis using r r'(1) by (auto simp: rrset_recycle_def)
qed

section \<open>Signatures that are made\<close>

text \<open>The keys that sign an RRset of type \<open>t\<close>: key signing keys the DNSKEY RRset, zone signing keys the others.\<close>

definition key_role :: "u16 \<Rightarrow> ('f, 'k) key \<Rightarrow> bool" where
  "key_role t k \<longleftrightarrow> (if t = LDNS_RR_TYPE_DNSKEY then ksk k else zsk k)"

text \<open>
  The DNSKEY RRset has a signature by the key itself; another RRset has one by the key or by
  a key of the same algorithm.
\<close>

definition covered :: "'f ldns \<Rightarrow> u16 \<Rightarrow> 'f rrsig_struct list \<Rightarrow> ('f, 'k) key \<Rightarrow> bool" where
  "covered L t sigs k \<longleftrightarrow>
     (\<exists>s \<in> set sigs. locator k = key_locator s \<or> t \<noteq> LDNS_RR_TYPE_DNSKEY \<and> algorithm k = rrsig_algorithm L (sig_rr s))"

definition made_by :: "'f ldns \<Rightarrow> u16 \<Rightarrow> time_t \<Rightarrow> time_t \<Rightarrow> ('f, 'k) key \<Rightarrow> 'f rrsig_struct \<Rightarrow> bool" where
  "made_by L t inception expiration k s \<longleftrightarrow> key_role t k \<and> key_locator s = locator k \<and> key_flags s = flags k \<and>
     signed_by L k inception expiration (sig_rr s)"

lemma key_skips_iff:
  "key_skips L rrset k \<longleftrightarrow> \<not> key_role (rrtype rrset) k \<or> covered L (rrtype rrset) (rrsigs rrset) k"
  by (auto simp: key_skips_def key_role_def covered_def rrset_siglocator_def rrset_sigalgo_def list_ex_iff ods_strcmp_eq
      simp del: ods_strcmp.simps)

lemma covered_mono: "covered L t sigs k \<Longrightarrow> set sigs \<subseteq> set sigs' \<Longrightarrow> covered L t sigs' k"
  by (auto simp: covered_def)

lemma same_key_role: "same_key k k' \<Longrightarrow> key_role t k' = key_role t k"
  by (simp add: same_key_def key_role_def)

lemma sign_keys_result:
  assumes "hsm_contract L H" "list_all key_ok ks" "ixfr_ok ini ixfr"
  shows "\<exists>st ks' new ixfr' h' n'.
    sign_keys L H ini apex rr_list inception expiration ks rrset ixfr h n =
      Ok (st, ks', rrset\<lparr>rrsigs := rrsigs rrset @ new\<rparr>, ixfr', h', n') \<and>
    list_all2 same_key ks ks' \<and> list_all key_ok ks' \<and> ixfr_ok ini ixfr' \<and> st \<in> {ODS_STATUS_OK, ODS_STATUS_HSM_ERR} \<and>
    (\<forall>s \<in> set new. \<exists>k \<in> set ks. made_by L (rrtype rrset) inception expiration k s) \<and>
    (st = ODS_STATUS_OK \<longrightarrow>
       (\<forall>k \<in> set ks. key_role (rrtype rrset) k \<longrightarrow> covered L (rrtype rrset) (rrsigs rrset @ new) k))"
  using assms(2,3)
proof (induction ks arbitrary: rrset ixfr h n)
  case (Cons k ks)
  let ?t = "rrtype rrset"
  have kss: "list_all key_ok ks" "key_ok k" using Cons.prems(1) by simp_all
  show ?case
  proof (cases "key_skips L rrset k")
    case True
    then have k: "key_role ?t k \<longrightarrow> covered L ?t (rrsigs rrset @ new) k" for new
      using covered_mono [of L ?t "rrsigs rrset" k "rrsigs rrset @ new"] by (auto simp: key_skips_iff)
    obtain st ks' new ixfr' h' n' where r:
      "sign_keys L H ini apex rr_list inception expiration ks rrset ixfr h n =
        Ok (st, ks', rrset\<lparr>rrsigs := rrsigs rrset @ new\<rparr>, ixfr', h', n')"
      "list_all2 same_key ks ks'" "list_all key_ok ks'" "ixfr_ok ini ixfr'" "st \<in> {ODS_STATUS_OK, ODS_STATUS_HSM_ERR}"
      "\<forall>s \<in> set new. \<exists>k \<in> set ks. made_by L ?t inception expiration k s"
      "st = ODS_STATUS_OK \<longrightarrow> (\<forall>k \<in> set ks. key_role ?t k \<longrightarrow> covered L ?t (rrsigs rrset @ new) k)"
      using Cons.IH [OF kss(1) Cons.prems(2), of rrset h n] by (elim exE conjE) (rule that; assumption)
    have "sign_keys L H ini apex rr_list inception expiration (k # ks) rrset ixfr h n =
        Ok (st, k # ks', rrset\<lparr>rrsigs := rrsigs rrset @ new\<rparr>, ixfr', h', n')"
      using True r(1) by simp
    moreover have "list_all2 same_key (k # ks) (k # ks')" using r(2) by (simp add: same_key_def)
    ultimately show ?thesis using r(3-) k [of new] kss(2)
      by (intro exI [of _ st] exI [of _ "k # ks'"] exI [of _ new] exI [of _ ixfr'] exI [of _ h'] exI [of _ n']) simp
  next
    case False
    then have role: "key_role ?t k" by (simp add: key_skips_iff)
    obtain sig k' h1 where s: "lhsm_sign L H h rr_list k apex inception expiration = Ok (sig, k', h1)"
      and k': "same_key k k'" "key_ok k'" "\<And>x. sig = Some x \<Longrightarrow> signed_by L k inception expiration x"
      using lhsm_sign_result [OF assms(1) kss(2)] by blast
    show ?thesis
    proof (cases sig)
      case None
      have "list_all2 same_key ks ks" by (simp add: list_all2_refl same_key_def)
      then show ?thesis using None s k' kss Cons.prems(2) False by (auto intro!: exI [of _ "[]"])
    next
      case (Some x)
      let ?s = "\<lparr>sig_rr = x, key_locator = locator k, key_flags = flags k\<rparr>"
      let ?r = "rrset\<lparr>rrsigs := rrsigs rrset @ [?s]\<rparr>" and ?i = "journal ini (plus_rr x) ixfr"
      have kk: "locator k' = locator k" "flags k' = flags k" using k'(1) by (simp_all add: same_key_def)
      have x: "signed_by L k inception expiration x" using k'(3) Some by simp
      have ms: "made_by L ?t inception expiration k ?s" using role x by (simp add: made_by_def)
      have i: "ixfr_ok ini ?i" using Cons.prems(2) by simp
      obtain st ks' new ixfr' h' n' where r:
        "sign_keys L H ini apex rr_list inception expiration ks ?r ?i h1 (n + 1) =
          Ok (st, ks', ?r\<lparr>rrsigs := rrsigs ?r @ new\<rparr>, ixfr', h', n')"
        "list_all2 same_key ks ks'" "list_all key_ok ks'" "ixfr_ok ini ixfr'" "st \<in> {ODS_STATUS_OK, ODS_STATUS_HSM_ERR}"
        "\<forall>s \<in> set new. \<exists>k \<in> set ks. made_by L ?t inception expiration k s"
        "st = ODS_STATUS_OK \<longrightarrow> (\<forall>k \<in> set ks. key_role ?t k \<longrightarrow> covered L ?t (rrsigs ?r @ new) k)"
        using Cons.IH [OF kss(1) i, of ?r h1 "n + 1"] unfolding rrset_struct.select_convs rrset_struct.update_convs
        by (elim exE conjE) (rule that; simp)
      have "sign_keys L H ini apex rr_list inception expiration (k # ks) rrset ixfr h n =
          Ok (st, k' # ks', rrset\<lparr>rrsigs := rrsigs rrset @ (?s # new)\<rparr>, ixfr', h', n')"
        using False s Some r(1) kk x ixfr_add_rr_ok [OF Cons.prems(2)]
        by (simp add: rrset_add_rrsig_def signed_by_def)
      moreover have "covered L ?t (rrsigs rrset @ ?s # new) k" by (simp add: covered_def)
      ultimately show ?thesis using r(2-) k'(1,2) ms
        by (intro exI [of _ st] exI [of _ "k' # ks'"] exI [of _ "?s # new"] exI [of _ ixfr'] exI [of _ h'] exI [of _ n']) auto
    qed
  qed
qed simp

section \<open>The signed RRset\<close>

lemma rrset2rrlist_eq:
  "\<exists>xs. rrset2rrlist L rrset = (rrset\<lparr>rrs := xs\<rparr>, snd (rrset2rrlist L rrset)) \<and> length xs = length (rrs rrset)"
proof -
  have "length (fst (rrlist_loop L b xs)) = length xs" for b and xs :: "'a rr_struct list"
    by (induction xs) (auto simp: Let_def split: prod.splits)
  then show ?thesis by (auto simp: rrset2rrlist_def split: prod.splits) (metis fst_conv)
qed

lemma drop_all:
  "\<not> sign_here dstatus delegpt t \<Longrightarrow> drop_sig L sc signtime dstatus delegpt t changed s"
  by (auto simp: drop_sig_def sign_here_def Let_def)

lemma rrset_sign_as_complete:
  assumes "hsm_contract L H" "keys sc = Some kl" "list_all key_ok kl" "ixfr_ok ini ixfr"
    and "rrs rrset \<noteq> []" "length (rrsigs rrset) < 2 ^ 64"
    and "rrset_sigvalid_period variant rnd sc (rrtype rrset) signtime = Ok (inception, expiration)"
  shows "\<exists>st sc' rrset' ixfr' zstats' h'.
    rrset_sign_as L H variant rnd ini apex signtime dstatus delegpt sc rrset ixfr zstats h =
      Ok (st, sc', rrset', ixfr', zstats', h') \<and>
    rrtype rrset' = rrtype rrset \<and> \<not> needs_signing rrset' \<and> ixfr_ok ini ixfr' \<and>
    (\<forall>s \<in> set (rrsigs rrset').
       s \<in> set (rrsigs rrset) \<and>
         \<not> drop_sig L sc signtime dstatus delegpt (rrtype rrset) (needs_signing rrset) s \<or>
       (\<exists>k \<in> set kl. made_by L (rrtype rrset) inception expiration k s)) \<and>
    (if sign_here dstatus delegpt (rrtype rrset) then
       st = ODS_STATUS_OK \<and> snd (rrset2rrlist L rrset) \<noteq> [] \<longrightarrow>
         (\<forall>k \<in> set kl. key_role (rrtype rrset) k \<longrightarrow> covered L (rrtype rrset) (rrsigs rrset') k)
     else rrsigs rrset' = [])"
proof -
  let ?t = "rrtype rrset" and ?D = "drop_sig L sc signtime dstatus delegpt (rrtype rrset) (needs_signing rrset)"
  let ?kept = "filter (\<lambda>s. \<not> ?D s) (rrsigs rrset)"
  obtain ixfr1 n where rec: "rrset_recycle L ini sc signtime dstatus delegpt rrset ixfr = Ok (rrset\<lparr>rrsigs := ?kept\<rparr>, ixfr1, n)"
    and i1: "ixfr_ok ini ixfr1" using rrset_recycle_eval [OF assms(4,6)] by blast
  let ?r1 = "rrset\<lparr>rrsigs := ?kept, needs_signing := False\<rparr>"
  show ?thesis
  proof (cases "sign_here dstatus delegpt ?t")
    case False
    then have "?kept = []" by (simp add: drop_all filter_empty_conv)
    then show ?thesis using False rec i1 assms(5) by (auto simp: rrset_sign_as_def sign_here_def Let_def)
  next
    case True
    obtain xs l where l: "rrset2rrlist L ?r1 = (?r1\<lparr>rrs := xs\<rparr>, l)" and l': "snd (rrset2rrlist L rrset) = l"
      using rrset2rrlist_eq [of L ?r1] by (auto simp: rrset2rrlist_def split: prod.splits)
    show ?thesis
    proof (cases "l = []")
      case True
      then show ?thesis using \<open>sign_here dstatus delegpt ?t\<close> rec i1 assms(5) l l'
        by (auto simp: rrset_sign_as_def sign_here_def)
    next
      case False
      let ?r2 = "?r1\<lparr>rrs := xs\<rparr>"
      obtain st ks' new ixfr' h' n' where r:
        "sign_keys L H ini apex l inception expiration kl ?r2 ixfr1 h 0 =
          Ok (st, ks', ?r2\<lparr>rrsigs := ?kept @ new\<rparr>, ixfr', h', n')" "ixfr_ok ini ixfr'"
        "\<forall>s \<in> set new. \<exists>k \<in> set kl. made_by L ?t inception expiration k s"
        "st = ODS_STATUS_OK \<longrightarrow> (\<forall>k \<in> set kl. key_role ?t k \<longrightarrow> covered L ?t (?kept @ new) k)"
        using sign_keys_result [OF assms(1,3) i1, of apex l inception expiration ?r2 h 0]
        unfolding rrset_struct.select_convs rrset_struct.update_convs by (elim exE conjE) (rule that; simp)
      have c: "\<not> dstatus \<noteq> LDNS_RR_TYPE_SOA" "\<not> (delegpt \<noteq> LDNS_RR_TYPE_SOA \<and> ?t \<noteq> LDNS_RR_TYPE_DS)"
        using \<open>sign_here dstatus delegpt ?t\<close> by (auto simp: sign_here_def)
      have f: "rrs ?r1 = rrs rrset" "rrtype ?r1 = ?t" "rrtype ?r2 = ?t" by simp_all
      have "\<exists>zst. rrset_sign_as L H variant rnd ini apex signtime dstatus delegpt sc rrset ixfr zstats h =
          Ok (st, sc\<lparr>keys := Some ks'\<rparr>, ?r2\<lparr>rrsigs := ?kept @ new\<rparr>, ixfr', zst, h')"
        unfolding rrset_sign_as_def rec
        by (simp only: exec_bind.simps prod.case Let_def f assms(5) if_False c l False assms(2) option.case assms(7) r(1)) blast
      then obtain zst where e: "rrset_sign_as L H variant rnd ini apex signtime dstatus delegpt sc rrset ixfr zstats h =
          Ok (st, sc\<lparr>keys := Some ks'\<rparr>, ?r2\<lparr>rrsigs := ?kept @ new\<rparr>, ixfr', zst, h')" by blast
      show ?thesis
        by (rule exI, rule exI, rule exI, rule exI, rule exI, rule exI, rule conjI, rule e)
          (use True r(2-4) in auto)
    qed
  qed
qed


lemma sample_period:
  "rrset_sigvalid_period RANDOM 5 sample_signconf LDNS_RR_TYPE_A 1000000 = Ok (996400, 2209600)"
  by (simp add: rrset_sigvalid_period_def sample_signconf_def signconf_create_def hours_of_def duration2time_def)

definition sample_stats :: stats where
  "sample_stats = \<lparr>sort_count = 0, sort_time = 0, sort_done = 0, nsec_count = 0, nsec_time = 0, sig_count = 0,
     sig_soa_count = 0, sig_reuse = 0, sig_time = 0, start_time = 0, end_time = 0\<rparr>"


end
