(* ===== verification/Domain.thy ===== *)
theory Domain
  imports Rrset
begin

text \<open>
  Domains, \<^verbatim>\<open>signer/src/signer/domain.c\<close>: a name of the zone with its RRsets, and the denial of
  existence points (\<^verbatim>\<open>denial.h\<close>).  The linked list of RRsets is a list; a pointer to one of them is
  its position.  A domain and its denial point refer to each other, and to the parent domain, by
  address, an element of \<open>nat\<close>; the store is in the theory of the database.  Not in the record
  are the pointers to the zone and to the node of the tree: a domain is found in the tree by its
  address.
\<close>

section \<open>Records\<close>

record 'f domain_struct =
  dname :: 'f
  denial :: "nat option"
  parent :: "nat option"
  rrsets :: "'f rrset_struct list"
  is_new :: bool
  is_apex :: bool

record 'f denial_struct =
  d_dname :: 'f
  d_domain :: "nat option"
  d_rrset :: "'f rrset_struct option"
  bitmap_changed :: bool
  nxt_changed :: bool

definition domain_create :: "'f \<Rightarrow> 'f domain_struct" where
  "domain_create n = \<lparr>dname = n, denial = None, parent = None, rrsets = [], is_new = False, is_apex = False\<rparr>"

definition denial_create :: "'f \<Rightarrow> 'f denial_struct" where
  "denial_create n = \<lparr>d_dname = n, d_domain = None, d_rrset = None, bitmap_changed = False, nxt_changed = False\<rparr>"

section \<open>RRsets of a domain\<close>

definition domain_count_rrset :: "'f domain_struct \<Rightarrow> nat" where
  "domain_count_rrset d = length (rrsets d)"

definition domain_count_rrset_is_added :: "'f domain_struct \<Rightarrow> nat" where
  "domain_count_rrset_is_added d = length (filter (\<lambda>r. rrset_count_rr_is_added r \<noteq> 0) (rrsets d))"

definition domain_lookup_rrset :: "'f domain_struct \<Rightarrow> u16 \<Rightarrow> nat option" where
  "domain_lookup_rrset d t = (if rrsets d = [] \<or> t = 0 then None else first_index (\<lambda>r. rrtype r = t) (rrsets d))"

definition append_rrset :: "'f domain_struct \<Rightarrow> 'f rrset_struct \<Rightarrow> 'f domain_struct" where
  "append_rrset d r = d\<lparr>rrsets := rrsets d @ [r]\<rparr>"

text \<open>
  \<^verbatim>\<open>domain_del_rrset\<close>: the RRset that is returned, or \<open>None\<close>, the domain, and the denial point whose
  flag \<^verbatim>\<open>bitmap_changed\<close> is set, if any.  Past the first RRset the code looks for the one before the
  RRset to delete, unlinks, moves on to the next RRset and cuts the list behind that one, which is
  also the one it returns; if there is none it writes through a null pointer.
\<close>

fun unlink_rrset :: "'f rrset_struct list \<Rightarrow> u16 \<Rightarrow> ('f rrset_struct option \<times> 'f rrset_struct list) exec" where
  "unlink_rrset [] t = Ok (None, [])"
| "unlink_rrset [r] t = Ok (None, [r])"
| "unlink_rrset (r # x # rs) t =
    (if rrtype x \<noteq> t then
       exec_bind (unlink_rrset (x # rs) t) (\<lambda>(y, rs). Ok (y, r # rs))
     else case rs of [] \<Rightarrow> Fault | y # ys \<Rightarrow> Ok (Some y, [r, y]))"

definition domain_del_rrset ::
  "'f domain_struct \<Rightarrow> u16 \<Rightarrow> ('f rrset_struct option \<times> 'f domain_struct \<times> nat option) exec" where
  "domain_del_rrset d t =
    (if t = 0 then Ok (None, d, None)
     else case rrsets d of [] \<Rightarrow> Ok (None, d, None)
        | r # rs \<Rightarrow>
            if rrtype r = t then Ok (Some r, d\<lparr>rrsets := rs\<rparr>, denial d)
            else exec_bind (unlink_rrset (r # rs) t) (\<lambda>(y, rs).
              Ok (y, d\<lparr>rrsets := rs\<rparr>, if y = None then None else denial d)))"

text \<open>
  The loop of \<^verbatim>\<open>domain_diff\<close> over the RRsets: the RRsets that are left, the journal, and whether
  an RRset was deleted.
\<close>

fun diff_rrsets ::
  "bool \<Rightarrow> bool \<Rightarrow> bool \<Rightarrow> 'f rrset_struct list \<Rightarrow> 'f ixfr \<Rightarrow> ('f rrset_struct list \<times> 'f ixfr \<times> bool) exec" where
  "diff_rrsets ini is_ixfr more_coming [] ixfr = Ok ([], ixfr, False)"
| "diff_rrsets ini is_ixfr more_coming (r # rs) ixfr =
    exec_bind (if rrtype r = LDNS_RR_TYPE_NSEC3PARAMS \<or> rrtype r = LDNS_RR_TYPE_DNSKEY
               then rrset_diff ini r ixfr False more_coming
               else rrset_diff ini r ixfr is_ixfr more_coming) (\<lambda>(r, ixfr).
    exec_bind (diff_rrsets ini is_ixfr more_coming rs ixfr) (\<lambda>(rs, ixfr, deleted).
    Ok (if rrs r = [] then (rs, ixfr, True) else (r # rs, ixfr, deleted))))"

definition domain_is_delegpt :: "'f domain_struct \<Rightarrow> u16" where
  "domain_is_delegpt d =
    (if is_apex d then LDNS_RR_TYPE_SOA
     else if domain_lookup_rrset d LDNS_RR_TYPE_NS \<noteq> None then
       if domain_lookup_rrset d LDNS_RR_TYPE_DS \<noteq> None then LDNS_RR_TYPE_DS else LDNS_RR_TYPE_NS
     else LDNS_RR_TYPE_SOA)"

section \<open>Properties\<close>

lemma first_index_None [simp]: "first_index P xs = None \<longleftrightarrow> (\<forall>x \<in> set xs. \<not> P x)"
  by (induction xs) auto

lemma first_index_SomeD: "first_index P xs = Some i \<Longrightarrow> i < length xs \<and> P (xs ! i)"
  by (induction xs arbitrary: i) (auto split: if_splits)

definition has_type :: "u16 \<Rightarrow> 'f domain_struct \<Rightarrow> bool" where
  "has_type t d \<longleftrightarrow> (\<exists>r \<in> set (rrsets d). rrtype r = t)"

lemma domain_lookup_rrset_iff: "t \<noteq> 0 \<Longrightarrow> domain_lookup_rrset d t \<noteq> None \<longleftrightarrow> has_type t d"
  by (auto simp: domain_lookup_rrset_def has_type_def simp del: not_None_eq)

lemma domain_is_delegpt_eq:
  "domain_is_delegpt d =
    (if is_apex d \<or> \<not> has_type LDNS_RR_TYPE_NS d then LDNS_RR_TYPE_SOA
     else if has_type LDNS_RR_TYPE_DS d then LDNS_RR_TYPE_DS else LDNS_RR_TYPE_NS)"
  using domain_lookup_rrset_iff [of LDNS_RR_TYPE_NS d] domain_lookup_rrset_iff [of LDNS_RR_TYPE_DS d]
  by (simp add: domain_is_delegpt_def)

lemma unlink_rrset_split:
  assumes "\<forall>r \<in> set xs. rrtype r \<noteq> t" "xs \<noteq> []" "rrtype x = t"
  shows "unlink_rrset (xs @ x # ys) t = (case ys of [] \<Rightarrow> Fault | y # zs \<Rightarrow> Ok (Some y, xs @ [y]))"
  using assms
proof (induction xs)
  case (Cons r xs)
  show ?case
  proof (cases xs)
    case Nil
    then show ?thesis using Cons.prems by (simp split: list.splits)
  next
    case (Cons r' xs')
    with Cons.IH Cons.prems show ?thesis by (auto split: list.splits)
  qed
qed simp

text \<open>
  Deleting an RRset is only right for the first RRset of a domain.  For any other the RRset
  behind it is returned instead of it, and the RRsets behind that one are lost from the domain;
  deleting the last RRset of several dereferences a null pointer.
\<close>

theorem domain_del_rrset_wrong:
  assumes "\<forall>r \<in> set xs. rrtype r \<noteq> t" "rrtype x = t" "t \<noteq> 0" "rrsets d = xs @ x # ys"
  shows "domain_del_rrset d t =
    (if xs = [] then Ok (Some x, d\<lparr>rrsets := ys\<rparr>, denial d)
     else case ys of [] \<Rightarrow> Fault | y # zs \<Rightarrow> Ok (Some y, d\<lparr>rrsets := xs @ [y]\<rparr>, denial d))"
proof (cases xs)
  case Nil
  then show ?thesis using assms by (simp add: domain_del_rrset_def)
next
  case (Cons r rs)
  then have "unlink_rrset (r # rs @ x # ys) t = (case ys of [] \<Rightarrow> Fault | y # zs \<Rightarrow> Ok (Some y, xs @ [y]))"
    using unlink_rrset_split [of xs t x ys] assms by simp
  then show ?thesis using assms Cons by (auto simp: domain_del_rrset_def split: list.splits)
qed

definition rrset_of :: "u16 \<Rightarrow> nat list rrset_struct" where
  "rrset_of t = \<lparr>rrtype = t, rrs = [], rrsigs = [], needs_signing = False\<rparr>"

theorem domain_del_rrset_witness:
  "domain_del_rrset ((domain_create [1])\<lparr>rrsets := [rrset_of 1, rrset_of 15, rrset_of 16, rrset_of 28]\<rparr>) 15 =
     Ok (Some (rrset_of 16), (domain_create [1])\<lparr>rrsets := [rrset_of 1, rrset_of 16]\<rparr>, None)"
  using domain_del_rrset_wrong [where xs = "[rrset_of 1]" and x = "rrset_of 15" and ys = "[rrset_of 16, rrset_of 28]"
      and t = 15 and d = "(domain_create [1])\<lparr>rrsets := [rrset_of 1, rrset_of 15, rrset_of 16, rrset_of 28]\<rparr>"]
  by (simp add: rrset_of_def domain_create_def)

text \<open>What \<^verbatim>\<open>domain_diff\<close> leaves of the RRsets.\<close>

definition rrset_mode :: "bool \<Rightarrow> 'f rrset_struct \<Rightarrow> bool" where
  "rrset_mode is_ixfr r \<longleftrightarrow> is_ixfr \<and> rrtype r \<noteq> LDNS_RR_TYPE_NSEC3PARAMS \<and> rrtype r \<noteq> LDNS_RR_TYPE_DNSKEY"

definition rrsets_after :: "bool \<Rightarrow> bool \<Rightarrow> 'f rrset_struct list \<Rightarrow> 'f rrset_struct list" where
  "rrsets_after is_ixfr more_coming rs =
    filter (\<lambda>r. rrs r \<noteq> []) (map (\<lambda>r. rrset_after (rrset_mode is_ixfr r) more_coming r) rs)"

lemma rrsets_after_simps [simp]:
  "rrsets_after is_ixfr more_coming [] = []"
  "rrsets_after is_ixfr more_coming (r # rs) =
    (let r = rrset_after (rrset_mode is_ixfr r) more_coming r
     in if rrs r = [] then rrsets_after is_ixfr more_coming rs else r # rrsets_after is_ixfr more_coming rs)"
  by (simp_all add: rrsets_after_def Let_def)

lemma rrsets_after_length: "length (rrsets_after is_ixfr more_coming rs) \<le> length rs"
  by (induction rs) (auto simp: Let_def)

definition rrsets_ok :: "'f rrset_struct list \<Rightarrow> bool" where
  "rrsets_ok rs \<longleftrightarrow> (\<forall>r \<in> set rs. rrs r \<noteq> [] \<and> length (rrs r) < 2 ^ 16)"

lemma diff_rrsets_eval:
  assumes "ixfr_ok ini ixfr" "rrsets_ok rs"
  shows "\<exists>ixfr'. diff_rrsets ini is_ixfr more_coming rs ixfr =
      Ok (rrsets_after is_ixfr more_coming rs, ixfr', length (rrsets_after is_ixfr more_coming rs) \<noteq> length rs) \<and>
    ixfr_ok ini ixfr'"
  using assms
proof (induction rs arbitrary: ixfr)
  case (Cons r rs)
  let ?i = "journal ini (rrset_journal (rrset_mode is_ixfr r) r) ixfr"
  have d: "(if rrtype r = LDNS_RR_TYPE_NSEC3PARAMS \<or> rrtype r = LDNS_RR_TYPE_DNSKEY
      then rrset_diff ini r ixfr False more_coming else rrset_diff ini r ixfr is_ixfr more_coming) =
      Ok (rrset_after (rrset_mode is_ixfr r) more_coming r, ?i)"
    using rrset_diff_eval [OF Cons.prems(1), of r] Cons.prems(2) by (auto simp: rrset_mode_def rrsets_ok_def)
  obtain ixfr' where i: "diff_rrsets ini is_ixfr more_coming rs ?i =
      Ok (rrsets_after is_ixfr more_coming rs, ixfr', length (rrsets_after is_ixfr more_coming rs) \<noteq> length rs)"
    "ixfr_ok ini ixfr'"
    using Cons.IH [of ?i] Cons.prems by (auto simp: rrsets_ok_def)
  show ?case using i rrsets_after_length [of is_ixfr more_coming rs] unfolding diff_rrsets.simps d
    by (auto simp: Let_def)
qed simp

end
