(* ===== verification/Namedb.thy ===== *)
theory Namedb
  imports Domain Serial
begin

text \<open>
  The name database of a zone, \<^verbatim>\<open>signer/src/signer/namedb.c\<close> with the functions of \<^verbatim>\<open>domain.c\<close> and
  \<^verbatim>\<open>denial.c\<close> that follow pointers.  The domains are in a store, a map from addresses; the two trees
  hold addresses, under the names of the objects.  Reading through an address that has been freed,
  or asking for the neighbour of a node that is no longer in the tree, is \<open>Fault\<close>.  New objects get
  addresses that have not been used before.

  Loops that follow pointers take a bound on the number of iterations, the number of nodes of the
  tree plus one; running out of it is \<open>Fault\<close>, so that a result shows that the loop ends.
\<close>

section \<open>State\<close>

record ('f, 't) namedb = serials +
  domains :: 't
  denials :: 't
  dom_at :: "nat \<Rightarrow> 'f domain_struct option"
  den_at :: "nat \<Rightarrow> 'f denial_struct option"
  fresh :: nat
  ixfr :: "'f ixfr"

text \<open>The libraries, and what the database uses of its zone.\<close>

record ('f, 'k, 't) zone =
  z_rb :: "('t, 'f, nat) rbtree"
  z_ldns :: "'f ldns"
  z_apex :: 'f
  z_signconf :: "('f, 'k) signconf"
  z_default_ttl :: u32
  z_klass :: u16

definition get :: "(nat \<Rightarrow> 'a option) \<Rightarrow> nat \<Rightarrow> 'a exec" where
  "get h a = (case h a of None \<Rightarrow> Fault | Some x \<Rightarrow> Ok x)"

definition set_dom :: "('f, 't) namedb \<Rightarrow> nat \<Rightarrow> 'f domain_struct \<Rightarrow> ('f, 't) namedb" where
  "set_dom db a d = db\<lparr>dom_at := (dom_at db)(a \<mapsto> d)\<rparr>"

definition set_den :: "('f, 't) namedb \<Rightarrow> nat \<Rightarrow> 'f denial_struct \<Rightarrow> ('f, 't) namedb" where
  "set_den db b e = db\<lparr>den_at := (den_at db)(b \<mapsto> e)\<rparr>"

text \<open>\<^verbatim>\<open>ldns_rbtree_next\<close> and \<^verbatim>\<open>ldns_rbtree_previous\<close>, on the addresses in the order of the tree.\<close>

fun next_of :: "nat list \<Rightarrow> nat \<Rightarrow> nat option exec" where
  "next_of [] a = Fault"
| "next_of (x # xs) a = (if x = a then Ok (case xs of [] \<Rightarrow> None | y # ys \<Rightarrow> Some y) else next_of xs a)"

fun prev_from :: "nat option \<Rightarrow> nat list \<Rightarrow> nat \<Rightarrow> nat option exec" where
  "prev_from p [] a = Fault"
| "prev_from p (x # xs) a = (if x = a then Ok p else prev_from (Some x) xs a)"

definition dom_nodes :: "('f, 'k, 't) zone \<Rightarrow> ('f, 't) namedb \<Rightarrow> nat list" where
  "dom_nodes Z db = map snd (rb_nodes (z_rb Z) (domains db))"

definition den_nodes :: "('f, 'k, 't) zone \<Rightarrow> ('f, 't) namedb \<Rightarrow> nat list" where
  "den_nodes Z db = map snd (rb_nodes (z_rb Z) (denials db))"

definition namedb_create :: "('f, 'k, 't) zone \<Rightarrow> ('f, 't) namedb" where
  "namedb_create Z =
    \<lparr>inbserial = 0, intserial = 0, outserial = 0, is_initialized = False, is_processed = False, serial_updated = False,
     domains = rb_create (z_rb Z), denials = rb_create (z_rb Z), dom_at = (\<lambda>_. None), den_at = (\<lambda>_. None), fresh = 0,
     ixfr = ixfr_create\<rparr>"

section \<open>Domains in the database\<close>

definition namedb_lookup_domain :: "('f, 'k, 't) zone \<Rightarrow> ('f, 't) namedb \<Rightarrow> 'f \<Rightarrow> nat option" where
  "namedb_lookup_domain Z db n = rb_search (z_rb Z) (dname_compare (z_ldns Z)) (domains db) n"

definition namedb_add_domain :: "('f, 'k, 't) zone \<Rightarrow> ('f, 't) namedb \<Rightarrow> 'f \<Rightarrow> nat option \<times> ('f, 't) namedb" where
  "namedb_add_domain Z db n =
    (let a = fresh db in
     case rb_insert (z_rb Z) (dname_compare (z_ldns Z)) (domains db) n a of
       None \<Rightarrow> (None, db)
     | Some t \<Rightarrow> (Some a, set_dom (db\<lparr>domains := t, fresh := fresh db + 1\<rparr>) a ((domain_create n)\<lparr>is_new := True\<rparr>)))"

text \<open>\<^verbatim>\<open>namedb_del_domain\<close>, and \<^verbatim>\<open>domain_cleanup\<close> of what it returns, which frees the domain.\<close>

definition namedb_del_domain :: "('f, 'k, 't) zone \<Rightarrow> ('f, 't) namedb \<Rightarrow> nat \<Rightarrow> (bool \<times> ('f, 't) namedb) exec" where
  "namedb_del_domain Z db a =
    exec_bind (get (dom_at db) a) (\<lambda>d.
    if rrsets d \<noteq> [] \<or> denial d \<noteq> None then Ok (False, db)
    else case rb_delete (z_rb Z) (dname_compare (z_ldns Z)) (domains db) (dname d) of
        None \<Rightarrow> Ok (False, db)
      | Some (b, t) \<Rightarrow> ods_log_assert (b = a) (Ok (True, db\<lparr>domains := t\<rparr>)))"

definition domain_cleanup :: "('f, 't) namedb \<Rightarrow> nat \<Rightarrow> ('f, 't) namedb" where
  "domain_cleanup db a = db\<lparr>dom_at := (dom_at db)(a := None)\<rparr>"

text \<open>
  \<^verbatim>\<open>namedb_domain_entize\<close>: the loop over the ancestors that are missing.  A name has at most 127
  labels, so 128 iterations are enough.
\<close>

fun entize_loop :: "('f, 'k, 't) zone \<Rightarrow> 'f \<Rightarrow> nat \<Rightarrow> ('f, 't) namedb \<Rightarrow> nat \<Rightarrow> (ods_status \<times> ('f, 't) namedb) exec" where
  "entize_loop Z apex 0 db a = Fault"
| "entize_loop Z apex (Suc n) db a =
    exec_bind (get (dom_at db) a) (\<lambda>d.
    if dname_is_subdomain (z_ldns Z) (dname d) apex \<and> dname_compare (z_ldns Z) (dname d) apex \<noteq> 0 then
      case dname_left_chop (z_ldns Z) (dname d) of
        None \<Rightarrow> Ok (ODS_STATUS_ERR, db)
      | Some p \<Rightarrow>
          (case namedb_lookup_domain Z db p of
             None \<Rightarrow>
               (case namedb_add_domain Z db p of
                  (None, db) \<Rightarrow> Ok (ODS_STATUS_ERR, db)
                | (Some b, db) \<Rightarrow> entize_loop Z apex n (set_dom db a (d\<lparr>parent := Some b\<rparr>)) b)
           | Some b \<Rightarrow> Ok (ODS_STATUS_OK, set_dom db a (d\<lparr>parent := Some b\<rparr>)))
    else Ok (ODS_STATUS_OK, db))"

definition namedb_domain_entize ::
  "('f, 'k, 't) zone \<Rightarrow> ('f, 't) namedb \<Rightarrow> nat \<Rightarrow> 'f \<Rightarrow> (ods_status \<times> ('f, 't) namedb) exec" where
  "namedb_domain_entize Z db a apex =
    exec_bind (get (dom_at db) a) (\<lambda>d.
    if parent d \<noteq> None then Ok (ODS_STATUS_OK, db) else entize_loop Z apex 128 db a)"

section \<open>The place of a domain in the zone\<close>

fun occluded_loop :: "(nat \<Rightarrow> 'f domain_struct option) \<Rightarrow> nat \<Rightarrow> nat option \<Rightarrow> u16 exec" where
  "occluded_loop h 0 p = Fault"
| "occluded_loop h (Suc n) p =
    (case p of None \<Rightarrow> Ok LDNS_RR_TYPE_SOA
     | Some p \<Rightarrow>
         exec_bind (get h p) (\<lambda>d.
         if is_apex d then Ok LDNS_RR_TYPE_SOA
         else if domain_lookup_rrset d LDNS_RR_TYPE_NS \<noteq> None then Ok LDNS_RR_TYPE_A
         else if domain_lookup_rrset d LDNS_RR_TYPE_DNAME \<noteq> None then Ok LDNS_RR_TYPE_DNAME
         else occluded_loop h n (parent d)))"

definition domain_is_occluded :: "('f, 'k, 't) zone \<Rightarrow> ('f, 't) namedb \<Rightarrow> nat \<Rightarrow> u16 exec" where
  "domain_is_occluded Z db a =
    exec_bind (get (dom_at db) a) (\<lambda>d.
    if is_apex d then Ok LDNS_RR_TYPE_SOA
    else occluded_loop (dom_at db) (length (dom_nodes Z db) + 1) (parent d))"

definition domain_is_empty_terminal :: "('f, 'k, 't) zone \<Rightarrow> ('f, 't) namedb \<Rightarrow> nat \<Rightarrow> bool exec" where
  "domain_is_empty_terminal Z db a =
    exec_bind (get (dom_at db) a) (\<lambda>d.
    if is_apex d then Ok False
    else if rrsets d \<noteq> [] then Ok False
    else exec_bind (next_of (dom_nodes Z db) a) (\<lambda>n.
      case n of None \<Rightarrow> Ok True
      | Some b \<Rightarrow> exec_bind (get (dom_at db) b) (\<lambda>e.
          Ok (\<not> dname_is_subdomain (z_ldns Z) (dname e) (dname d)))))"

definition domain_can_be_deleted :: "('f, 'k, 't) zone \<Rightarrow> ('f, 't) namedb \<Rightarrow> nat \<Rightarrow> bool exec" where
  "domain_can_be_deleted Z db a =
    exec_bind (domain_is_empty_terminal Z db a) (\<lambda>e.
    exec_bind (get (dom_at db) a) (\<lambda>d. Ok (e \<and> denial d = None)))"

text \<open>\<^verbatim>\<open>domain_ent2unsignedns\<close>: the loop over the names that follow in the tree.\<close>

fun ent2_loop :: "('f, 'k, 't) zone \<Rightarrow> ('f, 't) namedb \<Rightarrow> 'f \<Rightarrow> nat \<Rightarrow> nat option \<Rightarrow> bool exec" where
  "ent2_loop Z db n 0 x = Fault"
| "ent2_loop Z db n (Suc k) x =
    (case x of None \<Rightarrow> Ok True
     | Some b \<Rightarrow>
         exec_bind (get (dom_at db) b) (\<lambda>e.
         if \<not> dname_is_subdomain (z_ldns Z) (dname e) n then Ok True
         else
           exec_bind (if rrsets e \<noteq> [] \<and> domain_is_delegpt e \<noteq> LDNS_RR_TYPE_NS
                      then exec_bind (domain_is_occluded Z db b) (\<lambda>o'. Ok (o' = LDNS_RR_TYPE_SOA)) else Ok False) (\<lambda>auth.
           if auth then Ok False
           else exec_bind (next_of (dom_nodes Z db) b) (\<lambda>x. ent2_loop Z db n k x))))"

definition domain_ent2unsignedns :: "('f, 'k, 't) zone \<Rightarrow> ('f, 't) namedb \<Rightarrow> nat \<Rightarrow> bool exec" where
  "domain_ent2unsignedns Z db a =
    exec_bind (get (dom_at db) a) (\<lambda>d.
    if rrsets d \<noteq> [] then Ok False
    else exec_bind (next_of (dom_nodes Z db) a) (\<lambda>x. ent2_loop Z db (dname d) (length (dom_nodes Z db) + 1) x))"

section \<open>Denial of existence points\<close>

definition dname_hash :: "'f ldns \<Rightarrow> 'f \<Rightarrow> 'f \<Rightarrow> 'f nsec3params \<Rightarrow> 'f option" where
  "dname_hash L n apex n3p =
    (case nsec3_hash_name L n (n3_algorithm n3p) (n3_iterations n3p) (n3_salt n3p) of
       None \<Rightarrow> None | Some label \<Rightarrow> dname_cat_clone L label apex)"

text \<open>The node before a node, or the last one; the code asserts that there is one.\<close>

definition prev_denial :: "('f, 'k, 't) zone \<Rightarrow> ('f, 't) namedb \<Rightarrow> nat \<Rightarrow> nat exec" where
  "prev_denial Z db b =
    exec_bind (prev_from None (den_nodes Z db) b) (\<lambda>p.
    Ok (case p of Some p \<Rightarrow> p | None \<Rightarrow> last (den_nodes Z db)))"

definition mark_nxt :: "('f, 't) namedb \<Rightarrow> nat \<Rightarrow> ('f, 't) namedb exec" where
  "mark_nxt db b = exec_bind (get (den_at db) b) (\<lambda>e. Ok (set_den db b (e\<lparr>nxt_changed := True\<rparr>)))"

definition namedb_add_denial ::
  "('f, 'k, 't) zone \<Rightarrow> ('f, 't) namedb \<Rightarrow> 'f \<Rightarrow> 'f nsec3params option \<Rightarrow> (nat option \<times> ('f, 't) namedb) exec" where
  "namedb_add_denial Z db n n3p =
    (case (case n3p of Some p \<Rightarrow> dname_hash (z_ldns Z) n (z_apex Z) p | None \<Rightarrow> Some n) of
       None \<Rightarrow> Abort
     | Some own \<Rightarrow>
         let b = fresh db in
         case rb_insert (z_rb Z) (dname_compare (z_ldns Z)) (denials db) own b of
           None \<Rightarrow> Ok (None, db)
         | Some t \<Rightarrow>
             let db = set_den (db\<lparr>denials := t, fresh := fresh db + 1\<rparr>) b ((denial_create own)\<lparr>nxt_changed := True\<rparr>) in
             exec_bind (prev_denial Z db b) (\<lambda>p.
             exec_bind (mark_nxt db p) (\<lambda>db. Ok (Some b, db))))"

definition namedb_del_denial :: "('f, 'k, 't) zone \<Rightarrow> ('f, 't) namedb \<Rightarrow> nat \<Rightarrow> (bool \<times> ('f, 't) namedb) exec" where
  "namedb_del_denial Z db b =
    exec_bind (get (den_at db) b) (\<lambda>e.
    if (case d_rrset e of None \<Rightarrow> False | Some r \<Rightarrow> rrs r \<noteq> []) then Ok (False, db)
    else exec_bind (prev_denial Z db b) (\<lambda>p.
      case rb_delete (z_rb Z) (dname_compare (z_ldns Z)) (denials db) (d_dname e) of
        None \<Rightarrow> Ok (False, db)
      | Some (x, t) \<Rightarrow>
          ods_log_assert (x = b)
            (exec_bind (mark_nxt (db\<lparr>denials := t\<rparr>) p) (\<lambda>db. Ok (True, db)))))"

definition denial_cleanup :: "('f, 't) namedb \<Rightarrow> nat \<Rightarrow> ('f, 't) namedb" where
  "denial_cleanup db b = db\<lparr>den_at := (den_at db)(b := None)\<rparr>"

definition denial_diff :: "('f, 't) namedb \<Rightarrow> nat \<Rightarrow> ('f, 't) namedb exec" where
  "denial_diff db b =
    exec_bind (get (den_at db) b) (\<lambda>e.
    case d_rrset e of None \<Rightarrow> Ok db
    | Some r \<Rightarrow>
        exec_bind (rrset_diff (is_initialized db) r (ixfr db) False False) (\<lambda>(r, x).
        Ok (set_den (db\<lparr>ixfr := x\<rparr>) b (e\<lparr>d_rrset := Some r\<rparr>))))"

section \<open>Triggers\<close>

text \<open>The two triggers that add a point; the code asserts that it was added.\<close>

definition add_point :: "('f, 'k, 't) zone \<Rightarrow> ('f, 't) namedb \<Rightarrow> nat \<Rightarrow> 'f nsec3params option \<Rightarrow> ('f, 't) namedb exec" where
  "add_point Z db a n3p =
    exec_bind (get (dom_at db) a) (\<lambda>d.
    exec_bind (namedb_add_denial Z db (dname d) n3p) (\<lambda>(b, db).
    case b of None \<Rightarrow> Abort
    | Some b \<Rightarrow>
        exec_bind (get (den_at db) b) (\<lambda>e.
        Ok (set_dom (set_den db b (e\<lparr>d_domain := Some a\<rparr>)) a (d\<lparr>denial := Some b, is_new := False\<rparr>)))))"

definition namedb_add_nsec_trigger :: "('f, 'k, 't) zone \<Rightarrow> ('f, 't) namedb \<Rightarrow> nat \<Rightarrow> ('f, 't) namedb exec" where
  "namedb_add_nsec_trigger Z db a =
    exec_bind (domain_is_occluded Z db a) (\<lambda>dstatus.
    if dstatus = LDNS_RR_TYPE_DNAME \<or> dstatus = LDNS_RR_TYPE_A then Ok db
    else exec_bind (get (dom_at db) a) (\<lambda>d.
      if rrsets d = [] then Ok db else add_point Z db a None))"

definition namedb_add_nsec3_trigger ::
  "('f, 'k, 't) zone \<Rightarrow> ('f, 't) namedb \<Rightarrow> nat \<Rightarrow> 'f nsec3params \<Rightarrow> ('f, 't) namedb exec" where
  "namedb_add_nsec3_trigger Z db a n3p =
    exec_bind (domain_is_occluded Z db a) (\<lambda>dstatus.
    if dstatus = LDNS_RR_TYPE_DNAME \<or> dstatus = LDNS_RR_TYPE_A then Ok db
    else if n3_flags n3p \<noteq> 0 then
      exec_bind (get (dom_at db) a) (\<lambda>d.
      exec_bind (if domain_is_delegpt d = LDNS_RR_TYPE_NS then Ok True else domain_ent2unsignedns Z db a) (\<lambda>skip.
      if skip then Ok db else add_point Z db a (Some n3p)))
    else add_point Z db a (Some n3p))"

definition namedb_add_denial_trigger :: "('f, 'k, 't) zone \<Rightarrow> ('f, 't) namedb \<Rightarrow> nat \<Rightarrow> ('f, 't) namedb exec" where
  "namedb_add_denial_trigger Z db a =
    exec_bind (get (dom_at db) a) (\<lambda>d.
    if denial d \<noteq> None then Ok db
    else if nsec_type (z_signconf Z) = LDNS_RR_TYPE_NSEC then namedb_add_nsec_trigger Z db a
    else ods_log_assert (nsec_type (z_signconf Z) = LDNS_RR_TYPE_NSEC3)
      (case nsec3params (z_signconf Z) of None \<Rightarrow> Abort | Some n3p \<Rightarrow> namedb_add_nsec3_trigger Z db a n3p))"

text \<open>
  Deleting the point of a domain, as the two triggers below do.  If the point is still in use it
  stays where it is, but the domain loses it all the same.
\<close>

definition del_point :: "('f, 'k, 't) zone \<Rightarrow> ('f, 't) namedb \<Rightarrow> nat \<Rightarrow> ('f, 't) namedb exec" where
  "del_point Z db a =
    exec_bind (get (dom_at db) a) (\<lambda>d.
    case denial d of None \<Rightarrow> Abort
    | Some b \<Rightarrow>
        exec_bind (denial_diff db b) (\<lambda>db.
        exec_bind (namedb_del_denial Z db b) (\<lambda>(gone, db).
        Ok (set_dom (if gone then denial_cleanup db b else db) a (d\<lparr>denial := None\<rparr>)))))"

definition namedb_del_nsec_trigger :: "('f, 'k, 't) zone \<Rightarrow> ('f, 't) namedb \<Rightarrow> nat \<Rightarrow> ('f, 't) namedb exec" where
  "namedb_del_nsec_trigger Z db a =
    exec_bind (domain_is_occluded Z db a) (\<lambda>dstatus.
    exec_bind (domain_is_empty_terminal Z db a) (\<lambda>e.
    exec_bind (get (dom_at db) a) (\<lambda>d.
    if dstatus = LDNS_RR_TYPE_DNAME \<or> dstatus = LDNS_RR_TYPE_A \<or> e \<or> rrsets d = [] then del_point Z db a else Ok db)))"

definition namedb_del_nsec3_trigger ::
  "('f, 'k, 't) zone \<Rightarrow> ('f, 't) namedb \<Rightarrow> nat \<Rightarrow> 'f nsec3params \<Rightarrow> ('f, 't) namedb exec" where
  "namedb_del_nsec3_trigger Z db a n3p =
    exec_bind (domain_is_occluded Z db a) (\<lambda>dstatus.
    exec_bind (domain_is_empty_terminal Z db a) (\<lambda>e.
    if dstatus = LDNS_RR_TYPE_DNAME \<or> dstatus = LDNS_RR_TYPE_A \<or> e then del_point Z db a
    else if n3_flags n3p \<noteq> 0 then
      exec_bind (get (dom_at db) a) (\<lambda>d.
      exec_bind (if domain_is_delegpt d = LDNS_RR_TYPE_NS then Ok True else domain_ent2unsignedns Z db a) (\<lambda>skip.
      if skip then del_point Z db a else Ok db))
    else Ok db))"

definition del_trigger :: "('f, 'k, 't) zone \<Rightarrow> ('f, 't) namedb \<Rightarrow> nat \<Rightarrow> ('f, 't) namedb exec" where
  "del_trigger Z db a =
    (if nsec_type (z_signconf Z) = LDNS_RR_TYPE_NSEC then namedb_del_nsec_trigger Z db a
     else ods_log_assert (nsec_type (z_signconf Z) = LDNS_RR_TYPE_NSEC3)
       (case nsec3params (z_signconf Z) of None \<Rightarrow> Abort | Some n3p \<Rightarrow> namedb_del_nsec3_trigger Z db a n3p))"

text \<open>
  \<^verbatim>\<open>namedb_del_denial_trigger\<close>: the loop from a domain up through its parents.  Whether something
  was deleted, and the database.
\<close>

fun del_denial_loop ::
  "('f, 'k, 't) zone \<Rightarrow> bool \<Rightarrow> nat \<Rightarrow> nat option \<Rightarrow> bool \<Rightarrow> ('f, 't) namedb \<Rightarrow> (bool \<times> ('f, 't) namedb) exec" where
  "del_denial_loop Z rollback 0 x is_deleted db = Fault"
| "del_denial_loop Z rollback (Suc n) x is_deleted db =
    (case x of None \<Rightarrow> Ok (is_deleted, db)
     | Some a \<Rightarrow>
         exec_bind (get (dom_at db) a) (\<lambda>d.
         exec_bind (if \<not> rollback \<and> denial d \<noteq> None then del_trigger Z db a else Ok db) (\<lambda>db.
         exec_bind (domain_can_be_deleted Z db a) (\<lambda>can.
         if can then
           exec_bind (namedb_del_domain Z db a) (\<lambda>(gone, db).
           del_denial_loop Z rollback n (parent d) True (if gone then domain_cleanup db a else db))
         else del_denial_loop Z rollback n (parent d) is_deleted db))))"

definition namedb_del_denial_trigger ::
  "('f, 'k, 't) zone \<Rightarrow> ('f, 't) namedb \<Rightarrow> nat \<Rightarrow> bool \<Rightarrow> (bool \<times> ('f, 't) namedb) exec" where
  "namedb_del_denial_trigger Z db a rollback =
    del_denial_loop Z rollback (length (dom_nodes Z db) + 1) (Some a) False db"

section \<open>Applying a set of changes\<close>

definition mark_bitmap :: "('f, 't) namedb \<Rightarrow> nat option \<Rightarrow> ('f, 't) namedb exec" where
  "mark_bitmap db b =
    (case b of None \<Rightarrow> Ok db
     | Some b \<Rightarrow> exec_bind (get (den_at db) b) (\<lambda>e. Ok (set_den db b (e\<lparr>bitmap_changed := True\<rparr>))))"

definition domain_diff :: "('f, 't) namedb \<Rightarrow> nat \<Rightarrow> bool \<Rightarrow> bool \<Rightarrow> ('f, 't) namedb exec" where
  "domain_diff db a is_ixfr more_coming =
    exec_bind (get (dom_at db) a) (\<lambda>d.
    exec_bind (diff_rrsets (is_initialized db) is_ixfr more_coming (rrsets d) (ixfr db)) (\<lambda>(rs, x, deleted).
    let db = set_dom (db\<lparr>ixfr := x\<rparr>) a (d\<lparr>rrsets := rs\<rparr>)
    in if deleted then mark_bitmap db (denial d) else Ok db))"

text \<open>
  The two loops of \<^verbatim>\<open>namedb_diff\<close>.  The first does not change the tree; the second does, while it
  holds the next node.
\<close>

fun diff_domains :: "bool \<Rightarrow> bool \<Rightarrow> nat list \<Rightarrow> ('f, 't) namedb \<Rightarrow> ('f, 't) namedb exec" where
  "diff_domains is_ixfr more_coming [] db = Ok db"
| "diff_domains is_ixfr more_coming (a # as) db =
     exec_bind (domain_diff db a is_ixfr more_coming) (\<lambda>db. diff_domains is_ixfr more_coming as db)"

fun trigger_loop :: "('f, 'k, 't) zone \<Rightarrow> nat \<Rightarrow> nat option \<Rightarrow> ('f, 't) namedb \<Rightarrow> ('f, 't) namedb exec" where
  "trigger_loop Z 0 x db = Fault"
| "trigger_loop Z (Suc n) x db =
    (case x of None \<Rightarrow> Ok db
     | Some a \<Rightarrow>
         exec_bind (next_of (dom_nodes Z db) a) (\<lambda>x.
         exec_bind (namedb_del_denial_trigger Z db a False) (\<lambda>(deleted, db).
         exec_bind (if deleted then Ok db else namedb_add_denial_trigger Z db a) (\<lambda>db.
         trigger_loop Z n x db))))"

definition first_node :: "nat list \<Rightarrow> nat option" where
  "first_node xs = (case xs of [] \<Rightarrow> None | x # _ \<Rightarrow> Some x)"

definition namedb_diff :: "('f, 'k, 't) zone \<Rightarrow> ('f, 't) namedb \<Rightarrow> bool \<Rightarrow> bool \<Rightarrow> ('f, 't) namedb exec" where
  "namedb_diff Z db is_ixfr more_coming =
    exec_bind (diff_domains is_ixfr more_coming (dom_nodes Z db) db) (\<lambda>db.
    trigger_loop Z (length (dom_nodes Z db) + 1) (first_node (dom_nodes Z db)) db)"

end
