(* ===== verification/Namedb_Inv.thy ===== *)
theory Namedb_Inv
  imports Namedb
begin

text \<open>
  What the database keeps: the trees are in order and agree with the store, every domain below
  the apex has its parent in the tree, and domains and denial points refer to each other.  From
  this the questions that the code asks of a domain by walking pointers are answered in terms of
  names.
\<close>

section \<open>Trees of addresses\<close>

definition tree_ok :: "('f \<Rightarrow> 'l::linorder list) \<Rightarrow> ('f \<times> nat) list \<Rightarrow> (nat \<Rightarrow> 'x option) \<Rightarrow> ('x \<Rightarrow> 'f) \<Rightarrow> bool" where
  "tree_ok path ns h name \<longleftrightarrow>
     names_sorted path ns \<and> (\<forall>m \<in> set ns. \<exists>x. h (snd m) = Some x \<and> name x = fst m)"

lemma tree_okD:
  assumes "tree_ok path ns h name" "a \<in> snd ` set ns"
  shows "h a \<noteq> None" "(name (the (h a)), a) \<in> set ns"
  using assms by (fastforce simp: tree_ok_def)+

lemma tree_ok_inj:
  assumes "tree_ok path ns h name" "a \<in> snd ` set ns" "b \<in> snd ` set ns" "path (name (the (h a))) = path (name (the (h b)))"
  shows "a = b"
proof -
  have "(name (the (h a)), a) \<in> set ns" "(name (the (h b)), b) \<in> set ns" using tree_okD(2) [OF assms(1)] assms(2,3) by auto
  moreover have i: "inj_on (\<lambda>n. path (fst n)) (set ns)"
    using names_sorted_distinct [of path ns] assms(1) by (simp add: tree_ok_def distinct_map)
  ultimately have "(name (the (h a)), a) = (name (the (h b)), b)"
    using assms(4) inj_onD [OF i, of "(name (the (h a)), a)" "(name (the (h b)), b)"] by simp
  then show ?thesis by simp
qed

lemma tree_ok_distinct: "tree_ok path ns h name \<Longrightarrow> distinct (map snd ns)"
proof -
  assume ok: "tree_ok path ns h name"
  have "inj_on snd (set ns)"
  proof (rule inj_onI)
    fix m n assume "m \<in> set ns" "n \<in> set ns" "snd m = snd n"
    then show "m = n" using ok by (metis tree_ok_def option.inject prod_eqI)
  qed
  moreover have "distinct ns" using names_sorted_distinct [of path ns] ok
    by (auto simp: tree_ok_def distinct_map)
  ultimately show ?thesis by (simp add: distinct_map)
qed

lemma tree_ok_order:
  assumes "tree_ok path ns h name" "map snd ns = as @ a # bs" "b \<in> set bs"
  shows "lex_cmp (path (name (the (h a)))) (path (name (the (h b)))) < 0"
proof -
  obtain xs m ys where ns: "ns = xs @ m # ys" "map snd xs = as" "snd m = a" "map snd ys = bs"
    using assms(2) by (auto simp: map_eq_append_conv Cons_eq_map_conv map_eq_Cons_conv)
  then obtain n where n: "n \<in> set ys" "snd n = b" using assms(3) by auto
  have "lex_cmp (path (fst m)) (path (fst n)) < 0" using assms(1) n ns by (auto simp: tree_ok_def names_sorted_append names_sorted_Cons)
  moreover have "name (the (h (snd k))) = fst k" if "k \<in> set ns" for k using assms(1) that by (fastforce simp: tree_ok_def)
  then have "name (the (h a)) = fst m" "name (the (h b)) = fst n" using n ns by auto
  ultimately show ?thesis by simp
qed

lemma tree_ok_cong:
  assumes "tree_ok path ns h name" "\<And>a. a \<in> snd ` set ns \<Longrightarrow> map_option name (h' a) = map_option name (h a)"
  shows "tree_ok path ns h' name"
  unfolding tree_ok_def
proof (intro conjI ballI)
  show "names_sorted path ns" using assms(1) by (simp add: tree_ok_def)
  fix m assume m: "m \<in> set ns"
  then obtain x where "h (snd m) = Some x" "name x = fst m" using assms(1) by (auto simp: tree_ok_def)
  then show "\<exists>x. h' (snd m) = Some x \<and> name x = fst m" using assms(2) [of "snd m"] m by auto
qed

section \<open>The state of a zone\<close>

definition dom_of :: "('f, 't) namedb \<Rightarrow> nat \<Rightarrow> 'f domain_struct" where
  "dom_of db a = the (dom_at db a)"

definition den_of :: "('f, 't) namedb \<Rightarrow> nat \<Rightarrow> 'f denial_struct" where
  "den_of db b = the (den_at db b)"

definition nm :: "('f \<Rightarrow> 'l list) \<Rightarrow> ('f, 't) namedb \<Rightarrow> nat \<Rightarrow> 'l list" where
  "nm path db a = path (dname (dom_of db a))"

abbreviation doms :: "('f, 'k, 't) zone \<Rightarrow> ('f, 't) namedb \<Rightarrow> nat set" where
  "doms Z db \<equiv> set (dom_nodes Z db)"

abbreviation dens :: "('f, 'k, 't) zone \<Rightarrow> ('f, 't) namedb \<Rightarrow> nat set" where
  "dens Z db \<equiv> set (den_nodes Z db)"

text \<open>The libraries keep their contracts, and the configuration says how existence is denied.\<close>

definition zone_ok :: "('f \<Rightarrow> 'l::linorder list) \<Rightarrow> ('f, 'k, 't) zone \<Rightarrow> bool" where
  "zone_ok path Z \<longleftrightarrow> rbtree_contract (z_rb Z) \<and> dname_contract (z_ldns Z) path \<and>
     (nsec_type (z_signconf Z) = LDNS_RR_TYPE_NSEC \<and> nsec3params (z_signconf Z) = None \<or>
      nsec_type (z_signconf Z) = LDNS_RR_TYPE_NSEC3 \<and> nsec3params (z_signconf Z) \<noteq> None)"

text \<open>The domains: the apex has no parent, the others have the name above as their parent.\<close>

definition place_ok :: "('f \<Rightarrow> 'l::linorder list) \<Rightarrow> ('f, 'k, 't) zone \<Rightarrow> ('f, 't) namedb \<Rightarrow> nat \<Rightarrow> bool" where
  "place_ok path Z db a \<longleftrightarrow>
     (if is_apex (dom_of db a) then nm path db a = path (z_apex Z) \<and> parent (dom_of db a) = None
      else strict_prefix (path (z_apex Z)) (nm path db a) \<and>
        (\<exists>p \<in> doms Z db. parent (dom_of db a) = Some p \<and> nm path db p = butlast (nm path db a)))"

definition domains_ok :: "('f \<Rightarrow> 'l::linorder list) \<Rightarrow> ('f, 'k, 't) zone \<Rightarrow> ('f, 't) namedb \<Rightarrow> bool" where
  "domains_ok path Z db \<longleftrightarrow>
     tree_ok path (rb_nodes (z_rb Z) (domains db)) (dom_at db) dname \<and>
     (\<forall>a \<in> doms Z db. place_ok path Z db a)"

lemma doms_image: "doms Z db = snd ` set (rb_nodes (z_rb Z) (domains db))"
  by (simp add: dom_nodes_def)

lemma dens_image: "dens Z db = snd ` set (rb_nodes (z_rb Z) (denials db))"
  by (simp add: den_nodes_def)

lemma dom_get: "domains_ok path Z db \<Longrightarrow> a \<in> doms Z db \<Longrightarrow> get (dom_at db) a = Ok (dom_of db a)"
  using tree_okD(1) [of path "rb_nodes (z_rb Z) (domains db)" "dom_at db" dname a]
  by (auto simp: domains_ok_def doms_image get_def dom_of_def split: option.splits)

lemma doms_distinct: "domains_ok path Z db \<Longrightarrow> distinct (dom_nodes Z db)"
  unfolding domains_ok_def dom_nodes_def by (blast intro: tree_ok_distinct)

lemma nm_inj: "domains_ok path Z db \<Longrightarrow> a \<in> doms Z db \<Longrightarrow> b \<in> doms Z db \<Longrightarrow> nm path db a = nm path db b \<Longrightarrow> a = b"
  using tree_ok_inj [of path "rb_nodes (z_rb Z) (domains db)" "dom_at db" dname a b]
  by (simp add: domains_ok_def doms_image nm_def dom_of_def)

lemma doms_order:
  "domains_ok path Z db \<Longrightarrow> dom_nodes Z db = as @ a # bs \<Longrightarrow> b \<in> set bs \<Longrightarrow> lex_cmp (nm path db a) (nm path db b) < 0"
  using tree_ok_order [of path "rb_nodes (z_rb Z) (domains db)" "dom_at db" dname as a bs b]
  by (simp add: domains_ok_def dom_nodes_def nm_def dom_of_def)

lemma place_apex: "domains_ok path Z db \<Longrightarrow> a \<in> doms Z db \<Longrightarrow> prefix (path (z_apex Z)) (nm path db a)"
  unfolding domains_ok_def place_ok_def by (metis prefix_order.refl prefix_order.less_imp_le)

lemma apex_iff: "domains_ok path Z db \<Longrightarrow> a \<in> doms Z db \<Longrightarrow> is_apex (dom_of db a) \<longleftrightarrow> nm path db a = path (z_apex Z)"
  unfolding domains_ok_def place_ok_def by (metis prefix_order.less_irrefl)

lemma apex_parent: "domains_ok path Z db \<Longrightarrow> a \<in> doms Z db \<Longrightarrow> is_apex (dom_of db a) \<Longrightarrow> parent (dom_of db a) = None"
  by (auto simp: domains_ok_def place_ok_def split: if_splits)

lemma place_parent:
  assumes "domains_ok path Z db" "a \<in> doms Z db" "\<not> is_apex (dom_of db a)"
  obtains p where "p \<in> doms Z db" "parent (dom_of db a) = Some p" "nm path db p = butlast (nm path db a)"
    "strict_prefix (nm path db p) (nm path db a)"
proof -
  have *: "strict_prefix (path (z_apex Z)) (nm path db a)" "\<exists>p \<in> doms Z db. parent (dom_of db a) = Some p \<and> nm path db p = butlast (nm path db a)"
    using assms by (auto simp: domains_ok_def place_ok_def)
  then have "nm path db a \<noteq> []" by auto
  then have "strict_prefix (butlast (nm path db a)) (nm path db a)"
    by (metis append_butlast_last_id strict_prefixI')
  with * show ?thesis using that by force
qed

text \<open>A name above another is above its parent, or is the parent.\<close>

lemma lex_cmp_strict: "strict_prefix xs ys \<Longrightarrow> lex_cmp xs ys < 0"
  by (simp add: strict_prefix_def lex_cmp_prefix)

lemma strict_prefix_butlast: "strict_prefix xs ys \<longleftrightarrow> ys \<noteq> [] \<and> prefix xs (butlast ys)"
  by (metis append_butlast_last_id butlast.simps(1) prefix_bot.extremum_uniqueI prefix_order.dual_order.strict_trans1 prefix_order.less_le prefix_snoc strict_prefixI' strict_prefix_simps(1))

section \<open>Names above and below\<close>

definition above :: "('f \<Rightarrow> 'l::linorder list) \<Rightarrow> ('f, 'k, 't) zone \<Rightarrow> ('f, 't) namedb \<Rightarrow> nat \<Rightarrow> nat set" where
  "above path Z db a = {p \<in> doms Z db. strict_prefix (nm path db p) (nm path db a)}"

text \<open>A domain that delegates or redirects what is below it, and a domain below such a domain.\<close>

definition cuts :: "('f, 't) namedb \<Rightarrow> nat \<Rightarrow> bool" where
  "cuts db p \<longleftrightarrow> \<not> is_apex (dom_of db p) \<and>
     (has_type LDNS_RR_TYPE_NS (dom_of db p) \<or> has_type LDNS_RR_TYPE_DNAME (dom_of db p))"

definition occl :: "('f \<Rightarrow> 'l::linorder list) \<Rightarrow> ('f, 'k, 't) zone \<Rightarrow> ('f, 't) namedb \<Rightarrow> nat \<Rightarrow> bool" where
  "occl path Z db a \<longleftrightarrow> (\<exists>p \<in> above path Z db a. cuts db p)"

lemma above_apex: "domains_ok path Z db \<Longrightarrow> a \<in> doms Z db \<Longrightarrow> is_apex (dom_of db a) \<Longrightarrow> above path Z db a = {}"
  using place_apex [of path Z db] by (auto simp: above_def apex_iff prefix_order.less_le_not_le)

lemma above_parent:
  assumes "domains_ok path Z db" "a \<in> doms Z db" "p \<in> doms Z db" "nm path db p = butlast (nm path db a)" "nm path db a \<noteq> []"
  shows "above path Z db a = insert p (above path Z db p)" "p \<notin> above path Z db p"
proof -
  have "strict_prefix (nm path db q) (nm path db a) \<longleftrightarrow> strict_prefix (nm path db q) (nm path db p) \<or> nm path db q = nm path db p" for q
    using assms(4,5) by (auto simp: strict_prefix_butlast [of _ "nm path db a"] prefix_order.le_less)
  then show "above path Z db a = insert p (above path Z db p)" using assms(1,3) nm_inj [OF assms(1)] by (auto simp: above_def)
  show "p \<notin> above path Z db p" by (simp add: above_def)
qed

lemma finite_above [simp]: "finite (above path Z db a)"
  by (simp add: above_def)

lemma card_above_parent:
  assumes "domains_ok path Z db" "a \<in> doms Z db" "p \<in> doms Z db" "nm path db p = butlast (nm path db a)" "nm path db a \<noteq> []"
  shows "card (above path Z db a) = Suc (card (above path Z db p))"
  using above_parent [OF assms] by simp

lemma card_above: "a \<in> doms Z db \<Longrightarrow> card (above path Z db a) < length (dom_nodes Z db)"
proof -
  assume a: "a \<in> doms Z db"
  then have "above path Z db a \<subset> doms Z db" by (auto simp: above_def)
  then show ?thesis using psubset_card_mono card_length [of "dom_nodes Z db"] by (metis List.finite_set order_less_le_trans)
qed

lemma occluded_loop_eval:
  assumes "domains_ok path Z db" "p \<in> doms Z db" "card (above path Z db p) < n"
  shows "\<exists>x. occluded_loop (dom_at db) n (Some p) = Ok x \<and> x \<in> {LDNS_RR_TYPE_SOA, LDNS_RR_TYPE_A, LDNS_RR_TYPE_DNAME} \<and>
    (x = LDNS_RR_TYPE_SOA \<longleftrightarrow> \<not> cuts db p \<and> \<not> occl path Z db p)"
  using assms(2,3)
proof (induction n arbitrary: p)
  case (Suc n)
  note g = dom_get [OF assms(1) Suc.prems(1)]
  note l = domain_lookup_rrset_iff [of LDNS_RR_TYPE_NS "dom_of db p"] domain_lookup_rrset_iff [of LDNS_RR_TYPE_DNAME "dom_of db p"]
  show ?case
  proof (cases "is_apex (dom_of db p) \<or> cuts db p")
    case True
    then show ?thesis using g l above_apex [OF assms(1) Suc.prems(1)] by (auto simp: cuts_def occl_def)
  next
    case False
    then obtain q where q: "q \<in> doms Z db" "parent (dom_of db p) = Some q" "nm path db q = butlast (nm path db p)"
      "strict_prefix (nm path db q) (nm path db p)"
      using place_parent [OF assms(1) Suc.prems(1)] by blast
    have ne: "nm path db p \<noteq> []" using q(4) by auto
    have c: "card (above path Z db q) < n" using card_above_parent [OF assms(1) Suc.prems(1) q(1,3) ne] Suc.prems(2) by simp
    have "occl path Z db p \<longleftrightarrow> cuts db q \<or> occl path Z db q"
      using above_parent(1) [OF assms(1) Suc.prems(1) q(1,3) ne] by (auto simp: occl_def)
    then show ?thesis using Suc.IH [OF q(1) c] False g l q(2) by (auto simp: cuts_def)
  qed
qed simp

text \<open>\<^verbatim>\<open>domain_is_occluded\<close> answers whether a domain is below a delegation or a DNAME.\<close>

lemma domain_is_occluded_eval:
  assumes "domains_ok path Z db" "a \<in> doms Z db"
  obtains x where "domain_is_occluded Z db a = Ok x" "x \<in> {LDNS_RR_TYPE_SOA, LDNS_RR_TYPE_A, LDNS_RR_TYPE_DNAME}"
    "x = LDNS_RR_TYPE_SOA \<longleftrightarrow> \<not> occl path Z db a"
proof (cases "is_apex (dom_of db a)")
  case True
  then show thesis using that [of LDNS_RR_TYPE_SOA] dom_get [OF assms] above_apex [OF assms]
    by (simp add: domain_is_occluded_def occl_def)
next
  case False
  then obtain q where q: "q \<in> doms Z db" "parent (dom_of db a) = Some q" "nm path db q = butlast (nm path db a)"
    "strict_prefix (nm path db q) (nm path db a)"
    using place_parent [OF assms] by blast
  have ne: "nm path db a \<noteq> []" using q(4) by auto
  have "card (above path Z db q) < length (dom_nodes Z db) + 1" using card_above [OF q(1), of path] by simp
  moreover have "occl path Z db a \<longleftrightarrow> cuts db q \<or> occl path Z db q"
    using above_parent(1) [OF assms q(1,3) ne] by (auto simp: occl_def)
  ultimately show thesis using that occluded_loop_eval [OF assms(1) q(1), of "length (dom_nodes Z db) + 1"] False dom_get [OF assms] q(2)
    by (auto simp: domain_is_occluded_def)
qed

section \<open>What follows in the tree\<close>

lemma next_of_append: "distinct (as @ a # bs) \<Longrightarrow> next_of (as @ a # bs) a = Ok (first_node bs)"
  by (induction as) (auto simp: first_node_def)

text \<open>
  A loop over the nodes of a tree that may delete nodes as it goes: before it looks at a node it
  fetches the next one.  It is safe as long as a step deletes no node that is still to come.
\<close>

locale tree_walk =
  fixes nodes :: "'s \<Rightarrow> nat list" and body :: "nat \<Rightarrow> 's \<Rightarrow> 's exec" and loop :: "nat \<Rightarrow> nat option \<Rightarrow> 's \<Rightarrow> 's exec"
    and inv :: "'s \<Rightarrow> bool" and settled :: "'s \<Rightarrow> nat \<Rightarrow> bool"
  assumes stop: "loop (Suc n) None s = Ok s"
    and go: "loop (Suc n) (Some a) s = exec_bind (next_of (nodes s) a) (\<lambda>x. exec_bind (body a s) (loop n x))"
    and inv_distinct: "inv s \<Longrightarrow> distinct (nodes s)"
    and step: "inv s \<Longrightarrow> nodes s = pre @ a # bs \<Longrightarrow> \<forall>c \<in> set pre. settled s c \<Longrightarrow>
      \<exists>s' pre'. body a s = Ok s' \<and> inv s' \<and> nodes s' = pre' @ bs \<and> (\<forall>c \<in> set pre'. settled s' c)"
begin

lemma walk_from:
  "inv s \<Longrightarrow> nodes s = pre @ post \<Longrightarrow> \<forall>c \<in> set pre. settled s c \<Longrightarrow> length post < n \<Longrightarrow>
    \<exists>s'. loop n (first_node post) s = Ok s' \<and> inv s' \<and> (\<forall>c \<in> set (nodes s'). settled s' c)"
proof (induction n arbitrary: s pre post)
  case (Suc n)
  show ?case
  proof (cases post)
    case Nil
    then show ?thesis using Suc.prems stop by (auto simp: first_node_def)
  next
    case (Cons a bs)
    then have ns: "nodes s = pre @ a # bs" using Suc.prems(2) by simp
    obtain s1 pre' where s1: "body a s = Ok s1" "inv s1" "nodes s1 = pre' @ bs" "\<forall>c \<in> set pre'. settled s1 c"
      using step [OF Suc.prems(1) ns Suc.prems(3)] by blast
    have "next_of (nodes s) a = Ok (first_node bs)"
      using next_of_append inv_distinct [OF Suc.prems(1)] unfolding ns by blast
    then have "loop (Suc n) (first_node post) s = loop n (first_node bs) s1"
      using s1(1) Cons by (simp add: first_node_def go)
    then show ?thesis using Suc.IH [OF s1(2-4)] Suc.prems(4) Cons by simp
  qed
qed simp

lemma walk_all:
  "inv s \<Longrightarrow> \<exists>s'. loop (length (nodes s) + 1) (first_node (nodes s)) s = Ok s' \<and> inv s' \<and> (\<forall>c \<in> set (nodes s'). settled s' c)"
  using walk_from [of s "[]" "nodes s" "length (nodes s) + 1"] by simp

end

lemma split_at: "a \<in> doms Z db \<Longrightarrow> \<exists>as bs. dom_nodes Z db = as @ a # bs"
  by (rule split_list)

lemma not_below_before:
  assumes "domains_ok path Z db" "dom_nodes Z db = as @ a # bs" "c \<in> set as"
  shows "\<not> strict_prefix (nm path db a) (nm path db c)"
proof
  assume p: "strict_prefix (nm path db a) (nm path db c)"
  obtain xs ys where "as = xs @ c # ys" using split_list [OF assms(3)] by blast
  then have "lex_cmp (nm path db c) (nm path db a) < 0" using doms_order [OF assms(1), of xs c "ys @ a # bs" a] assms(2) by simp
  then show False using lex_cmp_strict [OF p] lex_cmp_sym [of "nm path db a" "nm path db c"] by simp
qed

text \<open>The names under a name follow it at once.\<close>

lemma below_follow:
  assumes ok: "domains_ok path Z db" and ns: "dom_nodes Z db = as @ a # b # bs" and c: "c \<in> doms Z db"
    and pre: "strict_prefix (nm path db a) (nm path db c)"
  shows "strict_prefix (nm path db a) (nm path db b)"
proof -
  have ab: "lex_cmp (nm path db a) (nm path db b) < 0" using doms_order [OF ok ns, of b] by simp
  have "c \<notin> set as" using not_below_before [OF ok ns] pre by blast
  then have "c = b \<or> c \<in> set bs" using c ns pre by auto
  then have "lex_cmp (nm path db b) (nm path db c) \<le> 0" using doms_order [OF ok, of "as @ [a]" b bs c] ns by auto
  then have "prefix (nm path db a) (nm path db b)"
    using lex_cmp_between [of "nm path db a" "nm path db b" "nm path db c"] ab pre by (simp add: strict_prefix_def)
  then show ?thesis using ab by (auto simp: strict_prefix_def)
qed

definition empt :: "('f \<Rightarrow> 'l::linorder list) \<Rightarrow> ('f, 'k, 't) zone \<Rightarrow> ('f, 't) namedb \<Rightarrow> nat \<Rightarrow> bool" where
  "empt path Z db a \<longleftrightarrow> \<not> is_apex (dom_of db a) \<and> rrsets (dom_of db a) = [] \<and>
     (\<forall>c \<in> doms Z db. \<not> strict_prefix (nm path db a) (nm path db c))"

lemma subdomain_nm:
  assumes "zone_ok path Z" "domains_ok path Z db" "a \<in> doms Z db" "b \<in> doms Z db" "a \<noteq> b"
  shows "dname_is_subdomain (z_ldns Z) (dname (dom_of db b)) (dname (dom_of db a)) \<longleftrightarrow> strict_prefix (nm path db a) (nm path db b)"
proof -
  have "path (dname (dom_of db b)) \<noteq> path (dname (dom_of db a))" using nm_inj [OF assms(2-4)] assms(5) by (auto simp: nm_def)
  moreover have "dname_contract (z_ldns Z) path" using assms(1) by (simp add: zone_ok_def)
  ultimately show ?thesis using dname_subdomain [of "z_ldns Z" path "dname (dom_of db b)" "dname (dom_of db a)"]
    by (auto simp: nm_def strict_prefix_def)
qed

lemma domain_is_empty_terminal_eval:
  assumes "zone_ok path Z" "domains_ok path Z db" "a \<in> doms Z db"
  shows "domain_is_empty_terminal Z db a = Ok (empt path Z db a)"
proof -
  obtain as bs where ns: "dom_nodes Z db = as @ a # bs" using split_at [OF assms(3)] by blast
  have dist: "distinct (as @ a # bs)" using doms_distinct [OF assms(2)] ns by simp
  note nx = next_of_append [OF dist]
  show ?thesis
  proof (cases "is_apex (dom_of db a) \<or> rrsets (dom_of db a) \<noteq> []")
    case True
    then show ?thesis using dom_get [OF assms(2,3)] by (auto simp: domain_is_empty_terminal_def empt_def)
  next
    case False
    show ?thesis
    proof (cases bs)
      case Nil
      have "\<not> strict_prefix (nm path db a) (nm path db c)" if "c \<in> doms Z db" for c
        using not_below_before [OF assms(2) ns, of c] that ns Nil by auto
      then show ?thesis using False dom_get [OF assms(2,3)] nx ns Nil
        by (auto simp: domain_is_empty_terminal_def empt_def first_node_def)
    next
      case (Cons b bs')
      then have b: "b \<in> doms Z db" "a \<noteq> b" using ns dist by auto
      have "strict_prefix (nm path db a) (nm path db b) \<longleftrightarrow> (\<exists>c \<in> doms Z db. strict_prefix (nm path db a) (nm path db c))"
        using below_follow [OF assms(2), of as a b bs'] ns Cons b(1) by auto
      then show ?thesis using False dom_get [OF assms(2,3)] dom_get [OF assms(2) b(1)] nx ns Cons
          subdomain_nm [OF assms b] by (auto simp: domain_is_empty_terminal_def empt_def first_node_def)
    qed
  qed
qed

lemma below_between:
  assumes ok: "domains_ok path Z db" and ns: "dom_nodes Z db = as @ a # ms @ b # bs" and c: "c \<in> set bs"
    and pre: "strict_prefix (nm path db a) (nm path db c)"
  shows "strict_prefix (nm path db a) (nm path db b)"
proof -
  have ab: "lex_cmp (nm path db a) (nm path db b) < 0" using doms_order [OF ok ns, of b] by simp
  have "lex_cmp (nm path db b) (nm path db c) < 0" using doms_order [OF ok, of "as @ a # ms" b bs c] ns c by simp
  then have "prefix (nm path db a) (nm path db b)"
    using lex_cmp_between [of "nm path db a" "nm path db b" "nm path db c"] ab pre by (simp add: strict_prefix_def)
  then show ?thesis using ab by (auto simp: strict_prefix_def)
qed

text \<open>Data of the zone itself, and an empty name with nothing but unsigned delegations below.\<close>

definition auth :: "('f \<Rightarrow> 'l::linorder list) \<Rightarrow> ('f, 'k, 't) zone \<Rightarrow> ('f, 't) namedb \<Rightarrow> nat \<Rightarrow> bool" where
  "auth path Z db c \<longleftrightarrow>
     rrsets (dom_of db c) \<noteq> [] \<and> domain_is_delegpt (dom_of db c) \<noteq> LDNS_RR_TYPE_NS \<and> \<not> occl path Z db c"

definition ent2 :: "('f \<Rightarrow> 'l::linorder list) \<Rightarrow> ('f, 'k, 't) zone \<Rightarrow> ('f, 't) namedb \<Rightarrow> nat \<Rightarrow> bool" where
  "ent2 path Z db a \<longleftrightarrow> rrsets (dom_of db a) = [] \<and>
     (\<forall>c \<in> doms Z db. strict_prefix (nm path db a) (nm path db c) \<longrightarrow> \<not> auth path Z db c)"

lemma ent2_loop_eval:
  assumes z: "zone_ok path Z" and ok: "domains_ok path Z db" and "dom_nodes Z db = as @ a # ms @ bs" "length bs < k"
  shows "ent2_loop Z db (dname (dom_of db a)) k (first_node bs) =
    Ok (\<forall>c \<in> set bs. strict_prefix (nm path db a) (nm path db c) \<longrightarrow> \<not> auth path Z db c)"
  using assms(3,4)
proof (induction bs arbitrary: ms k)
  case Nil
  then show ?case by (cases k) (simp_all add: first_node_def)
next
  case (Cons b bs)
  obtain j where k: "k = Suc j" using Cons.prems(2) by (cases k) auto
  have in_ns: "a \<in> doms Z db" "b \<in> doms Z db" "a \<noteq> b" using Cons.prems(1) doms_distinct [OF ok] by auto
  note sub = subdomain_nm [OF z ok in_ns]
  note g = dom_get [OF ok in_ns(2)]
  obtain x where x: "domain_is_occluded Z db b = Ok x" "x = LDNS_RR_TYPE_SOA \<longleftrightarrow> \<not> occl path Z db b"
    using domain_is_occluded_eval [OF ok in_ns(2)] by metis
  have "distinct ((as @ a # ms) @ b # bs)" using Cons.prems(1) doms_distinct [OF ok] by simp
  then have nx: "next_of (dom_nodes Z db) b = Ok (first_node bs)"
    using next_of_append [of "as @ a # ms" b bs] Cons.prems(1) by simp
  show ?case
  proof (cases "strict_prefix (nm path db a) (nm path db b)")
    case False
    then have "\<not> strict_prefix (nm path db a) (nm path db c)" if "c \<in> set bs" for c
      using below_between [OF ok Cons.prems(1) that] by blast
    then show ?thesis using False g sub k by (auto simp: first_node_def)
  next
    case True
    have IH: "ent2_loop Z db (dname (dom_of db a)) j (first_node bs) =
        Ok (\<forall>c \<in> set bs. strict_prefix (nm path db a) (nm path db c) \<longrightarrow> \<not> auth path Z db c)"
      using Cons.IH [of "ms @ [b]" j] Cons.prems k by simp
    show ?thesis using True g sub k x nx IH by (auto simp: first_node_def [of "b # bs"] auth_def)
  qed
qed

lemma domain_ent2unsignedns_eval:
  assumes "zone_ok path Z" "domains_ok path Z db" "a \<in> doms Z db"
  shows "domain_ent2unsignedns Z db a = Ok (ent2 path Z db a)"
proof -
  obtain as bs where ns: "dom_nodes Z db = as @ a # bs" using split_at [OF assms(3)] by blast
  have dist: "distinct (as @ a # bs)" using doms_distinct [OF assms(2)] ns by simp
  note before = not_below_before [OF assms(2) ns]
  have "ent2_loop Z db (dname (dom_of db a)) (length (dom_nodes Z db) + 1) (first_node bs) =
      Ok (\<forall>c \<in> set bs. strict_prefix (nm path db a) (nm path db c) \<longrightarrow> \<not> auth path Z db c)"
    using ent2_loop_eval [OF assms(1,2), of as a "[]" bs "length (dom_nodes Z db) + 1"] ns by simp
  moreover have "(\<forall>c \<in> set bs. strict_prefix (nm path db a) (nm path db c) \<longrightarrow> \<not> auth path Z db c) \<longleftrightarrow>
      (\<forall>c \<in> doms Z db. strict_prefix (nm path db a) (nm path db c) \<longrightarrow> \<not> auth path Z db c)"
    using before by (auto simp: ns)
  ultimately show ?thesis using dom_get [OF assms(2,3)] next_of_append [OF dist] ns
    by (simp add: domain_ent2unsignedns_def ent2_def)
qed

section \<open>Which domains have a denial point\<close>

definition wanted :: "('f \<Rightarrow> 'l::linorder list) \<Rightarrow> ('f, 'k, 't) zone \<Rightarrow> ('f, 't) namedb \<Rightarrow> nat \<Rightarrow> bool" where
  "wanted path Z db a \<longleftrightarrow> \<not> occl path Z db a \<and>
     (case nsec3params (z_signconf Z) of
        None \<Rightarrow> rrsets (dom_of db a) \<noteq> []
      | Some n3p \<Rightarrow> n3_flags n3p \<noteq> 0 \<longrightarrow>
          domain_is_delegpt (dom_of db a) \<noteq> LDNS_RR_TYPE_NS \<and> \<not> ent2 path Z db a)"

lemma del_trigger_eval:
  assumes "zone_ok path Z" "domains_ok path Z db" "a \<in> doms Z db"
  shows "del_trigger Z db a = (if \<not> wanted path Z db a \<or> empt path Z db a then del_point Z db a else Ok db)"
proof -
  obtain x where x: "domain_is_occluded Z db a = Ok x" "x \<in> {LDNS_RR_TYPE_SOA, LDNS_RR_TYPE_A, LDNS_RR_TYPE_DNAME}"
    "x = LDNS_RR_TYPE_SOA \<longleftrightarrow> \<not> occl path Z db a"
    using domain_is_occluded_eval [OF assms(2,3)] by blast
  have occ: "x = LDNS_RR_TYPE_DNAME \<or> x = LDNS_RR_TYPE_A \<longleftrightarrow> occl path Z db a" using x(2,3) by auto
  note ev = x(1) domain_is_empty_terminal_eval [OF assms] domain_ent2unsignedns_eval [OF assms] dom_get [OF assms(2,3)]
  show ?thesis
  proof (cases "nsec3params (z_signconf Z)")
    case None
    then have "nsec_type (z_signconf Z) = LDNS_RR_TYPE_NSEC" using assms(1) by (auto simp: zone_ok_def)
    then show ?thesis using occ None by (auto simp: del_trigger_def namedb_del_nsec_trigger_def ev wanted_def)
  next
    case (Some n3p)
    then have "nsec_type (z_signconf Z) = LDNS_RR_TYPE_NSEC3" using assms(1) by (auto simp: zone_ok_def)
    then show ?thesis using occ Some
      by (cases "domain_is_delegpt (dom_of db a) = LDNS_RR_TYPE_NS"; cases "n3_flags n3p = 0")
        (auto simp: del_trigger_def namedb_del_nsec3_trigger_def ev wanted_def)
  qed
qed

lemma add_trigger_eval:
  assumes "zone_ok path Z" "domains_ok path Z db" "a \<in> doms Z db"
  shows "namedb_add_denial_trigger Z db a =
    (if denial (dom_of db a) = None \<and> wanted path Z db a then add_point Z db a (nsec3params (z_signconf Z)) else Ok db)"
proof -
  obtain x where x: "domain_is_occluded Z db a = Ok x" "x \<in> {LDNS_RR_TYPE_SOA, LDNS_RR_TYPE_A, LDNS_RR_TYPE_DNAME}"
    "x = LDNS_RR_TYPE_SOA \<longleftrightarrow> \<not> occl path Z db a"
    using domain_is_occluded_eval [OF assms(2,3)] by blast
  have occ: "x = LDNS_RR_TYPE_DNAME \<or> x = LDNS_RR_TYPE_A \<longleftrightarrow> occl path Z db a" using x(2,3) by auto
  note ev = x(1) domain_ent2unsignedns_eval [OF assms] dom_get [OF assms(2,3)]
  show ?thesis
  proof (cases "nsec3params (z_signconf Z)")
    case None
    then have "nsec_type (z_signconf Z) = LDNS_RR_TYPE_NSEC" using assms(1) by (auto simp: zone_ok_def)
    then show ?thesis using occ None by (auto simp: namedb_add_denial_trigger_def namedb_add_nsec_trigger_def ev wanted_def)
  next
    case (Some n3p)
    then have "nsec_type (z_signconf Z) = LDNS_RR_TYPE_NSEC3" using assms(1) by (auto simp: zone_ok_def)
    then show ?thesis using occ Some
      by (cases "domain_is_delegpt (dom_of db a) = LDNS_RR_TYPE_NS"; cases "n3_flags n3p = 0")
        (auto simp: namedb_add_denial_trigger_def namedb_add_nsec3_trigger_def ev wanted_def)
  qed
qed

end
