(* ===== verification/Denial.thy ===== *)
theory Denial
  imports Namedb_Inv
begin

text \<open>
  NSEC and NSEC3 records, \<^verbatim>\<open>signer/src/signer/denial.c\<close> and \<^verbatim>\<open>namedb_nsecify\<close>: the record of a denial
  point names the next point and lists the types at its domain.  The array of types has room for
  65536 types; the model has no such bound.
\<close>

section \<open>Model\<close>

definition denial_create_bitmap :: "('f, 'k, 't) zone \<Rightarrow> ('f, 't) namedb \<Rightarrow> nat \<Rightarrow> u16 list exec" where
  "denial_create_bitmap Z db a =
    exec_bind (get (dom_at db) a) (\<lambda>d.
    if rrsets d = [] then Ok []
    else exec_bind (domain_is_occluded Z db a) (\<lambda>dstatus.
      Ok (if dstatus = LDNS_RR_TYPE_SOA
          then map rrtype (filter (\<lambda>r. domain_is_delegpt d = LDNS_RR_TYPE_SOA \<or>
            rrtype r = LDNS_RR_TYPE_NS \<or> rrtype r = LDNS_RR_TYPE_DS) (rrsets d))
          else [])))"

definition denial_create_nsec3_nxt :: "'f ldns \<Rightarrow> 'f \<Rightarrow> 'f option exec" where
  "denial_create_nsec3_nxt L nxt =
    (case dname_label L nxt 0 of None \<Rightarrow> Ok None
     | Some label \<Rightarrow>
         (case rdf2str L label of None \<Rightarrow> Ok None
          | Some s \<Rightarrow>
              if s = [] then Fault
              else Ok (str2rdf_b32_ext L (if last s = CHR ''.'' then butlast s else s))))"

definition create_nxt :: "('f, 'k, 't) zone \<Rightarrow> 'f \<Rightarrow> 'f option exec" where
  "create_nxt Z nxt = (if nsec3params (z_signconf Z) = None then Ok (Some nxt) else denial_create_nsec3_nxt (z_ldns Z) nxt)"

text \<open>The types added at the end of the list.\<close>

definition own_types :: "('f, 'k, 't) zone \<Rightarrow> ('f, 't) namedb \<Rightarrow> nat \<Rightarrow> u16 list exec" where
  "own_types Z db a =
    (if nsec3params (z_signconf Z) = None then Ok [LDNS_RR_TYPE_RRSIG, LDNS_RR_TYPE_NSEC]
     else exec_bind (get (dom_at db) a) (\<lambda>d.
       exec_bind (domain_is_occluded Z db a) (\<lambda>dstatus.
       Ok (if dstatus = LDNS_RR_TYPE_SOA \<and> domain_is_delegpt d \<noteq> LDNS_RR_TYPE_NS \<and> rrsets d \<noteq> []
           then [LDNS_RR_TYPE_RRSIG] else []))))"

definition nsec_rrtype :: "('f, 'k, 't) zone \<Rightarrow> u16" where
  "nsec_rrtype Z = (if nsec3params (z_signconf Z) = None then LDNS_RR_TYPE_NSEC else LDNS_RR_TYPE_NSEC3)"

definition param_rdfs :: "('f, 'k, 't) zone \<Rightarrow> 'f list" where
  "param_rdfs Z =
    (case nsec3params (z_signconf Z) of None \<Rightarrow> []
     | Some n3p \<Rightarrow> nsec3_param_rdfs (z_ldns Z) (n3_algorithm n3p) (n3_flags n3p) (n3_iterations n3p) (n3_salt n3p))"

definition denial_create_nsec :: "('f, 'k, 't) zone \<Rightarrow> ('f, 't) namedb \<Rightarrow> 'f denial_struct \<Rightarrow> 'f \<Rightarrow> 'f ldns_rr option exec" where
  "denial_create_nsec Z db e nxt =
    exec_bind (create_nxt Z nxt) (\<lambda>f.
    case f of None \<Rightarrow> Ok None
    | Some f \<Rightarrow>
        (case d_domain e of None \<Rightarrow> Abort
         | Some a \<Rightarrow>
             exec_bind (denial_create_bitmap Z db a) (\<lambda>types.
             exec_bind (own_types Z db a) (\<lambda>own.
             Ok (case create_nsec_bitmap (z_ldns Z) (types @ own) (nsec_rrtype Z) of None \<Rightarrow> None
                 | Some g \<Rightarrow> Some \<lparr>rr_owner = d_dname e, rr_get_type = nsec_rrtype Z, rr_ttl = z_default_ttl Z,
                     rr_class = z_klass Z, rr_rdfs = param_rdfs Z @ [f, g]\<rparr>)))))"

definition denial_add_rr :: "('f, 'k, 't) zone \<Rightarrow> ('f, 't) namedb \<Rightarrow> nat \<Rightarrow> 'f ldns_rr \<Rightarrow> ('f, 't) namedb exec" where
  "denial_add_rr Z db b rr =
    exec_bind (get (den_at db) b) (\<lambda>e.
    case (case d_rrset e of Some r \<Rightarrow> Some r | None \<Rightarrow> rrset_create (nsec_rrtype Z)) of
      None \<Rightarrow> Abort
    | Some r \<Rightarrow>
        exec_bind (rrset_add_rr r rr) (\<lambda>r.
        exec_bind (denial_diff (set_den db b (e\<lparr>d_rrset := Some r\<rparr>)) b) (\<lambda>db.
        exec_bind (get (den_at db) b) (\<lambda>e.
        Ok (set_den db b (e\<lparr>bitmap_changed := False, nxt_changed := False\<rparr>))))))"

definition denial_nsecify ::
  "('f, 'k, 't) zone \<Rightarrow> ('f, 't) namedb \<Rightarrow> nat \<Rightarrow> nat \<Rightarrow> u32 \<Rightarrow> (('f, 't) namedb \<times> u32) exec" where
  "denial_nsecify Z db b c num_added =
    exec_bind (get (den_at db) b) (\<lambda>e.
    exec_bind (get (den_at db) c) (\<lambda>nxt.
    if nxt_changed e \<or> bitmap_changed e then
      exec_bind (denial_create_nsec Z db e (d_dname nxt)) (\<lambda>rr.
      case rr of None \<Rightarrow> Abort
      | Some rr \<Rightarrow> exec_bind (denial_add_rr Z db b rr) (\<lambda>db. Ok (db, num_added + 1)))
    else Ok (db, num_added)))"

text \<open>The loop of \<^verbatim>\<open>namedb_nsecify\<close>, which does not change the tree: after the last point comes the first.\<close>

fun nsecify_loop ::
  "('f, 'k, 't) zone \<Rightarrow> nat \<Rightarrow> nat list \<Rightarrow> ('f, 't) namedb \<Rightarrow> u32 \<Rightarrow> (('f, 't) namedb \<times> u32) exec" where
  "nsecify_loop Z first [] db n = Ok (db, n)"
| "nsecify_loop Z first (b # bs) db n =
     exec_bind (denial_nsecify Z db b (case bs of [] \<Rightarrow> first | c # _ \<Rightarrow> c) n) (\<lambda>(db, n).
     nsecify_loop Z first bs db n)"

definition namedb_nsecify :: "('f, 'k, 't) zone \<Rightarrow> ('f, 't) namedb \<Rightarrow> (('f, 't) namedb \<times> u32) exec" where
  "namedb_nsecify Z db = nsecify_loop Z (hd (den_nodes Z db)) (den_nodes Z db) db 0"

section \<open>The record that a point should have\<close>

definition listed_types :: "bool \<Rightarrow> 'f domain_struct \<Rightarrow> u16 list" where
  "listed_types n3 d =
    map rrtype (filter (\<lambda>r. domain_is_delegpt d = LDNS_RR_TYPE_SOA \<or>
      rrtype r = LDNS_RR_TYPE_NS \<or> rrtype r = LDNS_RR_TYPE_DS) (rrsets d)) @
    (if \<not> n3 then [LDNS_RR_TYPE_RRSIG, LDNS_RR_TYPE_NSEC]
     else if domain_is_delegpt d \<noteq> LDNS_RR_TYPE_NS \<and> rrsets d \<noteq> [] then [LDNS_RR_TYPE_RRSIG] else [])"

definition expected_nsec :: "('f, 'k, 't) zone \<Rightarrow> 'f domain_struct \<Rightarrow> 'f \<Rightarrow> 'f \<Rightarrow> 'f ldns_rr option" where
  "expected_nsec Z d n nxt =
    (case create_nxt Z nxt of
       Ok (Some f) \<Rightarrow>
         (case create_nsec_bitmap (z_ldns Z) (listed_types (nsec3params (z_signconf Z) \<noteq> None) d) (nsec_rrtype Z) of
            None \<Rightarrow> None
          | Some g \<Rightarrow> Some \<lparr>rr_owner = n, rr_get_type = nsec_rrtype Z, rr_ttl = z_default_ttl Z, rr_class = z_klass Z,
              rr_rdfs = param_rdfs Z @ [f, g]\<rparr>)
     | _ \<Rightarrow> None)"

text \<open>It depends on the domain only through the types there.\<close>

lemma has_type_cong: "map rrtype (rrsets d) = map rrtype (rrsets d') \<Longrightarrow> has_type t d = has_type t d'"
  by (metis (mono_tags, lifting) has_type_def image_iff list.set_map)

lemma delegpt_cong:
  "map rrtype (rrsets d) = map rrtype (rrsets d') \<Longrightarrow> is_apex d = is_apex d' \<Longrightarrow> domain_is_delegpt d = domain_is_delegpt d'"
  using has_type_cong [of d d'] by (simp add: domain_is_delegpt_eq)

lemma expected_nsec_cong:
  assumes "map rrtype (rrsets d) = map rrtype (rrsets d')" "is_apex d = is_apex d'"
  shows "expected_nsec Z d n m = expected_nsec Z d' n m"
proof -
  have "map rrtype (filter (\<lambda>r. P (rrtype r)) rs) = filter P (map rrtype rs)" for P and rs :: "'a rrset_struct list"
    by (simp add: filter_map comp_def)
  note f = this [where P = "\<lambda>t. _ \<or> t = LDNS_RR_TYPE_NS \<or> t = LDNS_RR_TYPE_DS"]
  have "rrsets d = [] \<longleftrightarrow> rrsets d' = []" using assms(1) by (metis map_is_Nil_conv)
  then have l: "listed_types n3 d = listed_types n3 d'" for n3
    using assms delegpt_cong [OF assms] unfolding listed_types_def f by simp
  show ?thesis unfolding expected_nsec_def l ..
qed

lemma denial_create_nsec_eval:
  assumes "domains_ok path Z db" "a \<in> doms Z db" "\<not> occl path Z db a" "d_domain e = Some a"
    "expected_nsec Z (dom_of db a) (d_dname e) n = Some rr"
  shows "denial_create_nsec Z db e n = Ok (Some rr)"
proof -
  have occ: "domain_is_occluded Z db a = Ok LDNS_RR_TYPE_SOA"
    using domain_is_occluded_eval [OF assms(1,2)] assms(3) by metis
  have g: "get (dom_at db) a = Ok (dom_of db a)" by (rule dom_get [OF assms(1,2)])
  obtain f where f: "create_nxt Z n = Ok (Some f)" using assms(5) by (auto simp: expected_nsec_def split: exec.splits option.splits)
  have "\<exists>ts os. denial_create_bitmap Z db a = Ok ts \<and> own_types Z db a = Ok os \<and>
      ts @ os = listed_types (nsec3params (z_signconf Z) \<noteq> None) (dom_of db a)"
    by (auto simp: denial_create_bitmap_def own_types_def listed_types_def g occ)
  then show ?thesis using assms(4,5) f
    by (auto simp: denial_create_nsec_def expected_nsec_def split: option.splits)
qed

end
