(* ===== verification/Namedb_Ok.thy ===== *)
theory Namedb_Ok
  imports Denial
begin

text \<open>
  The invariant of the database, and that adding and deleting denial points and deleting domains
  keep it.
\<close>

section \<open>The invariant\<close>

definition owner_of :: "('f, 'k, 't) zone \<Rightarrow> 'f \<Rightarrow> 'f option" where
  "owner_of Z n = (case nsec3params (z_signconf Z) of None \<Rightarrow> Some n | Some p \<Rightarrow> dname_hash (z_ldns Z) n (z_apex Z) p)"

text \<open>The names of the denial points can be computed and are different for different domains.\<close>

definition owners_ok :: "('f \<Rightarrow> 'l::linorder list) \<Rightarrow> ('f, 'k, 't) zone \<Rightarrow> ('f, 't) namedb \<Rightarrow> bool" where
  "owners_ok path Z db \<longleftrightarrow>
     (\<forall>a \<in> doms Z db. owner_of Z (dname (dom_of db a)) \<noteq> None) \<and>
     (\<forall>a \<in> doms Z db. \<forall>b \<in> doms Z db.
        path (the (owner_of Z (dname (dom_of db a)))) = path (the (owner_of Z (dname (dom_of db b)))) \<longrightarrow> a = b)"

definition links_ok :: "('f, 'k, 't) zone \<Rightarrow> ('f, 't) namedb \<Rightarrow> bool" where
  "links_ok Z db \<longleftrightarrow>
     (\<forall>b \<in> dens Z db. \<exists>a \<in> doms Z db. d_domain (den_of db b) = Some a \<and> denial (dom_of db a) = Some b \<and>
        owner_of Z (dname (dom_of db a)) = Some (d_dname (den_of db b))) \<and>
     (\<forall>a \<in> doms Z db. \<forall>b. denial (dom_of db a) = Some b \<longrightarrow> b \<in> dens Z db \<and> d_domain (den_of db b) = Some a)"

definition den_rrset_ok :: "('f, 'k, 't) zone \<Rightarrow> 'f denial_struct \<Rightarrow> bool" where
  "den_rrset_ok Z e \<longleftrightarrow>
     (case d_rrset e of None \<Rightarrow> True
      | Some r \<Rightarrow> rrtype r = nsec_rrtype Z \<and> length (rrs r) \<le> 1 \<and> (\<forall>x \<in> set (rrs r). \<not> is_added x))"

text \<open>Each node with the node after it, the last one with the first.\<close>

definition cyc :: "nat list \<Rightarrow> (nat \<times> nat) set" where
  "cyc xs = set (zip xs (tl xs)) \<union> (if xs = [] then {} else {(last xs, hd xs)})"

text \<open>A point that is not marked as changed has the record that it should have.\<close>

definition current :: "('f, 'k, 't) zone \<Rightarrow> ('f, 't) namedb \<Rightarrow> nat \<Rightarrow> nat \<Rightarrow> bool" where
  "current Z db b c \<longleftrightarrow>
     (\<exists>r x. d_rrset (den_of db b) = Some r \<and> rrs r = [x] \<and> rr_exists x \<and>
        expected_nsec Z (dom_of db (the (d_domain (den_of db b)))) (d_dname (den_of db b)) (d_dname (den_of db c)) =
          Some (the_rr x))"

definition tracked :: "('f, 'k, 't) zone \<Rightarrow> ('f, 't) namedb \<Rightarrow> bool" where
  "tracked Z db \<longleftrightarrow>
     (\<forall>(b, c) \<in> cyc (den_nodes Z db). nxt_changed (den_of db b) \<or> bitmap_changed (den_of db b) \<or> current Z db b c)"

definition db_ok :: "('f \<Rightarrow> 'l::linorder list) \<Rightarrow> ('f, 'k, 't) zone \<Rightarrow> ('f, 't) namedb \<Rightarrow> bool" where
  "db_ok path Z db \<longleftrightarrow>
     domains_ok path Z db \<and> (\<forall>a \<in> doms Z db. rrsets_ok (rrsets (dom_of db a))) \<and>
     tree_ok path (rb_nodes (z_rb Z) (denials db)) (den_at db) d_dname \<and> links_ok Z db \<and>
     (\<forall>b \<in> dens Z db. den_rrset_ok Z (den_of db b)) \<and>
     (\<forall>a \<in> doms Z db \<union> dens Z db. a < fresh db) \<and>
     ixfr_ok (is_initialized db) (ixfr db) \<and> tracked Z db"

lemma db_okD:
  assumes "db_ok path Z db"
  shows "domains_ok path Z db" "\<And>a. a \<in> doms Z db \<Longrightarrow> rrsets_ok (rrsets (dom_of db a))"
    "tree_ok path (rb_nodes (z_rb Z) (denials db)) (den_at db) d_dname" "links_ok Z db"
    "\<And>b. b \<in> dens Z db \<Longrightarrow> den_rrset_ok Z (den_of db b)" "\<And>a. a \<in> doms Z db \<union> dens Z db \<Longrightarrow> a < fresh db"
    "ixfr_ok (is_initialized db) (ixfr db)" "tracked Z db"
  using assms by (simp_all add: db_ok_def)

section \<open>Neighbours\<close>

lemma set_zip_tl_append:
  "set (zip (xs @ ys) (tl (xs @ ys))) =
     set (zip xs (tl xs)) \<union> set (zip ys (tl ys)) \<union> (if xs = [] \<or> ys = [] then {} else {(last xs, hd ys)})"
proof (induction xs)
  case (Cons x xs)
  then show ?case by (cases xs; cases ys) auto
qed simp

definition prev_in :: "nat list \<Rightarrow> nat \<Rightarrow> nat list \<Rightarrow> nat" where
  "prev_in xs b ys = (if xs = [] then last (b # ys) else last xs)"

lemma cyc_insert: "(u, v) \<in> cyc (xs @ b # ys) \<Longrightarrow> u = b \<or> u = prev_in xs b ys \<or> (u, v) \<in> cyc (xs @ ys)"
  unfolding cyc_def prev_in_def set_zip_tl_append
  by (cases ys; cases "xs = []") (auto split: if_splits)

lemma cyc_delete: "(u, v) \<in> cyc (xs @ ys) \<Longrightarrow> u = prev_in xs b ys \<or> (u, v) \<in> cyc (xs @ b # ys)"
  unfolding cyc_def prev_in_def set_zip_tl_append
  by (cases ys; cases "xs = []") (auto split: if_splits)

lemma cyc_subset: "(u, v) \<in> cyc xs \<Longrightarrow> u \<in> set xs \<and> v \<in> set xs"
  by (cases xs) (auto simp: cyc_def dest: set_zip_leftD set_zip_rightD split: if_splits)

lemma prev_from_append:
  "distinct (xs @ b # ys) \<Longrightarrow> prev_from p (xs @ b # ys) b = Ok (if xs = [] then p else Some (last xs))"
  by (induction xs arbitrary: p) auto

lemma prev_denial_eval:
  assumes "distinct (den_nodes Z db)" "den_nodes Z db = xs @ b # ys"
  shows "prev_denial Z db b = Ok (prev_in xs b ys)"
  using prev_from_append [of xs b ys None] assms by (auto simp: prev_denial_def prev_in_def)

lemma prev_in_set: "prev_in xs b ys \<in> set (xs @ b # ys)"
  by (simp add: prev_in_def)

section \<open>Parts of the state\<close>

lemma domains_ok_cong:
  assumes "domains_ok path Z db" "domains db' = domains db"
    "\<And>a. a \<in> doms Z db \<Longrightarrow> dom_at db' a \<noteq> None \<and> dname (dom_of db' a) = dname (dom_of db a) \<and>
       parent (dom_of db' a) = parent (dom_of db a) \<and> is_apex (dom_of db' a) = is_apex (dom_of db a)"
  shows "domains_ok path Z db'"
proof -
  have d: "dom_nodes Z db' = dom_nodes Z db" using assms(2) by (simp add: dom_nodes_def)
  have n: "nm path db' a = nm path db a" if "a \<in> doms Z db" for a using assms(3) [OF that] by (simp add: nm_def)
  have "tree_ok path (rb_nodes (z_rb Z) (domains db)) (dom_at db') dname"
  proof (rule tree_ok_cong)
    show "tree_ok path (rb_nodes (z_rb Z) (domains db)) (dom_at db) dname" using assms(1) by (simp add: domains_ok_def)
    fix a assume "a \<in> snd ` set (rb_nodes (z_rb Z) (domains db))"
    then have a: "a \<in> doms Z db" by (simp add: doms_image)
    then have "dom_at db a \<noteq> None" using dom_get [OF assms(1) a] by (auto simp: get_def split: option.splits)
    then show "map_option dname (dom_at db' a) = map_option dname (dom_at db a)" using assms(3) [OF a] by (auto simp: dom_of_def)
  qed
  moreover have "place_ok path Z db' a" if "a \<in> doms Z db" for a
    using assms(1) that assms(3) [OF that] n [OF that] n d by (auto simp: domains_ok_def place_ok_def split: if_splits)
  ultimately show ?thesis using assms(2) d by (simp add: domains_ok_def)
qed

lemma den_get: "tree_ok path (rb_nodes (z_rb Z) (denials db)) (den_at db) d_dname \<Longrightarrow> b \<in> dens Z db \<Longrightarrow>
    get (den_at db) b = Ok (den_of db b) \<and> den_at db b = Some (den_of db b)"
  using tree_okD(1) [of path "rb_nodes (z_rb Z) (denials db)" "den_at db" d_dname b]
  by (auto simp: dens_image get_def den_of_def)

lemma dom_at_of: "domains_ok path Z db \<Longrightarrow> a \<in> doms Z db \<Longrightarrow> dom_at db a = Some (dom_of db a)"
  using dom_get [of path Z db a] by (auto simp: get_def split: option.splits)

lemma dens_distinct: "tree_ok path (rb_nodes (z_rb Z) (denials db)) (den_at db) d_dname \<Longrightarrow> distinct (den_nodes Z db)"
  unfolding den_nodes_def by (rule tree_ok_distinct)

text \<open>The node of a point in the tree.\<close>

lemma den_split:
  assumes "tree_ok path (rb_nodes (z_rb Z) (denials db)) (den_at db) d_dname" "b \<in> dens Z db"
  obtains xs ys where "rb_nodes (z_rb Z) (denials db) = xs @ (d_dname (den_of db b), b) # ys"
    "den_nodes Z db = map snd xs @ b # map snd ys"
proof -
  have "(d_dname (den_of db b), b) \<in> set (rb_nodes (z_rb Z) (denials db))"
    using tree_okD(2) [OF assms(1)] assms(2) by (simp add: dens_image den_of_def)
  then obtain xs ys where "rb_nodes (z_rb Z) (denials db) = xs @ (d_dname (den_of db b), b) # ys" using split_list by metis
  then show ?thesis using that [of xs ys] by (simp add: den_nodes_def)
qed

end
