(* ===== verification/Namedb_Points.thy ===== *)
theory Namedb_Points
  imports Namedb_Ok
begin

text \<open>
  Deleting and adding denial points and deleting domains keep the invariant of the database.
\<close>

section \<open>What stays the same\<close>

text \<open>
  The second database has the domains of the first, less some empty ones, and they have not changed
  but for their denial points.
\<close>

definition kept :: "('f, 'k, 't) zone \<Rightarrow> ('f, 't) namedb \<Rightarrow> ('f, 't) namedb \<Rightarrow> bool" where
  "kept Z db db' \<longleftrightarrow>
     dom_nodes Z db' = filter (\<lambda>a. a \<in> doms Z db') (dom_nodes Z db) \<and>
     (\<forall>a \<in> doms Z db'. dname (dom_of db' a) = dname (dom_of db a) \<and> parent (dom_of db' a) = parent (dom_of db a) \<and>
        rrsets (dom_of db' a) = rrsets (dom_of db a) \<and> is_apex (dom_of db' a) = is_apex (dom_of db a)) \<and>
     (\<forall>a \<in> doms Z db - doms Z db'. rrsets (dom_of db a) = [] \<and> \<not> is_apex (dom_of db a))"

lemma keptD:
  assumes "kept Z db db'"
  shows "doms Z db' \<subseteq> doms Z db"
    "\<And>a. a \<in> doms Z db' \<Longrightarrow> dname (dom_of db' a) = dname (dom_of db a) \<and> parent (dom_of db' a) = parent (dom_of db a) \<and>
        rrsets (dom_of db' a) = rrsets (dom_of db a) \<and> is_apex (dom_of db' a) = is_apex (dom_of db a)"
    "\<And>a. a \<in> doms Z db \<Longrightarrow> a \<notin> doms Z db' \<Longrightarrow> rrsets (dom_of db a) = [] \<and> \<not> is_apex (dom_of db a)"
    "dom_nodes Z db' = filter (\<lambda>a. a \<in> doms Z db') (dom_nodes Z db)"
proof -
  show n: "dom_nodes Z db' = filter (\<lambda>a. a \<in> doms Z db') (dom_nodes Z db)" using assms by (simp add: kept_def)
  show "doms Z db' \<subseteq> doms Z db" by (subst n) auto
qed (use assms in \<open>auto simp: kept_def\<close>)

lemma kept_refl: "kept Z db db"
  by (simp add: kept_def)

lemma kept_trans: assumes "kept Z db db1" "kept Z db1 db2" shows "kept Z db db2"
proof -
  note 1 = keptD [OF assms(1)] and 2 = keptD [OF assms(2)]
  have "dom_nodes Z db2 = filter (\<lambda>a. a \<in> doms Z db2) (filter (\<lambda>a. a \<in> doms Z db1) (dom_nodes Z db))"
    using 1(4) 2(4) by simp
  also have "\<dots> = filter (\<lambda>a. a \<in> doms Z db2) (dom_nodes Z db)" using 2(1) by (auto intro: filter_cong)
  finally have n: "dom_nodes Z db2 = filter (\<lambda>a. a \<in> doms Z db2) (dom_nodes Z db)" .
  show ?thesis unfolding kept_def
  proof (intro conjI [OF n] conjI ballI)
    fix a assume a: "a \<in> doms Z db - doms Z db2"
    show "rrsets (dom_of db a) = []" "\<not> is_apex (dom_of db a)"
      using a 1(2,3) [of a] 2(3) [of a] by (cases "a \<in> doms Z db1"; simp)+
  qed (use 1(2) 2(1,2) in \<open>auto simp: subset_iff\<close>)
qed

lemma kept_nm: "kept Z db db' \<Longrightarrow> a \<in> doms Z db' \<Longrightarrow> nm path db' a = nm path db a"
  using keptD(2) [of Z db db' a] by (simp add: nm_def)

lemma kept_type: "kept Z db db' \<Longrightarrow> a \<in> doms Z db' \<Longrightarrow> has_type t (dom_of db' a) = has_type t (dom_of db a)"
  using keptD(2) [of Z db db' a] by (simp add: has_type_def)

lemma kept_delegpt:
  "kept Z db db' \<Longrightarrow> a \<in> doms Z db' \<Longrightarrow> domain_is_delegpt (dom_of db' a) = domain_is_delegpt (dom_of db a)"
  using keptD(2) [of Z db db' a] kept_type [of Z db db' a] by (simp add: domain_is_delegpt_eq)

lemma kept_above:
  assumes "kept Z db db'" "a \<in> doms Z db'"
  shows "above path Z db' a = above path Z db a \<inter> doms Z db'"
proof -
  have "above path Z db' a = {p \<in> doms Z db'. strict_prefix (nm path db p) (nm path db a)}"
    by (auto simp: above_def kept_nm [OF assms(1)] assms(2))
  then show ?thesis using keptD(1) [OF assms(1)] by (auto simp: above_def)
qed

lemma kept_occl:
  assumes "kept Z db db'" "a \<in> doms Z db'"
  shows "occl path Z db' a = occl path Z db a"
proof -
  have "cuts db p \<Longrightarrow> p \<in> doms Z db \<Longrightarrow> p \<in> doms Z db'" for p
    using keptD(3) [OF assms(1), of p] by (fastforce simp: cuts_def has_type_def)
  moreover have "cuts db' p = cuts db p" if "p \<in> doms Z db'" for p
    using keptD(2) [OF assms(1) that] kept_type [OF assms(1) that] by (simp add: cuts_def)
  moreover have "above path Z db a \<subseteq> doms Z db" by (auto simp: above_def)
  ultimately show ?thesis using kept_above [OF assms, of path] unfolding occl_def by blast
qed

lemma kept_auth: "kept Z db db' \<Longrightarrow> a \<in> doms Z db' \<Longrightarrow> auth path Z db' a = auth path Z db a"
  using keptD(2) [of Z db db' a] kept_delegpt [of Z db db' a] kept_occl [of Z db db' a path] by (simp add: auth_def)

lemma kept_ent2:
  assumes "kept Z db db'" "a \<in> doms Z db'"
  shows "ent2 path Z db' a = ent2 path Z db a"
proof -
  have "auth path Z db c \<Longrightarrow> c \<in> doms Z db \<Longrightarrow> c \<in> doms Z db'" for c
    using keptD(3) [OF assms(1), of c] by (auto simp: auth_def)
  then have "(\<forall>c \<in> doms Z db'. strict_prefix (nm path db' a) (nm path db' c) \<longrightarrow> \<not> auth path Z db' c) \<longleftrightarrow>
      (\<forall>c \<in> doms Z db. strict_prefix (nm path db a) (nm path db c) \<longrightarrow> \<not> auth path Z db c)"
    using keptD(1) [OF assms(1)] by (auto simp: kept_nm [OF assms(1)] kept_auth [OF assms(1)] assms(2))
  then show ?thesis using keptD(2) [OF assms] by (simp add: ent2_def)
qed

lemma kept_wanted: "kept Z db db' \<Longrightarrow> a \<in> doms Z db' \<Longrightarrow> wanted path Z db' a = wanted path Z db a"
  using keptD(2) [of Z db db' a] kept_delegpt [of Z db db' a] kept_occl [of Z db db' a path] kept_ent2 [of Z db db' a path]
  by (simp add: wanted_def split: option.splits)

lemma kept_same: "kept Z db db' \<Longrightarrow> doms Z db' = doms Z db \<Longrightarrow> dom_nodes Z db' = dom_nodes Z db"
  using keptD(4) [of Z db db'] by simp

section \<open>Denial points\<close>

lemma current_cong:
  assumes "d_rrset (den_of db' b) = d_rrset (den_of db b)" "d_domain (den_of db' b) = d_domain (den_of db b)"
    "d_dname (den_of db' b) = d_dname (den_of db b)" "d_dname (den_of db' c) = d_dname (den_of db c)"
    "d_domain (den_of db b) = Some a" "map rrtype (rrsets (dom_of db' a)) = map rrtype (rrsets (dom_of db a))"
    "is_apex (dom_of db' a) = is_apex (dom_of db a)"
  shows "current Z db' b c = current Z db b c"
  by (simp add: current_def assms(1-5) expected_nsec_cong [OF assms(6,7)])


lemma links_okD:
  assumes "links_ok Z db"
  shows "\<And>b. b \<in> dens Z db \<Longrightarrow> \<exists>a \<in> doms Z db. d_domain (den_of db b) = Some a \<and> denial (dom_of db a) = Some b \<and>
        owner_of Z (dname (dom_of db a)) = Some (d_dname (den_of db b))"
    "\<And>a b. a \<in> doms Z db \<Longrightarrow> denial (dom_of db a) = Some b \<Longrightarrow> b \<in> dens Z db \<and> d_domain (den_of db b) = Some a"
  using assms by (simp_all add: links_ok_def)

lemma denial_diff_eval:
  assumes "den_at db b = Some e" "den_rrset_ok Z e" "ixfr_ok (is_initialized db) (ixfr db)"
  obtains x e' where "denial_diff db b = Ok (set_den (db\<lparr>ixfr := x\<rparr>) b e')" "ixfr_ok (is_initialized db) x"
    "d_dname e' = d_dname e" "\<not> (case d_rrset e' of None \<Rightarrow> False | Some r \<Rightarrow> rrs r \<noteq> [])"
proof (cases "d_rrset e")
  case None
  have "set_den (db\<lparr>ixfr := ixfr db\<rparr>) b e = db" using assms(1) by (simp add: set_den_def fun_upd_idem)
  then show ?thesis using that [of "ixfr db" e] None assms by (simp add: denial_diff_def get_def)
next
  case (Some r)
  have g: "rr_gone False y" if "y \<in> set (rrs r)" for y
    using assms(2) Some that by (auto simp: den_rrset_ok_def rr_gone_def)
  have "length (rrs r) < 2 ^ 16" using assms(2) Some by (auto simp: den_rrset_ok_def)
  then have d: "rrset_diff (is_initialized db) r (ixfr db) False False =
      Ok (rrset_after False False r, journal (is_initialized db) (rrset_journal False r) (ixfr db))"
    using rrset_diff_eval [OF assms(3), of r False False] by simp
  have "rrs (rrset_after False False r) = []" using g by (simp add: rrset_after_def)
  then show ?thesis using that [of "journal (is_initialized db) (rrset_journal False r) (ixfr db)" "e\<lparr>d_rrset := Some (rrset_after False False r)\<rparr>"]
      assms(1,3) Some d by (simp add: denial_diff_def get_def)
qed

text \<open>A database like another but for the denial points and the references to them.\<close>

lemma db_ok_points:
  assumes ok: "db_ok path Z db" and dm: "domains db' = domains db"
    and at: "dom_at db' = (dom_at db)(a \<mapsto> d')" and a: "a \<in> doms Z db"
    and d': "dname d' = dname (dom_of db a)" "parent d' = parent (dom_of db a)" "rrsets d' = rrsets (dom_of db a)"
      "is_apex d' = is_apex (dom_of db a)"
  shows "domains_ok path Z db'" "\<forall>a \<in> doms Z db'. rrsets_ok (rrsets (dom_of db' a))" "kept Z db db'"
    "doms Z db' = doms Z db"
    "\<And>c. dom_of db' c = (if c = a then d' else dom_of db c)"
proof -
  show o: "\<And>c. dom_of db' c = (if c = a then d' else dom_of db c)" by (simp add: dom_of_def at)
  have n: "dom_nodes Z db' = dom_nodes Z db" by (simp add: dom_nodes_def dm)
  then show "doms Z db' = doms Z db" by simp
  show "domains_ok path Z db'"
  proof (rule domains_ok_cong [OF db_okD(1) [OF ok] dm])
    fix c assume c: "c \<in> doms Z db"
    show "dom_at db' c \<noteq> None \<and> dname (dom_of db' c) = dname (dom_of db c) \<and> parent (dom_of db' c) = parent (dom_of db c) \<and>
        is_apex (dom_of db' c) = is_apex (dom_of db c)"
      using dom_at_of [OF db_okD(1) [OF ok] c] by (simp add: o d' at)
  qed
  show "\<forall>a \<in> doms Z db'. rrsets_ok (rrsets (dom_of db' a))" using db_okD(2) [OF ok] by (simp add: n o d')
  show "kept Z db db'" by (simp add: kept_def n o d')
qed


lemma namedb_del_denial_eval:
  assumes z: "zone_ok path Z" and t: "tree_ok path (rb_nodes (z_rb Z) (denials db)) (den_at db) d_dname"
    and ns: "rb_nodes (z_rb Z) (denials db) = xs @ (d_dname (den_of db b), b) # ys"
    and e: "\<not> (case d_rrset (den_of db b) of None \<Rightarrow> False | Some r \<Rightarrow> rrs r \<noteq> [])"
  obtains t' where "rb_nodes (z_rb Z) t' = xs @ ys" "names_sorted path (xs @ ys)"
    "namedb_del_denial Z db b =
      Ok (True, set_den (db\<lparr>denials := t'\<rparr>) (prev_in (map snd xs) b (map snd ys))
        ((den_of db (prev_in (map snd xs) b (map snd ys)))\<lparr>nxt_changed := True\<rparr>))"
proof -
  let ?p = "prev_in (map snd xs) b (map snd ys)"
  have dn: "den_nodes Z db = map snd xs @ b # map snd ys" by (simp add: den_nodes_def ns)
  have b: "b \<in> dens Z db" "?p \<in> dens Z db" using prev_in_set [of "map snd xs" b "map snd ys"] dn by simp_all
  obtain t' where d: "rb_delete (z_rb Z) (dname_compare (z_ldns Z)) (denials db) (d_dname (den_of db b)) = Some (b, t')"
    "rb_nodes (z_rb Z) t' = xs @ ys" "names_sorted path (xs @ ys)"
    using dname_tree_present(2) [OF _ _ _ ns, of "z_ldns Z" path "d_dname (den_of db b)"] z t
    by (auto simp: zone_ok_def tree_ok_def)
  have "namedb_del_denial Z db b = Ok (True, set_den (db\<lparr>denials := t'\<rparr>) ?p ((den_of db ?p)\<lparr>nxt_changed := True\<rparr>))"
    using e d(1) prev_denial_eval [OF dens_distinct [OF t] dn] den_get [OF t b(1)] den_get [OF t b(2)]
    by (simp add: namedb_del_denial_def mark_nxt_def get_def)
  then show thesis using that d by blast
qed

lemma del_point_fields:
  assumes z: "zone_ok path Z" and ok: "db_ok path Z db" and a: "a \<in> doms Z db" and b: "denial (dom_of db a) = Some b"
    and ns: "rb_nodes (z_rb Z) (denials db) = xs @ (d_dname (den_of db b), b) # ys"
  obtains db' where "del_point Z db a = Ok db'" "rb_nodes (z_rb Z) (denials db') = xs @ ys" "names_sorted path (xs @ ys)"
    "domains db' = domains db" "dom_at db' = (dom_at db)(a \<mapsto> (dom_of db a)\<lparr>denial := None\<rparr>)"
    "\<And>u. u \<noteq> b \<Longrightarrow> u \<in> dens Z db \<Longrightarrow> den_at db' u =
      Some (if u = prev_in (map snd xs) b (map snd ys) then (den_of db u)\<lparr>nxt_changed := True\<rparr> else den_of db u)"
    "fresh db' = fresh db" "is_initialized db' = is_initialized db" "ixfr_ok (is_initialized db) (ixfr db')"
proof -
  note t = db_okD(3) [OF ok]
  have bd: "b \<in> dens Z db" using db_okD(4) [OF ok] a b by (auto simp: links_ok_def)
  have at: "den_at db b = Some (den_of db b)" using den_get [OF t bd] by simp
  obtain x e' where e: "denial_diff db b = Ok (set_den (db\<lparr>ixfr := x\<rparr>) b e')" "ixfr_ok (is_initialized db) x"
    "d_dname e' = d_dname (den_of db b)" "\<not> (case d_rrset e' of None \<Rightarrow> False | Some r \<Rightarrow> rrs r \<noteq> [])"
    using denial_diff_eval [OF at db_okD(5) [OF ok bd] db_okD(7) [OF ok]] by metis
  let ?db = "set_den (db\<lparr>ixfr := x\<rparr>) b e'" and ?p = "prev_in (map snd xs) b (map snd ys)"
  have t1: "tree_ok path (rb_nodes (z_rb Z) (denials ?db)) (den_at ?db) d_dname"
    using tree_ok_cong [OF t, of "den_at ?db"] e(3) at by (simp add: set_den_def)
  have o: "den_of ?db u = (if u = b then e' else den_of db u)" for u by (simp add: den_of_def set_den_def)
  have ns1: "rb_nodes (z_rb Z) (denials ?db) = xs @ (d_dname (den_of ?db b), b) # ys"
    using ns e(3) o by (simp add: set_den_def)
  have e1: "\<not> (case d_rrset (den_of ?db b) of None \<Rightarrow> False | Some r \<Rightarrow> rrs r \<noteq> [])" using e(4) o by simp
  obtain t' where t': "rb_nodes (z_rb Z) t' = xs @ ys" "names_sorted path (xs @ ys)"
    "namedb_del_denial Z ?db b = Ok (True, set_den (?db\<lparr>denials := t'\<rparr>) ?p ((den_of ?db ?p)\<lparr>nxt_changed := True\<rparr>))"
    using namedb_del_denial_eval [OF z t1 ns1 e1] by metis
  let ?db' = "set_dom (denial_cleanup (set_den (?db\<lparr>denials := t'\<rparr>) ?p ((den_of ?db ?p)\<lparr>nxt_changed := True\<rparr>)) b) a
    ((dom_of db a)\<lparr>denial := None\<rparr>)"
  have "del_point Z db a = Ok ?db'"
    using b e(1) t'(3) dom_get [OF db_okD(1) [OF ok] a] by (simp add: del_point_def)
  moreover have "den_at ?db' u = Some (if u = ?p then (den_of db u)\<lparr>nxt_changed := True\<rparr> else den_of db u)"
    if "u \<noteq> b" "u \<in> dens Z db" for u
    using that den_get [OF t that(2)] o by (auto simp: set_dom_def denial_cleanup_def set_den_def)
  ultimately show thesis using that [of ?db'] t'(1,2) e(2) by (simp add: set_dom_def denial_cleanup_def set_den_def)
qed


text \<open>
  Points that are in both databases are the same but for their marks, and a point whose successor
  has changed is marked.
\<close>

lemma tracked_points:
  assumes ok: "db_ok path Z db" and kept: "kept Z db db'"
    and dd: "\<And>a. a \<in> doms Z db \<Longrightarrow> denial (dom_of db a) \<noteq> None \<Longrightarrow> a \<in> doms Z db'"
    and same: "\<And>u. u \<in> dens Z db \<Longrightarrow> u \<in> dens Z db' \<Longrightarrow>
      d_rrset (den_of db' u) = d_rrset (den_of db u) \<and> d_domain (den_of db' u) = d_domain (den_of db u) \<and>
      d_dname (den_of db' u) = d_dname (den_of db u) \<and> bitmap_changed (den_of db' u) = bitmap_changed (den_of db u)"
    and nxt: "\<And>u v. (u, v) \<in> cyc (den_nodes Z db') \<Longrightarrow> nxt_changed (den_of db' u) \<or>
      (u, v) \<in> cyc (den_nodes Z db) \<and> nxt_changed (den_of db' u) = nxt_changed (den_of db u)"
  shows "tracked Z db'"
proof -
  have "nxt_changed (den_of db' u) \<or> bitmap_changed (den_of db' u) \<or> current Z db' u v"
    if uv: "(u, v) \<in> cyc (den_nodes Z db')" for u v
  proof (rule ccontr)
    assume n: "\<not> (nxt_changed (den_of db' u) \<or> bitmap_changed (den_of db' u) \<or> current Z db' u v)"
    with nxt [OF uv] have old: "(u, v) \<in> cyc (den_nodes Z db)" "\<not> nxt_changed (den_of db u)" by auto
    have u: "u \<in> dens Z db" "u \<in> dens Z db'" and v: "v \<in> dens Z db" "v \<in> dens Z db'" using cyc_subset uv old(1) by blast+
    obtain a where a: "a \<in> doms Z db" "d_domain (den_of db u) = Some a" "denial (dom_of db a) = Some u"
      using links_okD(1) [OF db_okD(4) [OF ok] u(1)] by blast
    have "current Z db u v" using db_okD(8) [OF ok] old same [OF u] n by (auto simp: tracked_def)
    moreover have "current Z db' u v = current Z db u v"
      using current_cong [of db' u db v a Z] same [OF u] same [OF v] a keptD(2) [OF kept, of a] dd [of a] by simp
    ultimately show False using n by simp
  qed
  then show ?thesis by (auto simp: tracked_def)
qed

lemma del_point_eval:
  assumes z: "zone_ok path Z" and ok: "db_ok path Z db" and a: "a \<in> doms Z db" and b: "denial (dom_of db a) \<noteq> None"
  obtains db' where "del_point Z db a = Ok db'" "db_ok path Z db'" "kept Z db db'" "doms Z db' = doms Z db"
    "\<And>c. denial (dom_of db' c) = (if c = a then None else denial (dom_of db c))"
proof -
  note t = db_okD(3) [OF ok] and l = links_okD [OF db_okD(4) [OF ok]]
  obtain b where b: "denial (dom_of db a) = Some b" using b by blast
  have bd: "b \<in> dens Z db" using l(2) [OF a b] by simp
  obtain xs ys where ns: "rb_nodes (z_rb Z) (denials db) = xs @ (d_dname (den_of db b), b) # ys"
    "den_nodes Z db = map snd xs @ b # map snd ys"
    using den_split [OF t bd] by metis
  let ?p = "prev_in (map snd xs) b (map snd ys)"
  obtain db' where db': "del_point Z db a = Ok db'" "rb_nodes (z_rb Z) (denials db') = xs @ ys" "names_sorted path (xs @ ys)"
    "domains db' = domains db" "dom_at db' = (dom_at db)(a \<mapsto> (dom_of db a)\<lparr>denial := None\<rparr>)"
    "\<And>u. u \<noteq> b \<Longrightarrow> u \<in> dens Z db \<Longrightarrow> den_at db' u = Some (if u = ?p then (den_of db u)\<lparr>nxt_changed := True\<rparr> else den_of db u)"
    "fresh db' = fresh db" "is_initialized db' = is_initialized db" "ixfr_ok (is_initialized db) (ixfr db')"
    using del_point_fields [OF z ok a b ns(1)] by metis
  have p: "domains_ok path Z db'" "\<forall>a \<in> doms Z db'. rrsets_ok (rrsets (dom_of db' a))" "kept Z db db'" "doms Z db' = doms Z db"
    using db_ok_points [OF ok db'(4,5) a] by simp_all
  have o: "dom_of db' c = (if c = a then (dom_of db a)\<lparr>denial := None\<rparr> else dom_of db c)" for c by (simp add: dom_of_def db'(5))
  have dist: "distinct (map snd xs @ b # map snd ys)" using dens_distinct [OF t] ns(2) by simp
  have dn: "den_nodes Z db' = map snd xs @ map snd ys" by (simp add: den_nodes_def db'(2))
  have dd: "dens Z db' = dens Z db - {b}" using dist dn ns(2) by auto
  have e: "den_of db' u = (if u = ?p then (den_of db u)\<lparr>nxt_changed := True\<rparr> else den_of db u)" if "u \<in> dens Z db'" for u
    using db'(6) [of u] that dd by (auto simp: den_of_def)
  have f: "d_rrset (den_of db' u) = d_rrset (den_of db u)" "d_domain (den_of db' u) = d_domain (den_of db u)"
    "d_dname (den_of db' u) = d_dname (den_of db u)" "bitmap_changed (den_of db' u) = bitmap_changed (den_of db u)"
    "nxt_changed (den_of db' u) = (u = ?p \<or> nxt_changed (den_of db u))" if "u \<in> dens Z db'" for u
    unfolding e [OF that] by auto
  have tr: "tree_ok path (rb_nodes (z_rb Z) (denials db')) (den_at db') d_dname"
    unfolding tree_ok_def db'(2)
  proof (intro conjI [OF db'(3)] ballI)
    fix m assume m: "m \<in> set (xs @ ys)"
    then have mb: "snd m \<in> dens Z db" "snd m \<noteq> b" using dist ns(2) by auto
    have "den_at db (snd m) = Some (den_of db (snd m))" using den_get [OF t mb(1)] by simp
    moreover have "m \<in> set (rb_nodes (z_rb Z) (denials db))" using m ns(1) by auto
    ultimately have "d_dname (den_of db (snd m)) = fst m" using t by (auto simp: tree_ok_def)
    then show "\<exists>x. den_at db' (snd m) = Some x \<and> d_dname x = fst m" using db'(6) [OF mb(2,1)] by auto
  qed
  have lk: "links_ok Z db'"
    unfolding links_ok_def p(4)
  proof (intro conjI ballI allI impI)
    fix u assume u: "u \<in> dens Z db'"
    then obtain c where c: "c \<in> doms Z db" "d_domain (den_of db u) = Some c" "denial (dom_of db c) = Some u"
      "owner_of Z (dname (dom_of db c)) = Some (d_dname (den_of db u))" using l(1) [of u] dd by blast
    have "u \<noteq> b" using u dd by blast
    then have "c \<noteq> a" using c(3) b by auto
    then show "\<exists>a \<in> doms Z db. d_domain (den_of db' u) = Some a \<and> denial (dom_of db' a) = Some u \<and>
        owner_of Z (dname (dom_of db' a)) = Some (d_dname (den_of db' u))"
      using c f [OF u] o [of c] by (intro bexI [of _ c]) simp_all
  next
    fix c u assume c: "c \<in> doms Z db" "denial (dom_of db' c) = Some u"
    then have "c \<noteq> a" "denial (dom_of db c) = Some u" using o [of c] by (auto split: if_splits)
    then have "u \<in> dens Z db" "d_domain (den_of db u) = Some c" "u \<noteq> b" using l(2) [OF c(1)] l(2) [OF a b] by auto
    then show "u \<in> dens Z db'" "d_domain (den_of db' u) = Some c" using dd f(2) [of u] by auto
  qed
  have "tracked Z db'"
  proof (rule tracked_points [OF ok p(3)])
    fix u v assume uv: "(u, v) \<in> cyc (den_nodes Z db')"
    show "nxt_changed (den_of db' u) \<or>
        (u, v) \<in> cyc (den_nodes Z db) \<and> nxt_changed (den_of db' u) = nxt_changed (den_of db u)"
      using cyc_delete [of u v "map snd xs" "map snd ys" b] uv f(5) [of u] cyc_subset [OF uv] by (auto simp: dn ns(2))
  qed (simp_all add: f p(4))
  moreover have "\<forall>u \<in> dens Z db'. den_rrset_ok Z (den_of db' u)"
    using db_okD(5) [OF ok] dd by (simp add: den_rrset_ok_def f)
  moreover have "\<forall>c \<in> doms Z db' \<union> dens Z db'. c < fresh db'" using db_okD(6) [OF ok] p(4) dd db'(7) by auto
  ultimately have "db_ok path Z db'" using p tr lk db'(8,9) by (simp add: db_ok_def)
  then show thesis using that [of db'] db'(1) p(3,4) o by simp
qed


section \<open>Adding a point\<close>

lemma owner_new:
  assumes ok: "db_ok path Z db" and ow: "owners_ok path Z db" and a: "a \<in> doms Z db" and none: "denial (dom_of db a) = None"
    and own: "owner_of Z (dname (dom_of db a)) = Some own"
  shows "path own \<notin> (path \<circ> fst) ` set (rb_nodes (z_rb Z) (denials db))"
proof
  assume "path own \<in> (path \<circ> fst) ` set (rb_nodes (z_rb Z) (denials db))"
  then obtain m where m: "m \<in> set (rb_nodes (z_rb Z) (denials db))" "path own = path (fst m)" by auto
  have u: "snd m \<in> dens Z db" using m(1) by (simp add: dens_image)
  have "d_dname (den_of db (snd m)) = fst m" using db_okD(3) [OF ok] m(1) den_get [OF db_okD(3) [OF ok] u] by (auto simp: tree_ok_def)
  moreover obtain c where c: "c \<in> doms Z db" "denial (dom_of db c) = Some (snd m)"
    "owner_of Z (dname (dom_of db c)) = Some (d_dname (den_of db (snd m)))"
    using links_okD(1) [OF db_okD(4) [OF ok] u] by blast
  ultimately have "path (the (owner_of Z (dname (dom_of db a)))) = path (the (owner_of Z (dname (dom_of db c))))"
    using own m(2) by simp
  then have "a = c" using ow a c(1) by (auto simp: owners_ok_def)
  then show False using none c(2) by simp
qed

lemma add_point_fields:
  assumes z: "zone_ok path Z" and ok: "db_ok path Z db" and ow: "owners_ok path Z db" and a: "a \<in> doms Z db"
    and none: "denial (dom_of db a) = None" and own: "owner_of Z (dname (dom_of db a)) = Some own" and b: "b = fresh db"
  obtains db' xs ys where "add_point Z db a (nsec3params (z_signconf Z)) = Ok db'"
    "rb_nodes (z_rb Z) (denials db) = xs @ ys" "rb_nodes (z_rb Z) (denials db') = xs @ (own, b) # ys"
    "names_sorted path (xs @ (own, b) # ys)"
    "domains db' = domains db" "dom_at db' = (dom_at db)(a \<mapsto> (dom_of db a)\<lparr>denial := Some b, is_new := False\<rparr>)"
    "\<And>u. u \<in> dens Z db \<Longrightarrow> den_at db' u =
      Some (if u = prev_in (map snd xs) b (map snd ys) then (den_of db u)\<lparr>nxt_changed := True\<rparr> else den_of db u)"
    "den_at db' b = Some ((denial_create own)\<lparr>d_domain := Some a, nxt_changed := True\<rparr>)"
    "fresh db' = fresh db + 1" "is_initialized db' = is_initialized db" "ixfr db' = ixfr db"
proof -
  note t = db_okD(3) [OF ok]
  obtain t' xs ys where i: "rb_insert (z_rb Z) (dname_compare (z_ldns Z)) (denials db) own b = Some t'"
    "rb_nodes (z_rb Z) (denials db) = xs @ ys" "rb_nodes (z_rb Z) t' = xs @ (own, b) # ys" "names_sorted path (rb_nodes (z_rb Z) t')"
    using dname_tree_absent(3) [OF _ _ _ owner_new [OF ok ow a none own], of "z_ldns Z" b] z t by (auto simp: zone_ok_def tree_ok_def)
  let ?e = "(denial_create own)\<lparr>nxt_changed := True\<rparr>" and ?p = "prev_in (map snd xs) b (map snd ys)"
  let ?db = "set_den (db\<lparr>denials := t', fresh := fresh db + 1\<rparr>) b ?e"
  have dn: "den_nodes Z db = map snd xs @ map snd ys" "den_nodes Z ?db = map snd xs @ b # map snd ys"
    by (simp_all add: den_nodes_def i set_den_def)
  have nb: "b \<notin> dens Z db" using db_okD(6) [OF ok, of b] b by auto
  have "distinct (den_nodes Z ?db)" using dens_distinct [OF t] nb dn by auto
  then have pv: "prev_denial Z ?db b = Ok ?p" using prev_denial_eval [OF _ dn(2)] by simp
  have pin: "?p = b \<or> ?p \<in> dens Z db" using prev_in_set [of "map snd xs" b "map snd ys"] dn(1) by auto
  let ?g = "if ?p = b then ?e else den_of db ?p"
  have mk: "mark_nxt ?db ?p = Ok (set_den ?db ?p (?g\<lparr>nxt_changed := True\<rparr>))"
    using pin den_get [OF t, of ?p] by (auto simp: mark_nxt_def get_def set_den_def)
  let ?db' = "set_dom (set_den (set_den ?db ?p (?g\<lparr>nxt_changed := True\<rparr>)) b (?e\<lparr>d_domain := Some a\<rparr>)) a
    ((dom_of db a)\<lparr>denial := Some b, is_new := False\<rparr>)"
  have "namedb_add_denial Z db (dname (dom_of db a)) (nsec3params (z_signconf Z)) =
      Ok (Some b, set_den ?db ?p (?g\<lparr>nxt_changed := True\<rparr>))"
    using own i(1) pv mk b by (simp add: namedb_add_denial_def owner_of_def Let_def split: option.splits)
  moreover have "get (den_at (set_den ?db ?p (?g\<lparr>nxt_changed := True\<rparr>))) b = Ok ?e" by (simp add: get_def set_den_def)
  ultimately have "add_point Z db a (nsec3params (z_signconf Z)) = Ok ?db'"
    using dom_get [OF db_okD(1) [OF ok] a] by (simp add: add_point_def)
  moreover have "den_at ?db' u = Some (if u = ?p then (den_of db u)\<lparr>nxt_changed := True\<rparr> else den_of db u)"
    if "u \<in> dens Z db" for u
    using that nb den_get [OF t that] by (auto simp: set_dom_def set_den_def)
  ultimately show thesis using that [of ?db' xs ys] i by (simp add: set_dom_def set_den_def)
qed


lemma add_point_eval:
  assumes z: "zone_ok path Z" and ok: "db_ok path Z db" and ow: "owners_ok path Z db" and a: "a \<in> doms Z db"
    and none: "denial (dom_of db a) = None"
  obtains db' where "add_point Z db a (nsec3params (z_signconf Z)) = Ok db'" "db_ok path Z db'" "kept Z db db'"
    "doms Z db' = doms Z db"
    "\<And>c. denial (dom_of db' c) = (if c = a then Some (fresh db) else denial (dom_of db c))"
proof -
  note t = db_okD(3) [OF ok] and l = links_okD [OF db_okD(4) [OF ok]]
  obtain own where own: "owner_of Z (dname (dom_of db a)) = Some own" using ow a by (auto simp: owners_ok_def)
  define b where "b = fresh db"
  obtain db' xs ys where ex: "add_point Z db a (nsec3params (z_signconf Z)) = Ok db'"
    and ns: "rb_nodes (z_rb Z) (denials db) = xs @ ys" "rb_nodes (z_rb Z) (denials db') = xs @ (own, b) # ys"
      "names_sorted path (xs @ (own, b) # ys)"
    and dm: "domains db' = domains db" "dom_at db' = (dom_at db)(a \<mapsto> (dom_of db a)\<lparr>denial := Some b, is_new := False\<rparr>)"
    and old: "\<And>u. u \<in> dens Z db \<Longrightarrow> den_at db' u =
      Some (if u = prev_in (map snd xs) b (map snd ys) then (den_of db u)\<lparr>nxt_changed := True\<rparr> else den_of db u)"
    and new: "den_at db' b = Some ((denial_create own)\<lparr>d_domain := Some a, nxt_changed := True\<rparr>)"
    and rest: "fresh db' = fresh db + 1" "is_initialized db' = is_initialized db" "ixfr db' = ixfr db"
    using add_point_fields [OF z ok ow a none own b_def] by metis
  let ?p = "prev_in (map snd xs) b (map snd ys)"
  have p: "domains_ok path Z db'" "\<forall>a \<in> doms Z db'. rrsets_ok (rrsets (dom_of db' a))" "kept Z db db'" "doms Z db' = doms Z db"
    using db_ok_points [OF ok dm a] by simp_all
  have o: "dom_of db' c = (if c = a then (dom_of db a)\<lparr>denial := Some b, is_new := False\<rparr> else dom_of db c)" for c
    by (simp add: dom_of_def dm)
  have dn: "den_nodes Z db = map snd xs @ map snd ys" "den_nodes Z db' = map snd xs @ b # map snd ys"
    by (simp_all add: den_nodes_def ns)
  have nb: "b \<notin> dens Z db" using db_okD(6) [OF ok, of b] b_def by auto
  have dd: "dens Z db' = insert b (dens Z db)" by (simp add: dn)
  have f: "d_rrset (den_of db' u) = d_rrset (den_of db u)" "d_domain (den_of db' u) = d_domain (den_of db u)"
    "d_dname (den_of db' u) = d_dname (den_of db u)" "bitmap_changed (den_of db' u) = bitmap_changed (den_of db u)"
    "nxt_changed (den_of db' u) = (u = ?p \<or> nxt_changed (den_of db u))" if "u \<in> dens Z db" for u
    using old [OF that] by (simp_all add: den_of_def)
  have fb: "den_of db' b = (denial_create own)\<lparr>d_domain := Some a, nxt_changed := True\<rparr>" by (simp add: den_of_def new)
  have tr: "tree_ok path (rb_nodes (z_rb Z) (denials db')) (den_at db') d_dname"
    unfolding tree_ok_def ns(2)
  proof (intro conjI [OF ns(3)] ballI)
    fix m assume m: "m \<in> set (xs @ (own, b) # ys)"
    show "\<exists>x. den_at db' (snd m) = Some x \<and> d_dname x = fst m"
    proof (cases "m = (own, b)")
      case True
      then show ?thesis using new by (simp add: denial_create_def)
    next
      case False
      then have in_m: "m \<in> set (rb_nodes (z_rb Z) (denials db))" using m ns(1) by auto
      then have mb: "snd m \<in> dens Z db" by (simp add: dens_image)
      have "d_dname (den_of db (snd m)) = fst m" using t in_m den_get [OF t mb] by (auto simp: tree_ok_def)
      then show ?thesis using old [OF mb] by auto
    qed
  qed
  have lk: "links_ok Z db'"
    unfolding links_ok_def p(4)
  proof (intro conjI ballI allI impI)
    fix u assume u: "u \<in> dens Z db'"
    show "\<exists>a \<in> doms Z db. d_domain (den_of db' u) = Some a \<and> denial (dom_of db' a) = Some u \<and>
        owner_of Z (dname (dom_of db' a)) = Some (d_dname (den_of db' u))"
    proof (cases "u = b")
      case True
      then show ?thesis using fb o [of a] a own by (intro bexI [of _ a]) (simp_all add: denial_create_def)
    next
      case False
      then have u: "u \<in> dens Z db" using u dd by blast
      obtain c where c: "c \<in> doms Z db" "d_domain (den_of db u) = Some c" "denial (dom_of db c) = Some u"
        "owner_of Z (dname (dom_of db c)) = Some (d_dname (den_of db u))" using l(1) [OF u] by blast
      then have "c \<noteq> a" using none by auto
      then show ?thesis using c f [OF u] o [of c] by (intro bexI [of _ c]) simp_all
    qed
  next
    fix c u assume c: "c \<in> doms Z db" "denial (dom_of db' c) = Some u"
    have "u \<in> dens Z db' \<and> d_domain (den_of db' u) = Some c"
    proof (cases "c = a")
      case True
      then show ?thesis using c o [of a] fb dd by simp
    next
      case False
      then show ?thesis using c o [of c] l(2) [OF c(1), of u] f(2) [of u] dd by simp
    qed
    then show "u \<in> dens Z db'" "d_domain (den_of db' u) = Some c" by simp_all
  qed
  have "tracked Z db'"
  proof (rule tracked_points [OF ok p(3)])
    fix u v assume uv: "(u, v) \<in> cyc (den_nodes Z db')"
    then have "u = b \<or> u = ?p \<or> (u, v) \<in> cyc (den_nodes Z db)" "u \<in> dens Z db'"
      using cyc_insert [of u v "map snd xs" b "map snd ys"] cyc_subset [OF uv] by (simp_all add: dn)
    then show "nxt_changed (den_of db' u) \<or>
        (u, v) \<in> cyc (den_nodes Z db) \<and> nxt_changed (den_of db' u) = nxt_changed (den_of db u)"
      using fb f(5) [of u] dd by auto
  qed (simp_all add: f p(4))
  moreover have "\<forall>u \<in> dens Z db'. den_rrset_ok Z (den_of db' u)"
    using db_okD(5) [OF ok] dd by (simp add: den_rrset_ok_def f fb denial_create_def)
  moreover have "\<forall>c \<in> doms Z db' \<union> dens Z db'. c < fresh db'" using db_okD(6) [OF ok] p(4) dd rest(1) b_def by fastforce
  ultimately have "db_ok path Z db'" using p tr lk rest(2,3) db_okD(7) [OF ok] by (simp add: db_ok_def)
  then show thesis using that [of db'] ex p(3,4) o b_def by simp
qed


section \<open>Deleting a domain\<close>

lemma empt_no_child:
  assumes "domains_ok path Z db" "empt path Z db a" "c \<in> doms Z db" "parent (dom_of db c) = Some p"
  shows "p \<noteq> a"
proof (cases "is_apex (dom_of db c)")
  case True
  then show ?thesis using apex_parent [OF assms(1,3)] assms(4) by simp
next
  case False
  then show ?thesis using place_parent [OF assms(1,3)] assms(2-4) by (metis empt_def option.inject)
qed

lemma del_domain_fields:
  assumes z: "zone_ok path Z" and ok: "domains_ok path Z db" and a: "a \<in> doms Z db" and e: "empt path Z db a"
    and none: "denial (dom_of db a) = None"
  obtains t where "namedb_del_domain Z db a = Ok (True, db\<lparr>domains := t\<rparr>)" "names_sorted path (rb_nodes (z_rb Z) t)"
    "rb_nodes (z_rb Z) t = filter (\<lambda>m. snd m \<noteq> a) (rb_nodes (z_rb Z) (domains db))"
proof -
  let ?ns = "rb_nodes (z_rb Z) (domains db)"
  have t: "tree_ok path ?ns (dom_at db) dname" using ok by (simp add: domains_ok_def)
  have "(dname (dom_of db a), a) \<in> set ?ns" using tree_okD(2) [OF t] a by (simp add: doms_image dom_of_def)
  then obtain xs ys where ns: "?ns = xs @ (dname (dom_of db a), a) # ys" using split_list by metis
  obtain t' where d: "rb_delete (z_rb Z) (dname_compare (z_ldns Z)) (domains db) (dname (dom_of db a)) = Some (a, t')"
    "rb_nodes (z_rb Z) t' = xs @ ys" "names_sorted path (xs @ ys)"
    using dname_tree_present(2) [OF _ _ _ ns, of "z_ldns Z" path "dname (dom_of db a)"] z t
    by (auto simp: zone_ok_def tree_ok_def)
  have "distinct (map snd xs @ a # map snd ys)" using tree_ok_distinct [OF t] ns by simp
  then have "filter (\<lambda>m. snd m \<noteq> a) xs = xs" "filter (\<lambda>m. snd m \<noteq> a) ys = ys" by (auto simp: filter_id_conv)
  then have "rb_nodes (z_rb Z) t' = filter (\<lambda>m. snd m \<noteq> a) ?ns" using d(2) ns by simp
  moreover have "namedb_del_domain Z db a = Ok (True, db\<lparr>domains := t'\<rparr>)"
    using d(1) none e dom_get [OF ok a] by (simp add: namedb_del_domain_def empt_def)
  ultimately show thesis using that d(2,3) by metis
qed

lemma del_domain_domains:
  assumes z: "zone_ok path Z" and ok: "domains_ok path Z db" and a: "a \<in> doms Z db" and e: "empt path Z db a"
    and none: "denial (dom_of db a) = None"
  obtains db1 where "namedb_del_domain Z db a = Ok (True, db1)" "domains_ok path Z (domain_cleanup db1 a)"
    "kept Z db (domain_cleanup db1 a)" "doms Z (domain_cleanup db1 a) = doms Z db - {a}"
    "\<And>c. c \<noteq> a \<Longrightarrow> dom_of (domain_cleanup db1 a) c = dom_of db c"
    "\<exists>t. domain_cleanup db1 a = db\<lparr>domains := t, dom_at := (dom_at db)(a := None)\<rparr>"
proof -
  obtain t where t: "namedb_del_domain Z db a = Ok (True, db\<lparr>domains := t\<rparr>)" "names_sorted path (rb_nodes (z_rb Z) t)"
    "rb_nodes (z_rb Z) t = filter (\<lambda>m. snd m \<noteq> a) (rb_nodes (z_rb Z) (domains db))"
    using del_domain_fields [OF z ok a e none] by metis
  let ?db = "domain_cleanup (db\<lparr>domains := t\<rparr>) a"
  have o: "dom_of ?db c = dom_of db c" if "c \<noteq> a" for c using that by (simp add: dom_of_def domain_cleanup_def)
  have n: "nm path ?db c = nm path db c" if "c \<noteq> a" for c using o [OF that] by (simp add: nm_def)
  have dn: "dom_nodes Z ?db = filter (\<lambda>c. c \<noteq> a) (dom_nodes Z db)"
    using t(3) by (simp add: dom_nodes_def domain_cleanup_def filter_map comp_def)
  then have dd: "doms Z ?db = doms Z db - {a}" by auto
  have k: "kept Z db ?db"
    unfolding kept_def dd
  proof (intro conjI ballI)
    show "dom_nodes Z ?db = filter (\<lambda>c. c \<in> doms Z db - {a}) (dom_nodes Z db)" unfolding dn by (rule filter_cong) auto
  qed (use o e in \<open>auto simp: empt_def\<close>)
  have "place_ok path Z ?db c" if c: "c \<in> doms Z db" "c \<noteq> a" for c
  proof -
    have "place_ok path Z db c" using ok c(1) by (simp add: domains_ok_def)
    then show ?thesis using empt_no_child [OF ok e c(1)] unfolding place_ok_def dd
      by (auto simp: o [OF c(2)] n [OF c(2)] n split: if_splits)
  qed
  moreover have "tree_ok path (rb_nodes (z_rb Z) t) (dom_at ?db) dname"
    using t(2) ok by (auto simp: tree_ok_def t(3) domains_ok_def domain_cleanup_def)
  ultimately have "domains_ok path Z ?db" unfolding domains_ok_def dd by (simp add: domain_cleanup_def)
  moreover have "?db = db\<lparr>domains := t, dom_at := (dom_at db)(a := None)\<rparr>" by (simp add: domain_cleanup_def)
  ultimately show thesis using that [OF t(1) _ k dd o] by blast
qed

lemma del_domain_eval:
  assumes z: "zone_ok path Z" and ok: "db_ok path Z db" and a: "a \<in> doms Z db" and e: "empt path Z db a"
    and none: "denial (dom_of db a) = None"
  obtains db1 where "namedb_del_domain Z db a = Ok (True, db1)" "db_ok path Z (domain_cleanup db1 a)"
    "kept Z db (domain_cleanup db1 a)" "doms Z (domain_cleanup db1 a) = doms Z db - {a}"
    "\<And>c. c \<noteq> a \<Longrightarrow> dom_of (domain_cleanup db1 a) c = dom_of db c"
proof -
  obtain db1 t where t: "namedb_del_domain Z db a = Ok (True, db1)" "domains_ok path Z (domain_cleanup db1 a)"
    "kept Z db (domain_cleanup db1 a)" "doms Z (domain_cleanup db1 a) = doms Z db - {a}"
    "\<And>c. c \<noteq> a \<Longrightarrow> dom_of (domain_cleanup db1 a) c = dom_of db c"
    "domain_cleanup db1 a = db\<lparr>domains := t, dom_at := (dom_at db)(a := None)\<rparr>"
    using del_domain_domains [OF z db_okD(1) [OF ok] a e none] by metis
  define db' where "db' = domain_cleanup db1 a"
  note o = t(5) [folded db'_def] and dd = t(4) [folded db'_def] and k = t(3) [folded db'_def]
  have den: "den_nodes Z db' = den_nodes Z db" "den_of db' u = den_of db u" "denials db' = denials db" "den_at db' = den_at db"
    "fresh db' = fresh db" "ixfr db' = ixfr db" "is_initialized db' = is_initialized db" for u
    unfolding db'_def t(6) by (simp_all add: den_nodes_def den_of_def)
  have na: "denial (dom_of db c) = Some u \<Longrightarrow> c \<noteq> a" for c u using none by auto
  have "links_ok Z db'"
    unfolding links_ok_def den dd using links_okD [OF db_okD(4) [OF ok]] na
    by (intro conjI ballI allI impI) (fastforce simp: o)+
  moreover have "tracked Z db'"
    by (rule tracked_points [OF ok k]) (use none in \<open>auto simp: dd den\<close>)
  moreover have "\<forall>c \<in> doms Z db' \<union> dens Z db'. c < fresh db'" unfolding dd den using db_okD(6) [OF ok] by auto
  moreover have "\<forall>c \<in> doms Z db'. rrsets_ok (rrsets (dom_of db' c))" using db_okD(2) [OF ok] by (auto simp: dd o)
  ultimately have "db_ok path Z db'" using t(2) db_okD(3,5,7) [OF ok] by (simp add: db_ok_def den db'_def [symmetric])
  then show thesis using that [of db1] t(1,3-5) by (simp add: db'_def)
qed

end
