(* ===== verification/Namedb_Diff.thy ===== *)
theory Namedb_Diff
  imports Namedb_Points
begin

text \<open>
  \<^verbatim>\<open>namedb_diff\<close>: after the changes at each domain, the walk over the tree that removes empty
  domains and denial points that are not wanted any more, and adds the ones that are.
\<close>

section \<open>From a domain up\<close>

lemma owners_ok_kept:
  assumes "owners_ok path Z db" "kept Z db db'"
  shows "owners_ok path Z db'"
  using assms(1) keptD(1,2) [OF assms(2)] unfolding owners_ok_def by (metis subsetD)

lemma empt_kept:
  assumes "kept Z db db'" "c \<in> doms Z db'"
  shows "empt path Z db' c \<longleftrightarrow> \<not> is_apex (dom_of db c) \<and> rrsets (dom_of db c) = [] \<and>
    (\<forall>d \<in> doms Z db'. \<not> strict_prefix (nm path db c) (nm path db d))"
  using keptD(2) [OF assms] by (auto simp: empt_def kept_nm [OF assms(1)] assms(2))

lemma empt_same: "kept Z db db' \<Longrightarrow> doms Z db' = doms Z db \<Longrightarrow> c \<in> doms Z db \<Longrightarrow> empt path Z db' c = empt path Z db c"
  using empt_kept [of Z db db' c path] by (auto simp: empt_def)

text \<open>The trigger at one domain.\<close>

lemma trigger_point:
  assumes z: "zone_ok path Z" and ok: "db_ok path Z db" and a: "a \<in> doms Z db"
  obtains db' where "(if denial (dom_of db a) \<noteq> None then del_trigger Z db a else Ok db) = Ok db'" "db_ok path Z db'" "kept Z db db'"
    "doms Z db' = doms Z db"
    "\<And>c. denial (dom_of db' c) =
      (if c = a \<and> (\<not> wanted path Z db a \<or> empt path Z db a) then None else denial (dom_of db c))"
proof (cases "denial (dom_of db a) \<noteq> None \<and> (\<not> wanted path Z db a \<or> empt path Z db a)")
  case True
  then obtain db' where db': "del_point Z db a = Ok db'" "db_ok path Z db'" "kept Z db db'" "doms Z db' = doms Z db"
    "\<And>c. denial (dom_of db' c) = (if c = a then None else denial (dom_of db c))"
    using del_point_eval [OF z ok a] by metis
  show thesis by (rule that [of db']) (use True del_trigger_eval [OF z db_okD(1) [OF ok] a] db' in simp_all)
next
  case False
  show thesis by (rule that [of db]) (use False del_trigger_eval [OF z db_okD(1) [OF ok] a] ok kept_refl in auto)
qed

text \<open>No domain that is left has become empty by the deletion of an empty domain, but for its parent.\<close>

lemma empt_deleted:
  assumes ok: "domains_ok path Z db" and k: "kept Z db db'" and dd: "doms Z db' = doms Z db - {a}" and a: "a \<in> doms Z db"
    and c: "c \<in> doms Z db'" "empt path Z db' c" "\<not> empt path Z db c"
  shows "parent (dom_of db a) = Some c"
proof -
  have "strict_prefix (nm path db c) (nm path db a)"
    using c(2,3) unfolding empt_kept [OF k c(1)] by (auto simp: empt_def dd)
  then have "\<not> is_apex (dom_of db a)" using place_apex [OF ok, of c] apex_iff [OF ok a] keptD(1) [OF k] c(1)
    by (auto simp: prefix_order.less_le_not_le)
  then obtain p where p: "p \<in> doms Z db" "parent (dom_of db a) = Some p" "nm path db p = butlast (nm path db a)"
    "strict_prefix (nm path db p) (nm path db a)" using place_parent [OF ok a] by blast
  have "prefix (nm path db c) (nm path db p)"
    using \<open>strict_prefix (nm path db c) (nm path db a)\<close> p(3) by (simp add: strict_prefix_butlast)
  moreover have "p \<in> doms Z db'" using p(1,4) dd by auto
  then have "\<not> strict_prefix (nm path db c) (nm path db p)" using c(2) unfolding empt_kept [OF k c(1)] by blast
  ultimately have "nm path db c = nm path db p" by (simp add: strict_prefix_def)
  then show ?thesis using nm_inj [OF ok _ p(1)] keptD(1) [OF k] c(1) p(2) by auto
qed


text \<open>
  What the walk from \<open>a\<close> up leaves: \<open>a\<close> is gone if it was empty, and with it the domains above that
  have become empty; the point of \<open>a\<close> is gone if it was not wanted.
\<close>

definition walked :: "('f \<Rightarrow> 'l::linorder list) \<Rightarrow> ('f, 'k, 't) zone \<Rightarrow> ('f, 't) namedb \<Rightarrow> nat \<Rightarrow> ('f, 't) namedb \<Rightarrow> bool" where
  "walked path Z db a db' \<longleftrightarrow>
     db_ok path Z db' \<and> kept Z db db' \<and> doms Z db - doms Z db' \<subseteq> insert a (above path Z db a) \<and>
     (a \<in> doms Z db' \<longleftrightarrow> \<not> empt path Z db a) \<and> (\<not> empt path Z db a \<longrightarrow> doms Z db' = doms Z db) \<and>
     (\<forall>c \<in> doms Z db'. denial (dom_of db' c) =
        (if c = a \<and> \<not> wanted path Z db a then None else denial (dom_of db c))) \<and>
     (\<forall>c \<in> doms Z db'. empt path Z db' c \<longrightarrow> empt path Z db c)"

lemma walkedD:
  assumes "walked path Z db a db'"
  shows "db_ok path Z db'" "kept Z db db'" "doms Z db - doms Z db' \<subseteq> insert a (above path Z db a)"
    "a \<in> doms Z db' \<longleftrightarrow> \<not> empt path Z db a" "\<not> empt path Z db a \<Longrightarrow> doms Z db' = doms Z db"
    "\<And>c. c \<in> doms Z db' \<Longrightarrow> denial (dom_of db' c) =
        (if c = a \<and> \<not> wanted path Z db a then None else denial (dom_of db c))"
    "\<And>c. c \<in> doms Z db' \<Longrightarrow> empt path Z db' c \<Longrightarrow> empt path Z db c"
  using assms unfolding walked_def by blast+

text \<open>The points above that are there are wanted.\<close>

definition settled :: "('f \<Rightarrow> 'l::linorder list) \<Rightarrow> ('f, 'k, 't) zone \<Rightarrow> ('f, 't) namedb \<Rightarrow> nat \<Rightarrow> bool" where
  "settled path Z db p \<longleftrightarrow> (denial (dom_of db p) \<noteq> None \<longrightarrow> wanted path Z db p)"

lemma can_be_deleted_eval:
  assumes "zone_ok path Z" "db_ok path Z db" "a \<in> doms Z db"
  shows "domain_can_be_deleted Z db a = Ok (empt path Z db a \<and> denial (dom_of db a) = None)"
  using domain_is_empty_terminal_eval [OF assms(1) db_okD(1) [OF assms(2)] assms(3)] dom_get [OF db_okD(1) [OF assms(2)] assms(3)]
  by (simp add: domain_can_be_deleted_def)

text \<open>The walk goes on after \<open>a\<close> was deleted, or was not empty.\<close>

lemma walked_on_deleted:
  assumes ok: "db_ok path Z db" and a: "a \<in> doms Z db" "empt path Z db a"
    and k: "kept Z db db2" "doms Z db2 = doms Z db - {a}" "\<And>c. c \<noteq> a \<Longrightarrow> denial (dom_of db2 c) = denial (dom_of db c)"
    and p: "parent (dom_of db a) = Some p" "p \<in> doms Z db" "p \<noteq> a" "above path Z db a = insert p (above path Z db p)"
    and s: "settled path Z db p" and w: "walked path Z db2 p db3"
  shows "walked path Z db a db3"
proof -
  note w = walkedD [OF w]
  have p2: "p \<in> doms Z db2" using k(2) p(2,3) by simp
  have sub: "doms Z db3 \<subseteq> doms Z db2" using keptD(1) [OF w(2)] .
  have "doms Z db2 - doms Z db3 \<subseteq> insert p (above path Z db p)" using w(3) kept_above [OF k(1) p2, of path] by auto
  then have "doms Z db - doms Z db3 \<subseteq> insert a (above path Z db a)" using k(2) p(4) by auto
  moreover have "denial (dom_of db3 c) = denial (dom_of db c)" if "c \<in> doms Z db3" for c
  proof -
    have "c \<noteq> a" using that sub k(2) by auto
    then have "denial (dom_of db2 c) = denial (dom_of db c)" by (rule k(3))
    moreover have "\<not> wanted path Z db2 p \<Longrightarrow> denial (dom_of db p) = None"
      using s kept_wanted [OF k(1) p2, of path] by (auto simp: settled_def)
    ultimately show ?thesis using w(6) [OF that] by auto
  qed
  moreover have "empt path Z db c" if c: "c \<in> doms Z db3" "empt path Z db3 c" for c
  proof (rule ccontr)
    assume n: "\<not> empt path Z db c"
    have e2: "c \<in> doms Z db2" "empt path Z db2 c" using w(7) [OF c] c(1) sub by auto
    then have "parent (dom_of db a) = Some c" using empt_deleted [OF db_okD(1) [OF ok] k(1,2) a(1) _ _ n] by blast
    then have "c = p" using p(1) by simp
    then show False using w(4) c(1) e2(2) by simp
  qed
  moreover have "a \<notin> doms Z db3" using sub k(2) by auto
  ultimately show ?thesis using w(1) kept_trans [OF k(1) w(2)] a(2) by (auto simp: walked_def)
qed

lemma walked_on_kept:
  assumes a: "a \<in> doms Z db" "\<not> empt path Z db a"
    and k: "kept Z db db1" "doms Z db1 = doms Z db"
      "\<And>c. denial (dom_of db1 c) = (if c = a \<and> \<not> wanted path Z db a then None else denial (dom_of db c))"
    and p: "p \<in> doms Z db" "p \<noteq> a" "\<not> empt path Z db p" "settled path Z db p" and w: "walked path Z db1 p db3"
  shows "walked path Z db a db3"
proof -
  note w = walkedD [OF w]
  have p1: "p \<in> doms Z db1" "\<not> empt path Z db1 p" using p(1,3) empt_same [OF k(1,2) p(1), of path] k(2) by auto
  have d: "doms Z db3 = doms Z db" using w(5) [OF p1(2)] k(2) by simp
  moreover have "denial (dom_of db3 c) = (if c = a \<and> \<not> wanted path Z db a then None else denial (dom_of db c))"
    if "c \<in> doms Z db3" for c
    using w(6) [OF that] k(3) [of c] p(2,4) kept_wanted [OF k(1) p1(1), of path] by (auto simp: settled_def)
  moreover have "empt path Z db c" if "c \<in> doms Z db3" "empt path Z db3 c" for c
    using w(7) [OF that] empt_same [OF k(1,2), of c path] that(1) d by simp
  ultimately show ?thesis using w(1) kept_trans [OF k(1) w(2)] a by (auto simp: walked_def)
qed


lemma del_denial_loop_eval:
  assumes z: "zone_ok path Z" and "db_ok path Z db" "a \<in> doms Z db" "card (above path Z db a) + 1 < n"
    "\<forall>p \<in> above path Z db a. settled path Z db p"
  shows "\<exists>db'. del_denial_loop Z False n (Some a) del db = Ok (del \<or> empt path Z db a, db') \<and> walked path Z db a db'"
  using assms(2-5)
proof (induction n arbitrary: db a del)
  case (Suc n)
  note ok = Suc.prems(1) and a = Suc.prems(2) and dk = db_okD(1) [OF Suc.prems(1)]
  obtain db1 where d1: "(if denial (dom_of db a) \<noteq> None then del_trigger Z db a else Ok db) = Ok db1" "db_ok path Z db1"
    "kept Z db db1" "doms Z db1 = doms Z db"
    "\<And>c. denial (dom_of db1 c) = (if c = a \<and> (\<not> wanted path Z db a \<or> empt path Z db a) then None else denial (dom_of db c))"
    using trigger_point [OF z ok a] by metis
  have a1: "a \<in> doms Z db1" and e1: "empt path Z db1 a = empt path Z db a" using a d1(4) empt_same [OF d1(3,4) a] by simp_all
  have can: "domain_can_be_deleted Z db1 a = Ok (empt path Z db a)"
    using can_be_deleted_eval [OF z d1(2) a1] d1(5) e1 by auto
  have step: "del_denial_loop Z False (Suc n) (Some a) del db =
      (if empt path Z db a
       then exec_bind (namedb_del_domain Z db1 a) (\<lambda>(gone, db).
         del_denial_loop Z False n (parent (dom_of db1 a)) True (if gone then domain_cleanup db a else db))
       else del_denial_loop Z False n (parent (dom_of db a)) del db1)"
    using dom_get [OF dk a] d1(1) can keptD(2) [OF d1(3) a1] by simp
  have up: "card (above path Z db' p) + 1 < n \<and> (\<forall>q \<in> above path Z db' p. settled path Z db' q)"
    if k: "kept Z db db'" "p \<in> doms Z db'" "\<And>c. c \<noteq> a \<Longrightarrow> denial (dom_of db' c) = denial (dom_of db c)"
      and p: "above path Z db a = insert p (above path Z db p)" "p \<notin> above path Z db p" for db' p
  proof -
    have sub: "above path Z db' p = above path Z db p \<inter> doms Z db'" by (rule kept_above [OF k(1,2)])
    then have "card (above path Z db' p) \<le> card (above path Z db p)" by (intro card_mono) auto
    moreover have "card (above path Z db a) = Suc (card (above path Z db p))" using p by simp
    moreover have "settled path Z db' q" if "q \<in> above path Z db' p" for q
    proof -
      have q: "q \<in> above path Z db a" "q \<in> doms Z db'" "q \<noteq> a" using that sub p(1) by (auto simp: above_def)
      then show ?thesis using Suc.prems(4) k(3) kept_wanted [OF k(1) q(2), of path] by (auto simp: settled_def)
    qed
    ultimately show ?thesis using Suc.prems(3) by auto
  qed
  show ?case
  proof (cases "is_apex (dom_of db a)")
    case True
    then have "parent (dom_of db a) = None" "\<not> empt path Z db a" using apex_parent [OF dk a] by (simp_all add: empt_def)
    moreover obtain m where "n = Suc m" using Suc.prems(3) by (cases n) auto
    moreover have "walked path Z db a db1" using d1(2-5) a empt_same [OF d1(3,4)] calculation(2) by (auto simp: walked_def)
    ultimately show ?thesis using step by auto
  next
    case False
    then obtain p where p: "p \<in> doms Z db" "parent (dom_of db a) = Some p" "nm path db p = butlast (nm path db a)"
      "strict_prefix (nm path db p) (nm path db a)" using place_parent [OF dk a] by blast
    have pa: "p \<noteq> a" and ne: "nm path db a \<noteq> []" using p(4) by auto
    note ab = above_parent [OF dk a p(1,3) ne]
    have s: "settled path Z db p" using Suc.prems(4) ab(1) by simp
    show ?thesis
    proof (cases "empt path Z db a")
      case True
      have e: "empt path Z db1 a" "denial (dom_of db1 a) = None" using True e1 d1(5) by simp_all
      obtain db1' where d2: "namedb_del_domain Z db1 a = Ok (True, db1')" "db_ok path Z (domain_cleanup db1' a)"
        "kept Z db1 (domain_cleanup db1' a)" "doms Z (domain_cleanup db1' a) = doms Z db1 - {a}"
        "\<And>c. c \<noteq> a \<Longrightarrow> dom_of (domain_cleanup db1' a) c = dom_of db1 c"
        using del_domain_eval [OF z d1(2) a1 e] by metis
      define db2 where "db2 = domain_cleanup db1' a"
      have k: "kept Z db db2" "doms Z db2 = doms Z db - {a}" "\<And>c. c \<noteq> a \<Longrightarrow> denial (dom_of db2 c) = denial (dom_of db c)"
        using kept_trans [OF d1(3) d2(3)] d2(4,5) d1(4,5) by (simp_all add: db2_def)
      have p2: "p \<in> doms Z db2" using k(2) p(1) pa by simp
      obtain db3 where d3: "del_denial_loop Z False n (Some p) True db2 = Ok (True \<or> empt path Z db2 p, db3)" "walked path Z db2 p db3"
        using Suc.IH [of db2 p True] up [OF k(1) p2 k(3) ab] d2(2) p2 db2_def by auto
      have "walked path Z db a db3" by (rule walked_on_deleted [OF ok a True k p(2,1) pa ab(1) s d3(2)])
      then show ?thesis using step True d2(1) d3(1) p(2) keptD(2) [OF d1(3) a1] db2_def by auto
    next
      case False
      have np: "\<not> empt path Z db p" using p(4) a by (auto simp: empt_def)
      have k: "\<And>c. denial (dom_of db1 c) = (if c = a \<and> \<not> wanted path Z db a then None else denial (dom_of db c))"
        using d1(5) False by simp
      have p1: "p \<in> doms Z db1" using d1(4) p(1) by simp
      have k': "\<And>c. c \<noteq> a \<Longrightarrow> denial (dom_of db1 c) = denial (dom_of db c)" using k by simp
      obtain db3 where d3: "del_denial_loop Z False n (Some p) del db1 = Ok (del \<or> empt path Z db1 p, db3)" "walked path Z db1 p db3"
        using Suc.IH [OF d1(2) p1, of del] up [OF d1(3) p1 k' ab] by auto
      have "walked path Z db a db3" by (rule walked_on_kept [OF a False d1(3,4) k p(1) pa np s d3(2)])
      then show ?thesis using step False d3(1) p(2) np empt_same [OF d1(3,4) p(1), of path] by auto
    qed
  qed
qed simp


section \<open>Through the tree\<close>

text \<open>A domain that is not empty and has a point if and only if it should have one.\<close>

definition sound :: "('f \<Rightarrow> 'l::linorder list) \<Rightarrow> ('f, 'k, 't) zone \<Rightarrow> ('f, 't) namedb \<Rightarrow> nat \<Rightarrow> bool" where
  "sound path Z db c \<longleftrightarrow> (denial (dom_of db c) \<noteq> None \<longleftrightarrow> wanted path Z db c) \<and> \<not> empt path Z db c"

lemma above_before:
  assumes "domains_ok path Z db" "dom_nodes Z db = pre @ a # bs"
  shows "above path Z db a \<subseteq> set pre"
proof
  fix p assume p: "p \<in> above path Z db a"
  have "p \<notin> set bs"
  proof
    assume "p \<in> set bs"
    then obtain xs ys where "bs = xs @ p # ys" using split_list by metis
    then show False using not_below_before [OF assms(1), of "pre @ a # xs" p ys a] p assms(2) by (simp add: above_def)
  qed
  then show "p \<in> set pre" using p assms(2) by (auto simp: above_def)
qed

lemma trigger_step:
  assumes z: "zone_ok path Z" and ok: "db_ok path Z db" and ow: "owners_ok path Z db" and ns: "dom_nodes Z db = pre @ a # bs"
    and pre: "\<forall>c \<in> set pre. sound path Z db c"
  obtains gone db1 db2 pre' where "namedb_del_denial_trigger Z db a False = Ok (gone, db1)"
    "(if gone then Ok db1 else namedb_add_denial_trigger Z db1 a) = Ok db2"
    "db_ok path Z db2" "kept Z db db2" "dom_nodes Z db2 = pre' @ bs" "\<forall>c \<in> set pre'. sound path Z db2 c"
proof -
  note dk = db_okD(1) [OF ok]
  have a: "a \<in> doms Z db" and dist: "distinct (pre @ a # bs)" using ns doms_distinct [OF dk] by simp_all
  have ab: "above path Z db a \<subseteq> set pre" by (rule above_before [OF dk ns])
  then have "\<forall>p \<in> above path Z db a. settled path Z db p" using pre by (auto simp: sound_def settled_def)
  then obtain db1 where w: "namedb_del_denial_trigger Z db a False = Ok (empt path Z db a, db1)" "walked path Z db a db1"
    using del_denial_loop_eval [OF z ok a, of "length (dom_nodes Z db) + 1" False] card_above [OF a, of path]
    by (auto simp: namedb_del_denial_trigger_def)
  note w' = walkedD [OF w(2)]
  have "c \<in> doms Z db1" if "c \<in> set bs" for c using that w'(3) ab dist ns by auto
  then have "filter (\<lambda>c. c \<in> doms Z db1) bs = bs" by (simp add: filter_id_conv)
  then have ns1: "dom_nodes Z db1 = (filter (\<lambda>c. c \<in> doms Z db1) pre @ (if empt path Z db a then [] else [a])) @ bs"
    using keptD(4) [OF w'(2)] w'(4) by (simp add: ns split: if_splits)
  have snd: "sound path Z db1 c" if "c \<in> set pre" "c \<in> doms Z db1" for c
    using pre that w'(6,7) [OF that(2)] dist kept_wanted [OF w'(2) that(2), of path] by (auto simp: sound_def)
  show thesis
  proof (cases "empt path Z db a")
    case True
    then show thesis using that [of True db1 db1 "filter (\<lambda>c. c \<in> doms Z db1) pre"] w(1) w'(1,2) ns1 snd by simp
  next
    case False
    have d1: "doms Z db1 = doms Z db" "a \<in> doms Z db1" using w'(5) [OF False] a by simp_all
    have ow1: "owners_ok path Z db1" by (rule owners_ok_kept [OF ow w'(2)])
    have wa: "wanted path Z db1 a = wanted path Z db a" "empt path Z db1 a = empt path Z db a"
      using kept_wanted [OF w'(2) d1(2), of path] empt_same [OF w'(2) d1(1) a, of path] by simp_all
    have da: "denial (dom_of db1 a) \<noteq> None \<Longrightarrow> wanted path Z db a" using w'(6) [OF d1(2)] by (auto split: if_splits)
    have pre1: "set (filter (\<lambda>c. c \<in> doms Z db1) pre @ [a]) \<subseteq> insert a (set pre \<inter> doms Z db1)" by auto
    show thesis
    proof (cases "denial (dom_of db1 a) = None \<and> wanted path Z db a")
      case True
      then obtain db2 where d2: "add_point Z db1 a (nsec3params (z_signconf Z)) = Ok db2" "db_ok path Z db2" "kept Z db1 db2"
        "doms Z db2 = doms Z db1" "\<And>c. denial (dom_of db2 c) = (if c = a then Some (fresh db1) else denial (dom_of db1 c))"
        using add_point_eval [OF z w'(1) ow1 d1(2)] by metis
      have "sound path Z db2 c" if "c \<in> insert a (set pre \<inter> doms Z db1)" for c
      proof -
        have c1: "c \<in> doms Z db1" "c \<in> doms Z db2" using that d1(2) d2(4) by auto
        show ?thesis using that True False wa snd [OF _ c1(1)] d2(5) [of c] kept_wanted [OF d2(3) c1(2), of path]
            empt_same [OF d2(3,4) c1(1), of path] by (auto simp: sound_def)
      qed
      then have "\<forall>c \<in> set (filter (\<lambda>c. c \<in> doms Z db1) pre @ [a]). sound path Z db2 c" using pre1 by blast
      then show thesis using that [of False db1 db2 "filter (\<lambda>c. c \<in> doms Z db1) pre @ [a]"] w(1) False d2(1,2) True
          kept_trans [OF w'(2) d2(3)] kept_same [OF d2(3,4)] ns1 add_trigger_eval [OF z db_okD(1) [OF w'(1)] d1(2)] wa(1) by simp
    next
      case no_add: False
      have "sound path Z db1 c" if "c \<in> insert a (set pre \<inter> doms Z db1)" for c
        using that no_add False wa da snd by (auto simp: sound_def)
      then have "\<forall>c \<in> set (filter (\<lambda>c. c \<in> doms Z db1) pre @ [a]). sound path Z db1 c" using pre1 by blast
      then show thesis using that [of False db1 db1 "filter (\<lambda>c. c \<in> doms Z db1) pre @ [a]"] w(1) False w'(1,2) no_add
          ns1 add_trigger_eval [OF z db_okD(1) [OF w'(1)] d1(2)] wa(1) by simp
    qed
  qed
qed

definition trigger_body :: "('f, 'k, 't) zone \<Rightarrow> nat \<Rightarrow> ('f, 't) namedb \<Rightarrow> ('f, 't) namedb exec" where
  "trigger_body Z a db =
    exec_bind (namedb_del_denial_trigger Z db a False) (\<lambda>(gone, db). if gone then Ok db else namedb_add_denial_trigger Z db a)"

interpretation tw: tree_walk "dom_nodes Z" "trigger_body Z" "trigger_loop Z"
  "\<lambda>db. zone_ok path Z \<and> db_ok path Z db \<and> owners_ok path Z db \<and> kept Z db0 db" "sound path Z" for path Z db0
proof (unfold_locales, goal_cases)
  case (2 n a s)
  then show ?case by (simp add: trigger_body_def exec_bind_assoc case_prod_unfold)
next
  case (3 s)
  then show ?case using doms_distinct db_okD(1) by blast
next
  case (4 s pre a bs)
  then obtain gone db1 db2 pre' where st: "namedb_del_denial_trigger Z s a False = Ok (gone, db1)"
    "(if gone then Ok db1 else namedb_add_denial_trigger Z db1 a) = Ok db2"
    "db_ok path Z db2" "kept Z s db2" "dom_nodes Z db2 = pre' @ bs" "\<forall>c \<in> set pre'. sound path Z db2 c"
    using trigger_step [of path Z s pre a bs] by metis
  then show ?case using 4(1) owners_ok_kept kept_trans by (intro exI [of _ db2] exI [of _ pre']) (auto simp: trigger_body_def)
qed simp

section \<open>The domains that are left\<close>

lemma ancestor_in:
  assumes "domains_ok path Z db" "c \<in> doms Z db" "prefix (path (z_apex Z)) q" "prefix q (nm path db c)"
  shows "\<exists>a \<in> doms Z db. nm path db a = q"
  using assms(2,4)
proof (induction "length (nm path db c)" arbitrary: c rule: less_induct)
  case less
  show ?case
  proof (cases "q = nm path db c")
    case False
    then have s: "strict_prefix q (nm path db c)" using less.prems(2) by (simp add: strict_prefix_def)
    then have "\<not> is_apex (dom_of db c)" using apex_iff [OF assms(1) less.prems(1)] assms(3) by (auto simp: prefix_order.less_le_not_le)
    then obtain p where p: "p \<in> doms Z db" "nm path db p = butlast (nm path db c)" "strict_prefix (nm path db p) (nm path db c)"
      using place_parent [OF assms(1) less.prems(1)] by blast
    have "length (nm path db p) < length (nm path db c)" using prefix_length_less [OF p(3)] .
    moreover have "prefix q (nm path db p)" using s p(2) by (simp add: strict_prefix_butlast)
    ultimately show ?thesis using less.hyps p(1) by blast
  qed (use less.prems in blast)
qed

lemma deepest:
  assumes "a \<in> doms Z db"
  obtains c where "c \<in> doms Z db" "prefix (nm path db a) (nm path db c)"
    "\<And>d. d \<in> doms Z db \<Longrightarrow> \<not> strict_prefix (nm path db c) (nm path db d)"
proof -
  let ?S = "{c \<in> doms Z db. prefix (nm path db a) (nm path db c)}"
  have f: "finite ((\<lambda>c. length (nm path db c)) ` ?S)" "(\<lambda>c. length (nm path db c)) ` ?S \<noteq> {}" using assms by auto
  obtain c where c: "c \<in> ?S" "length (nm path db c) = Max ((\<lambda>c. length (nm path db c)) ` ?S)" using Max_in [OF f] by auto
  have "\<not> strict_prefix (nm path db c) (nm path db d)" if "d \<in> doms Z db" for d
  proof
    assume s: "strict_prefix (nm path db c) (nm path db d)"
    then have "d \<in> ?S" using c(1) that by (auto simp: strict_prefix_def)
    then have "length (nm path db d) \<le> length (nm path db c)" using Max_ge [OF f(1)] c(2) by auto
    then show False using prefix_length_less [OF s] by simp
  qed
  then show thesis using that c(1) by blast
qed

lemma doms_left:
  assumes ok: "domains_ok path Z db" "domains_ok path Z db'" and k: "kept Z db db'"
    and ne: "\<And>c. c \<in> doms Z db' \<Longrightarrow> \<not> empt path Z db' c"
  shows "a \<in> doms Z db' \<longleftrightarrow> a \<in> doms Z db \<and>
    (is_apex (dom_of db a) \<or> (\<exists>c \<in> doms Z db. prefix (nm path db a) (nm path db c) \<and> rrsets (dom_of db c) \<noteq> []))"
proof (intro iffI conjI; (elim conjE)?)
  assume a: "a \<in> doms Z db'"
  show "a \<in> doms Z db" using a keptD(1) [OF k] by auto
  obtain c where c: "c \<in> doms Z db'" "prefix (nm path db' a) (nm path db' c)"
    "\<And>d. d \<in> doms Z db' \<Longrightarrow> \<not> strict_prefix (nm path db' c) (nm path db' d)"
    using deepest [OF a, of path] by metis
  then have "is_apex (dom_of db' c) \<or> rrsets (dom_of db' c) \<noteq> []" using ne [OF c(1)] by (auto simp: empt_def)
  moreover have "is_apex (dom_of db' a)" if "is_apex (dom_of db' c)"
    using that c(2) apex_iff [OF ok(2) c(1)] apex_iff [OF ok(2) a] place_apex [OF ok(2) a] by (simp add: prefix_order.antisym)
  ultimately show "is_apex (dom_of db a) \<or> (\<exists>c \<in> doms Z db. prefix (nm path db a) (nm path db c) \<and> rrsets (dom_of db c) \<noteq> [])"
    using keptD(2) [OF k a] keptD(2) [OF k c(1)] c(1,2) keptD(1) [OF k] kept_nm [OF k a, of path] kept_nm [OF k c(1), of path]
    by (metis subsetD)
next
  assume a: "a \<in> doms Z db"
    and or: "is_apex (dom_of db a) \<or> (\<exists>c \<in> doms Z db. prefix (nm path db a) (nm path db c) \<and> rrsets (dom_of db c) \<noteq> [])"
  show "a \<in> doms Z db'"
  proof (cases "is_apex (dom_of db a)")
    case True
    then show ?thesis using keptD(3) [OF k a] by blast
  next
    case False
    then obtain c where c: "c \<in> doms Z db" "prefix (nm path db a) (nm path db c)" "rrsets (dom_of db c) \<noteq> []" using or by blast
    then have c': "c \<in> doms Z db'" using keptD(3) [OF k c(1)] by blast
    obtain b where b: "b \<in> doms Z db'" "nm path db' b = nm path db a"
      using ancestor_in [OF ok(2) c' place_apex [OF ok(1) a]] c(2) kept_nm [OF k c', of path] by auto
    then have "b = a" using nm_inj [OF ok(1) _ a] keptD(1) [OF k] kept_nm [OF k b(1), of path] by auto
    then show ?thesis using b(1) by simp
  qed
qed


section \<open>The changes at the domains\<close>

lemma rrset_after_type [simp]: "rrtype (rrset_after i m r) = rrtype r"
  by (simp add: rrset_after_def)

lemma rrset_after_count: "length (rrs (rrset_after i m r)) \<le> length (rrs r)"
  by (simp add: rrset_after_def)

lemma rrsets_after_ok: "rrsets_ok rs \<Longrightarrow> rrsets_ok (rrsets_after i m rs)"
  using rrset_after_count by (fastforce simp: rrsets_ok_def rrsets_after_def intro: order_le_less_trans)

lemma rrsets_after_types:
  "length (rrsets_after i m rs) = length rs \<Longrightarrow> map rrtype (rrsets_after i m rs) = map rrtype rs"
proof (induction rs)
  case (Cons r rs)
  then show ?case using rrsets_after_length [of i m rs] by (auto simp: Let_def split: if_splits)
qed simp

lemma domain_diff_fields:
  assumes ok: "db_ok path Z db" and a: "a \<in> doms Z db"
  obtains db' where "domain_diff db a i m = Ok db'"
    "domains db' = domains db" "dom_at db' = (dom_at db)(a \<mapsto> (dom_of db a)\<lparr>rrsets := rrsets_after i m (rrsets (dom_of db a))\<rparr>)"
    "denials db' = denials db" "\<And>u. u \<in> dens Z db \<Longrightarrow> den_at db' u = Some
      (if denial (dom_of db a) = Some u \<and> length (rrsets_after i m (rrsets (dom_of db a))) \<noteq> length (rrsets (dom_of db a))
       then (den_of db u)\<lparr>bitmap_changed := True\<rparr> else den_of db u)"
    "fresh db' = fresh db" "is_initialized db' = is_initialized db" "ixfr_ok (is_initialized db) (ixfr db')"
proof -
  let ?d = "dom_of db a" and ?rs = "rrsets_after i m (rrsets (dom_of db a))"
  obtain x where x: "diff_rrsets (is_initialized db) i m (rrsets ?d) (ixfr db) = Ok (?rs, x, length ?rs \<noteq> length (rrsets ?d))"
    "ixfr_ok (is_initialized db) x"
    using diff_rrsets_eval [OF db_okD(7) [OF ok] db_okD(2) [OF ok a], of i m] by auto
  let ?db = "set_dom (db\<lparr>ixfr := x\<rparr>) a (?d\<lparr>rrsets := ?rs\<rparr>)"
  have g: "den_at db u = Some (den_of db u)" if "u \<in> dens Z db" for u using den_get [OF db_okD(3) [OF ok] that] by simp
  have e: "domain_diff db a i m = (if length ?rs \<noteq> length (rrsets ?d) then mark_bitmap ?db (denial ?d) else Ok ?db)"
    using dom_get [OF db_okD(1) [OF ok] a] x(1) by (simp add: domain_diff_def)
  show thesis
  proof (cases "length ?rs \<noteq> length (rrsets ?d) \<and> denial ?d \<noteq> None")
    case True
    then obtain b where b: "denial ?d = Some b" by blast
    then have bd: "b \<in> dens Z db" using links_okD(2) [OF db_okD(4) [OF ok] a] by blast
    let ?db' = "set_den ?db b ((den_of db b)\<lparr>bitmap_changed := True\<rparr>)"
    have "domain_diff db a i m = Ok ?db'" using e True b g [OF bd] by (simp add: mark_bitmap_def get_def set_dom_def)
    then show thesis by (rule that) (use x(2) True b g in \<open>simp_all add: set_den_def set_dom_def\<close>)
  next
    case False
    then have "domain_diff db a i m = Ok ?db" using e by (auto simp: mark_bitmap_def)
    then show thesis by (rule that) (use x(2) False g in \<open>auto simp: set_dom_def\<close>)
  qed
qed

lemma domain_diff_eval:
  assumes ok: "db_ok path Z db" and a: "a \<in> doms Z db"
  obtains db' where "domain_diff db a i m = Ok db'" "db_ok path Z db'" "dom_nodes Z db' = dom_nodes Z db"
    "\<And>c. dom_of db' c = (if c = a then (dom_of db a)\<lparr>rrsets := rrsets_after i m (rrsets (dom_of db a))\<rparr> else dom_of db c)"
proof -
  let ?rs = "rrsets_after i m (rrsets (dom_of db a))"
  obtain db' where ex: "domain_diff db a i m = Ok db'"
    and dm: "domains db' = domains db" "dom_at db' = (dom_at db)(a \<mapsto> (dom_of db a)\<lparr>rrsets := ?rs\<rparr>)"
    and dn: "denials db' = denials db" and den: "\<And>u. u \<in> dens Z db \<Longrightarrow> den_at db' u = Some
      (if denial (dom_of db a) = Some u \<and> length ?rs \<noteq> length (rrsets (dom_of db a))
       then (den_of db u)\<lparr>bitmap_changed := True\<rparr> else den_of db u)"
    and rest: "fresh db' = fresh db" "is_initialized db' = is_initialized db" "ixfr_ok (is_initialized db) (ixfr db')"
    using domain_diff_fields [OF ok a] by metis
  have o: "dom_of db' c = (if c = a then (dom_of db a)\<lparr>rrsets := ?rs\<rparr> else dom_of db c)" for c by (simp add: dom_of_def dm(2))
  have n: "dom_nodes Z db' = dom_nodes Z db" "den_nodes Z db' = den_nodes Z db" by (simp_all add: dom_nodes_def den_nodes_def dm(1) dn)
  have f: "d_rrset (den_of db' u) = d_rrset (den_of db u)" "d_domain (den_of db' u) = d_domain (den_of db u)"
    "d_dname (den_of db' u) = d_dname (den_of db u)" "nxt_changed (den_of db' u) = nxt_changed (den_of db u)"
    "bitmap_changed (den_of db' u) = (denial (dom_of db a) = Some u \<and> length ?rs \<noteq> length (rrsets (dom_of db a)) \<or>
       bitmap_changed (den_of db u))" if "u \<in> dens Z db" for u
    using den [OF that] by (auto simp: den_of_def)
  have "domains_ok path Z db'"
    by (rule domains_ok_cong [OF db_okD(1) [OF ok] dm(1)]) (use dom_at_of [OF db_okD(1) [OF ok]] in \<open>simp add: o dm(2)\<close>)
  moreover have "\<forall>c \<in> doms Z db'. rrsets_ok (rrsets (dom_of db' c))" using db_okD(2) [OF ok] by (simp add: n o rrsets_after_ok)
  moreover have "tree_ok path (rb_nodes (z_rb Z) (denials db')) (den_at db') d_dname"
    unfolding dn
  proof (rule tree_ok_cong [OF db_okD(3) [OF ok]])
    fix u assume "u \<in> snd ` set (rb_nodes (z_rb Z) (denials db))"
    then have u: "u \<in> dens Z db" by (simp add: dens_image)
    show "map_option d_dname (den_at db' u) = map_option d_dname (den_at db u)"
      using den [OF u] den_get [OF db_okD(3) [OF ok] u] by simp
  qed
  moreover have "links_ok Z db'"
    using links_okD [OF db_okD(4) [OF ok]] unfolding links_ok_def n by (simp add: o f) (metis (no_types, lifting))
  moreover have "\<forall>u \<in> dens Z db'. den_rrset_ok Z (den_of db' u)" using db_okD(5) [OF ok] by (simp add: n f den_rrset_ok_def)
  moreover have "\<forall>c \<in> doms Z db' \<union> dens Z db'. c < fresh db'" unfolding n rest(1) using db_okD(6) [OF ok] by blast
  moreover have "nxt_changed (den_of db' u) \<or> bitmap_changed (den_of db' u) \<or> current Z db' u v"
    if uv: "(u, v) \<in> cyc (den_nodes Z db)" for u v
  proof (rule ccontr)
    assume c: "\<not> ?thesis"
    have in_d: "u \<in> dens Z db" "v \<in> dens Z db" using cyc_subset [OF uv] by simp_all
    obtain d where d: "d_domain (den_of db u) = Some d" "denial (dom_of db d) = Some u"
      using links_okD(1) [OF db_okD(4) [OF ok] in_d(1)] by blast
    have "current Z db u v" using db_okD(8) [OF ok] uv c f(4,5) [OF in_d(1)] by (auto simp: tracked_def)
    moreover have "map rrtype (rrsets (dom_of db' d)) = map rrtype (rrsets (dom_of db d))"
      using rrsets_after_types [of i m "rrsets (dom_of db a)"] c f(5) [OF in_d(1)] d(2) o [of d] by auto
    ultimately show False
      using current_cong [of db' u db v d Z] f [OF in_d(1)] f(3) [OF in_d(2)] d(1) o [of d] c by (auto split: if_splits)
  qed
  then have "tracked Z db'" unfolding tracked_def n by blast
  ultimately have "db_ok path Z db'" using rest by (simp add: db_ok_def)
  then show thesis using that [of db'] ex n(1) o by simp
qed


lemma diff_domains_eval:
  assumes "db_ok path Z db" "set as \<subseteq> doms Z db" "distinct as"
  shows "\<exists>db'. diff_domains i m as db = Ok db' \<and> db_ok path Z db' \<and> dom_nodes Z db' = dom_nodes Z db \<and>
    (\<forall>c. dom_of db' c = (if c \<in> set as then (dom_of db c)\<lparr>rrsets := rrsets_after i m (rrsets (dom_of db c))\<rparr> else dom_of db c))"
  using assms
proof (induction as arbitrary: db)
  case (Cons a as)
  obtain db1 where d1: "domain_diff db a i m = Ok db1" "db_ok path Z db1" "dom_nodes Z db1 = dom_nodes Z db"
    "\<And>c. dom_of db1 c = (if c = a then (dom_of db a)\<lparr>rrsets := rrsets_after i m (rrsets (dom_of db a))\<rparr> else dom_of db c)"
    using domain_diff_eval [OF Cons.prems(1), of a i m] Cons.prems(2) by auto
  obtain db' where d': "diff_domains i m as db1 = Ok db'" "db_ok path Z db'" "dom_nodes Z db' = dom_nodes Z db1"
    "\<And>c. dom_of db' c = (if c \<in> set as then (dom_of db1 c)\<lparr>rrsets := rrsets_after i m (rrsets (dom_of db1 c))\<rparr> else dom_of db1 c)"
    using Cons.IH [OF d1(2)] Cons.prems(2,3) d1(3) by auto
  show ?case using d1(1,3,4) d' Cons.prems(3) by (intro exI [of _ db']) auto
qed simp

definition has_data :: "('f \<Rightarrow> 'l::linorder list) \<Rightarrow> ('f, 'k, 't) zone \<Rightarrow> ('f, 't) namedb \<Rightarrow> bool \<Rightarrow> bool \<Rightarrow> nat \<Rightarrow> bool" where
  "has_data path Z db is_ixfr more_coming a \<longleftrightarrow>
     (\<exists>c \<in> doms Z db. prefix (nm path db a) (nm path db c) \<and> rrsets_after is_ixfr more_coming (rrsets (dom_of db c)) \<noteq> [])"

lemma namedb_diff_eval:
  assumes z: "zone_ok path Z" and ok: "db_ok path Z db" and ow: "owners_ok path Z db"
  obtains db' where "namedb_diff Z db i m = Ok db'" "db_ok path Z db'" "owners_ok path Z db'"
    "\<And>a. a \<in> doms Z db' \<longleftrightarrow> a \<in> doms Z db \<and> (is_apex (dom_of db a) \<or> has_data path Z db i m a)"
    "\<And>a. a \<in> doms Z db' \<Longrightarrow> dname (dom_of db' a) = dname (dom_of db a) \<and> rrsets (dom_of db' a) = rrsets_after i m (rrsets (dom_of db a))"
    "\<And>a. a \<in> doms Z db' \<Longrightarrow> denial (dom_of db' a) \<noteq> None \<longleftrightarrow> wanted path Z db' a"
proof -
  obtain db1 where d1: "diff_domains i m (dom_nodes Z db) db = Ok db1" "db_ok path Z db1" "dom_nodes Z db1 = dom_nodes Z db"
    "\<And>c. dom_of db1 c = (if c \<in> doms Z db then (dom_of db c)\<lparr>rrsets := rrsets_after i m (rrsets (dom_of db c))\<rparr> else dom_of db c)"
    using diff_domains_eval [OF ok subset_refl doms_distinct [OF db_okD(1) [OF ok]], of i m] by metis
  have n: "nm path db1 c = nm path db c" for c by (simp add: nm_def d1(4))
  have ow1: "owners_ok path Z db1" using ow by (simp add: owners_ok_def d1(3,4))
  obtain db2 where d2: "trigger_loop Z (length (dom_nodes Z db1) + 1) (first_node (dom_nodes Z db1)) db1 = Ok db2"
    "db_ok path Z db2" "kept Z db1 db2" "\<forall>c \<in> doms Z db2. sound path Z db2 c"
    using tw.walk_all [of path Z db1 db1] z d1(2) ow1 kept_refl by blast
  show thesis
  proof (rule that [of db2])
    show "namedb_diff Z db i m = Ok db2" using d1(1) d2(1) by (simp add: namedb_diff_def)
    show "owners_ok path Z db2" by (rule owners_ok_kept [OF ow1 d2(3)])
    show "a \<in> doms Z db2 \<longleftrightarrow> a \<in> doms Z db \<and> (is_apex (dom_of db a) \<or> has_data path Z db i m a)" for a
      using doms_left [OF db_okD(1) [OF d1(2)] db_okD(1) [OF d2(2)] d2(3), of a] d2(4)
      by (auto simp: sound_def d1(3,4) n has_data_def)
    show "dname (dom_of db2 a) = dname (dom_of db a) \<and> rrsets (dom_of db2 a) = rrsets_after i m (rrsets (dom_of db a))"
      if "a \<in> doms Z db2" for a
      using keptD(1,2) [OF d2(3)] that d1(3,4) by auto
  qed (use d2 in \<open>auto simp: sound_def\<close>)
qed

end
