(* ===== verification/Nsec_Chain.thy ===== *)
theory Nsec_Chain
  imports Namedb_Diff Sample
begin

text \<open>
  \<^verbatim>\<open>namedb_nsecify\<close> makes the NSEC or NSEC3 record of every point that was marked as changed; then
  the records of all points form a chain.
\<close>

section \<open>Neighbours in the order of the tree\<close>

lemma cyc_succ:
  assumes "distinct (xs @ b # ys)"
  shows "(b, v) \<in> cyc (xs @ b # ys) \<longleftrightarrow> v = (case ys of [] \<Rightarrow> hd (xs @ b # ys) | c # _ \<Rightarrow> c)"
proof -
  have 1: "(b, v) \<in> set (zip xs (tl xs)) \<Longrightarrow> False" "(b, v) \<in> set (zip ys (tl ys)) \<Longrightarrow> False" for v
    using assms by (auto dest: set_zip_leftD)
  have 2: "last xs = b \<Longrightarrow> xs \<noteq> [] \<Longrightarrow> False" using assms by (metis distinct_append IntI empty_iff last_in_set list.set_intros(1))
  show ?thesis
  proof (cases ys)
    case Nil
    then show ?thesis unfolding cyc_def set_zip_tl_append using 1 2 by (auto split: if_splits)
  next
    case (Cons y zs)
    then have "last (xs @ b # ys) \<noteq> b" using assms last_in_set [of ys] by auto
    moreover have "set (zip (b # ys) ys) = insert (b, y) (set (zip ys (tl ys)))" using Cons by simp
    ultimately show ?thesis unfolding cyc_def set_zip_tl_append using 1 2 Cons by auto
  qed
qed

section \<open>One point\<close>

text \<open>The library can make the records: names of points have a form as next owner, and lists of types one as bitmap.\<close>

definition records_ok :: "('f, 'k, 't) zone \<Rightarrow> ('f, 't) namedb \<Rightarrow> bool" where
  "records_ok Z db \<longleftrightarrow>
     (\<forall>types. create_nsec_bitmap (z_ldns Z) types (nsec_rrtype Z) \<noteq> None) \<and>
     (\<forall>a \<in> doms Z db. \<forall>own. owner_of Z (dname (dom_of db a)) = Some own \<longrightarrow> (\<exists>f. create_nxt Z own = Ok (Some f)))"

lemma expected_nsec_Some:
  assumes "records_ok Z db" "db_ok path Z db" "c \<in> dens Z db"
  obtains rr where "expected_nsec Z d n (d_dname (den_of db c)) = Some rr" "rr_get_type rr = nsec_rrtype Z"
proof -
  obtain a where "a \<in> doms Z db" "owner_of Z (dname (dom_of db a)) = Some (d_dname (den_of db c))"
    using links_okD(1) [OF db_okD(4) [OF assms(2)] assms(3)] by blast
  then obtain f where f: "create_nxt Z (d_dname (den_of db c)) = Ok (Some f)"
    using assms(1) unfolding records_ok_def by blast
  have "create_nsec_bitmap (z_ldns Z) (listed_types (nsec3params (z_signconf Z) \<noteq> None) d) (nsec_rrtype Z) \<noteq> None"
    using assms(1) unfolding records_ok_def by blast
  then obtain g where "create_nsec_bitmap (z_ldns Z) (listed_types (nsec3params (z_signconf Z) \<noteq> None) d) (nsec_rrtype Z) = Some g"
    by blast
  then show thesis using that f by (simp add: expected_nsec_def)
qed

text \<open>The point with its new record.\<close>

lemma denial_add_rr_eval:
  assumes at: "den_at db b = Some e" and e: "den_rrset_ok Z e" and ix: "ixfr_ok (is_initialized db) (ixfr db)"
    and ty: "rr_get_type rr = nsec_rrtype Z"
  obtains x e' r y where "denial_add_rr Z db b rr = Ok (set_den (db\<lparr>ixfr := x\<rparr>) b e')" "ixfr_ok (is_initialized db) x"
    "d_dname e' = d_dname e" "d_domain e' = d_domain e" "\<not> nxt_changed e'" "\<not> bitmap_changed e'"
    "d_rrset e' = Some r" "rrtype r = nsec_rrtype Z" "rrs r = [y]" "the_rr y = rr" "rr_exists y" "\<not> is_added y"
proof -
  define r0 where "r0 = (case d_rrset e of Some r \<Rightarrow> r | None \<Rightarrow> the (rrset_create (nsec_rrtype Z)))"
  have r0: "(case d_rrset e of Some r \<Rightarrow> Some r | None \<Rightarrow> rrset_create (nsec_rrtype Z)) = Some r0"
    "rrtype r0 = nsec_rrtype Z" "length (rrs r0) \<le> 1" "\<forall>x \<in> set (rrs r0). \<not> is_added x"
    using e by (auto simp: r0_def den_rrset_ok_def rrset_create_def nsec_rrtype_def split: option.splits)
  let ?new = "\<lparr>the_rr = rr, rr_exists = False, is_added = True, is_removed = False\<rparr>"
  define r1 where "r1 = r0\<lparr>rrs := rrs r0 @ [?new], needs_signing := True\<rparr>"
  have add: "rrset_add_rr r0 rr = Ok r1" using r0(2) ty by (simp add: rrset_add_rr_def r1_def)
  have "length (rrs r1) < 2 ^ 16" using r0(3) by (simp add: r1_def)
  then have d: "rrset_diff (is_initialized db) r1 (ixfr db) False False =
      Ok (rrset_after False False r1, journal (is_initialized db) (rrset_journal False r1) (ixfr db))"
    using rrset_diff_eval [OF ix, of r1 False False] by simp
  have "rrs (rrset_after False False r1) = [?new\<lparr>rr_exists := True, is_added := False\<rparr>]"
    using r0(4) by (auto simp: rrset_after_def r1_def rr_gone_def rr_after_def filter_empty_conv)
  then show thesis
    using that [of "journal (is_initialized db) (rrset_journal False r1) (ixfr db)"
        "e\<lparr>d_rrset := Some (rrset_after False False r1), bitmap_changed := False, nxt_changed := False\<rparr>"
        "rrset_after False False r1" "?new\<lparr>rr_exists := True, is_added := False\<rparr>"]
      at ix r0(1) add d r0(2) by (simp add: denial_add_rr_def denial_diff_def get_def set_den_def r1_def)
qed


definition flagged :: "('f, 't) namedb \<Rightarrow> nat \<Rightarrow> bool" where
  "flagged db b \<longleftrightarrow> nxt_changed (den_of db b) \<or> bitmap_changed (den_of db b)"

text \<open>The databases differ only in the journal and in the record and marks of some points.\<close>

definition renewed :: "('f, 'k, 't) zone \<Rightarrow> nat set \<Rightarrow> ('f, 't) namedb \<Rightarrow> ('f, 't) namedb \<Rightarrow> bool" where
  "renewed Z B db db' \<longleftrightarrow>
     domains db' = domains db \<and> dom_at db' = dom_at db \<and> denials db' = denials db \<and> fresh db' = fresh db \<and>
     (\<forall>u \<in> dens Z db. d_dname (den_of db' u) = d_dname (den_of db u) \<and> d_domain (den_of db' u) = d_domain (den_of db u) \<and>
        (u \<notin> B \<longrightarrow> den_of db' u = den_of db u))"

lemma renewed_same:
  assumes "renewed Z B db db'"
  shows "dom_nodes Z db' = dom_nodes Z db" "den_nodes Z db' = den_nodes Z db" "dom_of db' = dom_of db"
    "records_ok Z db' = records_ok Z db" "occl path Z db' = occl path Z db"
proof -
  show n: "dom_nodes Z db' = dom_nodes Z db" "den_nodes Z db' = den_nodes Z db" "dom_of db' = dom_of db"
    using assms by (simp_all add: renewed_def dom_nodes_def den_nodes_def dom_of_def fun_eq_iff)
  show "records_ok Z db' = records_ok Z db" by (simp add: records_ok_def n)
  show "occl path Z db' = occl path Z db" by (simp add: fun_eq_iff occl_def above_def cuts_def nm_def n)
qed

lemma renewed_trans: "renewed Z B db db1 \<Longrightarrow> renewed Z C db1 db2 \<Longrightarrow> renewed Z (B \<union> C) db db2"
  using renewed_same(2) [of Z B db db1] by (auto simp: renewed_def)

lemma renewed_refl: "renewed Z {} db db"
  by (simp add: renewed_def)

lemma current_renewed:
  assumes "renewed Z B db db'" "u \<in> dens Z db" "v \<in> dens Z db" "den_of db' u = den_of db u"
  shows "current Z db' u v = current Z db u v"
  using assms renewed_same(3) [OF assms(1)] by (simp add: current_def renewed_def)

lemma denial_nsecify_eval:
  assumes ok: "db_ok path Z db" and ro: "records_ok Z db"
    and oc: "\<And>a. a \<in> doms Z db \<Longrightarrow> denial (dom_of db a) \<noteq> None \<Longrightarrow> \<not> occl path Z db a"
    and ns: "den_nodes Z db = xs @ b # ys" and c: "c = (case ys of [] \<Rightarrow> hd (den_nodes Z db) | c # _ \<Rightarrow> c)"
  obtains db' where "denial_nsecify Z db b c n = Ok (db', if flagged db b then n + 1 else n)" "db_ok path Z db'"
    "renewed Z {b} db db'" "\<not> flagged db' b" "current Z db' b c"
proof -
  note t = db_okD(3) [OF ok]
  have dist: "distinct (xs @ b # ys)" using dens_distinct [OF t] ns by simp
  have bc: "(b, v) \<in> cyc (den_nodes Z db) \<longleftrightarrow> v = c" for v using cyc_succ [OF dist, of v] c unfolding ns by simp
  have bd: "b \<in> dens Z db" and cd: "c \<in> dens Z db" using cyc_subset bc by blast+
  note gb = den_get [OF t bd] and gc = den_get [OF t cd]
  obtain a where a: "a \<in> doms Z db" "d_domain (den_of db b) = Some a" "denial (dom_of db a) = Some b"
    using links_okD(1) [OF db_okD(4) [OF ok] bd] by blast
  show thesis
  proof (cases "flagged db b")
    case False
    then have "current Z db b c" using db_okD(8) [OF ok] bc [of c] by (auto simp: tracked_def flagged_def)
    then show thesis using that [of db] False gb gc ok renewed_refl [of Z db]
      by (auto simp: denial_nsecify_def flagged_def renewed_def)
  next
    case True
    obtain rr where rr: "expected_nsec Z (dom_of db a) (d_dname (den_of db b)) (d_dname (den_of db c)) = Some rr"
      "rr_get_type rr = nsec_rrtype Z"
      using expected_nsec_Some [OF ro ok cd] by metis
    have cr: "denial_create_nsec Z db (den_of db b) (d_dname (den_of db c)) = Ok (Some rr)"
      using denial_create_nsec_eval [OF db_okD(1) [OF ok] a(1) _ a(2) rr(1)] oc a by simp
    obtain x e' r y where e: "denial_add_rr Z db b rr = Ok (set_den (db\<lparr>ixfr := x\<rparr>) b e')" "ixfr_ok (is_initialized db) x"
      "d_dname e' = d_dname (den_of db b)" "d_domain e' = d_domain (den_of db b)" "\<not> nxt_changed e'" "\<not> bitmap_changed e'"
      "d_rrset e' = Some r" "rrtype r = nsec_rrtype Z" "rrs r = [y]" "the_rr y = rr" "rr_exists y" "\<not> is_added y"
      using denial_add_rr_eval [OF conjunct2 [OF gb] db_okD(5) [OF ok bd] db_okD(7) [OF ok] rr(2)] by metis
    define db' where "db' = set_den (db\<lparr>ixfr := x\<rparr>) b e'"
    have o: "den_of db' u = (if u = b then e' else den_of db u)" for u by (simp add: den_of_def db'_def set_den_def)
    have rn: "renewed Z {b} db db'" using e(3,4) o by (simp add: renewed_def) (simp add: db'_def set_den_def)
    note s = renewed_same [OF rn]
    have cur: "current Z db' b c" using rr(1) e a(2) o s(3) by (auto simp: current_def)
    have "denial_nsecify Z db b c n = Ok (db', n + 1)"
      using gb gc True cr e(1) by (simp add: denial_nsecify_def flagged_def db'_def)
    moreover have "nxt_changed (den_of db' u) \<or> bitmap_changed (den_of db' u) \<or> current Z db' u v"
      if uv: "(u, v) \<in> cyc (den_nodes Z db)" for u v
    proof (cases "u = b")
      case False
      then have "den_of db' u = den_of db u" using o by simp
      then show ?thesis
        using db_okD(8) [OF ok] uv current_renewed [OF rn _ _ \<open>den_of db' u = den_of db u\<close>] cyc_subset [OF uv]
        by (auto simp: tracked_def)
    qed (use uv bc [of v] cur in auto)
    then have "tracked Z db'" unfolding tracked_def s(2) by blast
    moreover have "tree_ok path (rb_nodes (z_rb Z) (denials db')) (den_at db') d_dname"
      using tree_ok_cong [OF t, of "den_at db'"] e(3) gb by (simp add: db'_def set_den_def)
    moreover have "den_rrset_ok Z (den_of db' u)" if "u \<in> dens Z db" for u
      using that db_okD(5) [OF ok that] o e(7-9,12) by (simp add: den_rrset_ok_def)
    moreover have "links_ok Z db'" using db_okD(4) [OF ok] rn unfolding links_ok_def s renewed_def by auto
    moreover have "domains db' = domains db" "dom_at db' = dom_at db" using rn by (simp_all add: renewed_def)
    then have "domains_ok path Z db'"
      using domains_ok_cong [OF db_okD(1) [OF ok], of db'] dom_at_of [OF db_okD(1) [OF ok]] by (simp add: s(3))
    ultimately have "db_ok path Z db'" using db_okD(2,6) [OF ok] e(2) unfolding db_ok_def s by (simp add: db'_def set_den_def)
    then show thesis using that [of db'] \<open>denial_nsecify Z db b c n = Ok (db', n + 1)\<close> rn cur True o e(5,6) by (simp add: flagged_def)
  qed
qed


section \<open>All points\<close>

lemma nsecify_loop_eval:
  assumes "db_ok path Z db" "records_ok Z db"
    "\<And>a. a \<in> doms Z db \<Longrightarrow> denial (dom_of db a) \<noteq> None \<Longrightarrow> \<not> occl path Z db a"
    "den_nodes Z db = xs @ ys"
    "\<And>u v. u \<in> set xs \<Longrightarrow> (u, v) \<in> cyc (den_nodes Z db) \<Longrightarrow> \<not> flagged db u \<and> current Z db u v"
  shows "\<exists>db'. nsecify_loop Z (hd (den_nodes Z db)) ys db n = Ok (db', n + of_nat (length (filter (flagged db) ys))) \<and>
    db_ok path Z db' \<and> renewed Z (set ys) db db' \<and>
    (\<forall>(u, v) \<in> cyc (den_nodes Z db'). \<not> flagged db' u \<and> current Z db' u v)"
  using assms
proof (induction ys arbitrary: xs db n)
  case Nil
  then have "\<not> flagged db u \<and> current Z db u v" if "(u, v) \<in> cyc (den_nodes Z db)" for u v
    using that cyc_subset [OF that] by simp
  then show ?case using Nil(1) renewed_refl by auto
next
  case (Cons b ys)
  let ?c = "case ys of [] \<Rightarrow> hd (den_nodes Z db) | c # _ \<Rightarrow> c"
  obtain db1 where d1: "denial_nsecify Z db b ?c n = Ok (db1, if flagged db b then n + 1 else n)" "db_ok path Z db1"
    "renewed Z {b} db db1" "\<not> flagged db1 b" "current Z db1 b ?c"
    using denial_nsecify_eval [OF Cons.prems(1-3) Cons.prems(4) refl] by metis
  note s = renewed_same [OF d1(3)]
  have dist: "distinct (xs @ b # ys)" using dens_distinct [OF db_okD(3) [OF Cons.prems(1)]] Cons.prems(4) by simp
  have same: "den_of db1 u = den_of db u" if "u \<in> dens Z db" "u \<noteq> b" for u using d1(3) that by (simp add: renewed_def)
  have done1: "\<not> flagged db1 u \<and> current Z db1 u v" if "u \<in> set (xs @ [b])" "(u, v) \<in> cyc (den_nodes Z db1)" for u v
  proof (cases "u = b")
    case True
    then have "v = ?c" using that(2) cyc_succ [OF dist, of v] unfolding s Cons.prems(4) by simp
    then show ?thesis using True d1(4,5) by simp
  next
    case False
    have uv: "u \<in> dens Z db" "v \<in> dens Z db" using cyc_subset [OF that(2)] s(2) by simp_all
    have "\<not> flagged db u \<and> current Z db u v" using Cons.prems(5) [of u v] False that s(2) by simp
    then show ?thesis using same [OF uv(1) False] current_renewed [OF d1(3) uv] by (simp add: flagged_def)
  qed
  have oc1: "\<not> occl path Z db1 a" if "a \<in> doms Z db1" "denial (dom_of db1 a) \<noteq> None" for a
    using Cons.prems(3) [of a] that by (simp add: s s(5) [of path])
  obtain db' where d': "nsecify_loop Z (hd (den_nodes Z db1)) ys db1 (if flagged db b then n + 1 else n) =
      Ok (db', (if flagged db b then n + 1 else n) + of_nat (length (filter (flagged db1) ys)))"
    "db_ok path Z db'" "renewed Z (set ys) db1 db'" "\<forall>(u, v) \<in> cyc (den_nodes Z db'). \<not> flagged db' u \<and> current Z db' u v"
    using Cons.IH [OF d1(2) _ oc1, of "xs @ [b]" "if flagged db b then n + 1 else n"] done1 Cons.prems(2,4) s(2,4) by auto
  have "flagged db1 x = flagged db x" if "x \<in> set ys" for x
  proof -
    have "x \<noteq> b" "x \<in> dens Z db" using that dist Cons.prems(4) by auto
    then show ?thesis using same by (simp add: flagged_def)
  qed
  then have "filter (flagged db1) ys = filter (flagged db) ys" by (intro filter_cong) auto
  moreover have "renewed Z (set (b # ys)) db db'" using renewed_trans [OF d1(3) d'(3)] by simp
  ultimately show ?case using d1(1) d' s(2) by (intro exI [of _ db']) auto
qed

lemma namedb_nsecify_eval:
  assumes "db_ok path Z db" "records_ok Z db"
    "\<And>a. a \<in> doms Z db \<Longrightarrow> denial (dom_of db a) \<noteq> None \<Longrightarrow> \<not> occl path Z db a"
  obtains db' where "namedb_nsecify Z db = Ok (db', of_nat (length (filter (flagged db) (den_nodes Z db))))"
    "db_ok path Z db'" "renewed Z (dens Z db) db db'"
    "\<forall>(u, v) \<in> cyc (den_nodes Z db'). \<not> flagged db' u \<and> current Z db' u v"
  using nsecify_loop_eval [OF assms, of "[]" "den_nodes Z db" 0] by (auto simp: namedb_nsecify_def)


section \<open>Properties\<close>

text \<open>
  C3. Applying a set of changes to a database that keeps its invariant returns, and keeps the
  invariant.  The domains that are left are the apex and those that have data, or have a domain
  with data below them; the RRsets of each are those with their changes applied; and a domain has
  a denial point if and only if it should have one: with NSEC if it is not occluded and has data,
  with NSEC3 if it is not occluded and, with opt-out, neither an unsigned delegation nor an empty
  name with only such below it.
\<close>

theorem namedb_diff_correct:
  assumes "zone_ok path Z" "db_ok path Z db" "owners_ok path Z db"
  shows "\<exists>db'. namedb_diff Z db is_ixfr more_coming = Ok db' \<and> db_ok path Z db' \<and>
    (\<forall>a. a \<in> doms Z db' \<longleftrightarrow> a \<in> doms Z db \<and> (is_apex (dom_of db a) \<or> has_data path Z db is_ixfr more_coming a)) \<and>
    (\<forall>a \<in> doms Z db'. dname (dom_of db' a) = dname (dom_of db a) \<and>
       rrsets (dom_of db' a) = rrsets_after is_ixfr more_coming (rrsets (dom_of db a))) \<and>
    (\<forall>a \<in> doms Z db'. denial (dom_of db' a) \<noteq> None \<longleftrightarrow> wanted path Z db' a)"
  using namedb_diff_eval [OF assms, of is_ixfr more_coming] by (metis (no_types, lifting))

text \<open>
  C2. After the changes are applied, \<^verbatim>\<open>namedb_nsecify\<close> returns, and the denial points form one closed
  chain in the canonical order of their names: each point has exactly one record, which is in the
  zone, is the record for its name and the types at its domain, and names the next point, the last
  one the first.  No point is marked as changed any more, and the number returned is the number of
  points that were.
\<close>

theorem nsec_chain_complete:
  assumes "zone_ok path Z" "db_ok path Z db" "owners_ok path Z db" "records_ok Z db"
  shows "\<exists>db1 db2. namedb_diff Z db is_ixfr more_coming = Ok db1 \<and>
    namedb_nsecify Z db1 = Ok (db2, of_nat (length (filter (flagged db1) (den_nodes Z db1)))) \<and>
    names_sorted path (rb_nodes (z_rb Z) (denials db2)) \<and>
    (\<forall>a \<in> doms Z db2. denial (dom_of db2 a) \<noteq> None \<longleftrightarrow> wanted path Z db2 a) \<and>
    (\<forall>(b, c) \<in> cyc (den_nodes Z db2). \<not> flagged db2 b \<and> current Z db2 b c)"
proof -
  obtain db1 where d1: "namedb_diff Z db is_ixfr more_coming = Ok db1" "db_ok path Z db1" "owners_ok path Z db1"
    "\<And>a. a \<in> doms Z db1 \<longleftrightarrow> a \<in> doms Z db \<and> (is_apex (dom_of db a) \<or> has_data path Z db is_ixfr more_coming a)"
    "\<And>a. a \<in> doms Z db1 \<Longrightarrow> dname (dom_of db1 a) = dname (dom_of db a) \<and>
       rrsets (dom_of db1 a) = rrsets_after is_ixfr more_coming (rrsets (dom_of db a))"
    "\<And>a. a \<in> doms Z db1 \<Longrightarrow> denial (dom_of db1 a) \<noteq> None \<longleftrightarrow> wanted path Z db1 a"
    by (rule namedb_diff_eval [OF assms(1-3), of is_ixfr more_coming]) blast
  have ro: "records_ok Z db1" using assms(4) d1(4,5) unfolding records_ok_def by metis
  have oc: "\<not> occl path Z db1 a" if "a \<in> doms Z db1" "denial (dom_of db1 a) \<noteq> None" for a
    using d1(6) that by (simp add: wanted_def)
  obtain db2 where d2: "namedb_nsecify Z db1 = Ok (db2, of_nat (length (filter (flagged db1) (den_nodes Z db1))))"
    "db_ok path Z db2" "renewed Z (dens Z db1) db1 db2" "\<forall>(u, v) \<in> cyc (den_nodes Z db2). \<not> flagged db2 u \<and> current Z db2 u v"
    using namedb_nsecify_eval [OF d1(2) ro] oc by blast
  note s = renewed_same [OF d2(3)]
  have "wanted path Z db2 a = wanted path Z db1 a" for a
    by (simp add: wanted_def ent2_def auth_def nm_def s s(5) [of path] split: option.splits)
  then show ?thesis using d1(1,6) d2 db_okD(3) [OF d2(2)] by (intro exI [of _ db1] exI [of _ db2]) (simp add: s tree_ok_def)
qed

subsection \<open>Witnesses\<close>

text \<open>A zone with an apex, a domain with a new record and one whose record is gone.\<close>

definition sample_zone :: "(nat list, nat, (nat list \<times> nat) tree) zone" where
  "sample_zone = \<lparr>z_rb = bst, z_ldns = sample_ldns, z_apex = [1], z_signconf = sample_signconf, z_default_ttl = 3600, z_klass = 1\<rparr>"

definition sample_dom :: "nat list \<Rightarrow> nat option \<Rightarrow> u16 \<Rightarrow> bool \<Rightarrow> nat list domain_struct" where
  "sample_dom n p t add =
    \<lparr>dname = n, denial = None, parent = p,
     rrsets = [\<lparr>rrtype = t, rrs = [\<lparr>the_rr = sample_rr n t 7, rr_exists = \<not> add, is_added = add, is_removed = False\<rparr>],
       rrsigs = [], needs_signing = True\<rparr>], is_new = add, is_apex = (p = None)\<rparr>"

definition sample_db :: "(nat list, (nat list \<times> nat) tree) namedb" where
  "sample_db = (namedb_create sample_zone)
    \<lparr>domains := Node (Node Leaf ([1], 2) Leaf) ([1, 2], 3) (Node Leaf ([1, 3], 4) Leaf),
     dom_at := [2 \<mapsto> sample_dom [1] None LDNS_RR_TYPE_SOA True, 3 \<mapsto> sample_dom [1, 2] (Some 2) LDNS_RR_TYPE_A True,
       4 \<mapsto> sample_dom [1, 3] (Some 2) LDNS_RR_TYPE_A False],
     fresh := 5\<rparr>"

lemma sample_nodes:
  "rb_nodes (z_rb sample_zone) (domains sample_db) = [([1], 2), ([1, 2], 3), ([1, 3], 4)]"
  "dom_nodes sample_zone sample_db = [2, 3, 4]" "den_nodes sample_zone sample_db = []"
  "dom_of sample_db 2 = sample_dom [1] None LDNS_RR_TYPE_SOA True"
  "dom_of sample_db 3 = sample_dom [1, 2] (Some 2) LDNS_RR_TYPE_A True"
  "dom_of sample_db 4 = sample_dom [1, 3] (Some 2) LDNS_RR_TYPE_A False"
  by (simp_all add: sample_db_def sample_zone_def dom_nodes_def den_nodes_def namedb_create_def bst_def dom_of_def)

lemma sample_zone_ok: "zone_ok (\<lambda>n. n) sample_zone"
  using bst_contract sample_dname_contract by (simp add: zone_ok_def sample_zone_def sample_signconf_def signconf_create_def)

lemma sample_db_ok: "db_ok (\<lambda>n. n) sample_zone sample_db"
proof -
  have "tree_ok (\<lambda>n. n) (rb_nodes (z_rb sample_zone) (domains sample_db)) (dom_at sample_db) dname"
    unfolding sample_nodes by (simp add: tree_ok_def names_sorted_def sample_db_def sample_dom_def namedb_create_def)
  moreover have "\<forall>a \<in> doms sample_zone sample_db. place_ok (\<lambda>n. n) sample_zone sample_db a"
    by (simp add: sample_nodes place_ok_def nm_def sample_dom_def) (simp add: sample_zone_def strict_prefix_def)
  ultimately have "domains_ok (\<lambda>n. n) sample_zone sample_db" by (simp add: domains_ok_def)
  moreover have "tree_ok (\<lambda>n. n) (rb_nodes (z_rb sample_zone) (denials sample_db)) (den_at sample_db) d_dname"
    by (simp add: tree_ok_def names_sorted_def sample_db_def sample_zone_def namedb_create_def bst_def)
  moreover have "\<forall>a \<in> doms sample_zone sample_db. rrsets_ok (rrsets (dom_of sample_db a))"
    by (simp add: sample_nodes sample_dom_def rrsets_ok_def)
  moreover have "links_ok sample_zone sample_db" "tracked sample_zone sample_db"
    by (simp_all add: links_ok_def tracked_def sample_nodes sample_dom_def cyc_def)
  moreover have "ixfr_ok (is_initialized sample_db) (ixfr sample_db)"
    by (simp add: ixfr_ok_def sample_db_def namedb_create_def ixfr_create_def)
  moreover have "\<forall>a \<in> doms sample_zone sample_db \<union> dens sample_zone sample_db. a < fresh sample_db"
    unfolding sample_nodes by (simp add: sample_db_def)
  ultimately show ?thesis by (simp add: db_ok_def sample_nodes(3))
qed

lemma sample_owners_ok: "owners_ok (\<lambda>n. n) sample_zone sample_db" "records_ok sample_zone sample_db"
  by (simp_all add: owners_ok_def records_ok_def owner_of_def create_nxt_def sample_nodes sample_dom_def)
    (simp_all add: sample_zone_def sample_signconf_def signconf_create_def sample_ldns_def sample_nodes sample_dom_def)

theorem namedb_diff_witness:
  "\<exists>db'. namedb_diff sample_zone sample_db False False = Ok db' \<and> db_ok (\<lambda>n. n) sample_zone db' \<and> set (dom_nodes sample_zone db') = {2, 3}"
proof -
  obtain db' where d: "namedb_diff sample_zone sample_db False False = Ok db'" "db_ok (\<lambda>n. n) sample_zone db'"
    "\<forall>a. a \<in> doms sample_zone db' \<longleftrightarrow> a \<in> doms sample_zone sample_db \<and>
       (is_apex (dom_of sample_db a) \<or> has_data (\<lambda>n. n) sample_zone sample_db False False a)"
    using namedb_diff_correct [OF sample_zone_ok sample_db_ok sample_owners_ok(1), of False False] by blast
  have "has_data (\<lambda>n. n) sample_zone sample_db False False 3" "\<not> has_data (\<lambda>n. n) sample_zone sample_db False False 4"
    by (simp_all add: has_data_def sample_nodes nm_def sample_dom_def rrset_after_def rrset_mode_def rr_gone_def Let_def)
  then have "a \<in> doms sample_zone db' \<longleftrightarrow> a = 2 \<or> a = 3" for a
    using spec [OF d(3), of a] by (cases "a = 2"; cases "a = 3"; cases "a = 4"; simp add: sample_nodes sample_dom_def)
  then show ?thesis using d(1,2) by auto
qed

theorem nsec_chain_witness:
  "\<exists>db1 db2 n. namedb_diff sample_zone sample_db False False = Ok db1 \<and> namedb_nsecify sample_zone db1 = Ok (db2, n) \<and>
    names_sorted (\<lambda>n. n) (rb_nodes (z_rb sample_zone) (denials db2))"
  using nsec_chain_complete [OF sample_zone_ok sample_db_ok sample_owners_ok, of False False] by blast

end
