(* ===== verification/Zone.thy ===== *)
theory Zone
  imports Nsec_Chain Stats
begin

text \<open>
  The changes that an input adapter makes to a zone before they are applied, and taking them back:
  \<^verbatim>\<open>zone_add_rr\<close> and \<^verbatim>\<open>zone_del_rr\<close> of \<^verbatim>\<open>signer/src/signer/zone.c\<close>, \<^verbatim>\<open>domain_add_rrset\<close> and \<^verbatim>\<open>domain_rollback\<close>
  of \<^verbatim>\<open>domain.c\<close>, and \<^verbatim>\<open>namedb_rollback\<close>, \<^verbatim>\<open>namedb_examine\<close>, \<^verbatim>\<open>namedb_wipe_denial\<close> and
  \<^verbatim>\<open>namedb_cleanup_denials\<close> of \<^verbatim>\<open>namedb.c\<close>.  The statistics of the zone, which may be missing, are
  passed along with the database.
\<close>

section \<open>Adding and deleting records\<close>

definition domain_add_rrset :: "('f, 't) namedb \<Rightarrow> nat \<Rightarrow> 'f rrset_struct \<Rightarrow> ('f, 't) namedb exec" where
  "domain_add_rrset db a r =
    exec_bind (get (dom_at db) a) (\<lambda>d. mark_bitmap (set_dom db a (append_rrset d r)) (denial d))"

definition zone_lookup_rrset :: "('f, 'k, 't) zone \<Rightarrow> ('f, 't) namedb \<Rightarrow> 'f \<Rightarrow> u16 \<Rightarrow> (nat \<times> nat) option exec" where
  "zone_lookup_rrset Z db owner t =
    (if t = 0 then Ok None
     else case namedb_lookup_domain Z db owner of None \<Rightarrow> Ok None
     | Some a \<Rightarrow> exec_bind (get (dom_at db) a) (\<lambda>d. Ok (map_option (Pair a) (domain_lookup_rrset d t))))"

text \<open>The domain of the record in \<^verbatim>\<open>zone_add_rr\<close>, and its RRset, by position; \<open>None\<close> is a failure.\<close>

definition rr_domain :: "('f, 'k, 't) zone \<Rightarrow> ('f, 't) namedb \<Rightarrow> 'f \<Rightarrow> (nat option \<times> ('f, 't) namedb) exec" where
  "rr_domain Z db owner =
    (case namedb_lookup_domain Z db owner of Some a \<Rightarrow> Ok (Some a, db)
     | None \<Rightarrow>
         (case namedb_add_domain Z db owner of (None, db) \<Rightarrow> Ok (None, db)
          | (Some a, db) \<Rightarrow>
              exec_bind (get (dom_at db) a) (\<lambda>d.
              if dname_compare (z_ldns Z) (dname d) (z_apex Z) = 0 then Ok (Some a, set_dom db a (d\<lparr>is_apex := True\<rparr>))
              else exec_bind (namedb_domain_entize Z db a (z_apex Z)) (\<lambda>(status, db).
                Ok (if status = ODS_STATUS_OK then Some a else None, db)))))"

definition rr_rrset :: "('f, 't) namedb \<Rightarrow> nat \<Rightarrow> u16 \<Rightarrow> (nat option \<times> ('f, 't) namedb) exec" where
  "rr_rrset db a t =
    exec_bind (get (dom_at db) a) (\<lambda>d.
    case domain_lookup_rrset d t of Some i \<Rightarrow> Ok (Some i, db)
    | None \<Rightarrow>
        (case rrset_create t of None \<Rightarrow> Ok (None, db)
         | Some r \<Rightarrow> exec_bind (domain_add_rrset db a r) (\<lambda>db. Ok (Some (length (rrsets d)), db))))"

definition set_rrset :: "'f domain_struct \<Rightarrow> nat \<Rightarrow> 'f rrset_struct \<Rightarrow> 'f domain_struct" where
  "set_rrset d i r = d\<lparr>rrsets := (rrsets d)[i := r]\<rparr>"

definition count_sort :: "bool \<Rightarrow> u32 \<Rightarrow> stats option \<Rightarrow> stats option" where
  "count_sort do_stats n st = (if do_stats then map_option (\<lambda>s. s\<lparr>sort_count := sort_count s + n\<rparr>) st else st)"

text \<open>A record that is there already: it is marked as added, and its TTL is set in place.\<close>

definition mark_added :: "'f rrset_struct \<Rightarrow> nat \<Rightarrow> 'f ldns_rr \<Rightarrow> 'f rrset_struct" where
  "mark_added r j rr =
    (let x = (rrs r ! j)\<lparr>is_added := True, is_removed := False\<rparr> in
     if rr_ttl rr \<noteq> rr_ttl (the_rr x)
     then r\<lparr>rrs := (rrs r)[j := x\<lparr>the_rr := (the_rr x)\<lparr>rr_ttl := rr_ttl rr\<rparr>\<rparr>], needs_signing := True\<rparr>
     else r\<lparr>rrs := (rrs r)[j := x]\<rparr>)"

definition zone_add_rr ::
  "('f, 'k, 't) zone \<Rightarrow> ('f, 't) namedb \<Rightarrow> stats option \<Rightarrow> 'f ldns_rr \<Rightarrow> bool \<Rightarrow>
    (ods_status \<times> ('f, 't) namedb \<times> stats option) exec" where
  "zone_add_rr Z db st rr do_stats =
    exec_bind (rr_domain Z db (rr_owner rr)) (\<lambda>(a, db).
    case a of None \<Rightarrow> Ok (ODS_STATUS_ERR, db, st)
    | Some a \<Rightarrow>
        exec_bind (rr_rrset db a (rr_get_type rr)) (\<lambda>(i, db).
        case i of None \<Rightarrow> Ok (ODS_STATUS_ERR, db, st)
        | Some i \<Rightarrow>
            exec_bind (get (dom_at db) a) (\<lambda>d.
            case rrset_lookup_rr (z_ldns Z) (rrsets d ! i) rr of
              Some j \<Rightarrow> Ok (ODS_STATUS_UNCHANGED, set_dom db a (set_rrset d i (mark_added (rrsets d ! i) j rr)), st)
            | None \<Rightarrow>
                exec_bind (rrset_add_rr (rrsets d ! i) rr) (\<lambda>r.
                Ok (ODS_STATUS_OK, set_dom db a (set_rrset d i r), count_sort do_stats 1 st)))))"

definition zone_del_rr ::
  "('f, 'k, 't) zone \<Rightarrow> ('f, 't) namedb \<Rightarrow> stats option \<Rightarrow> 'f ldns_rr \<Rightarrow> bool \<Rightarrow>
    (ods_status \<times> ('f, 't) namedb \<times> stats option) exec" where
  "zone_del_rr Z db st rr do_stats =
    (case namedb_lookup_domain Z db (rr_owner rr) of None \<Rightarrow> Ok (ODS_STATUS_UNCHANGED, db, st)
     | Some a \<Rightarrow>
         exec_bind (get (dom_at db) a) (\<lambda>d.
         case domain_lookup_rrset d (rr_get_type rr) of None \<Rightarrow> Ok (ODS_STATUS_UNCHANGED, db, st)
         | Some i \<Rightarrow>
             let r = rrsets d ! i in
             (case rrset_lookup_rr (z_ldns Z) r rr of None \<Rightarrow> Ok (ODS_STATUS_UNCHANGED, db, st)
              | Some j \<Rightarrow>
                  let x = (rrs r ! j)\<lparr>is_removed := True, is_added := False\<rparr>
                  in Ok (ODS_STATUS_OK, set_dom db a (set_rrset d i (r\<lparr>rrs := (rrs r)[j := x]\<rparr>)),
                       count_sort do_stats (- 1) st))))"

section \<open>Taking changes back\<close>

text \<open>
  The loop of \<^verbatim>\<open>domain_rollback\<close> over the records of an RRset; the flag is \<^verbatim>\<open>del_rrset\<close>.  The index is a
  \<^verbatim>\<open>uint16_t\<close>.
\<close>

fun rollback_rrs :: "nat \<Rightarrow> nat \<Rightarrow> 'f rrset_struct \<Rightarrow> bool \<Rightarrow> ('f rrset_struct \<times> bool) exec" where
  "rollback_rrs 0 i rrset del_rrset = Fault"
| "rollback_rrs (Suc n) i rrset del_rrset =
    (if i < length (rrs rrset) then
       let x = (rrs rrset ! i)\<lparr>is_added := False, is_removed := False\<rparr>;
           rrset = rrset\<lparr>rrs := (rrs rrset)[i := x]\<rparr>
       in if \<not> rr_exists x then
            exec_bind (rrset_del_rr rrset i) (\<lambda>rrset'. rollback_rrs n i rrset' (del_rrset \<or> length (rrs rrset) = 1))
          else rollback_rrs n ((i + 1) mod 2 ^ 16) rrset del_rrset
     else Ok (rrset, del_rrset))"

text \<open>The loop over the RRsets: those that are left, and whether one was deleted.\<close>

fun rollback_rrsets :: "bool \<Rightarrow> 'f rrset_struct list \<Rightarrow> ('f rrset_struct list \<times> bool) exec" where
  "rollback_rrsets keepsc [] = Ok ([], False)"
| "rollback_rrsets keepsc (r # rs) =
    (if keepsc \<and> (rrtype r = LDNS_RR_TYPE_NSEC3PARAMS \<or> rrtype r = LDNS_RR_TYPE_DNSKEY)
     then exec_bind (rollback_rrsets keepsc rs) (\<lambda>(rs, c). Ok (r # rs, c))
     else
       exec_bind (rollback_rrs (length (rrs r) + 1) 0 r False) (\<lambda>(r, del_rrset).
       exec_bind (rollback_rrsets keepsc rs) (\<lambda>(rs, c).
       Ok (if del_rrset then (rs, True) else (r # rs, c)))))"

definition clear_bitmap :: "('f, 't) namedb \<Rightarrow> nat option \<Rightarrow> ('f, 't) namedb exec" where
  "clear_bitmap db b =
    (case b of None \<Rightarrow> Ok db
     | Some b \<Rightarrow> exec_bind (get (den_at db) b) (\<lambda>e. Ok (set_den db b (e\<lparr>bitmap_changed := False\<rparr>))))"

definition domain_rollback :: "('f, 't) namedb \<Rightarrow> nat \<Rightarrow> bool \<Rightarrow> ('f, 't) namedb exec" where
  "domain_rollback db a keepsc =
    exec_bind (get (dom_at db) a) (\<lambda>d.
    exec_bind (rollback_rrsets keepsc (rrsets d)) (\<lambda>(rs, c).
    let db = set_dom db a (d\<lparr>rrsets := rs\<rparr>)
    in if c then clear_bitmap db (denial d) else Ok db))"

fun rollback_loop :: "('f, 'k, 't) zone \<Rightarrow> bool \<Rightarrow> nat \<Rightarrow> nat option \<Rightarrow> ('f, 't) namedb \<Rightarrow> ('f, 't) namedb exec" where
  "rollback_loop Z keepsc 0 x db = Fault"
| "rollback_loop Z keepsc (Suc n) x db =
    (case x of None \<Rightarrow> Ok db
     | Some a \<Rightarrow>
         exec_bind (next_of (dom_nodes Z db) a) (\<lambda>x.
         exec_bind (domain_rollback db a keepsc) (\<lambda>db.
         exec_bind (namedb_del_denial_trigger Z db a True) (\<lambda>(deleted, db).
         rollback_loop Z keepsc n x db))))"

definition namedb_rollback :: "('f, 'k, 't) zone \<Rightarrow> ('f, 't) namedb \<Rightarrow> bool \<Rightarrow> ('f, 't) namedb exec" where
  "namedb_rollback Z db keepsc =
    rollback_loop Z keepsc (length (dom_nodes Z db) + 1) (first_node (dom_nodes Z db)) db"

section \<open>Examining changes\<close>

text \<open>The two checks of a domain in \<^verbatim>\<open>namedb_examine\<close>.\<close>

definition examine_domain :: "'f domain_struct \<Rightarrow> bool" where
  "examine_domain d \<longleftrightarrow>
     (case domain_lookup_rrset d LDNS_RR_TYPE_CNAME of None \<Rightarrow> True
      | Some i \<Rightarrow>
          \<not> (domain_count_rrset_is_added d > 1 \<and> rrset_count_rr_is_added (rrsets d ! i) > 0) \<and>
          \<not> rrset_count_rr_is_added (rrsets d ! i) > 1) \<and>
     (case domain_lookup_rrset d LDNS_RR_TYPE_DNAME of None \<Rightarrow> True
      | Some i \<Rightarrow> \<not> rrset_count_rr_is_added (rrsets d ! i) > 1)"

fun examine_loop :: "(nat \<Rightarrow> 'f domain_struct option) \<Rightarrow> nat list \<Rightarrow> ods_status exec" where
  "examine_loop h [] = Ok ODS_STATUS_OK"
| "examine_loop h (a # as) =
     exec_bind (get h a) (\<lambda>d. if examine_domain d then examine_loop h as else Ok ODS_STATUS_CONFLICT_ERR)"

definition namedb_examine :: "('f, 'k, 't) zone \<Rightarrow> ('f, 't) namedb \<Rightarrow> ods_status exec" where
  "namedb_examine Z db = examine_loop (dom_at db) (dom_nodes Z db)"

section \<open>Dropping all denial points\<close>

text \<open>
  The loops of \<^verbatim>\<open>namedb_wipe_denial\<close>.  The one over the signatures does what the one of \<^verbatim>\<open>rrset_diff\<close>
  does.
\<close>

fun wipe_rrs :: "bool \<Rightarrow> nat \<Rightarrow> nat \<Rightarrow> 'f rrset_struct \<times> 'f ixfr \<Rightarrow> ('f rrset_struct \<times> 'f ixfr) exec" where
  "wipe_rrs ini 0 i s = Fault"
| "wipe_rrs ini (Suc n) i (rrset, jn) =
    (if i < length (rrs rrset) then
       let x = rrs rrset ! i in
       exec_bind (if rr_exists x then ixfr_del_rr ini jn (the_rr x) else Ok jn) (\<lambda>jn.
       exec_bind (rrset_del_rr (rrset\<lparr>rrs := (rrs rrset)[i := x\<lparr>rr_exists := False\<rparr>]\<rparr>) i) (\<lambda>rrset.
       wipe_rrs ini n i (rrset, jn)))
     else Ok (rrset, jn))"

fun wipe_loop :: "nat list \<Rightarrow> ('f, 't) namedb \<Rightarrow> ('f, 't) namedb exec" where
  "wipe_loop [] db = Ok db"
| "wipe_loop (b # bs) db =
    exec_bind (get (den_at db) b) (\<lambda>e.
    case d_rrset e of None \<Rightarrow> wipe_loop bs db
    | Some r \<Rightarrow>
        exec_bind (wipe_rrs (is_initialized db) (length (rrs r) + 1) 0 (r, ixfr db)) (\<lambda>(r, x).
        exec_bind (del_sigs_loop (is_initialized db) (length (rrsigs r) + 1) 0 (r, x)) (\<lambda>(r, x).
        wipe_loop bs (set_den (db\<lparr>ixfr := x\<rparr>) b (e\<lparr>d_rrset := None\<rparr>)))))"

definition namedb_wipe_denial :: "('f, 'k, 't) zone \<Rightarrow> ('f, 't) namedb \<Rightarrow> ('f, 't) namedb exec" where
  "namedb_wipe_denial Z db = wipe_loop (den_nodes Z db) db"

text \<open>
  \<^verbatim>\<open>denial_delfunc\<close> visits all nodes of the tree, in an order that makes no difference to the result.
\<close>

fun denial_delfunc :: "nat list \<Rightarrow> ('f, 't) namedb \<Rightarrow> ('f, 't) namedb exec" where
  "denial_delfunc [] db = Ok db"
| "denial_delfunc (b # bs) db =
    exec_bind (denial_delfunc bs db) (\<lambda>db.
    exec_bind (get (den_at db) b) (\<lambda>e.
    case d_domain e of None \<Rightarrow> Ok (denial_cleanup db b)
    | Some a \<Rightarrow> exec_bind (get (dom_at db) a) (\<lambda>d. Ok (denial_cleanup (set_dom db a (d\<lparr>denial := None\<rparr>)) b))))"

text \<open>\<^verbatim>\<open>namedb_cleanup_denials\<close> and \<^verbatim>\<open>namedb_init_denials\<close>, which is always called after it.\<close>

definition namedb_cleanup_denials :: "('f, 'k, 't) zone \<Rightarrow> ('f, 't) namedb \<Rightarrow> ('f, 't) namedb exec" where
  "namedb_cleanup_denials Z db = denial_delfunc (den_nodes Z db) db"

definition namedb_init_denials :: "('f, 'k, 't) zone \<Rightarrow> ('f, 't) namedb \<Rightarrow> ('f, 't) namedb" where
  "namedb_init_denials Z db = db\<lparr>denials := rb_create (z_rb Z)\<rparr>"

end
