(* ===== verification/Entize.thy ===== *)
theory Entize
  imports Zone
begin

text \<open>
  Adding a name adds the empty domains between it and the apex: \<^verbatim>\<open>namedb_domain_entize\<close> keeps the
  domains of the zone closed under parents.
\<close>

section \<open>Names in the tree of domains\<close>

lemma lookup_present:
  assumes z: "zone_ok path Z" and t: "tree_ok path (rb_nodes (z_rb Z) (domains db)) (dom_at db) dname"
    and a: "a \<in> doms Z db" and n: "path n = nm path db a"
  shows "namedb_lookup_domain Z db n = Some a"
proof -
  have "(dname (dom_of db a), a) \<in> set (rb_nodes (z_rb Z) (domains db))"
    using tree_okD(2) [OF t] a by (simp add: doms_image dom_of_def)
  then obtain xs ys where "rb_nodes (z_rb Z) (domains db) = xs @ (dname (dom_of db a), a) # ys" using split_list by metis
  then show ?thesis
    using dname_tree_present(1) [of "z_rb Z" "z_ldns Z" path "domains db" xs "(dname (dom_of db a), a)" ys n] z t n
    by (simp add: zone_ok_def tree_ok_def namedb_lookup_domain_def nm_def)
qed

lemma tree_names:
  assumes "tree_ok path (rb_nodes (z_rb Z) (domains db)) (dom_at db) dname"
  shows "(path \<circ> fst) ` set (rb_nodes (z_rb Z) (domains db)) = nm path db ` doms Z db"
proof -
  have "fst m = dname (dom_of db (snd m))" if "m \<in> set (rb_nodes (z_rb Z) (domains db))" for m
    using assms that by (fastforce simp: tree_ok_def dom_of_def)
  then show ?thesis by (auto simp: doms_image nm_def image_image intro!: image_cong)
qed

lemma lookup_absent:
  assumes z: "zone_ok path Z" and t: "tree_ok path (rb_nodes (z_rb Z) (domains db)) (dom_at db) dname"
    and n: "path n \<notin> nm path db ` doms Z db"
  shows "namedb_lookup_domain Z db n = None"
  using dname_tree_absent(1) [of "z_rb Z" "z_ldns Z" path "domains db" n] z t n tree_names [OF t]
  by (simp add: zone_ok_def tree_ok_def namedb_lookup_domain_def)

section \<open>Databases with more empty domains\<close>

definition blank :: "'f domain_struct \<Rightarrow> bool" where
  "blank d \<longleftrightarrow> rrsets d = [] \<and> denial d = None"

text \<open>The second database has more domains, all of them blank; the old ones are the same.\<close>

definition grown :: "('f, 'k, 't) zone \<Rightarrow> ('f, 't) namedb \<Rightarrow> ('f, 't) namedb \<Rightarrow> bool" where
  "grown Z db db' \<longleftrightarrow>
     doms Z db \<subseteq> doms Z db' \<and> (\<forall>a \<in> doms Z db. dom_of db' a = dom_of db a) \<and>
     (\<forall>a \<in> doms Z db' - doms Z db. blank (dom_of db' a) \<and> \<not> is_apex (dom_of db' a) \<and> fresh db \<le> a) \<and>
     (\<forall>a \<in> doms Z db'. a < fresh db') \<and> fresh db \<le> fresh db' \<and>
     denials db' = denials db \<and> den_at db' = den_at db \<and> ixfr db' = ixfr db \<and> is_initialized db' = is_initialized db"

text \<open>A domain with a name that is new.\<close>

definition sprout :: "('f, 't) namedb \<Rightarrow> 't \<Rightarrow> 'f \<Rightarrow> ('f, 't) namedb" where
  "sprout db t n = set_dom (db\<lparr>domains := t, fresh := fresh db + 1\<rparr>) (fresh db) ((domain_create n)\<lparr>is_new := True\<rparr>)"

lemma namedb_add_domain_eval:
  assumes z: "zone_ok path Z" and t: "tree_ok path (rb_nodes (z_rb Z) (domains db)) (dom_at db) dname"
    and f: "\<forall>a \<in> doms Z db. a < fresh db" and n: "path n \<notin> nm path db ` doms Z db"
  obtains t' where "namedb_add_domain Z db n = (Some (fresh db), sprout db t' n)"
    "tree_ok path (rb_nodes (z_rb Z) t') (dom_at (sprout db t' n)) dname"
    "doms Z (sprout db t' n) = insert (fresh db) (doms Z db)"
proof -
  let ?ns = "rb_nodes (z_rb Z) (domains db)"
  obtain t' xs ys where i: "rb_insert (z_rb Z) (dname_compare (z_ldns Z)) (domains db) n (fresh db) = Some t'"
    "?ns = xs @ ys" "rb_nodes (z_rb Z) t' = xs @ (n, fresh db) # ys" "names_sorted path (rb_nodes (z_rb Z) t')"
    using dname_tree_absent(3) [of "z_rb Z" "z_ldns Z" path "domains db" n "fresh db"] z t n tree_names [OF t]
    by (auto simp: zone_ok_def tree_ok_def)
  have "\<exists>x. dom_at (sprout db t' n) (snd m) = Some x \<and> dname x = fst m" if "m \<in> set (rb_nodes (z_rb Z) t')" for m
  proof (cases "m = (n, fresh db)")
    case False
    then have m: "m \<in> set ?ns" using that i by auto
    then have "snd m < fresh db" using f by (auto simp: doms_image)
    then show ?thesis using m t by (auto simp: tree_ok_def sprout_def set_dom_def)
  qed (simp add: sprout_def set_dom_def domain_create_def)
  then have "tree_ok path (rb_nodes (z_rb Z) t') (dom_at (sprout db t' n)) dname" using i(4) by (simp add: tree_ok_def)
  moreover have "doms Z (sprout db t' n) = insert (fresh db) (doms Z db)"
    by (simp add: doms_image sprout_def set_dom_def i)
  ultimately show thesis using that [of t'] i(1) by (simp add: namedb_add_domain_def sprout_def Let_def)
qed

lemma sprout_dom: "dom_of (sprout db t n) a = (if a = fresh db then (domain_create n)\<lparr>is_new := True\<rparr> else dom_of db a)"
  by (simp add: sprout_def set_dom_def dom_of_def)

lemma grownD:
  assumes "grown Z db db'"
  shows "doms Z db \<subseteq> doms Z db'" "\<And>a. a \<in> doms Z db \<Longrightarrow> dom_of db' a = dom_of db a"
    "\<And>a. a \<in> doms Z db' \<Longrightarrow> a \<notin> doms Z db \<Longrightarrow> blank (dom_of db' a) \<and> \<not> is_apex (dom_of db' a) \<and> fresh db \<le> a"
    "\<And>a. a \<in> doms Z db' \<Longrightarrow> a < fresh db'" "fresh db \<le> fresh db'"
    "denials db' = denials db" "den_at db' = den_at db" "ixfr db' = ixfr db" "is_initialized db' = is_initialized db"
  using assms unfolding grown_def by blast+

lemma grown_refl: "\<forall>a \<in> doms Z db. a < fresh db \<Longrightarrow> grown Z db db"
  by (simp add: grown_def)

lemma sprout_grown:
  assumes g: "grown Z db0 db" and dd: "doms Z (sprout db t n) = insert (fresh db) (doms Z db)"
  shows "grown Z db0 (sprout db t n)"
  unfolding grown_def dd sprout_dom
proof (intro conjI ballI)
  note g = grownD [OF g]
  show "doms Z db0 \<subseteq> insert (fresh db) (doms Z db)" using g(1) by blast
  show "(if a = fresh db then (domain_create n)\<lparr>is_new := True\<rparr> else dom_of db a) = dom_of db0 a" if "a \<in> doms Z db0" for a
    using that g(1,2,4) by (metis less_irrefl subsetD)
  show "blank (if a = fresh db then (domain_create n)\<lparr>is_new := True\<rparr> else dom_of db a)"
    "\<not> is_apex (if a = fresh db then (domain_create n)\<lparr>is_new := True\<rparr> else dom_of db a)" "fresh db0 \<le> a"
    if "a \<in> insert (fresh db) (doms Z db) - doms Z db0" for a
    using that g(3) [of a] g(5) by (auto simp: blank_def domain_create_def)
  show "a < fresh (sprout db t n)" if "a \<in> insert (fresh db) (doms Z db)" for a
    using that g(4) [of a] by (auto simp: sprout_def set_dom_def)
qed (use grownD(5-9) [OF g] in \<open>simp_all add: sprout_def set_dom_def\<close>)

section \<open>Linking a name to the zone\<close>

text \<open>All domains but one, a name below the apex, have their parents.\<close>

definition dangling :: "('f \<Rightarrow> 'l::linorder list) \<Rightarrow> ('f, 'k, 't) zone \<Rightarrow> ('f, 't) namedb \<Rightarrow> nat \<Rightarrow> bool" where
  "dangling path Z db a \<longleftrightarrow>
     tree_ok path (rb_nodes (z_rb Z) (domains db)) (dom_at db) dname \<and> a \<in> doms Z db \<and>
     \<not> is_apex (dom_of db a) \<and> strict_prefix (path (z_apex Z)) (nm path db a) \<and>
     (\<forall>c \<in> doms Z db - {a}. place_ok path Z db c)"

definition link :: "('f, 't) namedb \<Rightarrow> nat \<Rightarrow> nat \<Rightarrow> ('f, 't) namedb" where
  "link db a p = set_dom db a ((dom_of db a)\<lparr>parent := Some p\<rparr>)"

lemma link_simps:
  "dom_nodes Z (link db a p) = dom_nodes Z db" "nm path (link db a p) c = nm path db c"
  "dom_of (link db a p) c = (if c = a then (dom_of db a)\<lparr>parent := Some p\<rparr> else dom_of db c)"
  "domains (link db a p) = domains db"
  by (simp_all add: link_def set_dom_def dom_nodes_def nm_def dom_of_def)

lemma link_tree:
  assumes "tree_ok path (rb_nodes (z_rb Z) (domains db)) (dom_at db) dname" "a \<in> doms Z db"
  shows "tree_ok path (rb_nodes (z_rb Z) (domains db)) (dom_at (link db a p)) dname"
proof (rule tree_ok_cong [OF assms(1)])
  fix c assume "c \<in> snd ` set (rb_nodes (z_rb Z) (domains db))"
  show "map_option dname (dom_at (link db a p) c) = map_option dname (dom_at db c)"
    using tree_okD(1) [OF assms(1), of a] assms(2) by (auto simp: link_def set_dom_def dom_of_def doms_image)
qed

lemma link_place: "c \<noteq> a \<Longrightarrow> place_ok path Z (link db a p) c = place_ok path Z db c"
  by (simp add: place_ok_def link_simps)

lemma link_grown: "grown Z db0 db \<Longrightarrow> a \<notin> doms Z db0 \<Longrightarrow> grown Z db0 (link db a p)"
  unfolding grown_def link_simps by (simp add: blank_def) (simp add: link_def set_dom_def)

lemma link_ok:
  assumes "dangling path Z db a" "p \<in> doms Z db" "nm path db p = butlast (nm path db a)"
  shows "domains_ok path Z (link db a p)"
proof -
  have d: "tree_ok path (rb_nodes (z_rb Z) (domains db)) (dom_at db) dname" "a \<in> doms Z db" "\<not> is_apex (dom_of db a)"
    "strict_prefix (path (z_apex Z)) (nm path db a)" "\<And>c. c \<in> doms Z db \<Longrightarrow> c \<noteq> a \<Longrightarrow> place_ok path Z db c"
    using assms(1) by (simp_all add: dangling_def)
  have "place_ok path Z (link db a p) a" using d(3,4) assms(2,3) by (auto simp: place_ok_def link_simps)
  then have "place_ok path Z (link db a p) c" if "c \<in> doms Z db" for c
    using that d(5) [of c] link_place [of c a path Z db p] by (cases "c = a") simp_all
  then show ?thesis using link_tree [OF d(1,2)] by (simp add: domains_ok_def link_simps)
qed

lemma sprout_dangling:
  assumes d: "dangling path Z db a" and f: "\<forall>a \<in> doms Z db. a < fresh db" and b: "b = fresh db"
    and t: "tree_ok path (rb_nodes (z_rb Z) t') (dom_at (sprout db t' p)) dname" "doms Z (sprout db t' p) = insert b (doms Z db)"
    and p: "path p = butlast (nm path db a)" "strict_prefix (path (z_apex Z)) (path p)"
  shows "dangling path Z (link (sprout db t' p) a b) b"
proof -
  let ?db = "sprout db t' p"
  have a: "a \<in> doms Z db" "a \<noteq> b" using d f b by (auto simp: dangling_def)
  have o: "dom_of ?db c = dom_of db c" if "c \<noteq> b" for c using that by (simp add: sprout_dom b)
  have n: "nm path ?db c = (if c = b then path p else nm path db c)" for c by (simp add: nm_def sprout_dom b domain_create_def)
  have "place_ok path Z ?db c" if c: "c \<in> doms Z db" "c \<noteq> a" for c
  proof -
    have "c \<noteq> b" using c f b by auto
    moreover have "place_ok path Z db c" using d c by (simp add: dangling_def)
    moreover have "q \<noteq> b" if "q \<in> doms Z db" for q using that f b by auto
    ultimately show ?thesis using o [of c] n by (auto simp: place_ok_def t(2) split: if_splits)
  qed
  moreover have "place_ok path Z (link ?db a b) a"
    using d a n p by (auto simp: dangling_def place_ok_def link_simps o t(2))
  ultimately have "place_ok path Z (link ?db a b) c" if "c \<in> doms Z db" for c
    using that link_place [of c a path Z ?db b] by (cases "c = a") simp_all
  moreover have "tree_ok path (rb_nodes (z_rb Z) t') (dom_at (link ?db a b)) dname"
    using link_tree [of path Z ?db a b] t a(1) by (simp add: sprout_def set_dom_def)
  moreover have "domains ?db = t'" by (simp add: sprout_def set_dom_def)
  moreover have "\<not> is_apex (dom_of ?db b)" by (simp add: sprout_dom b domain_create_def)
  ultimately show ?thesis using a(2) n [of b] p(2) by (simp add: dangling_def link_simps t(2))
qed


text \<open>
  The loop links the name to the nearest domain above it, over new blank domains in between.  It
  takes one iteration for each of these.
\<close>

lemma entize_loop_eval:
  assumes z: "zone_ok path Z" and top: "q \<in> doms Z db0" "nm path db0 q = path (z_apex Z)"
    and "grown Z db0 db" "a \<notin> doms Z db0" "dangling path Z db a" "length (nm path db a) \<le> length (path (z_apex Z)) + n"
  shows "\<exists>db'. entize_loop Z (z_apex Z) n db a = Ok (ODS_STATUS_OK, db') \<and> domains_ok path Z db' \<and> grown Z db0 db' \<and>
    doms Z db \<subseteq> doms Z db' \<and> (\<forall>c \<in> doms Z db. dname (dom_of db' c) = dname (dom_of db c))"
  using assms(4-7)
proof (induction n arbitrary: db a)
  case 0
  then show ?case using prefix_length_less by (fastforce simp: dangling_def)
next
  case (Suc n)
  note g = Suc.prems(1) and d = Suc.prems(3)
  have t: "tree_ok path (rb_nodes (z_rb Z) (domains db)) (dom_at db) dname" and a: "a \<in> doms Z db"
    and s: "strict_prefix (path (z_apex Z)) (nm path db a)" using d by (simp_all add: dangling_def)
  have f: "\<forall>a \<in> doms Z db. a < fresh db" and sub: "doms Z db0 \<subseteq> doms Z db" using g by (simp_all add: grown_def)
  have dn: "dname_contract (z_ldns Z) path" using z by (simp add: zone_ok_def)
  have ga: "get (dom_at db) a = Ok (dom_of db a)"
    using tree_okD(1) [OF t, of a] a by (auto simp: get_def dom_of_def doms_image)
  have ne: "path (dname (dom_of db a)) \<noteq> path (z_apex Z)" using s by (auto simp: nm_def)
  have cond: "dname_is_subdomain (z_ldns Z) (dname (dom_of db a)) (z_apex Z)"
    "dname_compare (z_ldns Z) (dname (dom_of db a)) (z_apex Z) \<noteq> 0"
    using dname_subdomain [OF dn ne] dname_contract_sgn(2) [OF dn] ne s by (auto simp: nm_def strict_prefix_def)
  have "path (dname (dom_of db a)) \<noteq> []" using s by (auto simp: nm_def)
  then obtain p where p: "dname_left_chop (z_ldns Z) (dname (dom_of db a)) = Some p" "path p = butlast (nm path db a)"
    using dname_chop [OF dn, of "dname (dom_of db a)"] by (auto simp: nm_def)
  show ?case
  proof (cases "path p \<in> nm path db ` doms Z db")
    case True
    then obtain b where b: "b \<in> doms Z db" "nm path db b = path p" by auto
    have l: "namedb_lookup_domain Z db p = Some b" using lookup_present [OF z t b(1)] b(2) by simp
    have "entize_loop Z (z_apex Z) (Suc n) db a = Ok (ODS_STATUS_OK, link db a b)"
      using ga cond p(1) l by (simp add: link_def)
    moreover have "domains_ok path Z (link db a b)" using link_ok [OF d b(1)] b(2) p(2) by simp
    ultimately show ?thesis using link_grown [OF g Suc.prems(2), of b] by (auto simp: link_simps)
  next
    case False
    have qd: "nm path db q = path (z_apex Z)" "q \<in> doms Z db" using g sub top by (auto simp: grown_def nm_def)
    then have "path p \<noteq> path (z_apex Z)" using False by (metis imageI)
    moreover have "prefix (path (z_apex Z)) (path p)" using s p(2) strict_prefix_butlast by metis
    ultimately have ps: "strict_prefix (path (z_apex Z)) (path p)" by (simp add: strict_prefix_def)
    let ?b = "fresh db"
    obtain t' where t': "namedb_add_domain Z db p = (Some ?b, sprout db t' p)"
      "tree_ok path (rb_nodes (z_rb Z) t') (dom_at (sprout db t' p)) dname" "doms Z (sprout db t' p) = insert ?b (doms Z db)"
      using namedb_add_domain_eval [OF z t f False] by metis
    let ?db = "link (sprout db t' p) a ?b"
    have ab: "a \<noteq> ?b" using a f by auto
    have dd: "dangling path Z ?db ?b" using sprout_dangling [OF d f refl t'(2,3) p(2) ps] .
    have bn: "?b \<notin> doms Z db0" using sub f by auto
    have gg: "grown Z db0 (sprout db t' p)" by (rule sprout_grown [OF g t'(3)])
    have len: "length (nm path ?db ?b) \<le> length (path (z_apex Z)) + n"
      using Suc.prems(4) p(2) by (simp add: link_simps nm_def sprout_dom domain_create_def)
    obtain db' where db': "entize_loop Z (z_apex Z) n ?db ?b = Ok (ODS_STATUS_OK, db')" "domains_ok path Z db'" "grown Z db0 db'"
      "doms Z ?db \<subseteq> doms Z db'" "\<forall>c \<in> doms Z ?db. dname (dom_of db' c) = dname (dom_of ?db c)"
      using Suc.IH [OF link_grown [OF gg Suc.prems(2)] bn dd len] by blast
    have "entize_loop Z (z_apex Z) (Suc n) db a = Ok (ODS_STATUS_OK, db')"
      using ga cond p(1) lookup_absent [OF z t False] t'(1) db'(1) ab by (simp add: link_def sprout_dom)
    moreover have "dname (dom_of ?db c) = dname (dom_of db c)" if "c \<in> doms Z db" for c
    proof -
      have "c \<noteq> ?b" using that f by auto
      then show ?thesis using ab by (simp add: link_simps sprout_dom)
    qed
    ultimately show ?thesis using db'(2-5) by (intro exI [of _ db']) (auto simp: link_simps t'(3))
  qed
qed


section \<open>The domain of a record\<close>

text \<open>A name in the zone; a name has at most 127 labels (RFC 1035, section 3.1).\<close>

definition in_zone :: "('f \<Rightarrow> 'l::linorder list) \<Rightarrow> ('f, 'k, 't) zone \<Rightarrow> 'f \<Rightarrow> bool" where
  "in_zone path Z n \<longleftrightarrow> prefix (path (z_apex Z)) (path n) \<and> length (path n) \<le> 127"

lemma rr_domain_eval:
  assumes z: "zone_ok path Z" and ok: "domains_ok path Z db" and f: "\<forall>a \<in> doms Z db. a < fresh db"
    and top: "q \<in> doms Z db" "is_apex (dom_of db q)" and n: "in_zone path Z n"
  obtains a db' where "rr_domain Z db n = Ok (Some a, db')" "a \<in> doms Z db'" "nm path db' a = path n" "domains_ok path Z db'"
    "grown Z db db'"
proof (cases "path n \<in> nm path db ` doms Z db")
  case True
  then obtain a where a: "a \<in> doms Z db" "nm path db a = path n" by auto
  have "namedb_lookup_domain Z db n = Some a"
    using lookup_present [OF z _ a(1), of n] ok a(2) by (simp add: domains_ok_def)
  then show thesis using that [of a db] a ok grown_refl [OF f] by (simp add: rr_domain_def)
next
  case False
  have t: "tree_ok path (rb_nodes (z_rb Z) (domains db)) (dom_at db) dname" using ok by (simp add: domains_ok_def)
  have qn: "nm path db q = path (z_apex Z)" using apex_iff [OF ok top(1)] top(2) by simp
  then have ne: "path n \<noteq> path (z_apex Z)" using False top(1) by (metis imageI)
  then have s: "strict_prefix (path (z_apex Z)) (path n)" using n by (simp add: in_zone_def strict_prefix_def)
  let ?a = "fresh db"
  obtain t' where t': "namedb_add_domain Z db n = (Some ?a, sprout db t' n)"
    "tree_ok path (rb_nodes (z_rb Z) t') (dom_at (sprout db t' n)) dname" "doms Z (sprout db t' n) = insert ?a (doms Z db)"
    using namedb_add_domain_eval [OF z t f False] by metis
  let ?db = "sprout db t' n"
  have an: "?a \<notin> doms Z db" using f by auto
  have nn: "nm path ?db c = (if c = ?a then path n else nm path db c)" for c by (simp add: nm_def sprout_dom domain_create_def)
  have pl: "place_ok path Z ?db c" if "c \<in> doms Z db" for c
  proof -
    have "c \<noteq> ?a" "place_ok path Z db c" using that f ok by (auto simp: domains_ok_def)
    moreover have "p \<noteq> ?a" if "p \<in> doms Z db" for p using that f by auto
    ultimately show ?thesis by (auto simp: place_ok_def t'(3) nn sprout_dom split: if_splits)
  qed
  have dm: "domains ?db = t'" by (simp add: sprout_def set_dom_def)
  have d: "dangling path Z ?db ?a"
    using t'(2) pl s unfolding dangling_def t'(3) dm by (auto simp: nn sprout_dom domain_create_def)
  have len: "length (nm path ?db ?a) \<le> length (path (z_apex Z)) + 128" using n by (simp add: nn in_zone_def)
  obtain db' where db': "entize_loop Z (z_apex Z) 128 ?db ?a = Ok (ODS_STATUS_OK, db')" "domains_ok path Z db'" "grown Z db db'"
    "doms Z ?db \<subseteq> doms Z db'" "\<forall>c \<in> doms Z ?db. dname (dom_of db' c) = dname (dom_of ?db c)"
    using entize_loop_eval [OF z top(1) qn sprout_grown [OF grown_refl [OF f] t'(3)] an d len] by blast
  have g: "get (dom_at ?db) ?a = Ok ((domain_create n)\<lparr>is_new := True\<rparr>)" by (simp add: get_def sprout_def set_dom_def)
  have "dname_compare (z_ldns Z) n (z_apex Z) \<noteq> 0"
    using z ne dname_contract_sgn(2) [of "z_ldns Z" path n "z_apex Z"] by (simp add: zone_ok_def)
  moreover have "namedb_lookup_domain Z db n = None" by (rule lookup_absent [OF z t False])
  ultimately have "rr_domain Z db n = Ok (Some ?a, db')"
    using t'(1) g db'(1) by (simp add: rr_domain_def namedb_domain_entize_def domain_create_def)
  moreover have "nm path db' ?a = path n" using db'(5) by (simp add: t'(3) nm_def sprout_dom domain_create_def)
  ultimately show thesis using that [of ?a db'] db'(2-4) by (simp add: t'(3))
qed

end
