(* ===== verification/Rollback.thy ===== *)
theory Rollback
  imports Entize
begin

text \<open>
  Taking changes back: whatever records were added and deleted since the last update of the zone,
  \<^verbatim>\<open>namedb_rollback\<close> restores the domains, RRsets and denial points.
\<close>

section \<open>What lasts of an RRset\<close>

text \<open>
  The records that are in the zone, without their marks and without their TTLs: the TTL of a record
  is changed at once when the record is added again.
\<close>

definition strip_rr :: "'f rr_struct \<Rightarrow> 'f rr_struct" where
  "strip_rr x = x\<lparr>the_rr := (the_rr x)\<lparr>rr_ttl := 0\<rparr>, is_added := False, is_removed := False\<rparr>"

definition lasting :: "'f rrset_struct \<Rightarrow> 'f rrset_struct" where
  "lasting r = r\<lparr>rrs := map strip_rr (filter rr_exists (rrs r)), needs_signing := False\<rparr>"

definition in_force :: "'f rrset_struct list \<Rightarrow> 'f rrset_struct list" where
  "in_force rs = filter (\<lambda>r. rrs r \<noteq> []) (map lasting rs)"

definition clean_rr :: "'f rr_struct \<Rightarrow> bool" where
  "clean_rr x \<longleftrightarrow> rr_exists x \<and> \<not> is_added x \<and> \<not> is_removed x"

definition clean :: "'f rrset_struct list \<Rightarrow> bool" where
  "clean rs \<longleftrightarrow> (\<forall>r \<in> set rs. rrs r \<noteq> [] \<and> (\<forall>x \<in> set (rrs r). clean_rr x))"

lemma strip_rr_exists [simp]: "rr_exists (strip_rr x) = rr_exists x"
  by (simp add: strip_rr_def)

lemma strip_update:
  assumes "j < length xs" "rr_exists y = rr_exists (xs ! j)" "strip_rr y = strip_rr (xs ! j)"
  shows "map strip_rr (filter rr_exists (xs[j := y])) = map strip_rr (filter rr_exists xs)"
proof -
  have "map strip_rr (filter rr_exists ys) = filter rr_exists (map strip_rr ys)" for ys :: "'a rr_struct list"
    by (simp add: filter_map comp_def)
  moreover have "map strip_rr (xs[j := y]) = map strip_rr xs" using assms(1,3) by (simp add: map_update) (metis list_update_id nth_map)
  ultimately show ?thesis by simp
qed

lemma lookup_rr_less: "lookup_rr L xs r = Some j \<Longrightarrow> j < length xs"
  by (induction xs arbitrary: j) (auto split: option.splits if_splits)

lemma mark_added_lasting: "j < length (rrs r) \<Longrightarrow> lasting (mark_added r j rr) = lasting r"
  by (simp add: lasting_def mark_added_def Let_def strip_update strip_rr_def)

lemma mark_removed_lasting:
  "j < length (rrs r) \<Longrightarrow> lasting (r\<lparr>rrs := (rrs r)[j := (rrs r ! j)\<lparr>is_removed := True, is_added := False\<rparr>]\<rparr>) = lasting r"
  by (simp add: lasting_def strip_update strip_rr_def)

lemma in_force_update: "i < length rs \<Longrightarrow> lasting r = lasting (rs ! i) \<Longrightarrow> in_force (rs[i := r]) = in_force rs"
  by (simp add: in_force_def map_update) (metis list_update_id nth_map)

lemma in_force_append: "filter rr_exists (rrs r) = [] \<Longrightarrow> in_force (rs @ [r]) = in_force rs"
  by (simp add: in_force_def lasting_def)

lemma in_force_clean: "clean rs \<Longrightarrow> in_force rs = map lasting rs"
proof (induction rs)
  case (Cons r rs)
  then have "filter rr_exists (rrs r) \<noteq> []" by (auto simp: clean_def clean_rr_def filter_empty_conv)
  then show ?case using Cons by (auto simp: in_force_def lasting_def clean_def)
qed (simp add: in_force_def)

lemma in_force_rrsets: "in_force rs \<noteq> [] \<Longrightarrow> rs \<noteq> []"
  by (auto simp: in_force_def)

section \<open>Taking back the changes of an RRset\<close>

definition clear_rr :: "'f rr_struct \<Rightarrow> 'f rr_struct" where
  "clear_rr x = x\<lparr>is_added := False, is_removed := False\<rparr>"

definition rolled :: "'f rrset_struct \<Rightarrow> 'f rrset_struct" where
  "rolled r = r\<lparr>rrs := map clear_rr (filter rr_exists (rrs r)), needs_signing := needs_signing r \<or> (\<exists>x \<in> set (rrs r). \<not> rr_exists x)\<rparr>"

definition gone_set :: "'f rrset_struct \<Rightarrow> bool" where
  "gone_set r \<longleftrightarrow> (\<forall>x \<in> set (rrs r). \<not> rr_exists x)"

lemma rollback_rrs_from:
  assumes "rrs r = xs @ ys" "length (xs @ ys) < 2 ^ 16" "length ys < n"
  shows "rollback_rrs n (length xs) r del =
    Ok (r\<lparr>rrs := xs @ map clear_rr (filter rr_exists ys), needs_signing := needs_signing r \<or> (\<exists>x \<in> set ys. \<not> rr_exists x)\<rparr>,
        del \<or> (xs = [] \<and> ys \<noteq> [] \<and> (\<forall>x \<in> set ys. \<not> rr_exists x)))"
  using assms
proof (induction ys arbitrary: xs n r del)
  case Nil
  then obtain m where "n = Suc m" by (cases n) auto
  then show ?case using Nil by simp
next
  case (Cons y ys)
  then obtain m where n: "n = Suc m" by (cases n) auto
  show ?case
  proof (cases "rr_exists y")
    case True
    let ?r = "r\<lparr>rrs := xs @ clear_rr y # ys\<rparr>"
    have "rollback_rrs n (length xs) r del = rollback_rrs m (length (xs @ [clear_rr y])) ?r del"
      using Cons.prems True n by (simp add: clear_rr_def)
    also have "\<dots> = Ok (?r\<lparr>rrs := (xs @ [clear_rr y]) @ map clear_rr (filter rr_exists ys),
        needs_signing := needs_signing ?r \<or> (\<exists>x \<in> set ys. \<not> rr_exists x)\<rparr>, del)"
      using Cons.IH [of ?r "xs @ [clear_rr y]" m del] Cons.prems n by simp
    finally show ?thesis using True by simp
  next
    case False
    let ?r = "r\<lparr>rrs := xs @ ys, needs_signing := True\<rparr>"
    have "rollback_rrs n (length xs) r del = rollback_rrs m (length xs) ?r (del \<or> length (xs @ y # ys) = 1)"
      using Cons.prems False n by (simp add: rrset_del_rr_eq)
    also have "\<dots> = Ok (?r\<lparr>rrs := xs @ map clear_rr (filter rr_exists ys), needs_signing := True\<rparr>,
        del \<or> length (xs @ y # ys) = 1 \<or> xs = [] \<and> ys \<noteq> [] \<and> (\<forall>x \<in> set ys. \<not> rr_exists x))"
      using Cons.IH [of ?r xs m] Cons.prems n by simp
    also have "length (xs @ y # ys) = 1 \<or> xs = [] \<and> ys \<noteq> [] \<and> (\<forall>x \<in> set ys. \<not> rr_exists x) \<longleftrightarrow>
        xs = [] \<and> (\<forall>x \<in> set ys. \<not> rr_exists x)" by auto
    finally show ?thesis using False by simp
  qed
qed

lemma rollback_rrs_eval:
  "length (rrs r) < 2 ^ 16 \<Longrightarrow> rrs r \<noteq> [] \<Longrightarrow> rollback_rrs (length (rrs r) + 1) 0 r False = Ok (rolled r, gone_set r)"
  using rollback_rrs_from [of r "[]" "rrs r" "length (rrs r) + 1" False] by (simp add: rolled_def gone_set_def)

definition rolled_sets :: "'f rrset_struct list \<Rightarrow> 'f rrset_struct list" where
  "rolled_sets rs = map rolled (filter (\<lambda>r. \<not> gone_set r) rs)"

lemma rollback_rrsets_eval:
  "\<forall>r \<in> set rs. rrs r \<noteq> [] \<and> length (rrs r) < 2 ^ 16 \<Longrightarrow>
    rollback_rrsets False rs = Ok (rolled_sets rs, \<exists>r \<in> set rs. gone_set r)"
proof (induction rs)
  case (Cons r rs)
  then have "rollback_rrs (length (rrs r) + 1) 0 r False = Ok (rolled r, gone_set r)" by (intro rollback_rrs_eval) auto
  then show ?case using Cons unfolding rollback_rrsets.simps by (simp add: rolled_sets_def del: rollback_rrs.simps)
qed (simp add: rolled_sets_def)

lemma rolled_lasting: "lasting (rolled r) = lasting r"
  by (simp add: lasting_def rolled_def comp_def strip_rr_def clear_rr_def filter_map)

lemma gone_set_lasting: "gone_set r \<longleftrightarrow> rrs (lasting r) = []"
  by (simp add: gone_set_def lasting_def filter_empty_conv)

lemma rolled_sets_in_force: "in_force (rolled_sets rs) = in_force rs"
  by (induction rs) (auto simp: in_force_def rolled_sets_def rolled_lasting gone_set_lasting)

lemma rolled_sets_clean: "clean (rolled_sets rs)"
  by (auto simp: clean_def rolled_sets_def rolled_def gone_set_def clean_rr_def clear_rr_def filter_empty_conv)

lemma rolled_sets_count:
  "\<forall>r \<in> set rs. length (rrs r) < 2 ^ 16 \<Longrightarrow> \<forall>r \<in> set (rolled_sets rs). length (rrs r) < 2 ^ 16"
  by (auto simp: rolled_sets_def rolled_def intro: order_le_less_trans [OF length_filter_le])

lemma rolled_sets_Nil: "rolled_sets rs = [] \<longleftrightarrow> in_force rs = []"
  by (auto simp: rolled_sets_def in_force_def gone_set_lasting filter_empty_conv)


section \<open>Changes that are pending\<close>

text \<open>
  The state after changes were made to \<open>db0\<close>: the old domains have what they had in force, the new
  ones have nothing in force; a denial point is marked only if its domain has a new RRset.
\<close>

definition old_domain :: "'f domain_struct \<Rightarrow> 'f domain_struct \<Rightarrow> bool" where
  "old_domain d0 d \<longleftrightarrow> dname d = dname d0 \<and> parent d = parent d0 \<and> denial d = denial d0 \<and> is_apex d = is_apex d0 \<and>
     in_force (rrsets d) = in_force (rrsets d0)"

definition new_domain :: "'f domain_struct \<Rightarrow> bool" where
  "new_domain d \<longleftrightarrow> denial d = None \<and> \<not> is_apex d \<and> in_force (rrsets d) = []"

definition point_ok :: "('f, 't) namedb \<Rightarrow> ('f, 't) namedb \<Rightarrow> nat \<Rightarrow> bool" where
  "point_ok db0 db b \<longleftrightarrow>
     (\<exists>f. den_at db b = Some ((den_of db0 b)\<lparr>bitmap_changed := f\<rparr>) \<and>
        (f \<longrightarrow> (\<exists>r \<in> set (rrsets (dom_of db (the (d_domain (den_of db0 b))))). gone_set r)))"

definition pending :: "('f \<Rightarrow> 'l::linorder list) \<Rightarrow> ('f, 'k, 't) zone \<Rightarrow> ('f, 't) namedb \<Rightarrow> ('f, 't) namedb \<Rightarrow> bool" where
  "pending path Z db0 db \<longleftrightarrow>
     domains_ok path Z db \<and> doms Z db0 \<subseteq> doms Z db \<and>
     (\<forall>a \<in> doms Z db0. old_domain (dom_of db0 a) (dom_of db a)) \<and>
     (\<forall>a \<in> doms Z db - doms Z db0. new_domain (dom_of db a)) \<and>
     (\<forall>a \<in> doms Z db. (\<forall>r \<in> set (rrsets (dom_of db a)). rrs r \<noteq> []) \<and> a < fresh db) \<and>
     denials db = denials db0 \<and> (\<forall>b \<in> dens Z db0. point_ok db0 db b) \<and> fresh db0 \<le> fresh db \<and>
     ixfr db = ixfr db0 \<and> is_initialized db = is_initialized db0"

lemma pendingD:
  assumes "pending path Z db0 db"
  shows "domains_ok path Z db" "doms Z db0 \<subseteq> doms Z db" "\<And>a. a \<in> doms Z db0 \<Longrightarrow> old_domain (dom_of db0 a) (dom_of db a)"
    "\<And>a. a \<in> doms Z db \<Longrightarrow> a \<notin> doms Z db0 \<Longrightarrow> new_domain (dom_of db a)"
    "\<And>a. a \<in> doms Z db \<Longrightarrow> (\<forall>r \<in> set (rrsets (dom_of db a)). rrs r \<noteq> []) \<and> a < fresh db"
    "denials db = denials db0" "\<And>b. b \<in> dens Z db0 \<Longrightarrow> point_ok db0 db b" "fresh db0 \<le> fresh db"
    "ixfr db = ixfr db0" "is_initialized db = is_initialized db0"
  using assms unfolding pending_def by blast+

text \<open>The state before any change: everything is in force and the chain is complete.\<close>

definition committed :: "('f \<Rightarrow> 'l::linorder list) \<Rightarrow> ('f, 'k, 't) zone \<Rightarrow> ('f, 't) namedb \<Rightarrow> bool" where
  "committed path Z db \<longleftrightarrow>
     db_ok path Z db \<and> (\<forall>a \<in> doms Z db. clean (rrsets (dom_of db a)) \<and> distinct (map rrtype (rrsets (dom_of db a))) \<and> \<not> empt path Z db a) \<and>
     (\<forall>b \<in> dens Z db. \<not> bitmap_changed (den_of db b)) \<and> (\<exists>q \<in> doms Z db. is_apex (dom_of db q))"

lemma committed_pending: "committed path Z db \<Longrightarrow> pending path Z db db"
proof -
  assume c: "committed path Z db"
  then have ok: "db_ok path Z db" by (simp add: committed_def)
  have "point_ok db db b" if "b \<in> dens Z db" for b
  proof -
    have "\<not> bitmap_changed (den_of db b)" using c that by (simp add: committed_def)
    then have "den_of db b = (den_of db b)\<lparr>bitmap_changed := False\<rparr>" by simp
    then show ?thesis using den_get [OF db_okD(3) [OF ok] that] unfolding point_ok_def by auto
  qed
  moreover have "\<forall>r \<in> set (rrsets (dom_of db a)). rrs r \<noteq> []" if "a \<in> doms Z db" for a
    using db_okD(2) [OF ok that] by (auto simp: rrsets_ok_def)
  ultimately show ?thesis using db_okD(1,6) [OF ok] by (simp add: pending_def old_domain_def)
qed

text \<open>Empty domains can be added.\<close>

lemma grown_pending:
  assumes p: "pending path Z db0 db" and g: "grown Z db db'" and ok: "domains_ok path Z db'" and links: "links_ok Z db0"
  shows "pending path Z db0 db'"
proof -
  note p = pendingD [OF p] and g = grownD [OF g]
  have "point_ok db0 db' b" if "b \<in> dens Z db0" for b
  proof -
    obtain a where a: "a \<in> doms Z db0" "d_domain (den_of db0 b) = Some a" using links_okD(1) [OF links \<open>b \<in> dens Z db0\<close>] by blast
    then have "dom_of db' a = dom_of db a" using g(2) p(2) by blast
    then show ?thesis using p(7) [OF that] a(2) g(7) by (simp add: point_ok_def)
  qed
  moreover have "new_domain (dom_of db' a)" if "a \<in> doms Z db'" "a \<notin> doms Z db0" for a
  proof (cases "a \<in> doms Z db")
    case True
    then show ?thesis using p(4) [OF True that(2)] g(2) [OF True] by simp
  next
    case False
    then show ?thesis using g(3) [OF that(1) False] by (simp add: new_domain_def blank_def in_force_def)
  qed
  moreover have "\<forall>r \<in> set (rrsets (dom_of db' a)). rrs r \<noteq> []" if "a \<in> doms Z db'" for a
    using p(5) [of a] g(2) [of a] g(3) [OF that] by (cases "a \<in> doms Z db") (auto simp: blank_def)
  moreover have "old_domain (dom_of db0 a) (dom_of db' a)" if "a \<in> doms Z db0" for a
    using p(2) p(3) [OF that] g(2) [of a] that by auto
  ultimately show ?thesis unfolding pending_def using ok p g by auto
qed

text \<open>The RRsets of a domain change, but not what is in force; a mark is set only with a new RRset.\<close>

lemma rrsets_pending:
  assumes p: "pending path Z db0 db" and a: "a \<in> doms Z db" and links: "links_ok Z db0"
    and rs: "in_force rs = in_force (rrsets (dom_of db a))" "\<forall>r \<in> set rs. rrs r \<noteq> []"
      "\<And>b. denial (dom_of db a) = Some b \<Longrightarrow> bitmap_changed (den_of db b) \<Longrightarrow>
        \<exists>r \<in> set (rrsets (dom_of db a)). gone_set r \<Longrightarrow> \<exists>r \<in> set rs. gone_set r"
  shows "pending path Z db0 (set_dom db a ((dom_of db a)\<lparr>rrsets := rs\<rparr>))" (is "pending path Z db0 ?db")
proof -
  note p = pendingD [OF p]
  have o: "dom_of ?db c = (if c = a then (dom_of db a)\<lparr>rrsets := rs\<rparr> else dom_of db c)" for c
    by (simp add: dom_of_def set_dom_def)
  have n: "dom_nodes Z ?db = dom_nodes Z db" by (simp add: dom_nodes_def set_dom_def)
  have "domains_ok path Z ?db"
    by (rule domains_ok_cong [OF p(1)]) (use dom_at_of [OF p(1)] in \<open>simp_all add: o\<close>, simp_all add: set_dom_def)
  moreover have "old_domain (dom_of db0 c) (dom_of ?db c)" if "c \<in> doms Z db0" for c
    using p(3) [OF that] rs(1) by (auto simp: old_domain_def o)
  moreover have "new_domain (dom_of ?db c)" if "c \<in> doms Z db" "c \<notin> doms Z db0" for c
    using p(4) [OF that] rs(1) by (auto simp: new_domain_def o)
  moreover have "point_ok db0 ?db b" if bd: "b \<in> dens Z db0" for b
  proof -
    obtain f where f: "den_at db b = Some ((den_of db0 b)\<lparr>bitmap_changed := f\<rparr>)"
      "f \<Longrightarrow> \<exists>r \<in> set (rrsets (dom_of db (the (d_domain (den_of db0 b))))). gone_set r"
      using p(7) [OF bd] unfolding point_ok_def by blast
    have at: "den_at ?db = den_at db" by (simp add: set_dom_def)
    obtain c where c: "c \<in> doms Z db0" "d_domain (den_of db0 b) = Some c" "denial (dom_of db0 c) = Some b"
      using links_okD(1) [OF links bd] by blast
    have "denial (dom_of db c) = Some b" "bitmap_changed (den_of db b) = f"
      using p(3) [OF c(1)] c(3) f(1) by (simp_all add: old_domain_def den_of_def)
    then show ?thesis unfolding point_ok_def o at using f rs(3) c(2) by (intro exI [of _ f]) auto
  qed
  moreover have "(\<forall>r \<in> set (rrsets (dom_of ?db c)). rrs r \<noteq> []) \<and> c < fresh ?db" if "c \<in> doms Z db" for c
    using p(5) [OF that] rs(2) by (simp add: o) (simp add: set_dom_def)
  moreover have "denials ?db = denials db" "fresh ?db = fresh db" "ixfr ?db = ixfr db" "is_initialized ?db = is_initialized db"
    by (simp_all add: set_dom_def)
  ultimately show ?thesis unfolding pending_def n using p(2,6,8-10) by auto
qed


lemma pending_den:
  assumes "pending path Z db0 db" "links_ok Z db0" "a \<in> doms Z db" "denial (dom_of db a) = Some b"
  shows "b \<in> dens Z db0"
proof -
  have "a \<in> doms Z db0" using pendingD(4) [OF assms(1,3)] assms(4) by (auto simp: new_domain_def)
  then show ?thesis using links_okD(2) [OF assms(2), of a b] pendingD(3) [OF assms(1), of a] assms(4) by (simp add: old_domain_def)
qed

text \<open>The mark of the denial point of a domain with a new RRset.\<close>

lemma mark_pending:
  assumes p: "pending path Z db0 db" and a: "a \<in> doms Z db" and links: "links_ok Z db0"
    and g: "\<exists>r \<in> set (rrsets (dom_of db a)). gone_set r"
  obtains db' where "mark_bitmap db (denial (dom_of db a)) = Ok db'" "pending path Z db0 db'"
    "dom_at db' = dom_at db" "domains db' = domains db"
proof (cases "denial (dom_of db a)")
  case None
  then show thesis using that [of db] p by (simp add: mark_bitmap_def)
next
  case (Some b)
  note p' = pendingD [OF p]
  have a0: "a \<in> doms Z db0" using p'(4) [OF a] Some by (auto simp: new_domain_def)
  then have "denial (dom_of db0 a) = Some b" using p'(3) [OF a0] Some by (simp add: old_domain_def)
  then have b: "b \<in> dens Z db0" "d_domain (den_of db0 b) = Some a" using links_okD(2) [OF links a0] by auto
  obtain f where f: "den_at db b = Some ((den_of db0 b)\<lparr>bitmap_changed := f\<rparr>)" using p'(7) [OF b(1)] by (auto simp: point_ok_def)
  let ?db = "set_den db b ((den_of db0 b)\<lparr>bitmap_changed := True\<rparr>)"
  have o: "dom_of ?db = dom_of db" "dom_nodes Z ?db = dom_nodes Z db" "nm path ?db = nm path db"
    by (simp_all add: dom_of_def set_den_def dom_nodes_def nm_def fun_eq_iff)
  have at: "den_at ?db u = (if u = b then Some ((den_of db0 b)\<lparr>bitmap_changed := True\<rparr>) else den_at db u)" for u
    by (simp add: set_den_def)
  have "point_ok db0 ?db u" if "u \<in> dens Z db0" for u
    using p'(7) [OF that] g b(2) unfolding point_ok_def o at by (cases "u = b") (auto intro!: exI [of _ True])
  moreover have "domains_ok path Z ?db" using p'(1) by (simp add: domains_ok_def place_ok_def o) (simp add: set_den_def)
  ultimately have "pending path Z db0 ?db" using p unfolding pending_def o by (simp add: set_den_def)
  moreover have "mark_bitmap db (denial (dom_of db a)) = Ok ?db" using Some f by (simp add: mark_bitmap_def get_def)
  ultimately show thesis using that [of ?db] by (simp add: set_den_def)
qed

lemma mark_set_dom: "mark_bitmap db b = Ok db' \<Longrightarrow> mark_bitmap (set_dom db a d) b = Ok (set_dom db' a d)"
  by (auto simp: mark_bitmap_def get_def set_dom_def set_den_def split: option.splits)

section \<open>Adding and deleting records\<close>

lemma set_rrset_pending:
  assumes p: "pending path Z db0 db" and a: "a \<in> doms Z db" and links: "links_ok Z db0"
    and i: "i < length (rrsets (dom_of db a))" and r: "lasting r = lasting (rrsets (dom_of db a) ! i)" "rrs r \<noteq> []"
  shows "pending path Z db0 (set_dom db a (set_rrset (dom_of db a) i r))"
  unfolding set_rrset_def
proof (rule rrsets_pending [OF p a links])
  let ?rs = "rrsets (dom_of db a)"
  show "in_force (?rs[i := r]) = in_force ?rs" by (rule in_force_update [OF i r(1)])
  show "\<forall>r \<in> set (?rs[i := r]). rrs r \<noteq> []" using pendingD(5) [OF p a] r(2) set_update_subset_insert [of ?rs i r] by blast
  assume "\<exists>x \<in> set ?rs. gone_set x"
  then obtain k where k: "k < length ?rs" "gone_set (?rs ! k)" by (auto simp: in_set_conv_nth)
  then have "gone_set (?rs[i := r] ! k)" using r(1) by (cases "k = i") (simp_all add: gone_set_lasting)
  then show "\<exists>x \<in> set (?rs[i := r]). gone_set x" using k(1) by (metis nth_mem length_list_update)
qed

lemma new_rrset_pending:
  assumes p: "pending path Z db0 db" and a: "a \<in> doms Z db" and links: "links_ok Z db0" and g: "gone_set r" "rrs r \<noteq> []"
  obtains db' where "mark_bitmap (set_dom db a (append_rrset (dom_of db a) r)) (denial (dom_of db a)) = Ok db'" "pending path Z db0 db'"
    "dom_of db' a = append_rrset (dom_of db a) r"
proof -
  let ?d = "append_rrset (dom_of db a) r" and ?rs = "rrsets (dom_of db a) @ [r]"
  have f: "filter rr_exists (rrs r) = []" using g(1) by (simp add: gone_set_def filter_empty_conv)
  have "pending path Z db0 (set_dom db a ((dom_of db a)\<lparr>rrsets := ?rs\<rparr>))"
    by (rule rrsets_pending [OF p a links in_force_append [OF f]]) (use pendingD(5) [OF p a] g in auto)
  then have p1: "pending path Z db0 (set_dom db a ?d)" by (simp add: append_rrset_def)
  have d: "dom_of (set_dom db a ?d) a = ?d" by (simp add: dom_of_def set_dom_def)
  have a1: "a \<in> doms Z (set_dom db a ?d)" using a by (simp add: dom_nodes_def set_dom_def)
  have g1: "\<exists>r \<in> set (rrsets (dom_of (set_dom db a ?d) a)). gone_set r" unfolding d by (simp add: append_rrset_def g(1))
  obtain db' where db': "mark_bitmap (set_dom db a ?d) (denial (dom_of (set_dom db a ?d) a)) = Ok db'" "pending path Z db0 db'"
    "dom_at db' = dom_at (set_dom db a ?d)"
    using mark_pending [OF p1 a1 links g1] by metis
  then show thesis using that [of db'] by (simp add: d) (simp add: dom_of_def append_rrset_def set_dom_def)
qed


lemma lookup_rrset_at:
  assumes "domain_lookup_rrset d t = Some i"
  shows "i < length (rrsets d)" "rrtype (rrsets d ! i) = t"
  using assms first_index_SomeD [of "\<lambda>r. rrtype r = t" "rrsets d" i] by (auto simp: domain_lookup_rrset_def split: if_splits)

lemma set_dom_twice [simp]: "set_dom (set_dom db a d) a d' = set_dom db a d'"
  by (simp add: set_dom_def)

lemma set_dom_same: "dom_at db a = Some d \<Longrightarrow> set_dom db a d = db"
  by (simp add: set_dom_def fun_upd_idem)

text \<open>Adding a record to a domain of the zone.\<close>

lemma add_to_rrset:
  assumes p: "pending path Z db0 db" and a: "a \<in> doms Z db" and links: "links_ok Z db0"
    and i: "domain_lookup_rrset (dom_of db a) (rr_get_type rr) = Some i"
  obtains r where "case rrset_lookup_rr (z_ldns Z) (rrsets (dom_of db a) ! i) rr of
      Some j \<Rightarrow> r = mark_added (rrsets (dom_of db a) ! i) j rr
    | None \<Rightarrow> rrset_add_rr (rrsets (dom_of db a) ! i) rr = Ok r"
    "pending path Z db0 (set_dom db a (set_rrset (dom_of db a) i r))"
proof -
  let ?r = "rrsets (dom_of db a) ! i"
  note at = lookup_rrset_at [OF i]
  show thesis
  proof (cases "rrset_lookup_rr (z_ldns Z) ?r rr")
    case None
    let ?r' = "?r\<lparr>rrs := rrs ?r @ [\<lparr>the_rr = rr, rr_exists = False, is_added = True, is_removed = False\<rparr>], needs_signing := True\<rparr>"
    have "pending path Z db0 (set_dom db a (set_rrset (dom_of db a) i ?r'))"
      by (rule set_rrset_pending [OF p a links at(1)]) (simp_all add: lasting_def)
    then show thesis using that [of ?r'] None at(2) by (simp add: rrset_add_rr_def)
  next
    case (Some j)
    then have j: "j < length (rrs ?r)" by (simp add: rrset_lookup_rr_def lookup_rr_less)
    have "length (rrs (mark_added ?r j rr)) = length (rrs ?r)" by (simp add: mark_added_def Let_def)
    then have "rrs (mark_added ?r j rr) \<noteq> []" using j by auto
    then have "pending path Z db0 (set_dom db a (set_rrset (dom_of db a) i (mark_added ?r j rr)))"
      using set_rrset_pending [OF p a links at(1) mark_added_lasting [OF j]] by simp
    then show thesis using that [of "mark_added ?r j rr"] Some by simp
  qed
qed

lemma zone_add_rr_pending:
  assumes z: "zone_ok path Z" and p: "pending path Z db0 db" and links: "links_ok Z db0"
    and top: "q \<in> doms Z db0" "is_apex (dom_of db0 q)" and rr: "in_zone path Z (rr_owner rr)" "rr_get_type rr \<noteq> 0"
  shows "\<exists>status db' st'. zone_add_rr Z db st rr ds = Ok (status, db', st') \<and> status \<in> {ODS_STATUS_OK, ODS_STATUS_UNCHANGED} \<and>
    pending path Z db0 db'"
proof -
  note p' = pendingD [OF p]
  have q: "q \<in> doms Z db" "is_apex (dom_of db q)" using p'(2) p'(3) [OF top(1)] top by (auto simp: old_domain_def)
  have f: "\<forall>a \<in> doms Z db. a < fresh db" using p'(5) by blast
  obtain a db1 where d: "rr_domain Z db (rr_owner rr) = Ok (Some a, db1)" "a \<in> doms Z db1" "domains_ok path Z db1" "grown Z db db1"
    using rr_domain_eval [OF z p'(1) f q rr(1)] by metis
  have p1: "pending path Z db0 db1" by (rule grown_pending [OF p d(4,3) links])
  let ?d = "dom_of db1 a"
  have g: "get (dom_at db1) a = Ok ?d" by (rule dom_get [OF d(3,2)])
  show ?thesis
  proof (cases "domain_lookup_rrset ?d (rr_get_type rr)")
    case (Some i)
    obtain r where r: "case rrset_lookup_rr (z_ldns Z) (rrsets ?d ! i) rr of
        Some j \<Rightarrow> r = mark_added (rrsets ?d ! i) j rr | None \<Rightarrow> rrset_add_rr (rrsets ?d ! i) rr = Ok r"
      "pending path Z db0 (set_dom db1 a (set_rrset ?d i r))"
      using add_to_rrset [OF p1 d(2) links Some] by metis
    show ?thesis
      using d(1) g Some r by (cases "rrset_lookup_rr (z_ldns Z) (rrsets ?d ! i) rr") (auto simp: zone_add_rr_def rr_rrset_def)
  next
    case None
    let ?r0 = "\<lparr>rrtype = rr_get_type rr, rrs = [], rrsigs = [], needs_signing = False\<rparr> :: 'a rrset_struct"
    let ?r1 = "?r0\<lparr>rrs := [\<lparr>the_rr = rr, rr_exists = False, is_added = True, is_removed = False\<rparr>], needs_signing := True\<rparr>"
    have "gone_set ?r1" "rrs ?r1 \<noteq> []" by (simp_all add: gone_set_def)
    then obtain db2 where m: "mark_bitmap (set_dom db1 a (append_rrset ?d ?r1)) (denial ?d) = Ok db2" "pending path Z db0 db2"
      "dom_of db2 a = append_rrset ?d ?r1"
      using new_rrset_pending [OF p1 d(2) links] by metis
    have m0: "mark_bitmap (set_dom db1 a (append_rrset ?d ?r0)) (denial ?d) = Ok (set_dom db2 a (append_rrset ?d ?r0))"
      using mark_set_dom [OF m(1), of a "append_rrset ?d ?r0"] by simp
    have "doms Z db1 = doms Z db2" using m(1)
      by (auto simp: mark_bitmap_def get_def set_dom_def set_den_def dom_nodes_def split: option.splits)
    then have "set_dom db2 a (append_rrset ?d ?r1) = db2"
      using set_dom_same dom_at_of [OF pendingD(1) [OF m(2)], of a] d(2) m(3) by metis
    moreover have "set_rrset (append_rrset ?d ?r0) (length (rrsets ?d)) ?r1 = append_rrset ?d ?r1"
      by (simp add: set_rrset_def append_rrset_def)
    moreover have "get (dom_at (set_dom db2 a (append_rrset ?d ?r0))) a = Ok (append_rrset ?d ?r0)" by (simp add: get_def set_dom_def)
    moreover have "rrsets (append_rrset ?d ?r0) ! length (rrsets ?d) = ?r0" by (simp add: append_rrset_def)
    ultimately have "zone_add_rr Z db st rr ds = Ok (ODS_STATUS_OK, db2, count_sort ds 1 st)"
      using d(1) g None rr(2) m0
      by (simp add: zone_add_rr_def rr_rrset_def rrset_create_def domain_add_rrset_def rrset_lookup_rr_def rrset_add_rr_def)
    then show ?thesis using m(2) by simp
  qed
qed

lemma zone_del_rr_pending:
  assumes z: "zone_ok path Z" and p: "pending path Z db0 db" and links: "links_ok Z db0"
  shows "\<exists>status db' st'. zone_del_rr Z db st rr ds = Ok (status, db', st') \<and> status \<in> {ODS_STATUS_OK, ODS_STATUS_UNCHANGED} \<and>
    pending path Z db0 db'"
proof (cases "namedb_lookup_domain Z db (rr_owner rr)")
  case None
  then show ?thesis using p by (simp add: zone_del_rr_def)
next
  case (Some a)
  note p' = pendingD [OF p]
  have a: "a \<in> doms Z db"
    using Some lookup_absent [OF z, of db "rr_owner rr"] lookup_present [OF z, of db _ "rr_owner rr"] p'(1)
    by (auto simp: domains_ok_def)
  let ?d = "dom_of db a"
  have g: "get (dom_at db) a = Ok ?d" by (rule dom_get [OF p'(1) a])
  show ?thesis
  proof (cases "domain_lookup_rrset ?d (rr_get_type rr)")
    case None
    then show ?thesis using Some g p by (simp add: zone_del_rr_def)
  next
    case i: (Some i)
    let ?r = "rrsets ?d ! i"
    show ?thesis
    proof (cases "rrset_lookup_rr (z_ldns Z) ?r rr")
      case None
      then show ?thesis using Some g i p by (simp add: zone_del_rr_def)
    next
      case j: (Some j)
      then have jl: "j < length (rrs ?r)" by (simp add: rrset_lookup_rr_def lookup_rr_less)
      have "pending path Z db0 (set_dom db a (set_rrset ?d i (?r\<lparr>rrs := (rrs ?r)[j := (rrs ?r ! j)\<lparr>is_removed := True, is_added := False\<rparr>]\<rparr>)))"
        by (rule set_rrset_pending [OF p a links lookup_rrset_at(1) [OF i] mark_removed_lasting [OF jl]]) (use jl in auto)
      then show ?thesis using Some g i j by (simp add: zone_del_rr_def Let_def)
    qed
  qed
qed


section \<open>Removing the new domains\<close>

text \<open>A domain that stays: it is the apex, or it has data or is above a domain that has.\<close>

definition stays :: "('f \<Rightarrow> 'l::linorder list) \<Rightarrow> ('f, 'k, 't) zone \<Rightarrow> ('f, 't) namedb \<Rightarrow> nat \<Rightarrow> bool" where
  "stays path Z db p \<longleftrightarrow>
     is_apex (dom_of db p) \<or> (\<exists>c \<in> doms Z db. prefix (nm path db p) (nm path db c) \<and> rrsets (dom_of db c) \<noteq> [])"

lemma stays_not_empt: "domains_ok path Z db \<Longrightarrow> p \<in> doms Z db \<Longrightarrow> stays path Z db p \<Longrightarrow> \<not> empt path Z db p"
  using nm_inj [of path Z db p] by (auto simp: stays_def empt_def strict_prefix_def)

lemma stays_kept:
  assumes ok: "domains_ok path Z db" "domains_ok path Z db'" and k: "kept Z db db'" and p: "p \<in> doms Z db" "stays path Z db p"
  shows "p \<in> doms Z db'" "stays path Z db' p"
proof -
  show p': "p \<in> doms Z db'"
  proof (cases "is_apex (dom_of db p)")
    case True
    then show ?thesis using keptD(3) [OF k p(1)] by blast
  next
    case False
    then obtain c where c: "c \<in> doms Z db" "prefix (nm path db p) (nm path db c)" "rrsets (dom_of db c) \<noteq> []"
      using p(2) by (auto simp: stays_def)
    then have c': "c \<in> doms Z db'" using keptD(3) [OF k c(1)] by blast
    obtain b where b: "b \<in> doms Z db'" "nm path db' b = nm path db p"
      using ancestor_in [OF ok(2) c' place_apex [OF ok(1) p(1)]] c(2) kept_nm [OF k c', of path] by auto
    then have "b = p" using nm_inj [OF ok(1) _ p(1)] keptD(1) [OF k] kept_nm [OF k b(1), of path] by auto
    then show ?thesis using b(1) by simp
  qed
  show "stays path Z db' p"
  proof (cases "is_apex (dom_of db p)")
    case True
    then show ?thesis using keptD(2) [OF k p'] by (simp add: stays_def)
  next
    case False
    then obtain c where c: "c \<in> doms Z db" "prefix (nm path db p) (nm path db c)" "rrsets (dom_of db c) \<noteq> []"
      using p(2) by (auto simp: stays_def)
    then have c': "c \<in> doms Z db'" using keptD(3) [OF k c(1)] by blast
    then show ?thesis unfolding stays_def using c keptD(2) [OF k c'] kept_nm [OF k c', of path] kept_nm [OF k p', of path]
      by (intro disjI2 bexI [of _ c]) simp_all
  qed
qed

definition points_stay :: "('f \<Rightarrow> 'l::linorder list) \<Rightarrow> ('f, 'k, 't) zone \<Rightarrow> ('f, 't) namedb \<Rightarrow> bool" where
  "points_stay path Z db \<longleftrightarrow> (\<forall>p \<in> doms Z db. denial (dom_of db p) \<noteq> None \<longrightarrow> stays path Z db p)"

lemma can_be_deleted_stay:
  assumes "zone_ok path Z" "domains_ok path Z db" "a \<in> doms Z db" "points_stay path Z db"
  shows "domain_can_be_deleted Z db a = Ok (empt path Z db a)"
  using domain_is_empty_terminal_eval [OF assms(1-3)] dom_get [OF assms(2,3)] stays_not_empt [OF assms(2,3)] assms(3,4)
  by (auto simp: domain_can_be_deleted_def points_stay_def)

text \<open>From a domain that is not empty up nothing happens.\<close>

lemma walk_stay:
  assumes z: "zone_ok path Z" and ok: "domains_ok path Z db" and st: "points_stay path Z db"
    and "a \<in> doms Z db" "card (above path Z db a) + 1 < n" "\<not> empt path Z db a"
  shows "del_denial_loop Z True n (Some a) del db = Ok (del, db)"
  using assms(4-6)
proof (induction n arbitrary: a)
  case (Suc n)
  note can = can_be_deleted_stay [OF z ok Suc.prems(1) st]
  have step: "del_denial_loop Z True (Suc n) (Some a) del db = del_denial_loop Z True n (parent (dom_of db a)) del db"
    using dom_get [OF ok Suc.prems(1)] can Suc.prems(3) by simp
  show ?case
  proof (cases "is_apex (dom_of db a)")
    case True
    obtain m where "n = Suc m" using Suc.prems(2) by (cases n) auto
    then show ?thesis using step apex_parent [OF ok Suc.prems(1) True] by simp
  next
    case False
    then obtain p where p: "p \<in> doms Z db" "parent (dom_of db a) = Some p" "nm path db p = butlast (nm path db a)"
      "strict_prefix (nm path db p) (nm path db a)" using place_parent [OF ok Suc.prems(1)] by blast
    have "nm path db a \<noteq> []" using p(4) by auto
    then have "card (above path Z db p) + 1 < n" using card_above_parent [OF ok Suc.prems(1) p(1,3)] Suc.prems(2) by simp
    moreover have "\<not> empt path Z db p" using p(4) Suc.prems(1) by (auto simp: empt_def)
    ultimately show ?thesis using Suc.IH [OF p(1)] step p(2) by simp
  qed
qed simp

definition pruned :: "('f \<Rightarrow> 'l::linorder list) \<Rightarrow> ('f, 'k, 't) zone \<Rightarrow> ('f, 't) namedb \<Rightarrow> nat \<Rightarrow> ('f, 't) namedb \<Rightarrow> bool" where
  "pruned path Z db a db' \<longleftrightarrow>
     domains_ok path Z db' \<and> kept Z db db' \<and> doms Z db - doms Z db' \<subseteq> insert a (above path Z db a) \<and>
     (a \<in> doms Z db' \<longleftrightarrow> \<not> empt path Z db a) \<and> (\<forall>c \<in> doms Z db'. dom_of db' c = dom_of db c) \<and>
     (\<forall>c \<in> doms Z db'. empt path Z db' c \<longrightarrow> empt path Z db c) \<and>
     (\<exists>t h. db' = db\<lparr>domains := t, dom_at := h\<rparr>)"

lemma prunedD:
  assumes "pruned path Z db a db'"
  shows "domains_ok path Z db'" "kept Z db db'" "doms Z db - doms Z db' \<subseteq> insert a (above path Z db a)"
    "a \<in> doms Z db' \<longleftrightarrow> \<not> empt path Z db a" "\<And>c. c \<in> doms Z db' \<Longrightarrow> dom_of db' c = dom_of db c"
    "\<And>c. c \<in> doms Z db' \<Longrightarrow> empt path Z db' c \<Longrightarrow> empt path Z db c"
    "\<exists>t h. db' = db\<lparr>domains := t, dom_at := h\<rparr>"
  using assms unfolding pruned_def by blast+

lemma points_stay_kept:
  assumes "domains_ok path Z db" "domains_ok path Z db'" "kept Z db db'" "\<And>c. c \<in> doms Z db' \<Longrightarrow> denial (dom_of db' c) = denial (dom_of db c)"
    "points_stay path Z db"
  shows "points_stay path Z db'"
  using stays_kept(2) [OF assms(1-3)] assms(4,5) keptD(1) [OF assms(3)] unfolding points_stay_def by (metis subsetD)

lemma walk_prune:
  assumes z: "zone_ok path Z" and "domains_ok path Z db" "points_stay path Z db" "a \<in> doms Z db" "card (above path Z db a) + 1 < n"
  shows "\<exists>db'. del_denial_loop Z True n (Some a) del db = Ok (del \<or> empt path Z db a, db') \<and> pruned path Z db a db'"
  using assms(2-5)
proof (induction n arbitrary: db a del)
  case (Suc n)
  note ok = Suc.prems(1) and st = Suc.prems(2) and a = Suc.prems(3)
  show ?case
  proof (cases "empt path Z db a")
    case False
    have "db = db\<lparr>domains := domains db, dom_at := dom_at db\<rparr>" by simp
    then have "\<exists>t h. db = db\<lparr>domains := t, dom_at := h\<rparr>" by blast
    then have "pruned path Z db a db" using ok a False kept_refl [of Z db] unfolding pruned_def by blast
    then show ?thesis using walk_stay [OF z ok st a Suc.prems(4) False, of del] False
      by (intro exI [of _ db]) (simp del: del_denial_loop.simps)
  next
    case True
    then have na: "\<not> is_apex (dom_of db a)" by (simp add: empt_def)
    have none: "denial (dom_of db a) = None" using stays_not_empt [OF ok a] st a True by (auto simp: points_stay_def)
    obtain p where p: "p \<in> doms Z db" "parent (dom_of db a) = Some p" "nm path db p = butlast (nm path db a)"
      "strict_prefix (nm path db p) (nm path db a)" using place_parent [OF ok a na] by blast
    have pa: "p \<noteq> a" and ne: "nm path db a \<noteq> []" using p(4) by auto
    note ab = above_parent [OF ok a p(1,3) ne]
    obtain db1 t where d: "namedb_del_domain Z db a = Ok (True, db1)" "domains_ok path Z (domain_cleanup db1 a)"
      "kept Z db (domain_cleanup db1 a)" "doms Z (domain_cleanup db1 a) = doms Z db - {a}"
      "\<And>c. c \<noteq> a \<Longrightarrow> dom_of (domain_cleanup db1 a) c = dom_of db c"
      "domain_cleanup db1 a = db\<lparr>domains := t, dom_at := (dom_at db)(a := None)\<rparr>"
      using del_domain_domains [OF z ok a True none] by metis
    define db2 where "db2 = domain_cleanup db1 a"
    note d' = d(2-5) [folded db2_def]
    have st2: "points_stay path Z db2" by (rule points_stay_kept [OF ok d'(1,2) _ st]) (use d'(3,4) in auto)
    have p2: "p \<in> doms Z db2" using d'(3) p(1) pa by simp
    have "above path Z db2 p \<subseteq> above path Z db p" using kept_above [OF d'(2) p2, of path] by blast
    then have "card (above path Z db2 p) \<le> card (above path Z db p)" by (intro card_mono) simp_all
    then have c2: "card (above path Z db2 p) + 1 < n" using Suc.prems(4) ab by simp
    obtain db3 where e: "del_denial_loop Z True n (Some p) True db2 = Ok (True \<or> empt path Z db2 p, db3)" "pruned path Z db2 p db3"
      using Suc.IH [OF d'(1) st2 p2 c2, of True] by blast
    note e' = prunedD [OF e(2)]
    have sub: "doms Z db3 \<subseteq> doms Z db2" by (rule keptD(1) [OF e'(2)])
    have "empt path Z db c" if c: "c \<in> doms Z db3" "empt path Z db3 c" for c
    proof (rule ccontr)
      assume n: "\<not> empt path Z db c"
      have e2: "c \<in> doms Z db2" "empt path Z db2 c" using e'(6) [OF c] c(1) sub by auto
      then have "parent (dom_of db a) = Some c" using empt_deleted [OF ok d'(2,3) a _ _ n] by blast
      then have "c = p" using p(2) by simp
      then show False using e'(4) c(1) e2(2) by simp
    qed
    moreover have "doms Z db - doms Z db3 \<subseteq> insert a (above path Z db a)"
      using e'(3) d'(3) ab(1) \<open>above path Z db2 p \<subseteq> above path Z db p\<close> by auto
    moreover have "\<exists>t h. db3 = db\<lparr>domains := t, dom_at := h\<rparr>" using e'(7) d(6) db2_def by auto
    moreover have "dom_of db3 c = dom_of db c" if "c \<in> doms Z db3" for c using e'(5) [OF that] d'(3,4) sub that by auto
    moreover have "a \<notin> doms Z db3" using sub d'(3) by auto
    ultimately have "pruned path Z db a db3" unfolding pruned_def using e'(1) kept_trans [OF d'(2) e'(2)] True by blast
    moreover have "del_denial_loop Z True (Suc n) (Some a) del db = Ok (True, db3)"
      using dom_get [OF ok a] can_be_deleted_stay [OF z ok a st] True d(1) e(1) p(2) db2_def by simp
    ultimately show ?thesis using True by auto
  qed
qed simp


section \<open>Rollback\<close>

definition counts_ok :: "'f rrset_struct list \<Rightarrow> bool" where
  "counts_ok rs \<longleftrightarrow> (\<forall>r \<in> set rs. length (rrs r) < 2 ^ 16)"

lemma clear_pending:
  assumes p: "pending path Z db0 db" and a: "a \<in> doms Z db" and links: "links_ok Z db0"
  obtains db' where "clear_bitmap db (denial (dom_of db a)) = Ok db'" "pending path Z db0 db'"
    "dom_at db' = dom_at db" "domains db' = domains db"
    "\<And>b. denial (dom_of db a) = Some b \<Longrightarrow> \<not> bitmap_changed (den_of db' b)"
    "\<And>b. denial (dom_of db a) \<noteq> Some b \<Longrightarrow> den_of db' b = den_of db b"
proof (cases "denial (dom_of db a)")
  case None
  then show thesis using that [of db] p by (simp add: clear_bitmap_def)
next
  case (Some b)
  note p' = pendingD [OF p]
  have a0: "a \<in> doms Z db0" using p'(4) [OF a] Some by (auto simp: new_domain_def)
  then have "denial (dom_of db0 a) = Some b" using p'(3) [OF a0] Some by (simp add: old_domain_def)
  then have b: "b \<in> dens Z db0" using links_okD(2) [OF links a0] by auto
  obtain f where f: "den_at db b = Some ((den_of db0 b)\<lparr>bitmap_changed := f\<rparr>)" using p'(7) [OF b] by (auto simp: point_ok_def)
  let ?db = "set_den db b ((den_of db0 b)\<lparr>bitmap_changed := False\<rparr>)"
  have o: "dom_of ?db = dom_of db" "dom_nodes Z ?db = dom_nodes Z db" "nm path ?db = nm path db"
    by (simp_all add: dom_of_def set_den_def dom_nodes_def nm_def fun_eq_iff)
  have at: "den_at ?db u = (if u = b then Some ((den_of db0 b)\<lparr>bitmap_changed := False\<rparr>) else den_at db u)" for u
    by (simp add: set_den_def)
  have "point_ok db0 ?db u" if "u \<in> dens Z db0" for u
    using p'(7) [OF that] unfolding point_ok_def o at by (cases "u = b") (auto intro!: exI [of _ False])
  moreover have "domains_ok path Z ?db" using p'(1) by (simp add: domains_ok_def place_ok_def o) (simp add: set_den_def)
  ultimately have "pending path Z db0 ?db" using p unfolding pending_def o by (simp add: set_den_def)
  moreover have "clear_bitmap db (denial (dom_of db a)) = Ok ?db" using Some f by (simp add: clear_bitmap_def get_def)
  ultimately show thesis using that [of ?db] Some by (simp add: den_of_def set_den_def)
qed

lemma clear_set_dom: "clear_bitmap db b = Ok db' \<Longrightarrow> clear_bitmap (set_dom db a d) b = Ok (set_dom db' a d)"
  by (auto simp: clear_bitmap_def get_def set_dom_def set_den_def split: option.splits)

lemma domain_rollback_pending:
  assumes p: "pending path Z db0 db" and a: "a \<in> doms Z db" and links: "links_ok Z db0" and co: "counts_ok (rrsets (dom_of db a))"
  obtains db' where "domain_rollback db a False = Ok db'" "pending path Z db0 db'" "domains db' = domains db"
    "\<And>c. dom_of db' c = (if c = a then (dom_of db a)\<lparr>rrsets := rolled_sets (rrsets (dom_of db a))\<rparr> else dom_of db c)"
    "\<And>b. b \<in> dens Z db0 \<Longrightarrow> denial (dom_of db a) = Some b \<Longrightarrow> \<not> bitmap_changed (den_of db' b)"
    "\<And>b. denial (dom_of db a) \<noteq> Some b \<Longrightarrow> den_of db' b = den_of db b"
proof -
  note p' = pendingD [OF p]
  let ?d = "dom_of db a" let ?rs = "rolled_sets (rrsets ?d)" let ?d' = "?d\<lparr>rrsets := ?rs\<rparr>" let ?gone = "\<exists>r \<in> set (rrsets ?d). gone_set r"
  have rb: "rollback_rrsets False (rrsets ?d) = Ok (?rs, ?gone)"
    using rollback_rrsets_eval [of "rrsets ?d"] p'(5) [OF a] co by (simp add: counts_ok_def)
  obtain db1 where d1: "(if ?gone then clear_bitmap db (denial ?d) else Ok db) = Ok db1" "pending path Z db0 db1"
    "dom_at db1 = dom_at db" "domains db1 = domains db"
    "\<And>b. b \<in> dens Z db0 \<Longrightarrow> denial ?d = Some b \<Longrightarrow> \<not> bitmap_changed (den_of db1 b)"
    "\<And>b. denial ?d \<noteq> Some b \<Longrightarrow> den_of db1 b = den_of db b"
  proof (cases ?gone)
    case True
    show thesis by (rule clear_pending [OF p a links]) (use that True in auto)
  next
    case False
    have "\<not> bitmap_changed (den_of db b)" if b: "b \<in> dens Z db0" "denial ?d = Some b" for b
    proof -
      obtain c where c: "c \<in> doms Z db0" "d_domain (den_of db0 b) = Some c" "denial (dom_of db0 c) = Some b"
        using links_okD(1) [OF links b(1)] by blast
      have "a \<in> doms Z db0" using p'(4) [OF a] b(2) by (auto simp: new_domain_def)
      then have "denial (dom_of db0 a) = Some b" using p'(3) b(2) by (simp add: old_domain_def)
      then have "c = a" using links_okD(2) [OF links \<open>a \<in> doms Z db0\<close>] c(2) by auto
      then show ?thesis using p'(7) [OF b(1)] c(2) False by (auto simp: point_ok_def den_of_def)
    qed
    then show thesis using that [of db] False p by simp
  qed
  have o: "dom_of db1 = dom_of db" "doms Z db1 = doms Z db" by (simp_all add: dom_of_def fun_eq_iff d1(3) dom_nodes_def d1(4))
  note a0 = pending_den [OF p links a]
  have "pending path Z db0 (set_dom db1 a ((dom_of db1 a)\<lparr>rrsets := ?rs\<rparr>))"
    by (rule rrsets_pending [OF d1(2) _ links])
      (use a d1(5) a0 rolled_sets_clean [of "rrsets ?d"] in \<open>auto simp: o rolled_sets_in_force clean_def\<close>)
  moreover have "domain_rollback db a False = Ok (set_dom db1 a ?d')"
    using dom_get [OF p'(1) a] rb d1(1) clear_set_dom [of db "denial ?d" db1 a ?d']
    by (auto simp: domain_rollback_def Let_def split: if_splits)
  moreover have "dom_of (set_dom db1 a ?d') c = (if c = a then ?d' else dom_of db c)" for c
    by (simp add: o(1) [symmetric]) (simp add: dom_of_def set_dom_def)
  moreover have "den_of (set_dom db1 a ?d') = den_of db1" "domains (set_dom db1 a ?d') = domains db"
    by (simp_all add: den_of_def set_dom_def fun_eq_iff d1(4))
  ultimately show thesis using that [of "set_dom db1 a ?d'"] d1(5,6) by (simp add: o)
qed


lemma pending_nm: "pending path Z db0 db \<Longrightarrow> a \<in> doms Z db0 \<Longrightarrow> nm path db a = nm path db0 a"
  using pendingD(3) [of path Z db0 db a] by (simp add: old_domain_def nm_def)

lemma old_stays:
  assumes c: "committed path Z db0" and p: "pending path Z db0 db" and a: "a \<in> doms Z db0"
  shows "stays path Z db a"
proof -
  note p' = pendingD [OF p]
  have ok: "domains_ok path Z db0" using c db_okD(1) by (auto simp: committed_def)
  obtain d where d: "d \<in> doms Z db0" "prefix (nm path db0 a) (nm path db0 d)"
    "\<And>e. e \<in> doms Z db0 \<Longrightarrow> \<not> strict_prefix (nm path db0 d) (nm path db0 e)"
    using deepest [OF a, of path] by metis
  have cl: "clean (rrsets (dom_of db0 d))" "\<not> empt path Z db0 d" using c d(1) by (simp_all add: committed_def)
  then have "is_apex (dom_of db0 d) \<or> rrsets (dom_of db0 d) \<noteq> []" using d(3) by (auto simp: empt_def)
  then show ?thesis
  proof
    assume "is_apex (dom_of db0 d)"
    then have "is_apex (dom_of db0 a)"
      using d(2) apex_iff [OF ok d(1)] apex_iff [OF ok a] place_apex [OF ok a] by (simp add: prefix_order.antisym)
    then show ?thesis using p'(3) [OF a] by (simp add: stays_def old_domain_def)
  next
    assume "rrsets (dom_of db0 d) \<noteq> []"
    then have "in_force (rrsets (dom_of db d)) \<noteq> []" using p'(3) [OF d(1)] in_force_clean [OF cl(1)] by (simp add: old_domain_def)
    then have "rrsets (dom_of db d) \<noteq> []" by (rule in_force_rrsets)
    then show ?thesis unfolding stays_def using d(1,2) p'(2) pending_nm [OF p a] pending_nm [OF p d(1)] by auto
  qed
qed

lemma pending_points_stay: "committed path Z db0 \<Longrightarrow> pending path Z db0 db \<Longrightarrow> points_stay path Z db"
  unfolding points_stay_def using old_stays pendingD(4) new_domain_def by metis

lemma pruned_pending:
  assumes c: "committed path Z db0" and p: "pending path Z db0 db" and w: "pruned path Z db a db'"
  shows "pending path Z db0 db'"
proof -
  note p' = pendingD [OF p] and w' = prunedD [OF w]
  have links: "links_ok Z db0" using c db_okD(4) by (auto simp: committed_def)
  have old: "doms Z db0 \<subseteq> doms Z db'" using stays_kept(1) [OF p'(1) w'(1,2)] old_stays [OF c p] p'(2) by blast
  have sub: "doms Z db' \<subseteq> doms Z db" by (rule keptD(1) [OF w'(2)])
  obtain t h where db': "db' = db\<lparr>domains := t, dom_at := h\<rparr>" using w'(7) by blast
  have f: "denials db' = denials db" "den_at db' = den_at db" "fresh db' = fresh db" "ixfr db' = ixfr db" "is_initialized db' = is_initialized db"
    by (simp_all add: db')
  have "point_ok db0 db' b" if b: "b \<in> dens Z db0" for b
  proof -
    obtain e where e: "e \<in> doms Z db0" "d_domain (den_of db0 b) = Some e" using links_okD(1) [OF links b] by blast
    have "dom_of db' e = dom_of db e" using w'(5) old e(1) by blast
    then show ?thesis using p'(7) [OF b] e(2) f(2) by (simp add: point_ok_def)
  qed
  moreover have "old_domain (dom_of db0 e) (dom_of db' e)" if "e \<in> doms Z db0" for e using p'(3) [OF that] w'(5) old that by auto
  moreover have "new_domain (dom_of db' e)" if "e \<in> doms Z db'" "e \<notin> doms Z db0" for e
    using p'(4) [of e] w'(5) [OF that(1)] sub that by auto
  moreover have "(\<forall>r \<in> set (rrsets (dom_of db' e)). rrs r \<noteq> []) \<and> e < fresh db'" if "e \<in> doms Z db'" for e
    using p'(5) [of e] w'(5) [OF that] sub that f(3) by auto
  ultimately show ?thesis unfolding pending_def using w'(1) old f p'(6,8-10) by auto
qed

text \<open>A domain that has been dealt with.\<close>

definition settled_back :: "('f \<Rightarrow> 'l::linorder list) \<Rightarrow> ('f, 'k, 't) zone \<Rightarrow> ('f, 't) namedb \<Rightarrow> nat \<Rightarrow> bool" where
  "settled_back path Z db c \<longleftrightarrow> clean (rrsets (dom_of db c)) \<and> \<not> empt path Z db c \<and>
     (\<forall>b. denial (dom_of db c) = Some b \<longrightarrow> \<not> bitmap_changed (den_of db b))"

lemma rollback_step:
  assumes z: "zone_ok path Z" and c: "committed path Z db0" and p: "pending path Z db0 db" and ns: "dom_nodes Z db = pre @ a # bs"
    and pre: "\<forall>c \<in> set pre. settled_back path Z db c" and cs: "\<forall>c \<in> doms Z db. counts_ok (rrsets (dom_of db c))"
  obtains db1 gone db2 pre' where "domain_rollback db a False = Ok db1" "namedb_del_denial_trigger Z db1 a True = Ok (gone, db2)"
    "pending path Z db0 db2" "dom_nodes Z db2 = pre' @ bs" "\<forall>c \<in> set pre'. settled_back path Z db2 c"
    "\<forall>c \<in> doms Z db2. counts_ok (rrsets (dom_of db2 c))"
proof -
  have links: "links_ok Z db0" using c db_okD(4) by (auto simp: committed_def)
  have a: "a \<in> doms Z db" and dist: "distinct (pre @ a # bs)" using ns doms_distinct [OF pendingD(1) [OF p]] by simp_all
  have co: "counts_ok (rrsets (dom_of db a))" using cs a by blast
  obtain db1 where d1: "domain_rollback db a False = Ok db1" "pending path Z db0 db1" "domains db1 = domains db"
    "\<And>c. dom_of db1 c = (if c = a then (dom_of db a)\<lparr>rrsets := rolled_sets (rrsets (dom_of db a))\<rparr> else dom_of db c)"
    "\<And>b. b \<in> dens Z db0 \<Longrightarrow> denial (dom_of db a) = Some b \<Longrightarrow> \<not> bitmap_changed (den_of db1 b)"
    "\<And>b. denial (dom_of db a) \<noteq> Some b \<Longrightarrow> den_of db1 b = den_of db b"
    by (rule domain_rollback_pending [OF p a links co]) blast
  note ok1 = pendingD(1) [OF d1(2)]
  have ns1: "dom_nodes Z db1 = pre @ a # bs" using ns by (simp add: dom_nodes_def d1(3))
  have a1: "a \<in> doms Z db1" using ns1 by simp
  have n: "nm path db1 e = nm path db e" for e by (simp add: nm_def d1(4))
  obtain db2 where d2: "namedb_del_denial_trigger Z db1 a True = Ok (empt path Z db1 a, db2)" "pruned path Z db1 a db2"
    using walk_prune [OF z ok1 pending_points_stay [OF c d1(2)] a1, of "length (dom_nodes Z db1) + 1" False]
      card_above [OF a1, of path] by (auto simp: namedb_del_denial_trigger_def)
  note w = prunedD [OF d2(2)]
  have p2: "pending path Z db0 db2" by (rule pruned_pending [OF c d1(2) d2(2)])
  have db2: "den_of db2 = den_of db1" using w(7) by (auto simp: den_of_def)
  have ab: "above path Z db1 a \<subseteq> set pre" by (rule above_before [OF ok1 ns1])
  have inb: "e \<in> doms Z db2" if "e \<in> set bs" for e using that w(3) ab dist ns1 by auto
  then have "filter (\<lambda>e. e \<in> doms Z db2) bs = bs" by (simp add: filter_id_conv)
  then have ns2: "dom_nodes Z db2 = (filter (\<lambda>e. e \<in> doms Z db2) pre @ (if a \<in> doms Z db2 then [a] else [])) @ bs"
    using keptD(4) [OF w(2)] by (simp add: ns1 split: if_splits)
  have sa: "settled_back path Z db2 a" if "a \<in> doms Z db2"
  proof -
    have "\<not> empt path Z db2 a" using w(4,6) that by blast
    moreover have "\<not> bitmap_changed (den_of db2 b)" if "denial (dom_of db a) = Some b" for b
      using d1(5) pending_den [OF p links a that] that db2 by simp
    ultimately show ?thesis using w(5) [OF that] d1(4) [of a] rolled_sets_clean by (simp add: settled_back_def)
  qed
  have sp: "settled_back path Z db2 e" if e: "e \<in> set pre" "e \<in> doms Z db2" for e
  proof -
    have ea: "e \<noteq> a" "e \<in> doms Z db" using dist e(1) ns by auto
    have o: "dom_of db2 e = dom_of db e" using w(5) [OF e(2)] d1(4) ea by simp
    have se: "settled_back path Z db e" using pre e(1) by blast
    have "empt path Z db1 e = empt path Z db e" using ea by (simp add: empt_def d1(4) n ns1 ns)
    then have "\<not> empt path Z db2 e" using w(6) [OF e(2)] se by (auto simp: settled_back_def)
    moreover have "denial (dom_of db e) = Some b \<Longrightarrow> \<not> bitmap_changed (den_of db2 b)" for b
      using se d1(5,6) [of b] db2 pending_den [OF p links ea(2), of b] by (cases "denial (dom_of db a) = Some b")
        (auto simp: settled_back_def)
    ultimately show ?thesis using se o by (simp add: settled_back_def)
  qed
  have sb: "counts_ok (rrsets (dom_of db2 e))" if "e \<in> doms Z db2" for e
  proof -
    have "e \<in> doms Z db" using keptD(1) [OF w(2)] that ns1 ns by auto
    then show ?thesis using w(5) [OF that] d1(4) [of e] cs co rolled_sets_count [of "rrsets (dom_of db a)"] by (simp add: counts_ok_def)
  qed
  show thesis
    by (rule that [OF d1(1) d2(1) p2 ns2]) (use sa sp sb in \<open>auto split: if_splits\<close>)
qed

end
