(* ===== verification/Rolled.thy ===== *)
theory Rolled
  imports Rollback
begin

text \<open>
  Edits of a zone, and that \<^verbatim>\<open>namedb_rollback\<close> takes all of them back.
\<close>

section \<open>Edits\<close>

text \<open>
  What can happen between two updates: records are added and deleted, in any order, and serials are
  computed.
\<close>

inductive edited :: "('f \<Rightarrow> 'l::linorder list) \<Rightarrow> ('f, 'k, 't) zone \<Rightarrow> ('f, 't) namedb \<Rightarrow> ('f, 't) namedb \<Rightarrow> bool"
  for path Z db0 where
  none: "edited path Z db0 db0"
| add: "edited path Z db0 db \<Longrightarrow> in_zone path Z (rr_owner rr) \<Longrightarrow> rr_get_type rr \<noteq> 0 \<Longrightarrow>
    zone_add_rr Z db st rr ds = Ok (status, db', st') \<Longrightarrow> edited path Z db0 db'"
| del: "edited path Z db0 db \<Longrightarrow> zone_del_rr Z db st rr ds = Ok (status, db', st') \<Longrightarrow> edited path Z db0 db'"
| serial: "edited path Z db0 db \<Longrightarrow> edited path Z db0 (db\<lparr>inbserial := k, intserial := n, serial_updated := u\<rparr>)"

text \<open>The serials have nothing to do with the domains and denial points.\<close>

lemma serial_simps [simp]:
  "dom_nodes Z (db\<lparr>inbserial := k, intserial := n, serial_updated := u\<rparr>) = dom_nodes Z db" "den_nodes Z (db\<lparr>inbserial := k, intserial := n, serial_updated := u\<rparr>) = den_nodes Z db"
  "dom_of (db\<lparr>inbserial := k, intserial := n, serial_updated := u\<rparr>) = dom_of db" "den_of (db\<lparr>inbserial := k, intserial := n, serial_updated := u\<rparr>) = den_of db"
  "nm path (db\<lparr>inbserial := k, intserial := n, serial_updated := u\<rparr>) = nm path db"
  by (simp_all add: dom_nodes_def den_nodes_def dom_of_def den_of_def nm_def fun_eq_iff)

lemma serial_pending: "pending path Z db0 db \<Longrightarrow> pending path Z db0 (db\<lparr>inbserial := k, intserial := n, serial_updated := u\<rparr>)"
  by (simp add: pending_def point_ok_def domains_ok_def place_ok_def)

lemma edited_pending:
  assumes "edited path Z db0 db" and z: "zone_ok path Z" and c: "committed path Z db0"
  shows "pending path Z db0 db"
  using assms(1)
proof (induction rule: edited.induct)
  case none
  show ?case by (rule committed_pending [OF c])
next
  case (add db rr st ds status db' st')
  obtain q where "q \<in> doms Z db0" "is_apex (dom_of db0 q)" using c by (auto simp: committed_def)
  moreover have "links_ok Z db0" using c db_okD(4) by (auto simp: committed_def)
  ultimately show ?case using zone_add_rr_pending [OF z add.IH _ _ _ add.hyps(2,3), of q st ds] add.hyps(4) by auto
next
  case (del db st rr ds status db' st')
  have "links_ok Z db0" using c db_okD(4) by (auto simp: committed_def)
  then show ?case using zone_del_rr_pending [OF z del.IH, of st rr ds] del.hyps(2) by auto
next
  case (serial db k n u)
  then show ?case by (intro serial_pending)
qed

section \<open>The walk over the domains\<close>

definition rollback_body :: "('f, 'k, 't) zone \<Rightarrow> nat \<Rightarrow> ('f, 't) namedb \<Rightarrow> ('f, 't) namedb exec" where
  "rollback_body Z a db =
    exec_bind (domain_rollback db a False) (\<lambda>db. exec_bind (namedb_del_denial_trigger Z db a True) (\<lambda>(gone, db). Ok db))"

interpretation rw: tree_walk "dom_nodes Z" "rollback_body Z" "rollback_loop Z False"
  "\<lambda>db. zone_ok path Z \<and> committed path Z db0 \<and> pending path Z db0 db \<and> (\<forall>c \<in> doms Z db. counts_ok (rrsets (dom_of db c)))"
  "settled_back path Z" for path Z db0
proof (unfold_locales, goal_cases)
  case (2 n a s)
  then show ?case by (simp add: rollback_body_def exec_bind_assoc case_prod_unfold)
next
  case (3 s)
  then show ?case using doms_distinct pendingD(1) by blast
next
  case (4 s pre a bs)
  then obtain db1 gone db2 pre' where st: "domain_rollback s a False = Ok db1" "namedb_del_denial_trigger Z db1 a True = Ok (gone, db2)"
    "pending path Z db0 db2" "dom_nodes Z db2 = pre' @ bs" "\<forall>c \<in> set pre'. settled_back path Z db2 c"
    "\<forall>c \<in> doms Z db2. counts_ok (rrsets (dom_of db2 c))"
    using rollback_step [of path Z db0 s pre a bs] by metis
  then show ?case using 4(1) by (intro exI [of _ db2] exI [of _ pre']) (simp add: rollback_body_def)
qed simp

section \<open>The state that is left\<close>

lemma settled_doms:
  assumes c: "committed path Z db0" and p: "pending path Z db0 db" and s: "\<forall>a \<in> doms Z db. settled_back path Z db a"
  shows "doms Z db = doms Z db0"
proof
  note p' = pendingD [OF p]
  have ok0: "domains_ok path Z db0" using c db_okD(1) by (auto simp: committed_def)
  show "doms Z db0 \<subseteq> doms Z db" by (rule p'(2))
  show "doms Z db \<subseteq> doms Z db0"
  proof
    fix a assume a: "a \<in> doms Z db"
    obtain d where d: "d \<in> doms Z db" "prefix (nm path db a) (nm path db d)"
      "\<And>e. e \<in> doms Z db \<Longrightarrow> \<not> strict_prefix (nm path db d) (nm path db e)"
      using deepest [OF a, of path] by metis
    have "d \<in> doms Z db0"
    proof (rule ccontr)
      assume n: "d \<notin> doms Z db0"
      have "settled_back path Z db d" using s d(1) by blast
      then show False using p'(4) [OF d(1) n] d(3) in_force_clean [of "rrsets (dom_of db d)"]
        by (auto simp: settled_back_def new_domain_def empt_def)
    qed
    then obtain b where b: "b \<in> doms Z db0" "nm path db0 b = nm path db a"
      using ancestor_in [OF ok0 _ place_apex [OF p'(1) a]] d(2) pending_nm [OF p] by metis
    then have "b = a" using nm_inj [OF p'(1) _ a] p'(2) pending_nm [OF p b(1)] by auto
    then show "a \<in> doms Z db0" using b(1) by simp
  qed
qed

text \<open>
  The two databases have the same domains, with the same names, parents and denial points, the same
  RRsets with the same records, all in the zone and none marked, and the same signatures; the
  denial points are the same.
\<close>

definition restored :: "('f, 'k, 't) zone \<Rightarrow> ('f, 't) namedb \<Rightarrow> ('f, 't) namedb \<Rightarrow> bool" where
  "restored Z db0 db \<longleftrightarrow>
     doms Z db = doms Z db0 \<and>
     (\<forall>a \<in> doms Z db0. dname (dom_of db a) = dname (dom_of db0 a) \<and> parent (dom_of db a) = parent (dom_of db0 a) \<and>
        denial (dom_of db a) = denial (dom_of db0 a) \<and> is_apex (dom_of db a) = is_apex (dom_of db0 a) \<and>
        map lasting (rrsets (dom_of db a)) = map lasting (rrsets (dom_of db0 a)) \<and> clean (rrsets (dom_of db a))) \<and>
     den_nodes Z db = den_nodes Z db0 \<and> (\<forall>b \<in> dens Z db0. den_of db b = den_of db0 b) \<and>
     ixfr db = ixfr db0 \<and> is_initialized db = is_initialized db0"

lemma settled_restored:
  assumes c: "committed path Z db0" and p: "pending path Z db0 db" and s: "\<forall>a \<in> doms Z db. settled_back path Z db a"
  shows "restored Z db0 db"
  unfolding restored_def
proof (intro conjI ballI)
  note p' = pendingD [OF p]
  have links: "links_ok Z db0" using c db_okD(4) by (auto simp: committed_def)
  show dd: "doms Z db = doms Z db0" by (rule settled_doms [OF assms])
  fix a assume a: "a \<in> doms Z db0"
  show cl: "clean (rrsets (dom_of db a))" using s dd a by (simp add: settled_back_def)
  have "clean (rrsets (dom_of db0 a))" using c a by (simp add: committed_def)
  then show "map lasting (rrsets (dom_of db a)) = map lasting (rrsets (dom_of db0 a))"
    using p'(3) [OF a] in_force_clean [OF cl] in_force_clean by (auto simp: old_domain_def)
  show "dname (dom_of db a) = dname (dom_of db0 a)" "parent (dom_of db a) = parent (dom_of db0 a)"
    "denial (dom_of db a) = denial (dom_of db0 a)" "is_apex (dom_of db a) = is_apex (dom_of db0 a)"
    using p'(3) [OF a] by (simp_all add: old_domain_def)
next
  note p' = pendingD [OF p]
  have links: "links_ok Z db0" using c db_okD(4) by (auto simp: committed_def)
  fix b assume b: "b \<in> dens Z db0"
  obtain a where a: "a \<in> doms Z db0" "denial (dom_of db0 a) = Some b" using links_okD(1) [OF links b] by blast
  then have "\<not> bitmap_changed (den_of db b)"
    using s settled_doms [OF assms] p'(3) [OF a(1)] by (simp add: settled_back_def old_domain_def)
  moreover have "\<not> bitmap_changed (den_of db0 b)" using c b by (simp add: committed_def)
  moreover obtain f where "den_of db b = (den_of db0 b)\<lparr>bitmap_changed := f\<rparr>"
    using p'(7) [OF b] by (auto simp: point_ok_def den_of_def)
  ultimately show "den_of db b = den_of db0 b" by simp
qed (use pendingD(6,9,10) [OF p] in \<open>simp_all add: den_nodes_def\<close>)

lemma rollback_eval:
  assumes "zone_ok path Z" "committed path Z db0" "edited path Z db0 db"
    "\<forall>a \<in> doms Z db. \<forall>r \<in> set (rrsets (dom_of db a)). length (rrs r) < 2 ^ 16"
  shows "\<exists>db'. namedb_rollback Z db False = Ok db' \<and> restored Z db0 db'"
proof -
  have p: "pending path Z db0 db" by (rule edited_pending [OF assms(3,1,2)])
  have "\<forall>a \<in> set (dom_nodes Z db). counts_ok (rrsets (dom_of db a))" using assms(4) by (simp add: counts_ok_def)
  then show ?thesis
    using rw.walk_all [of path Z db0 db] assms(1,2) p settled_restored [OF assms(2)] unfolding namedb_rollback_def by blast
qed

section \<open>Properties\<close>


subsection \<open>Witnesses\<close>

text \<open>A zone of one name, with its denial point, and the record that is added, two labels below.\<close>

definition sample_soa :: "nat list \<Rightarrow> nat \<Rightarrow> nat list ldns_rr" where
  "sample_soa n k = \<lparr>rr_owner = n, rr_get_type = LDNS_RR_TYPE_SOA, rr_ttl = 3600, rr_class = 1, rr_rdfs = [[2], [2], [k], [2], [2], [2], [2]]\<rparr>"

definition live_dom :: "nat list domain_struct" where
  "live_dom = \<lparr>dname = [1], denial = Some 3, parent = None,
     rrsets = [\<lparr>rrtype = LDNS_RR_TYPE_SOA,
       rrs = [\<lparr>the_rr = sample_soa [1] 7, rr_exists = True, is_added = False, is_removed = False\<rparr>], rrsigs = [], needs_signing = True\<rparr>],
     is_new = False, is_apex = True\<rparr>"

definition live_point :: "nat list denial_struct" where
  "live_point = \<lparr>d_dname = [1], d_domain = Some 2,
    d_rrset = Some \<lparr>rrtype = LDNS_RR_TYPE_NSEC,
      rrs = [\<lparr>the_rr = \<lparr>rr_owner = [1], rr_get_type = LDNS_RR_TYPE_NSEC, rr_ttl = 3600, rr_class = 1, rr_rdfs = [[1], [6, 46, 47]]\<rparr>,
        rr_exists = True, is_added = False, is_removed = False\<rparr>],
      rrsigs = [], needs_signing = False\<rparr>,
    bitmap_changed = False, nxt_changed = False\<rparr>"

definition live_db :: "(nat list, (nat list \<times> nat) tree) namedb" where
  "live_db = (namedb_create sample_zone)
    \<lparr>domains := Node Leaf ([1], 2) Leaf, dom_at := [2 \<mapsto> live_dom], denials := Node Leaf ([1], 3) Leaf, den_at := [3 \<mapsto> live_point], fresh := 4\<rparr>"

lemma live_nodes:
  "rb_nodes (z_rb sample_zone) (domains live_db) = [([1], 2)]" "dom_nodes sample_zone live_db = [2]" "dom_of live_db 2 = live_dom"
  "rb_nodes (z_rb sample_zone) (denials live_db) = [([1], 3)]" "den_nodes sample_zone live_db = [3]" "den_of live_db 3 = live_point"
  by (simp_all add: live_db_def sample_zone_def dom_nodes_def den_nodes_def namedb_create_def bst_def dom_of_def den_of_def)

lemma live_committed: "committed (\<lambda>n. n) sample_zone live_db"
proof -
  have "tree_ok (\<lambda>n. n) (rb_nodes (z_rb sample_zone) (domains live_db)) (dom_at live_db) dname"
    unfolding live_nodes by (simp add: tree_ok_def names_sorted_def live_db_def live_dom_def namedb_create_def)
  moreover have "place_ok (\<lambda>n. n) sample_zone live_db 2"
    by (simp add: live_nodes place_ok_def nm_def live_dom_def) (simp add: sample_zone_def)
  ultimately have "domains_ok (\<lambda>n. n) sample_zone live_db" by (simp add: domains_ok_def live_nodes(2))
  moreover have "tree_ok (\<lambda>n. n) (rb_nodes (z_rb sample_zone) (denials live_db)) (den_at live_db) d_dname"
    unfolding live_nodes by (simp add: tree_ok_def names_sorted_def live_db_def live_point_def namedb_create_def)
  moreover have "links_ok sample_zone live_db"
    by (simp add: links_ok_def live_nodes live_dom_def live_point_def owner_of_def)
      (simp add: sample_zone_def sample_signconf_def signconf_create_def)
  moreover have "current sample_zone live_db 3 3"
    by (simp add: current_def live_nodes live_point_def expected_nsec_def create_nxt_def listed_types_def live_dom_def
        nsec_rrtype_def param_rdfs_def domain_is_delegpt_eq has_type_def)
      (simp add: nsec_rrtype_def param_rdfs_def sample_zone_def sample_signconf_def signconf_create_def sample_ldns_def)
  then have "tracked sample_zone live_db" by (simp add: tracked_def live_nodes cyc_def)
  moreover have "ixfr_ok (is_initialized live_db) (ixfr live_db)" by (simp add: ixfr_ok_def live_db_def namedb_create_def ixfr_create_def)
  moreover have "fresh live_db = 4" by (simp add: live_db_def)
  moreover have "den_rrset_ok sample_zone live_point"
    by (simp add: den_rrset_ok_def live_point_def nsec_rrtype_def sample_zone_def sample_signconf_def signconf_create_def)
  moreover have "rrsets_ok (rrsets live_dom)" by (simp add: live_dom_def rrsets_ok_def)
  ultimately have "db_ok (\<lambda>n. n) sample_zone live_db" by (simp add: db_ok_def live_nodes)
  then show ?thesis
    by (simp add: committed_def live_nodes) (simp add: live_dom_def clean_def clean_rr_def live_point_def empt_def live_nodes)
qed


definition grown_db :: "(nat list, (nat list \<times> nat) tree) namedb" where
  "grown_db = live_db
    \<lparr>domains := Node Leaf ([1], 2) (Node (Node Leaf ([1, 5], 5) Leaf) ([1, 5, 6], 4) Leaf),
     dom_at := [2 \<mapsto> live_dom, 4 \<mapsto> (domain_create [1, 5, 6])\<lparr>is_new := True, parent := Some 5\<rparr>,
       5 \<mapsto> (domain_create [1, 5])\<lparr>is_new := True, parent := Some 2\<rparr>],
     fresh := 6\<rparr>"

lemma sample_ops:
  "z_apex sample_zone = [1]" "rb_insert (z_rb sample_zone) = rb_insert bst" "rb_search (z_rb sample_zone) = rb_search bst"
  "dname_compare (z_ldns sample_zone) = lex_cmp" "dname_left_chop (z_ldns sample_zone) = (\<lambda>a. Some (butlast a))"
  "dname_is_subdomain (z_ldns sample_zone) = (\<lambda>a b. prefix b a \<and> a \<noteq> b)"
  by (simp_all add: sample_zone_def sample_ldns_def)

definition sprouted_db :: "(nat list, (nat list \<times> nat) tree) namedb" where
  "sprouted_db = live_db
    \<lparr>domains := Node Leaf ([1], 2) (Node Leaf ([1, 5, 6], 4) Leaf),
     dom_at := [2 \<mapsto> live_dom, 4 \<mapsto> (domain_create [1, 5, 6])\<lparr>is_new := True\<rparr>], fresh := 5\<rparr>"

lemmas sample_dbs = live_db_def sprouted_db_def grown_db_def namedb_create_def

lemma live_insert: "namedb_add_domain sample_zone live_db [1, 5, 6] = (Some 4, sprouted_db)"
  "namedb_lookup_domain sample_zone live_db [1, 5, 6] = None"
  by (simp_all add: namedb_add_domain_def namedb_lookup_domain_def sample_ops sample_dbs bst_def set_dom_def)

lemma live_entize: "entize_loop sample_zone [1] (Suc (Suc n)) sprouted_db 4 = Ok (ODS_STATUS_OK, grown_db)"
  by (simp add: namedb_lookup_domain_def namedb_add_domain_def sample_ops sample_dbs bst_def get_def set_dom_def domain_create_def
     fun_upd_twist)

lemma live_domain: "rr_domain sample_zone live_db [1, 5, 6] = Ok (Some 4, grown_db)"
proof -
  have "get (dom_at sprouted_db) 4 = Ok ((domain_create [1, 5, 6])\<lparr>is_new := True\<rparr>)" by (simp add: get_def sprouted_db_def)
  then show ?thesis using live_entize [of 126] live_insert
    by (simp add: rr_domain_def namedb_domain_entize_def sample_ops domain_create_def)
qed

definition new_rrset :: "nat list rrset_struct" where
  "new_rrset = \<lparr>rrtype = LDNS_RR_TYPE_A,
     rrs = [\<lparr>the_rr = sample_rr [1, 5, 6] LDNS_RR_TYPE_A 9, rr_exists = False, is_added = True, is_removed = False\<rparr>],
     rrsigs = [], needs_signing = True\<rparr>"

lemma live_edit:
  "zone_add_rr sample_zone live_db None (sample_rr [1, 5, 6] LDNS_RR_TYPE_A 9) ds =
     Ok (ODS_STATUS_OK, set_dom grown_db 4 ((dom_of grown_db 4)\<lparr>rrsets := [new_rrset]\<rparr>), None)"
proof -
  have "get (dom_at grown_db) 4 = Ok (dom_of grown_db 4)" "rrsets (dom_of grown_db 4) = []" "denial (dom_of grown_db 4) = None"
    by (simp_all add: get_def grown_db_def dom_of_def domain_create_def)
  then show ?thesis using live_domain
    by (simp add: zone_add_rr_def sample_rr_def rr_rrset_def domain_lookup_rrset_def rrset_create_def domain_add_rrset_def
      append_rrset_def mark_bitmap_def get_def rrset_lookup_rr_def)
      (simp add: rrset_add_rr_def set_rrset_def count_sort_def set_dom_def new_rrset_def sample_rr_def)
qed


text \<open>A record of the zone that is added again with another TTL.\<close>

definition soa_again :: "nat list rrset_struct" where
  "soa_again = \<lparr>rrtype = LDNS_RR_TYPE_SOA,
     rrs = [\<lparr>the_rr = (sample_soa [1] 7)\<lparr>rr_ttl := 60\<rparr>, rr_exists = True, is_added = True, is_removed = False\<rparr>],
     rrsigs = [], needs_signing = True\<rparr>"

lemma live_again:
  "zone_add_rr sample_zone live_db None ((sample_soa [1] 7)\<lparr>rr_ttl := 60\<rparr>) False =
     Ok (ODS_STATUS_UNCHANGED, set_dom live_db 2 (live_dom\<lparr>rrsets := [soa_again]\<rparr>), None)"
proof -
  let ?r = "rrsets live_dom ! 0" and ?rr = "(sample_soa [1] 7)\<lparr>rr_ttl := 60\<rparr>"
  have "namedb_lookup_domain sample_zone live_db [1] = Some 2"
    by (simp add: namedb_lookup_domain_def sample_ops live_db_def bst_def)
  moreover have "get (dom_at live_db) 2 = Ok live_dom" by (simp add: get_def live_db_def)
  moreover have "domain_lookup_rrset live_dom LDNS_RR_TYPE_SOA = Some 0"
    by (simp add: live_dom_def domain_lookup_rrset_def)
  moreover have "rrset_lookup_rr (z_ldns sample_zone) ?r ?rr = Some 0"
    by (simp add: live_dom_def rrset_lookup_rr_def sample_soa_def util_dnssec_rrs_compare_def sample_zone_def)
     (simp add: sample_ldns_def)
  ultimately show ?thesis
    by (simp add: zone_add_rr_def rr_domain_def rr_rrset_def sample_soa_def)
      (simp add: live_dom_def mark_added_def set_rrset_def soa_again_def sample_soa_def)
qed

definition soa_back :: "nat list rrset_struct" where
  "soa_back = soa_again\<lparr>rrs := map clear_rr (rrs soa_again)\<rparr>"

lemma live_rollback:
  "namedb_rollback sample_zone (set_dom live_db 2 (live_dom\<lparr>rrsets := [soa_again]\<rparr>)) False =
     Ok (set_dom live_db 2 (live_dom\<lparr>rrsets := [soa_back]\<rparr>))"
proof -
  let ?db = "\<lambda>r. set_dom live_db 2 (live_dom\<lparr>rrsets := [r]\<rparr>)"
  have n: "dom_nodes sample_zone (?db r) = [2]" for r
    by (simp add: dom_nodes_def set_dom_def live_db_def sample_zone_def bst_def)
  have g: "get (dom_at (?db r)) 2 = Ok (live_dom\<lparr>rrsets := [r]\<rparr>)" for r by (simp add: get_def set_dom_def)
  have "rollback_rrs (length (rrs soa_again) + 1) 0 soa_again False = Ok (soa_back, False)"
    by (subst rollback_rrs_eval) (simp_all add: soa_again_def soa_back_def rolled_def gone_set_def clear_rr_def)
  then have "rollback_rrsets False [soa_again] = Ok ([soa_back], False)" by (simp del: rollback_rrs.simps)
  then have "domain_rollback (?db soa_again) 2 False = Ok (?db soa_back)"
    by (simp add: domain_rollback_def g Let_def)
  moreover have "namedb_del_denial_trigger sample_zone (?db soa_back) 2 True = Ok (False, ?db soa_back)"
    using g [of soa_back] by (simp add: namedb_del_denial_trigger_def n domain_can_be_deleted_def domain_is_empty_terminal_def)
      (simp add: live_dom_def)
  ultimately show ?thesis by (simp add: namedb_rollback_def n first_node_def)
qed

text \<open>
  A TTL is not taken back.  Adding a record that is in the zone already, with another TTL,
  changes the TTL of the record that is there at once; \<^verbatim>\<open>namedb_rollback\<close> clears the marks of the
  record and leaves the new TTL in the zone.
\<close>

theorem rollback_keeps_new_ttl:
  "\<exists>db st db'. committed (\<lambda>n. n) sample_zone live_db \<and> map (rr_ttl \<circ> the_rr) (rrs (rrsets (dom_of live_db 2) ! 0)) = [3600] \<and>
    zone_add_rr sample_zone live_db None ((sample_soa [1] 7)\<lparr>rr_ttl := 60\<rparr>) False = Ok (ODS_STATUS_UNCHANGED, db, st) \<and>
    namedb_rollback sample_zone db False = Ok db' \<and> map (rr_ttl \<circ> the_rr) (rrs (rrsets (dom_of db' 2) ! 0)) = [60]"
proof -
  have "map (rr_ttl \<circ> the_rr) (rrs (rrsets (dom_of live_db 2) ! 0)) = [3600]"
    by (simp add: live_nodes live_dom_def sample_soa_def)
  moreover have "map (rr_ttl \<circ> the_rr) (rrs (rrsets (dom_of (set_dom live_db 2 (live_dom\<lparr>rrsets := [soa_back]\<rparr>)) 2) ! 0)) = [60]"
    by (simp add: dom_of_def set_dom_def soa_back_def soa_again_def clear_rr_def)
  ultimately show ?thesis using live_committed live_again live_rollback by (intro exI conjI)
qed

end
