(* ===== verification/Adapi.thy ===== *)
theory Adapi
  imports Rolled
begin

text \<open>
  What an input adapter does with the records it reads, \<^verbatim>\<open>signer/src/adapter/adapi.c\<close>, reading a zone
  file (\<^verbatim>\<open>adfile.c\<close>) from the records on, and \<^verbatim>\<open>zone_update_serial\<close> of \<^verbatim>\<open>signer/src/signer/zone.c\<close>.  The
  clock and the date are arguments.
\<close>

section \<open>Records\<close>

abbreviation "LDNS_RR_CLASS_IN \<equiv> (1 :: u16)"
abbreviation "SE_SOA_RDATA_SERIAL \<equiv> (2 :: nat)"
abbreviation "SE_SOA_RDATA_MINIMUM \<equiv> (6 :: nat)"

definition util_is_dnssec_rr :: "'f ldns_rr option \<Rightarrow> bool" where
  "util_is_dnssec_rr rr =
    (case rr of None \<Rightarrow> False
     | Some rr \<Rightarrow> rr_get_type rr \<in> {LDNS_RR_TYPE_RRSIG, LDNS_RR_TYPE_NSEC, LDNS_RR_TYPE_NSEC3, LDNS_RR_TYPE_NSEC3PARAMS})"

text \<open>\<^verbatim>\<open>ldns_rr_set_rdf\<close> returns null and changes nothing when the record has no such field.\<close>

definition rr_set_rdf :: "'f ldns_rr \<Rightarrow> 'f \<Rightarrow> nat \<Rightarrow> 'f ldns_rr option" where
  "rr_set_rdf rr f i = (if i < length (rr_rdfs rr) then Some (rr\<lparr>rr_rdfs := (rr_rdfs rr)[i := f]\<rparr>) else None)"

text \<open>
  A duration as the 32-bit number of its seconds, with 31 days to a month and 365 to a year.
\<close>

definition dur32 :: "duration option \<Rightarrow> u32" where
  "dur32 d = word_of_int (duration2time d)"

section \<open>Processing a record\<close>

definition soa_ttl_min :: "('f, 'k, 't) zone \<Rightarrow> 'f ldns_rr \<Rightarrow> 'f ldns_rr option" where
  "soa_ttl_min Z rr =
    (let rr = (case soa_ttl (z_signconf Z) of None \<Rightarrow> rr | Some d \<Rightarrow> rr\<lparr>rr_ttl := dur32 (Some d)\<rparr>)
     in case soa_min (z_signconf Z) of None \<Rightarrow> Some rr
        | Some d \<Rightarrow> rr_set_rdf rr (native2rdf_int32 (z_ldns Z) (dur32 (Some d))) SE_SOA_RDATA_MINIMUM)"

text \<open>The status and, if it is \<open>ODS_STATUS_OK\<close>, the record.  The serial field has to be there.\<close>

definition adapi_process_soa ::
  "time_t \<Rightarrow> u32 \<Rightarrow> ('f, 'k, 't) zone \<Rightarrow> ('f, 't) namedb \<Rightarrow> 'f ldns_rr \<Rightarrow> bool \<Rightarrow> bool \<Rightarrow>
    (ods_status \<times> 'f ldns_rr \<times> ('f, 't) namedb) exec" where
  "adapi_process_soa now today Z db rr add backup =
    (case soa_ttl_min Z rr of None \<Rightarrow> Ok (ODS_STATUS_ASSERT_ERR, rr, db)
     | Some rr \<Rightarrow>
         if \<not> add then Ok (ODS_STATUS_OK, rr, db)
         else if \<not> SE_SOA_RDATA_SERIAL < length (rr_rdfs rr) then Fault
         else
           case namedb_update_serial now today (Some db) (soa_serial (z_signconf Z))
                  (rdf2native_int32 (z_ldns Z) (rr_rdfs rr ! SE_SOA_RDATA_SERIAL)) of
             (status, None) \<Rightarrow> Fault
           | (status, Some db) \<Rightarrow>
               if status \<noteq> ODS_STATUS_OK then Ok (status, rr, db)
               else
                 (case rr_set_rdf rr (native2rdf_int32 (z_ldns Z) (intserial db)) SE_SOA_RDATA_SERIAL of
                    None \<Rightarrow> Ok (ODS_STATUS_ERR, rr, db)
                  | Some rr \<Rightarrow> Ok (ODS_STATUS_OK, rr, if backup then db else db\<lparr>serial_updated := True\<rparr>)))"

definition adapi_process_dnskey :: "('f, 'k, 't) zone \<Rightarrow> 'f ldns_rr \<Rightarrow> 'f ldns_rr" where
  "adapi_process_dnskey Z rr = rr\<lparr>rr_ttl := dur32 (dnskey_ttl (z_signconf Z))\<rparr>"

definition adapi_process_rr ::
  "time_t \<Rightarrow> u32 \<Rightarrow> ('f, 'k, 't) zone \<Rightarrow> ('f, 't) namedb \<Rightarrow> stats option \<Rightarrow> 'f ldns_rr \<Rightarrow> bool \<Rightarrow> bool \<Rightarrow>
    (ods_status \<times> ('f, 't) namedb \<times> stats option) exec" where
  "adapi_process_rr now today Z db st rr add backup =
    (let rr = (if rr_class rr \<noteq> LDNS_RR_CLASS_IN then rr\<lparr>rr_class := LDNS_RR_CLASS_IN\<rparr> else rr);
         act = (\<lambda>rr db. if add then zone_add_rr Z db st rr True else zone_del_rr Z db st rr True)
     in
     if rr_get_type rr = LDNS_RR_TYPE_SOA then
       if dname_compare (z_ldns Z) (rr_owner rr) (z_apex Z) \<noteq> 0 then Ok (ODS_STATUS_ERR, db, st)
       else exec_bind (adapi_process_soa now today Z db rr add backup) (\<lambda>(status, rr, db).
         if status \<noteq> ODS_STATUS_OK then Ok (status, db, st) else act rr db)
     else if dname_compare (z_ldns Z) (rr_owner rr) (z_apex Z) \<noteq> 0 \<and>
         \<not> dname_is_subdomain (z_ldns Z) (rr_owner rr) (z_apex Z) then Ok (ODS_STATUS_UNCHANGED, db, st)
     else if rr_get_type rr = LDNS_RR_TYPE_DNSKEY then act (adapi_process_dnskey Z rr) db
     else if util_is_dnssec_rr (Some rr) \<and> \<not> backup then Ok (ODS_STATUS_UNCHANGED, db, st)
     else act rr db)"

definition adapi_add_rr where "adapi_add_rr now today Z db st rr backup = adapi_process_rr now today Z db st rr True backup"

definition adapi_del_rr where "adapi_del_rr now today Z db st rr backup = adapi_process_rr now today Z db st rr False backup"

section \<open>Transactions\<close>

text \<open>\<open>start\<close> and \<open>fin\<close> are the times read from the clock before and after the chain is made.\<close>

definition nsec_stats :: "time_t \<Rightarrow> time_t \<Rightarrow> u32 \<Rightarrow> stats \<Rightarrow> stats" where
  "nsec_stats start fin n s =
    (let s = s\<lparr>nsec_time := 0, nsec_count := 0\<rparr>;
         s = (if start_time s = 0 then s\<lparr>start_time := start\<rparr> else s)
     in s\<lparr>nsec_time := fin - start, nsec_count := n\<rparr>)"

definition adapi_trans ::
  "time_t \<Rightarrow> time_t \<Rightarrow> ('f, 'k, 't) zone \<Rightarrow> ('f, 't) namedb \<Rightarrow> stats option \<Rightarrow> bool \<Rightarrow> bool \<Rightarrow> (('f, 't) namedb \<times> stats option) exec" where
  "adapi_trans start fin Z db st is_ixfr more_coming =
    exec_bind (namedb_diff Z db is_ixfr more_coming) (\<lambda>db.
    exec_bind (namedb_nsecify Z db) (\<lambda>(db, n). Ok (db, map_option (nsec_stats start fin n) st)))"

definition adapi_trans_full where "adapi_trans_full start fin Z db st more_coming = adapi_trans start fin Z db st False more_coming"

definition adapi_trans_diff where "adapi_trans_diff start fin Z db st more_coming = adapi_trans start fin Z db st True more_coming"

section \<open>Reading a zone file\<close>

text \<open>
  The loop of \<^verbatim>\<open>adfile_read_file\<close>: \<open>rs\<close> are the records that \<^verbatim>\<open>adfile_read_rr\<close> returns one after the
  other, without those of included files, and \<open>good\<close> says whether the file ends without a syntax error.
\<close>

fun read_rrs ::
  "time_t \<Rightarrow> u32 \<Rightarrow> ('f, 'k, 't) zone \<Rightarrow> 'f ldns_rr list \<Rightarrow> u32 \<Rightarrow> ('f, 't) namedb \<Rightarrow> stats option \<Rightarrow>
    (ods_status \<times> u32 \<times> ('f, 't) namedb \<times> stats option) exec" where
  "read_rrs now today Z [] new_serial db st = Ok (ODS_STATUS_OK, new_serial, db, st)"
| "read_rrs now today Z (rr # rs) new_serial db st =
    (if rr_get_type rr = LDNS_RR_TYPE_SOA \<and> \<not> SE_SOA_RDATA_SERIAL < length (rr_rdfs rr) then Fault
     else
       let new_serial = (if rr_get_type rr = LDNS_RR_TYPE_SOA
             then rdf2native_int32 (z_ldns Z) (rr_rdfs rr ! SE_SOA_RDATA_SERIAL) else new_serial)
       in exec_bind (adapi_add_rr now today Z db st rr False) (\<lambda>(status, db, st).
         if status = ODS_STATUS_UNCHANGED \<or> status = ODS_STATUS_OK then read_rrs now today Z rs new_serial db st
         else Ok (status, new_serial, db, st)))"

definition adfile_read_file ::
  "time_t \<Rightarrow> u32 \<Rightarrow> ('f, 'k, 't) zone \<Rightarrow> 'f ldns_rr list \<Rightarrow> bool \<Rightarrow> ('f, 't) namedb \<Rightarrow> stats option \<Rightarrow>
    (ods_status \<times> ('f, 't) namedb \<times> stats option) exec" where
  "adfile_read_file now today Z rs good db st =
    exec_bind (read_rrs now today Z rs 0 db st) (\<lambda>(status, new_serial, db, st).
    let status = (if status = ODS_STATUS_OK \<and> \<not> good then ODS_STATUS_ERR else status)
    in if status = ODS_STATUS_OK then
         exec_bind (namedb_examine Z db) (\<lambda>status.
         if status \<noteq> ODS_STATUS_OK then Ok (status, db, st) else Ok (status, db\<lparr>inbserial := new_serial\<rparr>, st))
       else Ok (status, db, st))"

definition adfile_read ::
  "time_t \<Rightarrow> u32 \<Rightarrow> time_t \<Rightarrow> time_t \<Rightarrow> ('f, 'k, 't) zone \<Rightarrow> 'f ldns_rr list \<Rightarrow> bool \<Rightarrow> ('f, 't) namedb \<Rightarrow> stats option \<Rightarrow>
    (ods_status \<times> ('f, 't) namedb \<times> stats option) exec" where
  "adfile_read now today start fin Z rs good db st =
    exec_bind (adfile_read_file now today Z rs good db st) (\<lambda>(status, db, st).
    if status = ODS_STATUS_OK
    then exec_bind (adapi_trans_full start fin Z db st False) (\<lambda>(db, st). Ok (status, db, st))
    else Ok (status, db, st))"

section \<open>Updating the serial\<close>

text \<open>\<open>Abort\<close>: there is no SOA RRset.  An RRset of a domain has a record.\<close>

definition zone_update_serial ::
  "time_t \<Rightarrow> u32 \<Rightarrow> ('f, 'k, 't) zone \<Rightarrow> ('f, 't) namedb \<Rightarrow> (ods_status \<times> ('f, 't) namedb) exec" where
  "zone_update_serial now today Z db =
    (if serial_updated db then Ok (ODS_STATUS_OK, db\<lparr>serial_updated := False\<rparr>)
     else
       exec_bind (zone_lookup_rrset Z db (z_apex Z) LDNS_RR_TYPE_SOA) (\<lambda>x.
       case x of None \<Rightarrow> Abort
       | Some (a, i) \<Rightarrow>
           exec_bind (get (dom_at db) a) (\<lambda>d.
           case rrs (rrsets d ! i) of [] \<Rightarrow> Abort
           | x # _ \<Rightarrow>
               (case namedb_update_serial now today (Some db) (soa_serial (z_signconf Z)) (inbserial db) of
                  (status, None) \<Rightarrow> Fault
                | (status, Some db) \<Rightarrow>
                    if status \<noteq> ODS_STATUS_OK then Ok (status, db)
                    else
                      (case rr_set_rdf (the_rr x) (native2rdf_int32 (z_ldns Z) (intserial db)) SE_SOA_RDATA_SERIAL of
                         None \<Rightarrow> Ok (ODS_STATUS_ERR, db)
                       | Some rr \<Rightarrow>
                           exec_bind (rrset_add_rr (rrsets d ! i) rr) (\<lambda>r.
                           exec_bind (rrset_diff (is_initialized db) r (ixfr db) False False) (\<lambda>(r, j).
                           Ok (ODS_STATUS_OK, set_dom (db\<lparr>ixfr := j, serial_updated := False\<rparr>) a (set_rrset d i r)))))))))"

end
