(* ===== verification/Edits.thy ===== *)
theory Edits
  imports Rolled
begin

text \<open>
  A database with pending changes keeps its invariant: a denial point whose record no longer has the
  right types is marked.
\<close>

section \<open>Marks\<close>

definition types_of :: "('f, 't) namedb \<Rightarrow> nat \<Rightarrow> u16 list" where
  "types_of db a = map rrtype (rrsets (dom_of db a))"

definition marked :: "('f, 'k, 't) zone \<Rightarrow> ('f, 't) namedb \<Rightarrow> ('f, 't) namedb \<Rightarrow> bool" where
  "marked Z db0 db \<longleftrightarrow>
     (\<forall>a \<in> doms Z db0. \<forall>b. denial (dom_of db a) = Some b \<longrightarrow> bitmap_changed (den_of db b) \<or> types_of db a = types_of db0 a)"

lemma marked_same:
  assumes "marked Z db0 db" "\<And>a. a \<in> doms Z db0 \<Longrightarrow> denial (dom_of db' a) = denial (dom_of db a)"
    "\<And>a. a \<in> doms Z db0 \<Longrightarrow> types_of db' a = types_of db a \<or> (\<forall>b. denial (dom_of db a) = Some b \<longrightarrow> bitmap_changed (den_of db' b))"
    "\<And>b. bitmap_changed (den_of db b) \<Longrightarrow> bitmap_changed (den_of db' b)"
  shows "marked Z db0 db'"
  using assms unfolding marked_def by metis

lemma set_rrset_types: "rrtype r = rrtype (rrsets d ! i) \<Longrightarrow> map rrtype (rrsets (set_rrset d i r)) = map rrtype (rrsets d)"
  by (cases "i < length (rrsets d)") (simp_all add: set_rrset_def map_update list_update_same_conv list_update_beyond)

lemma set_rrset_marked:
  assumes "marked Z db0 db" "dom_at db a = Some d" "rrtype r = rrtype (rrsets d ! i)"
  shows "marked Z db0 (set_dom db a (set_rrset d i r))"
proof (rule marked_same [OF assms(1)])
  have "dom_of db a = d" using assms(2) by (simp add: dom_of_def)
  then show "denial (dom_of (set_dom db a (set_rrset d i r)) c) = denial (dom_of db c)"
    "types_of (set_dom db a (set_rrset d i r)) c = types_of db c \<or> (\<forall>b. denial (dom_of db c) = Some b \<longrightarrow>
       bitmap_changed (den_of (set_dom db a (set_rrset d i r)) b))" for c
    using set_rrset_types [OF assms(3)] by (auto simp: types_of_def dom_of_def set_dom_def set_rrset_def)
qed (simp add: den_of_def set_dom_def)

lemma add_rrset_marked:
  assumes "marked Z db0 db" "dom_at db a = Some d" "domain_add_rrset db a r = Ok db'"
  shows "marked Z db0 db'" "dom_at db' a = Some (append_rrset d r)"
proof -
  have m: "mark_bitmap (set_dom db a (append_rrset d r)) (denial d) = Ok db'" and d: "dom_of db a = d"
    using assms(2,3) by (simp_all add: domain_add_rrset_def get_def dom_of_def)
  then have h: "dom_at db' = (dom_at db)(a \<mapsto> append_rrset d r)"
    by (auto simp: mark_bitmap_def get_def set_dom_def set_den_def split: option.splits)
  then show "dom_at db' a = Some (append_rrset d r)" by simp
  have "bitmap_changed (den_of db' b) \<longleftrightarrow> denial d = Some b \<or> bitmap_changed (den_of db b)" for b
    using m by (auto simp: mark_bitmap_def get_def set_dom_def set_den_def den_of_def split: option.splits if_splits)
  then show "marked Z db0 db'"
    by (intro marked_same [OF assms(1)]) (auto simp: types_of_def dom_of_def h append_rrset_def d [symmetric])
qed

section \<open>Edits keep the marks\<close>

lemma zone_add_rr_marked:
  assumes z: "zone_ok path Z" and p: "pending path Z db0 db" and m: "marked Z db0 db"
    and top: "q \<in> doms Z db0" "is_apex (dom_of db0 q)" and n: "in_zone path Z (rr_owner rr)"
    and e: "zone_add_rr Z db st rr ds = Ok (status, db', st')"
  shows "marked Z db0 db'"
proof -
  note p' = pendingD [OF p]
  have q: "q \<in> doms Z db" "is_apex (dom_of db q)" using p'(2) p'(3) [OF top(1)] top by (auto simp: old_domain_def)
  have f: "\<forall>a \<in> doms Z db. a < fresh db" using p'(5) by blast
  obtain a db1 where d: "rr_domain Z db (rr_owner rr) = Ok (Some a, db1)" "a \<in> doms Z db1" "domains_ok path Z db1" "grown Z db db1"
    using rr_domain_eval [OF z p'(1) f q n] by metis
  have m1: "marked Z db0 db1"
    by (rule marked_same [OF m]) (use grownD(2,7) [OF d(4)] p'(2) in \<open>auto simp: types_of_def den_of_def subset_iff\<close>)
  obtain i db2 where r: "rr_rrset db1 a (rr_get_type rr) = Ok (i, db2)" using e d(1) by (auto simp: zone_add_rr_def exec_simps)
  have at: "dom_at db1 a = Some (dom_of db1 a)" by (rule dom_at_of [OF d(3,2)])
  have m2: "marked Z db0 db2" "\<exists>d2. dom_at db2 a = Some d2"
    using r at m1 add_rrset_marked [OF m1 at] by (auto simp: rr_rrset_def get_def exec_simps split: option.splits)
  obtain d2 where d2: "dom_at db2 a = Some d2" using m2(2) by blast
  have ty: "rrtype (mark_added x j rr) = rrtype x" "rrset_add_rr x rr = Ok y \<Longrightarrow> rrtype y = rrtype x" for x j y
    by (auto simp: mark_added_def Let_def rrset_add_rr_def exec_simps)
  show ?thesis
  proof (cases i)
    case None
    then show ?thesis using e d(1) r m2(1) by (simp add: zone_add_rr_def)
  next
    case (Some k)
    then show ?thesis using e d(1) r d2 set_rrset_marked [OF m2(1) d2] ty
      by (cases "rrset_lookup_rr (z_ldns Z) (rrsets d2 ! k) rr") (auto simp: zone_add_rr_def get_def exec_simps)
  qed
qed

lemma zone_del_rr_marked:
  assumes "marked Z db0 db" "zone_del_rr Z db st rr ds = Ok (status, db', st')"
  shows "marked Z db0 db'"
  using assms set_rrset_marked [OF assms(1)]
  by (auto simp: zone_del_rr_def get_def Let_def exec_simps split: option.splits)

lemma edited_marked:
  assumes "edited path Z db0 db" and z: "zone_ok path Z" and c: "committed path Z db0"
  shows "marked Z db0 db"
  using assms(1)
proof (induction rule: edited.induct)
  case none
  show ?case by (simp add: marked_def)
next
  case (add db rr st ds status db' st')
  obtain q where "q \<in> doms Z db0" "is_apex (dom_of db0 q)" using c by (auto simp: committed_def)
  then show ?case using zone_add_rr_marked [OF z edited_pending [OF add.hyps(1) z c] add.IH _ _ add.hyps(2,4)] by blast
next
  case (del db st rr ds status db' st')
  then show ?case using zone_del_rr_marked by blast
next
  case (serial db k n u)
  then show ?case by (simp add: marked_def types_of_def)
qed

section \<open>The invariant\<close>

lemma pending_point:
  assumes "pending path Z db0 db" "b \<in> dens Z db0"
  shows "den_at db b = Some (den_of db b)" "d_dname (den_of db b) = d_dname (den_of db0 b)" "d_domain (den_of db b) = d_domain (den_of db0 b)"
    "d_rrset (den_of db b) = d_rrset (den_of db0 b)" "nxt_changed (den_of db b) = nxt_changed (den_of db0 b)"
  using pendingD(7) [OF assms] by (auto simp: point_ok_def den_of_def)

lemma pending_links:
  assumes p: "pending path Z db0 db" and l: "links_ok Z db0"
  shows "links_ok Z db"
proof -
  note p' = pendingD [OF p]
  have n: "den_nodes Z db = den_nodes Z db0" by (simp add: den_nodes_def p'(6))
  have g: "d_domain (den_of db b) = d_domain (den_of db0 b)" "d_dname (den_of db b) = d_dname (den_of db0 b)" if "b \<in> dens Z db0" for b
    using pending_point [OF p that] by simp_all
  have "\<exists>a \<in> doms Z db. d_domain (den_of db b) = Some a \<and> denial (dom_of db a) = Some b \<and>
      owner_of Z (dname (dom_of db a)) = Some (d_dname (den_of db b))" if b: "b \<in> dens Z db0" for b
  proof -
    obtain a where a: "a \<in> doms Z db0" "d_domain (den_of db0 b) = Some a" "denial (dom_of db0 a) = Some b"
      "owner_of Z (dname (dom_of db0 a)) = Some (d_dname (den_of db0 b))" using l b by (auto simp: links_ok_def)
    then show ?thesis using p'(2) p'(3) [OF a(1)] g [OF b] by (auto simp: old_domain_def)
  qed
  moreover have "b \<in> dens Z db0 \<and> d_domain (den_of db b) = Some a" if "a \<in> doms Z db" "denial (dom_of db a) = Some b" for a b
  proof -
    have a0: "a \<in> doms Z db0" using p'(4) [OF that(1)] that(2) by (auto simp: new_domain_def)
    then have "denial (dom_of db0 a) = Some b" using p'(3) that(2) by (simp add: old_domain_def)
    then show ?thesis using links_okD(2) [OF l a0] g by auto
  qed
  ultimately show ?thesis unfolding links_ok_def n by blast
qed

lemma edited_tracked:
  assumes c: "committed path Z db0" and p: "pending path Z db0 db" and m: "marked Z db0 db"
  shows "tracked Z db"
proof -
  note p' = pendingD [OF p]
  have ok: "db_ok path Z db0" using c by (simp add: committed_def)
  have n: "den_nodes Z db = den_nodes Z db0" by (simp add: den_nodes_def p'(6))
  have "nxt_changed (den_of db b) \<or> bitmap_changed (den_of db b) \<or> current Z db b e" if be: "(b, e) \<in> cyc (den_nodes Z db0)" for b e
  proof -
    have d: "b \<in> dens Z db0" "e \<in> dens Z db0" using cyc_subset [OF be] by simp_all
    note f = pending_point [OF p d(1)] pending_point [OF p d(2)]
    obtain a where a: "a \<in> doms Z db0" "d_domain (den_of db0 b) = Some a" "denial (dom_of db0 a) = Some b"
      using links_okD(1) [OF db_okD(4) [OF ok] d(1)] by blast
    have a': "denial (dom_of db a) = Some b" "is_apex (dom_of db a) = is_apex (dom_of db0 a)"
      using p'(3) [OF a(1)] a(3) by (simp_all add: old_domain_def)
    have "nxt_changed (den_of db0 b) \<or> current Z db0 b e" using db_okD(8) [OF ok] be c d(1) by (auto simp: tracked_def committed_def)
    moreover have "current Z db b e" if "current Z db0 b e" "\<not> bitmap_changed (den_of db b)"
    proof -
      have "types_of db a = types_of db0 a" using m a(1) a'(1) that(2) by (auto simp: marked_def)
      then show ?thesis using current_cong [of db b db0 e a Z] that(1) a(2) a'(2) f by (simp add: types_of_def)
    qed
    ultimately show ?thesis using f by auto
  qed
  then show ?thesis unfolding tracked_def n by blast
qed

lemma edited_db_ok:
  assumes z: "zone_ok path Z" and c: "committed path Z db0" and e: "edited path Z db0 db"
    and co: "\<forall>a \<in> doms Z db. \<forall>r \<in> set (rrsets (dom_of db a)). length (rrs r) < 2 ^ 16"
  shows "db_ok path Z db"
proof -
  have ok: "db_ok path Z db0" using c by (simp add: committed_def)
  have p: "pending path Z db0 db" by (rule edited_pending [OF e z c])
  note p' = pendingD [OF p]
  have n: "den_nodes Z db = den_nodes Z db0" by (simp add: den_nodes_def p'(6))
  have "tree_ok path (rb_nodes (z_rb Z) (denials db)) (den_at db) d_dname"
    unfolding p'(6)
  proof (rule tree_ok_cong [OF db_okD(3) [OF ok]])
    fix b assume "b \<in> snd ` set (rb_nodes (z_rb Z) (denials db0))"
    then have "b \<in> dens Z db0" by (simp add: dens_image)
    then show "map_option d_dname (den_at db b) = map_option d_dname (den_at db0 b)"
      using pending_point [OF p] den_get [OF db_okD(3) [OF ok]] by simp
  qed
  moreover have "den_rrset_ok Z (den_of db b)" if "b \<in> dens Z db0" for b
    using db_okD(5) [OF ok that] pending_point [OF p that] by (simp add: den_rrset_ok_def)
  moreover have "\<forall>a \<in> doms Z db \<union> dens Z db0. a < fresh db" using p'(5,8) db_okD(6) [OF ok] by fastforce
  moreover have "\<forall>a \<in> doms Z db. rrsets_ok (rrsets (dom_of db a))" using p'(5) co by (simp add: rrsets_ok_def)
  moreover have "ixfr_ok (is_initialized db) (ixfr db)" using db_okD(7) [OF ok] p'(9,10) by simp
  ultimately show ?thesis
    using p'(1) pending_links [OF p db_okD(4) [OF ok]] edited_tracked [OF c p edited_marked [OF e z c]]
    unfolding db_ok_def n by blast
qed

section \<open>The marks of the records\<close>

text \<open>A record is not marked both ways, and one that is not in the zone is marked.\<close>

definition marks_ok :: "'f rr_struct \<Rightarrow> bool" where
  "marks_ok x \<longleftrightarrow> \<not> (is_added x \<and> is_removed x) \<and> (rr_exists x \<or> is_added x \<or> is_removed x)"

definition all_rrs :: "('f rr_struct \<Rightarrow> bool) \<Rightarrow> 'f domain_struct \<Rightarrow> bool" where
  "all_rrs P d \<longleftrightarrow> (\<forall>r \<in> set (rrsets d). \<forall>x \<in> set (rrs r). P x)"

lemma all_rrs_set: "all_rrs P d \<Longrightarrow> \<forall>x \<in> set (rrs r). P x \<Longrightarrow> all_rrs P (set_rrset d i r)"
  using set_update_subset_insert [of "rrsets d" i r] by (fastforce simp: all_rrs_def set_rrset_def)

lemma mark_added_marks:
  assumes "\<forall>x \<in> set (rrs r). marks_ok x" "j < length (rrs r)"
  shows "\<forall>x \<in> set (rrs (mark_added r j rr)). marks_ok x"
  using assms(1) set_update_subset_insert [of "rrs r" j] by (fastforce simp: mark_added_def marks_ok_def Let_def split: if_splits)

lemma rrset_add_rr_marks: "rrset_add_rr r rr = Ok r' \<Longrightarrow> \<forall>x \<in> set (rrs r). marks_ok x \<Longrightarrow> \<forall>x \<in> set (rrs r'). marks_ok x"
  by (auto simp: rrset_add_rr_def exec_simps marks_ok_def)

lemma all_rrs_nth: "all_rrs P d \<Longrightarrow> i < length (rrsets d) \<Longrightarrow> \<forall>x \<in> set (rrs (rrsets d ! i)). P x"
  by (auto simp: all_rrs_def)


definition dom_good :: "'f domain_struct \<Rightarrow> bool" where
  "dom_good d \<longleftrightarrow> all_rrs marks_ok d \<and> distinct (map rrtype (rrsets d))"

lemma dom_good_set: "dom_good d \<Longrightarrow> \<forall>x \<in> set (rrs r). marks_ok x \<Longrightarrow> rrtype r = rrtype (rrsets d ! i) \<Longrightarrow> dom_good (set_rrset d i r)"
  using set_rrset_types [of r d i] all_rrs_set [of marks_ok d r i] by (simp add: dom_good_def)

definition all_marks :: "('f, 'k, 't) zone \<Rightarrow> ('f, 't) namedb \<Rightarrow> bool" where
  "all_marks Z db \<longleftrightarrow> (\<forall>a \<in> doms Z db. dom_good (dom_of db a))"

lemma all_marks_set: "all_marks Z db \<Longrightarrow> dom_good d \<Longrightarrow> all_marks Z (set_dom db a d)"
  by (simp add: all_marks_def dom_nodes_def dom_of_def set_dom_def)

lemma lookup_rrset_None: "domain_lookup_rrset d t = None \<Longrightarrow> t \<noteq> 0 \<Longrightarrow> t \<notin> rrtype ` set (rrsets d)"
  using domain_lookup_rrset_iff [of t d] by (auto simp: has_type_def)

lemma add_rrset_marks:
  assumes "all_marks Z db" "a \<in> doms Z db" "dom_at db a = Some d" "domain_add_rrset db a r = Ok db'" "rrs r = []" "domain_lookup_rrset d (rrtype r) = None" "rrtype r \<noteq> 0"
  shows "all_marks Z db'"
proof -
  have d: "dom_of db a = d" using assms(3) by (simp add: dom_of_def)
  have "mark_bitmap (set_dom db a (append_rrset d r)) (denial d) = Ok db'"
    using assms(3,4) by (simp add: domain_add_rrset_def get_def)
  then have "dom_at db' = (dom_at db)(a \<mapsto> append_rrset d r)" "domains db' = domains db"
    by (auto simp: mark_bitmap_def get_def set_dom_def set_den_def split: option.splits)
  moreover have "rrtype r \<notin> rrtype ` set (rrsets d)" using lookup_rrset_None [OF assms(6,7)] by blast
  then have "dom_good (append_rrset d r)" using assms(1,2,5) d by (auto simp: all_marks_def dom_good_def all_rrs_def append_rrset_def)
  ultimately show ?thesis using assms(1) by (simp add: all_marks_def dom_nodes_def dom_of_def)
qed

lemma zone_add_rr_marks:
  assumes z: "zone_ok path Z" and p: "pending path Z db0 db" and m: "all_marks Z db"
    and top: "q \<in> doms Z db0" "is_apex (dom_of db0 q)" and n: "in_zone path Z (rr_owner rr)"
    and e: "zone_add_rr Z db st rr ds = Ok (status, db', st')"
  shows "all_marks Z db'"
proof -
  note p' = pendingD [OF p]
  have q: "q \<in> doms Z db" "is_apex (dom_of db q)" using p'(2) p'(3) [OF top(1)] top by (auto simp: old_domain_def)
  have f: "\<forall>a \<in> doms Z db. a < fresh db" using p'(5) by blast
  obtain a db1 where d: "rr_domain Z db (rr_owner rr) = Ok (Some a, db1)" "a \<in> doms Z db1" "domains_ok path Z db1" "grown Z db db1"
    using rr_domain_eval [OF z p'(1) f q n] by metis
  have m1: "all_marks Z db1" unfolding all_marks_def
  proof
    fix c assume "c \<in> doms Z db1"
    then show "dom_good (dom_of db1 c)"
      using grownD(2,3) [OF d(4)] m by (cases "c \<in> doms Z db") (auto simp: all_marks_def blank_def dom_good_def all_rrs_def)
  qed
  obtain i db2 where r: "rr_rrset db1 a (rr_get_type rr) = Ok (i, db2)" using e d(1) by (auto simp: zone_add_rr_def exec_simps)
  have at: "dom_at db1 a = Some (dom_of db1 a)" by (rule dom_at_of [OF d(3,2)])
  note add = add_rrset_marks [OF m1 d(2) at]
  have m2: "all_marks Z db2 \<and> a \<in> doms Z db2 \<and> (\<exists>d2. dom_at db2 a = Some d2) \<and> (\<forall>k d2. i = Some k \<longrightarrow> dom_at db2 a = Some d2 \<longrightarrow> k < length (rrsets d2))"
  proof (cases "domain_lookup_rrset (dom_of db1 a) (rr_get_type rr)")
    case (Some k)
    then show ?thesis using r at m1 d(2) lookup_rrset_at(1) [OF Some] by (auto simp: rr_rrset_def get_def)
  next
    case None
    then consider "i = None" "db2 = db1" | x where "rrset_create (rr_get_type rr) = Some x" "domain_add_rrset db1 a x = Ok db2" "i = Some (length (rrsets (dom_of db1 a)))"
      using r at by (auto simp: rr_rrset_def get_def exec_simps split: option.splits)
    then show ?thesis
    proof cases
      case 1
      then show ?thesis using m1 d(2) at by simp
    next
      case (2 x)
      have x: "rrs x = []" "rrtype x = rr_get_type rr" "rr_get_type rr \<noteq> 0" using 2(1) by (auto simp: rrset_create_def split: if_splits)
      have "dom_at db2 a = Some (append_rrset (dom_of db1 a) x)" using 2(2) at
        by (auto simp: domain_add_rrset_def mark_bitmap_def get_def set_dom_def set_den_def exec_simps split: option.splits)
      moreover have "domains db2 = domains db1" using 2(2) at
        by (auto simp: domain_add_rrset_def mark_bitmap_def get_def set_dom_def set_den_def exec_simps split: option.splits)
      ultimately show ?thesis using add [OF 2(2)] x None d(2) 2(3) by (simp add: dom_nodes_def append_rrset_def)
    qed
  qed
  then obtain d2 where d2: "dom_at db2 a = Some d2" by blast
  have g2: "dom_good d2" using m2 d2 by (auto simp: all_marks_def dom_of_def)
  then have a2: "all_rrs marks_ok d2" by (simp add: dom_good_def)
  have ty: "rrtype (mark_added x j rr) = rrtype x" "rrset_add_rr x rr = Ok y \<Longrightarrow> rrtype y = rrtype x" for x j y
    by (auto simp: mark_added_def Let_def rrset_add_rr_def exec_simps)
  show ?thesis
  proof (cases i)
    case None
    then show ?thesis using e d(1) r m2 by (simp add: zone_add_rr_def)
  next
    case (Some k)
    then have k: "\<forall>x \<in> set (rrs (rrsets d2 ! k)). marks_ok x" using m2 d2 all_rrs_nth [OF a2] by blast
    show ?thesis
    proof (cases "rrset_lookup_rr (z_ldns Z) (rrsets d2 ! k) rr")
      case None
      then obtain x where "rrset_add_rr (rrsets d2 ! k) rr = Ok x" "db' = set_dom db2 a (set_rrset d2 k x)"
        using e d(1) r d2 Some by (auto simp: zone_add_rr_def get_def exec_simps)
      then show ?thesis using all_marks_set m2 dom_good_set [OF g2 rrset_add_rr_marks [OF _ k]] ty by metis
    next
      case j: (Some j)
      then have "j < length (rrs (rrsets d2 ! k))" by (simp add: rrset_lookup_rr_def lookup_rr_less)
      moreover have "db' = set_dom db2 a (set_rrset d2 k (mark_added (rrsets d2 ! k) j rr))"
        using e d(1) r d2 Some j by (simp add: zone_add_rr_def get_def)
      ultimately show ?thesis using all_marks_set m2 dom_good_set [OF g2 mark_added_marks [OF k]] ty by metis
    qed
  qed
qed

lemma zone_del_rr_marks:
  assumes p: "domains_ok path Z db" and z: "zone_ok path Z" and m: "all_marks Z db" and e: "zone_del_rr Z db st rr ds = Ok (status, db', st')"
  shows "all_marks Z db'"
proof (cases "db' = db")
  case False
  then obtain a d i j where a: "namedb_lookup_domain Z db (rr_owner rr) = Some a" "dom_at db a = Some d"
    "domain_lookup_rrset d (rr_get_type rr) = Some i" "rrset_lookup_rr (z_ldns Z) (rrsets d ! i) rr = Some j"
    "db' = set_dom db a (set_rrset d i ((rrsets d ! i)\<lparr>rrs := (rrs (rrsets d ! i))[j := (rrs (rrsets d ! i) ! j)\<lparr>is_removed := True, is_added := False\<rparr>]\<rparr>))"
    using e by (auto simp: zone_del_rr_def get_def Let_def exec_simps split: option.splits)
  have "a \<in> doms Z db"
    using a(1) lookup_absent [OF z, of db "rr_owner rr"] lookup_present [OF z, of db _ "rr_owner rr"] p by (auto simp: domains_ok_def)
  then have g: "dom_good d" using m a(2) by (auto simp: all_marks_def dom_of_def)
  then have d: "all_rrs marks_ok d" by (simp add: dom_good_def)
  have "\<forall>x \<in> set (rrs (rrsets d ! i)). marks_ok x" by (rule all_rrs_nth [OF d lookup_rrset_at(1) [OF a(3)]])
  then have "\<forall>x \<in> set ((rrs (rrsets d ! i))[j := (rrs (rrsets d ! i) ! j)\<lparr>is_removed := True, is_added := False\<rparr>]). marks_ok x"
    using set_update_subset_insert [of "rrs (rrsets d ! i)" j] by (fastforce simp: marks_ok_def)
  then show ?thesis unfolding a(5) by (intro all_marks_set [OF m] dom_good_set [OF g]) simp_all
qed (use m in simp)

lemma edited_marks:
  assumes "edited path Z db0 db" and z: "zone_ok path Z" and c: "committed path Z db0"
  shows "all_marks Z db"
  using assms(1)
proof (induction rule: edited.induct)
  case none
  show ?case using c by (auto simp: all_marks_def dom_good_def all_rrs_def committed_def clean_def clean_rr_def marks_ok_def)
next
  case (add db rr st ds status db' st')
  obtain q where "q \<in> doms Z db0" "is_apex (dom_of db0 q)" using c by (auto simp: committed_def)
  then show ?case using zone_add_rr_marks [OF z edited_pending [OF add.hyps(1) z c] add.IH _ _ add.hyps(2,4)] by blast
next
  case (del db st rr ds status db' st')
  then show ?case using zone_del_rr_marks [OF pendingD(1) [OF edited_pending [OF del.hyps(1) z c]] z] by blast
next
  case (serial db k n u)
  then show ?case by (simp add: all_marks_def)
qed

end
