(* ===== verification/Adapi_Props.thy ===== *)
theory Adapi_Props
  imports Adapi Edits
begin

text \<open>
  Reading a zone file: the records that pass the checks of the adapter interface are edits of the
  database, so that a read that fails can be taken back and one that succeeds can be applied.
\<close>

section \<open>Processing a record\<close>

text \<open>What the reader guarantees of a record: its type is a number of the registry, its owner is a name, and a SOA record has all its fields.\<close>

definition readable :: "('f \<Rightarrow> 'l list) \<Rightarrow> 'f ldns_rr \<Rightarrow> bool" where
  "readable path rr \<longleftrightarrow> rr_get_type rr \<noteq> 0 \<and> length (path (rr_owner rr)) \<le> 127 \<and>
     (rr_get_type rr = LDNS_RR_TYPE_SOA \<longrightarrow> length (rr_rdfs rr) = 7)"

lemma in_zoneI:
  assumes z: "zone_ok path Z" and l: "length (path n) \<le> 127"
    and c: "dname_compare (z_ldns Z) n (z_apex Z) = 0 \<or> dname_is_subdomain (z_ldns Z) n (z_apex Z)"
  shows "in_zone path Z n"
proof -
  have dn: "dname_contract (z_ldns Z) path" using z by (simp add: zone_ok_def)
  have "prefix (path (z_apex Z)) (path n)"
  proof (cases "path n = path (z_apex Z)")
    case False
    then show ?thesis using c dname_subdomain [OF dn False] dname_contract_sgn(2) [OF dn] by (auto simp: strict_prefix_def)
  qed simp
  then show ?thesis using l by (simp add: in_zone_def)
qed

lemma edited_links: "committed path Z db0 \<Longrightarrow> links_ok Z db0"
  using db_okD(4) by (auto simp: committed_def)

lemma zone_add_rr_edited:
  assumes z: "zone_ok path Z" and c: "committed path Z db0" and e: "edited path Z db0 db"
    and rr: "in_zone path Z (rr_owner rr)" "rr_get_type rr \<noteq> 0"
  shows "\<exists>status db' st'. zone_add_rr Z db st rr ds = Ok (status, db', st') \<and> edited path Z db0 db'"
proof -
  obtain q where q: "q \<in> doms Z db0" "is_apex (dom_of db0 q)" using c by (auto simp: committed_def)
  obtain status db' st' where a: "zone_add_rr Z db st rr ds = Ok (status, db', st')"
    using zone_add_rr_pending [OF z edited_pending [OF e z c] edited_links [OF c] q rr] by blast
  then show ?thesis using edited.add [OF e rr a] by blast
qed

lemma serial_edited: "edited path Z db0 db \<Longrightarrow> edited path Z db0 (db\<lparr>intserial := n\<rparr>)"
  using edited.serial [of path Z db0 db "serial_updated db" n "inbserial db"] by simp

lemma updated_edited: "edited path Z db0 db \<Longrightarrow> edited path Z db0 (db\<lparr>serial_updated := u\<rparr>)"
  using edited.serial [of path Z db0 db u "intserial db" "inbserial db"] by simp

lemma inbound_edited: "edited path Z db0 db \<Longrightarrow> edited path Z db0 (db\<lparr>inbserial := k\<rparr>)"
  using edited.serial [of path Z db0 db "serial_updated db" "intserial db" k] by simp

lemma update_serial_some:
  "\<exists>status n. namedb_update_serial now today (Some db) format inb = (status, Some (db\<lparr>intserial := n\<rparr>))"
proof -
  have "\<exists>n. db = db\<lparr>intserial := n\<rparr>" by (rule exI [of _ "intserial db"]) simp
  then show ?thesis unfolding namedb_update_serial_def by (auto simp: Let_def split: option.splits sum.splits)
qed

lemma soa_ttl_min_same:
  assumes "length (rr_rdfs rr) = 7"
  obtains rr' where "soa_ttl_min Z rr = Some rr'" "rr_owner rr' = rr_owner rr" "rr_get_type rr' = rr_get_type rr" "length (rr_rdfs rr') = 7"
  using assms that by (cases "soa_ttl (z_signconf Z)"; cases "soa_min (z_signconf Z)") (simp_all add: soa_ttl_min_def rr_set_rdf_def)

lemma process_soa_edited:
  assumes e: "edited path Z db0 db" and l: "length (rr_rdfs rr) = 7"
  shows "\<exists>status rr' db'. adapi_process_soa now today Z db rr True backup = Ok (status, rr', db') \<and> edited path Z db0 db' \<and>
    rr_owner rr' = rr_owner rr \<and> rr_get_type rr' = rr_get_type rr"
proof -
  obtain rr1 where r: "soa_ttl_min Z rr = Some rr1" "rr_owner rr1 = rr_owner rr" "rr_get_type rr1 = rr_get_type rr" "length (rr_rdfs rr1) = 7"
    by (rule soa_ttl_min_same [OF l])
  obtain status n where u: "namedb_update_serial now today (Some db) (soa_serial (z_signconf Z))
      (rdf2native_int32 (z_ldns Z) (rr_rdfs rr1 ! SE_SOA_RDATA_SERIAL)) = (status, Some (db\<lparr>intserial := n\<rparr>))"
    using update_serial_some by blast
  have "edited path Z db0 (db\<lparr>intserial := n\<rparr>)" by (rule serial_edited [OF e])
  then show ?thesis using r u updated_edited by (auto simp: adapi_process_soa_def rr_set_rdf_def)
qed

lemma adapi_add_rr_edited:
  assumes z: "zone_ok path Z" and c: "committed path Z db0" and e: "edited path Z db0 db" and r: "readable path rr"
  shows "\<exists>status db' st'. adapi_add_rr now today Z db st rr backup = Ok (status, db', st') \<and> edited path Z db0 db'"
proof -
  define rr1 where "rr1 = (if rr_class rr \<noteq> LDNS_RR_CLASS_IN then rr\<lparr>rr_class := LDNS_RR_CLASS_IN\<rparr> else rr)"
  have s: "rr_owner rr1 = rr_owner rr" "rr_get_type rr1 = rr_get_type rr" "rr_rdfs rr1 = rr_rdfs rr" by (simp_all add: rr1_def)
  have len: "length (path (rr_owner rr)) \<le> 127" "rr_get_type rr \<noteq> 0" using r by (simp_all add: readable_def)
  note add = zone_add_rr_edited [OF z c]
  show ?thesis
  proof (cases "rr_get_type rr = LDNS_RR_TYPE_SOA \<and> dname_compare (z_ldns Z) (rr_owner rr) (z_apex Z) = 0")
    case True
    then have "length (rr_rdfs rr1) = 7" using r s(3) by (simp add: readable_def)
    then obtain status rr2 db2 where p: "adapi_process_soa now today Z db rr1 True backup = Ok (status, rr2, db2)" "edited path Z db0 db2"
      "rr_owner rr2 = rr_owner rr" "rr_get_type rr2 = rr_get_type rr"
      using process_soa_edited [OF e, of rr1 now today backup] s by auto
    have "in_zone path Z (rr_owner rr2)" using in_zoneI [OF z len(1)] True p(3) by simp
    then have "\<exists>status db' st'. zone_add_rr Z db2 st rr2 True = Ok (status, db', st') \<and> edited path Z db0 db'"
      using add [OF p(2)] len(2) p(4) by simp
    then show ?thesis using p(1,2) True s by (auto simp: adapi_add_rr_def adapi_process_rr_def rr1_def [symmetric])
  next
    case False
    let ?out = "dname_compare (z_ldns Z) (rr_owner rr) (z_apex Z) \<noteq> 0 \<and> \<not> dname_is_subdomain (z_ldns Z) (rr_owner rr) (z_apex Z)"
    have same: ?thesis if "adapi_add_rr now today Z db st rr backup = Ok (status, db, st)" for status using that e by blast
    have added: ?thesis if "adapi_add_rr now today Z db st rr backup = zone_add_rr Z db st rr2 True" "rr_owner rr2 = rr_owner rr"
      "rr_get_type rr2 = rr_get_type rr" "\<not> ?out" for rr2
      using add [OF e, of rr2 st True] that len(2) in_zoneI [OF z len(1)] by auto
    note d = adapi_add_rr_def adapi_process_rr_def rr1_def [symmetric] Let_def s
    consider "rr_get_type rr = LDNS_RR_TYPE_SOA" | "rr_get_type rr \<noteq> LDNS_RR_TYPE_SOA" ?out
      | "rr_get_type rr = LDNS_RR_TYPE_DNSKEY" "\<not> ?out"
      | "rr_get_type rr \<noteq> LDNS_RR_TYPE_SOA" "rr_get_type rr \<noteq> LDNS_RR_TYPE_DNSKEY" "\<not> ?out" "util_is_dnssec_rr (Some rr1) \<and> \<not> backup"
      | "rr_get_type rr \<noteq> LDNS_RR_TYPE_SOA" "rr_get_type rr \<noteq> LDNS_RR_TYPE_DNSKEY" "\<not> ?out" "\<not> (util_is_dnssec_rr (Some rr1) \<and> \<not> backup)"
      by blast
    then show ?thesis
    proof cases
      case 1
      then show ?thesis using False by (intro same [of ODS_STATUS_ERR]) (simp add: d)
    next
      case 2
      then show ?thesis by (intro same [of ODS_STATUS_UNCHANGED]) (simp add: d)
    next
      case 3
      show ?thesis by (rule added [of "adapi_process_dnskey Z rr1"]) (use 3 in \<open>auto simp: d adapi_process_dnskey_def\<close>)
    next
      case 4
      then show ?thesis by (intro same [of ODS_STATUS_UNCHANGED]) (simp add: d)
    next
      case 5
      show ?thesis by (rule added [of rr1]) (use 5 in \<open>auto simp: d\<close>)
    qed
  qed
qed

lemma read_rrs_edited:
  assumes z: "zone_ok path Z" and c: "committed path Z db0"
  shows "edited path Z db0 db \<Longrightarrow> \<forall>rr \<in> set rs. readable path rr \<Longrightarrow>
    \<exists>status n db' st'. read_rrs now today Z rs new_serial db st = Ok (status, n, db', st') \<and> edited path Z db0 db'"
proof (induction rs arbitrary: new_serial db st)
  case (Cons rr rs)
  obtain status db1 st1 where a: "adapi_add_rr now today Z db st rr False = Ok (status, db1, st1)" "edited path Z db0 db1"
    using adapi_add_rr_edited [OF z c Cons.prems(1), of rr now today st False] Cons.prems(2) by auto
  have "rr_get_type rr = LDNS_RR_TYPE_SOA \<longrightarrow> length (rr_rdfs rr) = 7" using Cons.prems(2) by (simp add: readable_def)
  then show ?case using a Cons.IH [OF a(2)] Cons.prems(2) by auto
qed auto

lemma examine_returns: "domains_ok path Z db \<Longrightarrow> \<exists>status. namedb_examine Z db = Ok status"
proof -
  assume ok: "domains_ok path Z db"
  have "set as \<subseteq> doms Z db \<Longrightarrow> \<exists>status. examine_loop (dom_at db) as = Ok status" for as
    using dom_get [OF ok] by (induction as) auto
  then show ?thesis by (simp add: namedb_examine_def)
qed

lemma read_file_edited:
  assumes z: "zone_ok path Z" and c: "committed path Z db0" and r: "\<forall>rr \<in> set rs. readable path rr"
  obtains status db st' where "adfile_read_file now today Z rs good db0 st = Ok (status, db, st')" "edited path Z db0 db"
    "status = ODS_STATUS_OK \<Longrightarrow> namedb_examine Z db = Ok ODS_STATUS_OK"
proof -
  obtain s n db st' where a: "read_rrs now today Z rs 0 db0 st = Ok (s, n, db, st')" "edited path Z db0 db"
    using read_rrs_edited [OF z c edited.none r] by blast
  obtain s2 where x: "namedb_examine Z db = Ok s2" using examine_returns pendingD(1) [OF edited_pending [OF a(2) z c]] by blast
  have n: "namedb_examine Z (db\<lparr>inbserial := n\<rparr>) = namedb_examine Z db" by (simp add: namedb_examine_def dom_nodes_def)
  define s3 where "s3 = (if s = ODS_STATUS_OK then if good then s2 else ODS_STATUS_ERR else s)"
  show thesis
    by (rule that [of s3 "if s3 = ODS_STATUS_OK then db\<lparr>inbserial := n\<rparr> else db" st'])
      (use a x n inbound_edited [OF a(2)] in \<open>auto simp: adfile_read_file_def Let_def s3_def split: if_splits\<close>)
qed

section \<open>Applying the changes\<close>

lemma rrset_after_clean:
  assumes "\<forall>x \<in> set (rrs r). marks_ok x" "x \<in> set (rrs (rrset_after i False r))"
  shows "clean_rr x"
  using assms by (auto simp: rrset_after_def rr_after_def rr_gone_def marks_ok_def clean_rr_def split: if_splits)

lemma rrsets_after_clean: "all_rrs marks_ok d \<Longrightarrow> clean (rrsets_after i False (rrsets d))"
  using rrset_after_clean unfolding clean_def rrsets_after_def all_rrs_def by fastforce

lemma rrsets_after_distinct: "distinct (map rrtype rs) \<Longrightarrow> distinct (map rrtype (rrsets_after i m rs))"
  using distinct_map_filter [of rrtype "map (\<lambda>r. rrset_after (rrset_mode i r) m r) rs"] by (simp add: rrsets_after_def comp_def)

lemma cyc_next: "u \<in> set xs \<Longrightarrow> \<exists>v. (u, v) \<in> cyc xs"
proof -
  assume "u \<in> set xs"
  then obtain as bs where xs: "xs = as @ u # bs" by (meson split_list)
  show ?thesis
  proof (cases bs)
    case Nil
    then show ?thesis using xs by (intro exI [of _ "hd xs"]) (simp add: cyc_def)
  next
    case (Cons b cs)
    have "(u, b) \<in> set (zip xs (tl xs))" unfolding xs Cons using set_zip_tl_append [of as "u # b # cs"] by simp
    then show ?thesis by (auto simp: cyc_def)
  qed
qed

lemma applied_not_empt:
  assumes ok: "domains_ok path Z db'" and a: "a \<in> doms Z db'" and na: "\<not> is_apex (dom_of db' a)"
    and dd: "\<And>a. a \<in> doms Z db' \<longleftrightarrow> a \<in> doms Z db \<and> (is_apex (dom_of db a) \<or> has_data path Z db i m a)"
    and rs: "\<And>a. a \<in> doms Z db' \<Longrightarrow> dname (dom_of db' a) = dname (dom_of db a) \<and> rrsets (dom_of db' a) = rrsets_after i m (rrsets (dom_of db a))"
    and ok0: "domains_ok path Z db"
  shows "\<not> empt path Z db' a"
proof -
  have n: "nm path db' c = nm path db c" if "c \<in> doms Z db'" for c using rs [OF that] by (simp add: nm_def)
  have "is_apex (dom_of db' a) = is_apex (dom_of db a)"
    using apex_iff [OF ok a] apex_iff [OF ok0, of a] n [OF a] dd a by auto
  then obtain c where c: "c \<in> doms Z db" "prefix (nm path db a) (nm path db c)" "rrsets_after i m (rrsets (dom_of db c)) \<noteq> []"
    using dd a na by (auto simp: has_data_def)
  then have c': "c \<in> doms Z db'" using dd by (auto simp: has_data_def)
  show ?thesis
  proof (cases "c = a")
    case True
    then show ?thesis using c(3) rs [OF c'] by (simp add: empt_def)
  next
    case False
    then have "strict_prefix (nm path db' a) (nm path db' c)" using nm_inj [OF ok a c'] c(2) n a c' by (auto simp: strict_prefix_def)
    then show ?thesis using c' by (auto simp: empt_def)
  qed
qed

lemma update_committed:
  assumes z: "zone_ok path Z" and c: "committed path Z db0" and e: "edited path Z db0 db"
    and co: "\<forall>a \<in> doms Z db. \<forall>r \<in> set (rrsets (dom_of db a)). length (rrs r) < 2 ^ 16"
    and ow: "owners_ok path Z db" and ro: "records_ok Z db"
  obtains db1 db2 n where "namedb_diff Z db i False = Ok db1" "namedb_nsecify Z db1 = Ok (db2, n)" "committed path Z db2"
    "\<forall>(u, v) \<in> cyc (den_nodes Z db2). \<not> flagged db2 u \<and> current Z db2 u v"
    "\<And>a. a \<in> doms Z db2 \<Longrightarrow> a \<in> doms Z db \<and> rrsets (dom_of db2 a) = rrsets_after i False (rrsets (dom_of db a))"
proof -
  have ok: "db_ok path Z db" by (rule edited_db_ok [OF z c e co])
  have good: "dom_good (dom_of db a)" if "a \<in> doms Z db" for a using edited_marks [OF e z c] that by (simp add: all_marks_def)
  obtain db1 where d1: "namedb_diff Z db i False = Ok db1" "db_ok path Z db1" "owners_ok path Z db1"
    "\<And>a. a \<in> doms Z db1 \<longleftrightarrow> a \<in> doms Z db \<and> (is_apex (dom_of db a) \<or> has_data path Z db i False a)"
    "\<And>a. a \<in> doms Z db1 \<Longrightarrow> dname (dom_of db1 a) = dname (dom_of db a) \<and> rrsets (dom_of db1 a) = rrsets_after i False (rrsets (dom_of db a))"
    "\<And>a. a \<in> doms Z db1 \<Longrightarrow> denial (dom_of db1 a) \<noteq> None \<longleftrightarrow> wanted path Z db1 a"
    by (rule namedb_diff_eval [OF z ok ow, of i False]) blast
  have ro1: "records_ok Z db1" using ro d1(4,5) unfolding records_ok_def by metis
  have oc: "\<not> occl path Z db1 a" if "a \<in> doms Z db1" "denial (dom_of db1 a) \<noteq> None" for a
    using d1(6) that by (simp add: wanted_def)
  obtain db2 where d2: "namedb_nsecify Z db1 = Ok (db2, of_nat (length (filter (flagged db1) (den_nodes Z db1))))"
    "db_ok path Z db2" "renewed Z (dens Z db1) db1 db2" "\<forall>(u, v) \<in> cyc (den_nodes Z db2). \<not> flagged db2 u \<and> current Z db2 u v"
    using namedb_nsecify_eval [OF d1(2) ro1] oc by blast
  note s = renewed_same [OF d2(3)]
  have ok1: "domains_ok path Z db1" "domains_ok path Z db" using d1(2) ok db_okD(1) by blast+
  have "clean (rrsets (dom_of db1 a)) \<and> distinct (map rrtype (rrsets (dom_of db1 a))) \<and> \<not> empt path Z db1 a" if "a \<in> doms Z db1" for a
  proof -
    have "dom_good (dom_of db a)" using good d1(4) that by blast
    moreover have "\<not> empt path Z db1 a"
      using applied_not_empt [OF ok1(1) that _ d1(4,5) ok1(2)] by (cases "is_apex (dom_of db1 a)") (auto simp: empt_def)
    ultimately show ?thesis using d1(5) [OF that] rrsets_after_clean rrsets_after_distinct by (auto simp: dom_good_def)
  qed
  moreover have "\<not> bitmap_changed (den_of db2 b)" if "b \<in> dens Z db2" for b
    using cyc_next [OF that] d2(4) by (auto simp: flagged_def)
  moreover have "\<exists>q \<in> doms Z db1. is_apex (dom_of db1 q)"
  proof -
    obtain q where q: "q \<in> doms Z db0" "is_apex (dom_of db0 q)" using c by (auto simp: committed_def)
    note p = pendingD [OF edited_pending [OF e z c]]
    have q': "q \<in> doms Z db" "is_apex (dom_of db q)" using q p(2) p(3) [OF q(1)] by (auto simp: old_domain_def)
    then have "q \<in> doms Z db1" using d1(4) by blast
    then show ?thesis using apex_iff [OF ok1(1), of q] apex_iff [OF ok1(2), of q] d1(5) [of q] q' by (auto simp: nm_def)
  qed
  moreover have "empt path Z db2 = empt path Z db1" by (simp add: fun_eq_iff empt_def nm_def s)
  ultimately have "committed path Z db2" using d2(2) by (simp add: committed_def s)
  moreover have "a \<in> doms Z db \<and> rrsets (dom_of db2 a) = rrsets_after i False (rrsets (dom_of db a))" if "a \<in> doms Z db2" for a
    using that d1(4,5) unfolding s by blast
  ultimately show thesis using that [OF d1(1) d2(1) _ d2(4)] by blast
qed

end
