(* ===== verification/Update.thy ===== *)
theory Update
  imports Adapi_Props
begin

text \<open>
  Reading a zone as a transaction: either it is applied as a whole, or it can be taken back as a whole.
\<close>

section \<open>Conflicts at a name\<close>

definition conflict_free :: "'f rrset_struct list \<Rightarrow> bool" where
  "conflict_free rs \<longleftrightarrow> (\<forall>r \<in> set rs.
     (rrtype r = LDNS_RR_TYPE_CNAME \<longrightarrow> rs = [r] \<and> length (rrs r) = 1) \<and> (rrtype r = LDNS_RR_TYPE_DNAME \<longrightarrow> length (rrs r) = 1))"

lemma full_count: "length (rrs (rrset_after False m r)) = rrset_count_rr_is_added r"
  by (simp add: rrset_after_def rrset_count_rr_is_added_def rr_gone_def)

lemma full_rrsets_length: "length (rrsets_after False m (rrsets d)) = domain_count_rrset_is_added d"
proof -
  have "rrs (rrset_after False m r) = [] \<longleftrightarrow> rrset_count_rr_is_added r = 0" for r :: "'a rrset_struct"
    using full_count [of m r] by auto
  then show ?thesis by (simp add: rrsets_after_def domain_count_rrset_is_added_def filter_map comp_def rrset_mode_def)
qed

lemma lookup_unique:
  assumes "distinct (map rrtype (rrsets d))" "r \<in> set (rrsets d)" "rrtype r \<noteq> 0"
  obtains i where "domain_lookup_rrset d (rrtype r) = Some i" "rrsets d ! i = r"
proof -
  obtain i where i: "domain_lookup_rrset d (rrtype r) = Some i"
    using domain_lookup_rrset_iff [OF assms(3), of d] assms(2) by (auto simp: has_type_def)
  moreover have "rrsets d ! i = r"
    using lookup_rrset_at [OF i] assms(1,2) by (metis inj_on_def distinct_map nth_mem)
  ultimately show thesis by (rule that)
qed

lemma examined_conflict_free:
  assumes d: "distinct (map rrtype (rrsets d))" and x: "examine_domain d"
  shows "conflict_free (rrsets_after False m (rrsets d))"
  unfolding conflict_free_def
proof
  let ?rs = "rrsets_after False m (rrsets d)"
  fix r' assume r': "r' \<in> set ?rs"
  then obtain r where r0: "r \<in> set (rrsets d)" "r' = rrset_after False m r" "rrs r' \<noteq> []" by (auto simp: rrsets_after_def rrset_mode_def)
  then have "rrset_count_rr_is_added r > 0" using full_count [of m r] by (metis length_greater_0_conv)
  note r = r0(1,2) this
  have len: "length (rrs r') = rrset_count_rr_is_added r" and ty: "rrtype r' = rrtype r" using r(2) full_count by simp_all
  have "?rs = [r'] \<and> length (rrs r') = 1" if c: "rrtype r' = LDNS_RR_TYPE_CNAME"
  proof -
    obtain i where "domain_lookup_rrset d LDNS_RR_TYPE_CNAME = Some i" "rrsets d ! i = r"
      using lookup_unique [OF d r(1)] c ty by auto
    then have n: "\<not> domain_count_rrset_is_added d > 1" "\<not> rrset_count_rr_is_added r > 1" using x r(3) by (auto simp: examine_domain_def)
    then have "length ?rs \<le> 1" using full_rrsets_length [of m d] by simp
    then have "?rs = [r']" using r' by (cases ?rs) auto
    then show ?thesis using n(2) r(3) len by simp
  qed
  moreover have "length (rrs r') = 1" if c: "rrtype r' = LDNS_RR_TYPE_DNAME"
  proof -
    obtain i where "domain_lookup_rrset d LDNS_RR_TYPE_DNAME = Some i" "rrsets d ! i = r"
      using lookup_unique [OF d r(1)] c ty by auto
    then have "\<not> rrset_count_rr_is_added r > 1" using x by (auto simp: examine_domain_def)
    then show ?thesis using r(3) len by simp
  qed
  ultimately show "(rrtype r' = LDNS_RR_TYPE_CNAME \<longrightarrow> ?rs = [r'] \<and> length (rrs r') = 1) \<and> (rrtype r' = LDNS_RR_TYPE_DNAME \<longrightarrow> length (rrs r') = 1)"
    by blast
qed

lemma examine_loop_all: "examine_loop h as = Ok ODS_STATUS_OK \<Longrightarrow> a \<in> set as \<Longrightarrow> \<exists>d. h a = Some d \<and> examine_domain d"
  by (induction as) (auto simp: exec_simps get_def split: if_splits option.splits)

lemma examine_all: "namedb_examine Z db = Ok ODS_STATUS_OK \<Longrightarrow> a \<in> doms Z db \<Longrightarrow> examine_domain (dom_of db a)"
  using examine_loop_all [of "dom_at db" "dom_nodes Z db" a] by (auto simp: namedb_examine_def dom_of_def)

section \<open>Serials are not rolled back\<close>

definition same_serials :: "('f, 't) namedb \<Rightarrow> ('f, 't) namedb \<Rightarrow> bool" where
  "same_serials db db' \<longleftrightarrow> inbserial db' = inbserial db \<and> intserial db' = intserial db \<and> serial_updated db' = serial_updated db"

lemma same_serials_simps [simp]:
  "same_serials db db" "same_serials db (set_dom db a d)" "same_serials db (set_den db b e)" "same_serials db (domain_cleanup db a)"
  "same_serials db (db\<lparr>domains := t\<rparr>)"
  by (simp_all add: same_serials_def set_dom_def set_den_def domain_cleanup_def)

lemma same_serials_trans [trans]: "same_serials db db1 \<Longrightarrow> same_serials db1 db2 \<Longrightarrow> same_serials db db2"
  by (simp add: same_serials_def)

lemma clear_bitmap_serials: "clear_bitmap db b = Ok db' \<Longrightarrow> same_serials db db'"
  by (auto simp: clear_bitmap_def exec_simps split: option.splits)

lemma domain_rollback_serials:
  assumes "domain_rollback db a k = Ok db'"
  shows "same_serials db db'"
proof -
  obtain d rs c where "(if c then clear_bitmap (set_dom db a (d\<lparr>rrsets := rs\<rparr>)) (denial d) else Ok (set_dom db a (d\<lparr>rrsets := rs\<rparr>))) = Ok db'"
    using assms by (auto simp: domain_rollback_def exec_simps Let_def)
  then show ?thesis using clear_bitmap_serials [of "set_dom db a (d\<lparr>rrsets := rs\<rparr>)" "denial d" db']
      same_serials_trans [OF same_serials_simps(2)] by (auto split: if_splits)
qed

lemma del_domain_serials: "namedb_del_domain Z db a = Ok (gone, db') \<Longrightarrow> same_serials db db'"
  by (auto simp: namedb_del_domain_def exec_simps split: if_splits option.splits)

lemma del_loop_serials: "del_denial_loop Z True n x del db = Ok (gone, db') \<Longrightarrow> same_serials db db'"
proof (induction n arbitrary: x del db)
  case (Suc n)
  show ?case
  proof (cases x)
    case (Some a)
    obtain d can where can: "domain_can_be_deleted Z db a = Ok can" "get (dom_at db) a = Ok d" using Suc.prems Some by (auto simp: exec_simps)
    show ?thesis
    proof (cases can)
      case False
      then show ?thesis using Suc.prems Some can Suc.IH [of "parent d" del db] by simp
    next
      case True
      then obtain g db1 where g: "namedb_del_domain Z db a = Ok (g, db1)"
        "del_denial_loop Z True n (parent d) True (if g then domain_cleanup db1 a else db1) = Ok (gone, db')"
        using Suc.prems Some can by (cases "namedb_del_domain Z db a") auto
      show ?thesis using del_domain_serials [OF g(1)] Suc.IH [OF g(2)] by (cases g) (simp_all add: same_serials_def domain_cleanup_def)
    qed
  qed (use Suc.prems in simp)
qed simp

lemma rollback_loop_serials: "rollback_loop Z k n x db = Ok db' \<Longrightarrow> same_serials db db'"
proof (induction n arbitrary: x db)
  case (Suc n)
  show ?case
  proof (cases x)
    case (Some a)
    then obtain y db1 g db2 where "domain_rollback db a k = Ok db1" "namedb_del_denial_trigger Z db1 a True = Ok (g, db2)"
      "rollback_loop Z k n y db2 = Ok db'" using Suc.prems by (auto simp: exec_simps)
    then show ?thesis using Suc.IH domain_rollback_serials del_loop_serials same_serials_trans
      unfolding namedb_del_denial_trigger_def by metis
  qed (use Suc.prems in simp)
qed simp

lemma add_domain_serials: "namedb_add_domain Z db n = (x, db') \<Longrightarrow> same_serials db db'"
  by (auto simp: namedb_add_domain_def Let_def same_serials_def set_dom_def split: option.splits)

lemma entize_loop_serials: "entize_loop Z apex n db a = Ok (status, db') \<Longrightarrow> same_serials db db'"
proof (induction n arbitrary: db a)
  case (Suc n)
  obtain d where d: "get (dom_at db) a = Ok d" using Suc.prems by (auto simp: exec_simps)
  show ?case
  proof (cases "dname_left_chop (z_ldns Z) (dname d)")
    case None
    then show ?thesis using Suc.prems d by (auto split: if_splits)
  next
    case (Some p)
    obtain x db1 where x: "namedb_add_domain Z db p = (x, db1)" by fastforce
    have "same_serials db db'" if "entize_loop Z apex n (set_dom db1 a (d\<lparr>parent := Some b\<rparr>)) b = Ok (status, db')" for b
      using Suc.IH [OF that] add_domain_serials [OF x] by (simp add: same_serials_def set_dom_def)
    then show ?thesis using Suc.prems d Some x add_domain_serials [OF x] by (auto split: if_splits option.splits)
  qed
qed simp

lemma rr_domain_serials:
  assumes "rr_domain Z db n = Ok (x, db')"
  shows "same_serials db db'"
proof (cases "namedb_lookup_domain Z db n")
  case None
  obtain y db1 where y: "namedb_add_domain Z db n = (y, db1)" by fastforce
  note s = add_domain_serials [OF y]
  show ?thesis
  proof (cases y)
    case (Some a)
    then consider d where "db' = set_dom db1 a d" | "db' = db1" | status where "entize_loop Z (z_apex Z) 128 db1 a = Ok (status, db')"
      using assms None y by (auto simp: rr_domain_def namedb_domain_entize_def exec_simps split: if_splits)
    then show ?thesis using s entize_loop_serials [of Z "z_apex Z" 128 db1 a _ db'] same_serials_trans [OF s] by cases auto
  qed (use assms None y s in \<open>simp add: rr_domain_def\<close>)
qed (use assms in \<open>simp add: rr_domain_def\<close>)

lemma add_rrset_serials: "domain_add_rrset db a r = Ok db' \<Longrightarrow> same_serials db db'"
  by (auto simp: domain_add_rrset_def mark_bitmap_def exec_simps same_serials_def set_dom_def set_den_def split: option.splits)

lemma zone_add_rr_serials:
  assumes "zone_add_rr Z db st rr ds = Ok (status, db', st')"
  shows "same_serials db db'"
proof -
  obtain x db1 where x: "rr_domain Z db (rr_owner rr) = Ok (x, db1)" using assms by (auto simp: zone_add_rr_def exec_simps)
  note s1 = rr_domain_serials [OF x]
  show ?thesis
  proof (cases x)
    case (Some a)
    then obtain i db2 where i: "rr_rrset db1 a (rr_get_type rr) = Ok (i, db2)" using assms x by (auto simp: zone_add_rr_def exec_simps)
    then have s2: "same_serials db1 db2" using add_rrset_serials by (auto simp: rr_rrset_def exec_simps split: option.splits)
    have "db' = db2 \<or> (\<exists>d. db' = set_dom db2 a d)"
      using assms x Some i by (auto simp: zone_add_rr_def exec_simps split: option.splits)
    then have "same_serials db2 db'" by auto
    then show ?thesis using s1 s2 same_serials_trans by blast
  qed (use assms x s1 in \<open>simp add: zone_add_rr_def\<close>)
qed

lemma soa_serial_field: "soa_ttl_min Z rr = Some rr' \<Longrightarrow> rr_rdfs rr' ! SE_SOA_RDATA_SERIAL = rr_rdfs rr ! SE_SOA_RDATA_SERIAL"
  by (auto simp: soa_ttl_min_def rr_set_rdf_def Let_def split: option.splits if_splits)

lemma add_soa_serials:
  assumes l: "length (rr_rdfs rr) = 7" and t: "rr_get_type rr = LDNS_RR_TYPE_SOA" "dname_compare (z_ldns Z) (rr_owner rr) (z_apex Z) = 0"
    and u: "namedb_update_serial now today (Some db) (soa_serial (z_signconf Z))
      (rdf2native_int32 (z_ldns Z) (rr_rdfs rr ! SE_SOA_RDATA_SERIAL)) = (ODS_STATUS_OK, Some db1)"
    and a: "adapi_add_rr now today Z db st rr False = Ok (status, db', st')"
  shows "intserial db' = intserial db1" "serial_updated db'"
proof -
  let ?rr = "if rr_class rr \<noteq> LDNS_RR_CLASS_IN then rr\<lparr>rr_class := LDNS_RR_CLASS_IN\<rparr> else rr"
  have s: "rr_owner ?rr = rr_owner rr" "rr_get_type ?rr = rr_get_type rr" "rr_rdfs ?rr = rr_rdfs rr" by simp_all
  then obtain rr1 where r: "soa_ttl_min Z ?rr = Some rr1" "length (rr_rdfs rr1) = 7"
    using soa_ttl_min_same [of ?rr Z] l by metis
  have "rr_rdfs rr1 ! SE_SOA_RDATA_SERIAL = rr_rdfs rr ! SE_SOA_RDATA_SERIAL" using soa_serial_field [OF r(1)] s(3) by metis
  then obtain rr2 where "adapi_process_soa now today Z db ?rr True False = Ok (ODS_STATUS_OK, rr2, db1\<lparr>serial_updated := True\<rparr>)"
    using r u by (simp add: adapi_process_soa_def rr_set_rdf_def)
  then have "zone_add_rr Z (db1\<lparr>serial_updated := True\<rparr>) st rr2 True = Ok (status, db', st')"
    using a t s by (simp add: adapi_add_rr_def adapi_process_rr_def Let_def)
  then have "same_serials (db1\<lparr>serial_updated := True\<rparr>) db'" by (rule zone_add_rr_serials)
  then show "intserial db' = intserial db1" "serial_updated db'" by (simp_all add: same_serials_def)
qed

section \<open>Properties\<close>



text \<open>
  C35. After a read that processed the SOA record has failed and was rolled back, the zone has its old SOA
  record again, but the database still says that its serial was updated: the next
  \<^verbatim>\<open>zone_update_serial\<close> reports success and leaves the old serial in the zone, although \<^verbatim>\<open>intserial\<close>, which is
  recorded as published after the zone is written, has the new one.
\<close>

theorem rollback_skips_serial:
  assumes "zone_ok path Z" "committed path Z db0" "readable path rr" "rr_get_type rr = LDNS_RR_TYPE_SOA"
    "dname_compare (z_ldns Z) (rr_owner rr) (z_apex Z) = 0"
    "namedb_update_serial now today (Some db0) (soa_serial (z_signconf Z))
       (rdf2native_int32 (z_ldns Z) (rr_rdfs rr ! SE_SOA_RDATA_SERIAL)) = (ODS_STATUS_OK, Some db1)"
    "adapi_add_rr now today Z db0 st rr False = Ok (status, db, st')"
    "\<forall>a \<in> doms Z db. \<forall>r \<in> set (rrsets (dom_of db a)). length (rrs r) < 2 ^ 16"
  shows "\<exists>db'. namedb_rollback Z db False = Ok db' \<and> restored Z db0 db' \<and> intserial db' = intserial db1 \<and>
    zone_update_serial now' today' Z db' = Ok (ODS_STATUS_OK, db'\<lparr>serial_updated := False\<rparr>)"
proof -
  have e: "edited path Z db0 db" using adapi_add_rr_edited [OF assms(1,2) edited.none assms(3), of now today st False] assms(7) by simp
  obtain db' where d: "namedb_rollback Z db False = Ok db'" "restored Z db0 db'" using rollback_eval [OF assms(1,2) e assms(8)] by blast
  have "same_serials db db'" by (rule rollback_loop_serials [OF d(1) [unfolded namedb_rollback_def]])
  moreover have "intserial db = intserial db1" "serial_updated db"
    using add_soa_serials [OF _ assms(4-7)] assms(3,4) by (simp_all add: readable_def)
  ultimately show ?thesis using d by (simp add: same_serials_def zone_update_serial_def)
qed

text \<open>
  C23. When the serial was not updated by a read, \<^verbatim>\<open>zone_update_serial\<close> replaces the SOA record of the zone by
  one that differs only in its serial, which is the new \<^verbatim>\<open>intserial\<close>; the signatures of the SOA RRset
  are dropped.  No other RRset, domain or denial point is changed.  If the new serial cannot be computed it
  fails and changes nothing.
\<close>

theorem zone_update_serial_correct:
  assumes "zone_ok path Z" "committed path Z db" "\<not> serial_updated db" "q \<in> doms Z db" "is_apex (dom_of db q)"
    "domain_lookup_rrset (dom_of db q) LDNS_RR_TYPE_SOA = Some i" "rrs (rrsets (dom_of db q) ! i) = x # xs" "length xs + 2 < 2 ^ 16"
    "rr_get_type (the_rr x) = LDNS_RR_TYPE_SOA" "length (rr_rdfs (the_rr x)) = 7"
  shows "case namedb_update_serial now today (Some db) (soa_serial (z_signconf Z)) (inbserial db) of
      (status, db1) \<Rightarrow>
        if status \<noteq> ODS_STATUS_OK then zone_update_serial now today Z db = Ok (status, db)
        else \<exists>db'. zone_update_serial now today Z db = Ok (ODS_STATUS_OK, db') \<and> intserial db' = intserial (the db1) \<and>
          dom_at db' = (dom_at db)(q \<mapsto> set_rrset (dom_of db q) i (rrsets (dom_of db' q) ! i)) \<and>
          rrs (rrsets (dom_of db' q) ! i) = [\<lparr>the_rr = (the_rr x)\<lparr>rr_rdfs :=
            (rr_rdfs (the_rr x))[SE_SOA_RDATA_SERIAL := native2rdf_int32 (z_ldns Z) (intserial db')]\<rparr>,
            rr_exists = True, is_added = False, is_removed = False\<rparr>] \<and>
          rrsigs (rrsets (dom_of db' q) ! i) = [] \<and>
          domains db' = domains db \<and> denials db' = denials db \<and> den_at db' = den_at db"
proof -
  note ok = db_okD [of path Z db]
  have d: "db_ok path Z db" using assms(2) by (simp add: committed_def)
  let ?d = "dom_of db q" let ?r = "rrsets ?d ! i"
  have "path (z_apex Z) = nm path db q" using apex_iff [OF ok(1) [OF d] assms(4)] assms(5) by simp
  then have l: "namedb_lookup_domain Z db (z_apex Z) = Some q"
    using lookup_present [OF assms(1) _ assms(4)] ok(1) [OF d] by (simp add: domains_ok_def)
  have g: "get (dom_at db) q = Ok ?d" by (rule dom_get [OF ok(1) [OF d] assms(4)])
  note at = lookup_rrset_at [OF assms(6)]
  have cl: "\<forall>y \<in> set (x # xs). \<not> is_added y"
    using assms(2,4,7) at(1) by (auto simp: committed_def clean_def clean_rr_def) (metis list.set_intros nth_mem)+
  obtain status n where u: "namedb_update_serial now today (Some db) (soa_serial (z_signconf Z)) (inbserial db) = (status, Some (db\<lparr>intserial := n\<rparr>))"
    using update_serial_some by blast
  have un: "status \<noteq> ODS_STATUS_OK \<Longrightarrow> db\<lparr>intserial := n\<rparr> = db"
    using u by (auto simp: namedb_update_serial_def Let_def split: option.splits sum.splits)
  let ?rr = "(the_rr x)\<lparr>rr_rdfs := (rr_rdfs (the_rr x))[SE_SOA_RDATA_SERIAL := native2rdf_int32 (z_ldns Z) n]\<rparr>"
  let ?new = "\<lparr>the_rr = ?rr, rr_exists = False, is_added = True, is_removed = False\<rparr>"
  let ?r1 = "?r\<lparr>rrs := rrs ?r @ [?new], needs_signing := True\<rparr>" let ?r2 = "rrset_after False False ?r1"
  let ?j = "journal (is_initialized db) (rrset_journal False ?r1) (ixfr db)"
  have "rrset_diff (is_initialized db) ?r1 (ixfr db) False False = Ok (?r2, ?j)"
    using rrset_diff_eval [OF ok(7) [OF d], of ?r1 False False] assms(7,8) by simp
  then have r: "zone_update_serial now today Z db = (if status \<noteq> ODS_STATUS_OK then Ok (status, db)
      else Ok (ODS_STATUS_OK, set_dom (db\<lparr>intserial := n, ixfr := ?j, serial_updated := False\<rparr>) q (set_rrset ?d i ?r2)))"
    using assms(3,6,7,9,10) l g u un at(2) by (simp add: zone_update_serial_def zone_lookup_rrset_def rr_set_rdf_def rrset_add_rr_def)
  have "rrs ?r2 = [?new\<lparr>rr_exists := True, is_added := False\<rparr>]" "rrsigs ?r2 = []"
    using cl assms(7) at(2) by (auto simp: rrset_after_def rr_gone_def rr_after_def rrset_changed_def rr_new_def filter_empty_conv)
  moreover have "rrsets (set_rrset ?d i ?r2) ! i = ?r2" using at(1) by (simp add: set_rrset_def)
  ultimately show ?thesis using r u by (simp add: dom_of_def set_dom_def)
qed

subsection \<open>Witnesses\<close>

definition edited_db :: "(nat list, (nat list \<times> nat) tree) namedb" where
  "edited_db = set_dom grown_db 4 ((dom_of grown_db 4)\<lparr>rrsets := [new_rrset]\<rparr>)"

lemma edited_db_nodes:
  "dom_nodes sample_zone edited_db = [2, 5, 4]" "dom_of edited_db 2 = live_dom"
  "dom_of edited_db 5 = (domain_create [1, 5])\<lparr>is_new := True, parent := Some 2\<rparr>"
  "dom_of edited_db 4 = (domain_create [1, 5, 6])\<lparr>is_new := True, parent := Some 5, rrsets := [new_rrset]\<rparr>"
  by (simp_all add: edited_db_def set_dom_def dom_nodes_def dom_of_def grown_db_def sample_zone_def bst_def domain_create_def)

lemma edited_db_counts: "\<forall>a \<in> doms sample_zone edited_db. \<forall>r \<in> set (rrsets (dom_of edited_db a)). length (rrs r) < 2 ^ 16"
  unfolding edited_db_nodes(1) by (simp add: edited_db_nodes(2-4) live_dom_def domain_create_def new_rrset_def)

lemma adapi_sample_a:
  "adapi_add_rr now today sample_zone live_db None (sample_rr [1, 5, 6] LDNS_RR_TYPE_A 9) False = Ok (ODS_STATUS_OK, edited_db, None)"
  using live_edit [of True]
  by (simp add: adapi_add_rr_def adapi_process_rr_def edited_db_def Let_def sample_ops util_is_dnssec_rr_def) (simp add: sample_rr_def)

lemma sample_readable: "readable (\<lambda>n. n) (sample_rr [1, 5, 6] LDNS_RR_TYPE_A 9)" "length n \<le> 127 \<Longrightarrow> readable (\<lambda>n. n) (sample_soa n k)"
  by (simp_all add: readable_def sample_rr_def sample_soa_def)


lemma edited_db_ok_names: "owners_ok (\<lambda>n. n) sample_zone edited_db" "records_ok sample_zone edited_db"
proof -
  have o: "owner_of sample_zone n = Some n" and x: "create_nxt sample_zone n = Ok (Some n)" for n
    by (simp_all add: owner_of_def create_nxt_def sample_zone_def sample_signconf_def signconf_create_def)
  show "owners_ok (\<lambda>n. n) sample_zone edited_db"
    unfolding owners_ok_def edited_db_nodes(1) o by (simp add: edited_db_nodes(2-4) live_dom_def domain_create_def)
  show "records_ok sample_zone edited_db" unfolding records_ok_def x by (simp add: sample_zone_def sample_ldns_def)
qed

lemma edited_db_examined: "namedb_examine sample_zone edited_db = Ok ODS_STATUS_OK"
proof -
  have g: "get (dom_at edited_db) a = Ok (dom_of edited_db a)" if "a \<in> {2, 4, 5}" for a
    using that by (auto simp: get_def edited_db_def set_dom_def grown_db_def dom_of_def)
  have "examine_domain (dom_of edited_db a)" if "a \<in> {2, 4, 5}" for a
    using that by (auto simp: edited_db_nodes examine_domain_def domain_lookup_rrset_def live_dom_def domain_create_def new_rrset_def)
  then show ?thesis using g [of 2] g [of 4] g [of 5] unfolding namedb_examine_def edited_db_nodes(1) by simp
qed


theorem rollback_skips_serial_witness:
  "\<exists>db st' db'. adapi_add_rr 0 0 sample_zone live_db None (sample_soa [1] 9) False = Ok (ODS_STATUS_OK, db, st') \<and>
    namedb_rollback sample_zone db False = Ok db' \<and> restored sample_zone live_db db' \<and> intserial live_db = 0 \<and> intserial db' = 10 \<and>
    zone_update_serial 0 0 sample_zone db' = Ok (ODS_STATUS_OK, db'\<lparr>serial_updated := False\<rparr>)"
proof -
  let ?db1 = "live_db\<lparr>intserial := 10\<rparr>"
  have u: "namedb_update_serial 0 0 (Some live_db) (soa_serial (z_signconf sample_zone))
      (rdf2native_int32 (z_ldns sample_zone) (rr_rdfs (sample_soa [1] 9) ! SE_SOA_RDATA_SERIAL)) = (ODS_STATUS_OK, Some ?db1)"
    by (simp add: namedb_update_serial_def next_serial_def sample_zone_def sample_signconf_def signconf_create_def sample_ldns_def sample_soa_def
      live_db_def namedb_create_def ods_strcmp_eq)
  let ?db2 = "?db1\<lparr>serial_updated := True\<rparr>" and ?rr = "(sample_soa [1] 9)\<lparr>rr_rdfs := [[2], [2], [10], [2], [2], [2], [2]]\<rparr>"
  have "soa_ttl_min sample_zone (sample_soa [1] 9) = Some (sample_soa [1] 9)"
    by (simp add: soa_ttl_min_def sample_zone_def sample_signconf_def signconf_create_def)
  then have p: "adapi_process_soa 0 0 sample_zone live_db (sample_soa [1] 9) True False = Ok (ODS_STATUS_OK, ?rr, ?db2)"
    using u by (simp add: adapi_process_soa_def rr_set_rdf_def sample_soa_def) (simp add: sample_zone_def sample_ldns_def)
  have "namedb_lookup_domain sample_zone ?db2 [1] = Some 2" by (simp add: namedb_lookup_domain_def sample_ops live_db_def bst_def)
  moreover have "get (dom_at ?db2) 2 = Ok live_dom" by (simp add: get_def live_db_def)
  moreover have "domain_lookup_rrset live_dom LDNS_RR_TYPE_SOA = Some 0" by (simp add: live_dom_def domain_lookup_rrset_def)
  moreover have "rrset_lookup_rr (z_ldns sample_zone) (rrsets live_dom ! 0) ?rr = None"
    by (simp add: live_dom_def rrset_lookup_rr_def sample_rr_def sample_soa_def util_dnssec_rrs_compare_def sample_zone_def)
     (simp add: sample_ldns_def)
  moreover obtain r where r: "rrset_add_rr (rrsets live_dom ! 0) ?rr = Ok r" "length (rrs r) = 2"
    by (simp add: rrset_add_rr_def live_dom_def sample_soa_def)
  ultimately have z: "zone_add_rr sample_zone ?db2 None ?rr True = Ok (ODS_STATUS_OK, set_dom ?db2 2 (set_rrset live_dom 0 r), None)"
    by (simp add: zone_add_rr_def rr_domain_def rr_rrset_def sample_soa_def count_sort_def)
  have a: "adapi_add_rr 0 0 sample_zone live_db None (sample_soa [1] 9) False = Ok (ODS_STATUS_OK, set_dom ?db2 2 (set_rrset live_dom 0 r), None)"
    using p z by (simp add: adapi_add_rr_def adapi_process_rr_def sample_ops Let_def) (simp add: sample_soa_def)
  have c: "\<forall>a \<in> doms sample_zone (set_dom ?db2 2 (set_rrset live_dom 0 r)). \<forall>r \<in> set (rrsets (dom_of (set_dom ?db2 2 (set_rrset live_dom 0 r)) a)). length (rrs r) < 2 ^ 16"
    using r(2) live_nodes(2) by (simp add: dom_nodes_def set_dom_def dom_of_def set_rrset_def live_dom_def)
  have k: "readable (\<lambda>n. n) (sample_soa [1] 9)" "rr_get_type (sample_soa [1] 9) = LDNS_RR_TYPE_SOA"
    "dname_compare (z_ldns sample_zone) (rr_owner (sample_soa [1] 9)) (z_apex sample_zone) = 0"
    by (simp_all add: readable_def sample_soa_def sample_ops)
  have "intserial live_db = 0" by (simp add: live_db_def namedb_create_def)
  then show ?thesis using rollback_skips_serial [OF sample_zone_ok live_committed k u a c, of 0 0] a by simp
qed

theorem zone_update_serial_witness:
  "\<exists>db'. zone_update_serial 0 0 sample_zone live_db = Ok (ODS_STATUS_OK, db') \<and>
    map (rr_rdfs \<circ> the_rr) (rrs (rrsets (dom_of db' 2) ! 0)) = [[[2], [2], [1], [2], [2], [2], [2]]]"
proof -
  have u: "namedb_update_serial 0 0 (Some live_db) (soa_serial (z_signconf sample_zone)) (inbserial live_db) =
      (ODS_STATUS_OK, Some (live_db\<lparr>intserial := 1\<rparr>))"
    by (simp add: namedb_update_serial_def next_serial_def sample_zone_def sample_signconf_def signconf_create_def
      live_db_def namedb_create_def ods_strcmp_eq)
  have k: "\<not> serial_updated live_db" "2 \<in> doms sample_zone live_db" "is_apex (dom_of live_db 2)"
    "domain_lookup_rrset (dom_of live_db 2) LDNS_RR_TYPE_SOA = Some 0"
    "rrs (rrsets (dom_of live_db 2) ! 0) = [\<lparr>the_rr = sample_soa [1] 7, rr_exists = True, is_added = False, is_removed = False\<rparr>]"
    by (simp_all add: live_nodes) (simp_all add: live_db_def namedb_create_def live_dom_def domain_lookup_rrset_def)
  have f: "native2rdf_int32 (z_ldns sample_zone) n = [unat n]" for n by (simp add: sample_zone_def sample_ldns_def)
  show ?thesis using zone_update_serial_correct [OF sample_zone_ok live_committed k, of 0 0] u by (auto simp: sample_soa_def f)
qed

end
