(* ===== verification/Rollover.thy ===== *)
theory Rollover
  imports Update
begin

text \<open>
  Loading a new signer configuration, \<^verbatim>\<open>signer/src/signer/tools.c\<close>: when the way existence is denied
  changes, the chain is dropped, and the next update of the zone makes the new one.
\<close>

section \<open>Model\<close>

text \<open>
  \<^verbatim>\<open>signconf_read\<close>: \<open>sc\<close> has the values that the parser finds in the file; the NSEC3 parameters are made
  from them.
\<close>

definition signconf_read :: "'f ldns \<Rightarrow> ('f, 'k) signconf \<Rightarrow> ods_status + ('f, 'k) signconf" where
  "signconf_read L sc =
    (if nsec_type sc = LDNS_RR_TYPE_NSEC3 then
       (case nsec3params_create L (ucast (nsec3_algo sc)) (word_of_int (nsec3_optout sc)) (ucast (nsec3_iterations sc)) (nsec3_salt sc) of
          None \<Rightarrow> Inl ODS_STATUS_MALLOC_ERR
        | Some p \<Rightarrow> Inr (sc\<lparr>nsec3params := Some p\<rparr>))
     else Inr (sc\<lparr>nsec3params := None\<rparr>))"

text \<open>
  \<open>file\<close> is the name of the configuration file, its modification time and what the parser finds in it.
\<close>

definition zone_load_signconf ::
  "('f, 'k, 't) zone \<Rightarrow> (string \<times> time_t \<times> ('f, 'k) signconf) option \<Rightarrow> ods_status \<times> ('f, 'k) signconf option" where
  "zone_load_signconf Z file =
    (case file of None \<Rightarrow> (ODS_STATUS_INSECURE, None)
     | Some (fn, mtime, sc) \<Rightarrow>
         (case signconf_update mtime (signconf_read (z_ldns Z) sc) (Some fn) (last_modified (z_signconf Z)) of
            (status, new) \<Rightarrow>
              if status = ODS_STATUS_OK then if new = None then (ODS_STATUS_ASSERT_ERR, None) else (status, new)
              else (status, None)))"

definition tools_signconf ::
  "('f, 'k, 't) zone \<Rightarrow> ('f, 't) namedb \<Rightarrow> (string \<times> time_t \<times> ('f, 'k) signconf) option \<Rightarrow>
    (ods_status \<times> ('f, 'k, 't) zone \<times> ('f, 't) namedb) exec" where
  "tools_signconf Z db file =
    (case zone_load_signconf Z file of (status, new) \<Rightarrow>
       if status = ODS_STATUS_OK then
         (case new of None \<Rightarrow> Abort
          | Some new \<Rightarrow>
              exec_bind
                (if signconf_compare_denial (Some (z_signconf Z)) (Some new) = TASK_NSECIFY then
                   exec_bind (namedb_wipe_denial Z db) (\<lambda>db.
                   exec_bind (namedb_cleanup_denials Z db) (\<lambda>db. Ok (namedb_init_denials Z db)))
                 else Ok db)
                (\<lambda>db. Ok (status, Z\<lparr>z_signconf := new, z_default_ttl := dur32 (soa_min new)\<rparr>, db)))
       else Ok (status, Z, db))"

section \<open>Dropping the chain\<close>

lemma wipe_rrs_eval:
  assumes "ixfr_ok ini x" "length (rrs r) \<le> 1"
  shows "\<exists>r' x'. wipe_rrs ini (length (rrs r) + 1) 0 (r, x) = Ok (r', x') \<and> ixfr_ok ini x'"
proof (cases "rrs r")
  case Nil
  then show ?thesis using assms(1) by simp
next
  case (Cons y ys)
  then have "rrs r = [y]" using assms(2) by (cases ys) auto
  then show ?thesis using assms(1) by (cases "rr_exists y") (auto simp: ixfr_del_rr_ok rrset_del_rr_eq journal_ok Let_def numeral_2_eq_2)
qed

lemma wipe_denial_eval:
  assumes "\<forall>b \<in> set bs. den_at db b = Some (den_of db b) \<and> den_rrset_ok Z (den_of db b)" "ixfr_ok (is_initialized db) (ixfr db)"
  shows "\<exists>x h. wipe_loop bs db = Ok (db\<lparr>ixfr := x, den_at := h\<rparr>) \<and> ixfr_ok (is_initialized db) x \<and>
    (\<forall>b. h b \<noteq> None \<longleftrightarrow> den_at db b \<noteq> None) \<and> (\<forall>b. d_domain (the (h b)) = d_domain (den_of db b))"
  using assms
proof (induction bs arbitrary: db)
  case Nil
  have "db = db\<lparr>ixfr := ixfr db, den_at := den_at db\<rparr>" by simp
  then show ?case using Nil by (intro exI [of _ "ixfr db"] exI [of _ "den_at db"]) (simp add: den_of_def)
next
  case (Cons b bs)
  let ?e = "den_of db b"
  have b: "den_at db b = Some ?e" "den_rrset_ok Z ?e" using Cons.prems(1) by simp_all
  show ?case
  proof (cases "d_rrset ?e")
    case None
    then show ?thesis using Cons b(1) by (simp add: get_def)
  next
    case (Some r)
    then have "length (rrs r) \<le> 1" using b(2) by (simp add: den_rrset_ok_def)
    then obtain r1 x1 where w: "wipe_rrs (is_initialized db) (length (rrs r) + 1) 0 (r, ixfr db) = Ok (r1, x1)" "ixfr_ok (is_initialized db) x1"
      using wipe_rrs_eval Cons.prems(2) by blast
    define x2 where "x2 = journal (is_initialized db) (fold (\<lambda>x. min_rr (sig_rr x)) (rrsigs r1)) x1"
    define db1 where "db1 = set_den (db\<lparr>ixfr := x2\<rparr>) b (?e\<lparr>d_rrset := None\<rparr>)"
    have s: "del_sigs_loop (is_initialized db) (length (rrsigs r1) + 1) 0 (r1, x1) = Ok (r1\<lparr>rrsigs := []\<rparr>, x2)"
      using del_sigs_loop_eval [OF w(2), of r1] by (simp add: x2_def)
    have i: "ixfr_ok (is_initialized db1) (ixfr db1)" using w(2) by (simp add: db1_def set_den_def x2_def)
    have d1: "den_of db1 c = (if c = b then ?e\<lparr>d_rrset := None\<rparr> else den_of db c)" for c by (simp add: db1_def den_of_def set_den_def)
    have "\<forall>c \<in> set bs. den_at db1 c = Some (den_of db1 c) \<and> den_rrset_ok Z (den_of db1 c)"
      using Cons.prems(1) unfolding d1 by (simp add: db1_def set_den_def den_rrset_ok_def)
    then obtain x h where h: "wipe_loop bs db1 = Ok (db1\<lparr>ixfr := x, den_at := h\<rparr>)" "ixfr_ok (is_initialized db1) x"
      "\<forall>c. h c \<noteq> None \<longleftrightarrow> den_at db1 c \<noteq> None" "\<forall>c. d_domain (the (h c)) = d_domain (den_of db1 c)"
      using Cons.IH [OF _ i] by blast
    have "wipe_loop (b # bs) db = wipe_loop bs db1"
      using b(1) Some w(1) s by (simp add: get_def db1_def del: wipe_rrs.simps del_sigs_loop.simps)
    then show ?thesis using h(1,2) h(3,4) b(1) by (intro exI [of _ x] exI [of _ h]) (simp add: d1, simp add: db1_def set_den_def)
  qed
qed

lemma denial_delfunc_eval:
  assumes "distinct bs" "\<forall>b \<in> set bs. \<exists>a. den_at db b \<noteq> None \<and> d_domain (den_of db b) = Some a \<and> dom_at db a = Some (dom_of db a)"
  shows "\<exists>h k. denial_delfunc bs db = Ok (db\<lparr>dom_at := h, den_at := k\<rparr>) \<and>
    (\<forall>a. h a = (if \<exists>b \<in> set bs. d_domain (den_of db b) = Some a then Some ((dom_of db a)\<lparr>denial := None\<rparr>) else dom_at db a)) \<and>
    (\<forall>b. b \<notin> set bs \<longrightarrow> k b = den_at db b)"
  using assms
proof (induction bs)
  case Nil
  have "db = db\<lparr>dom_at := dom_at db, den_at := den_at db\<rparr>" by simp
  then show ?case by (intro exI [of _ "dom_at db"] exI [of _ "den_at db"]) simp
next
  case (Cons b bs)
  then obtain h k where h: "denial_delfunc bs db = Ok (db\<lparr>dom_at := h, den_at := k\<rparr>)"
    "\<And>a. h a = (if \<exists>b \<in> set bs. d_domain (den_of db b) = Some a then Some ((dom_of db a)\<lparr>denial := None\<rparr>) else dom_at db a)"
    "\<And>b. b \<notin> set bs \<Longrightarrow> k b = den_at db b" by auto
  obtain a where a: "den_at db b = Some (den_of db b)" "d_domain (den_of db b) = Some a" "dom_at db a = Some (dom_of db a)"
    using Cons.prems(2) by (auto simp: den_of_def)
  have kb: "k b = Some (den_of db b)" using h(3) Cons.prems(1) a(1) by simp
  obtain d where d: "h a = Some d" "d\<lparr>denial := None\<rparr> = (dom_of db a)\<lparr>denial := None\<rparr>" using h(2) [of a] a(3) by (cases "\<exists>b \<in> set bs. d_domain (den_of db b) = Some a") auto
  have "denial_delfunc (b # bs) db = Ok (db\<lparr>dom_at := h(a \<mapsto> (dom_of db a)\<lparr>denial := None\<rparr>), den_at := k(b := None)\<rparr>)"
    using h(1) kb a(2) d by (simp add: get_def denial_cleanup_def set_dom_def)
  moreover have "(h(a \<mapsto> (dom_of db a)\<lparr>denial := None\<rparr>)) c =
      (if \<exists>e \<in> set (b # bs). d_domain (den_of db e) = Some c then Some ((dom_of db c)\<lparr>denial := None\<rparr>) else dom_at db c)" for c
    using h(2) [of c] a(2) by auto
  ultimately show ?case using h(3) by (intro exI conjI) auto
qed

lemma drop_chain:
  assumes ok: "db_ok path Z db"
  obtains x h k where "exec_bind (namedb_wipe_denial Z db) (\<lambda>db. exec_bind (namedb_cleanup_denials Z db) (\<lambda>db. Ok (namedb_init_denials Z db))) =
      Ok (db\<lparr>ixfr := x, dom_at := h, den_at := k, denials := rb_create (z_rb Z)\<rparr>)" "ixfr_ok (is_initialized db) x"
    "\<And>a. a \<in> doms Z db \<Longrightarrow> h a = Some ((dom_of db a)\<lparr>denial := None\<rparr>)"
proof -
  have g: "den_at db b = Some (den_of db b)" if "b \<in> dens Z db" for b using den_get [OF db_okD(3) [OF ok] that] by simp
  obtain x k where w: "wipe_loop (den_nodes Z db) db = Ok (db\<lparr>ixfr := x, den_at := k\<rparr>)" "ixfr_ok (is_initialized db) x"
    "\<And>b. k b \<noteq> None \<longleftrightarrow> den_at db b \<noteq> None" "\<And>b. d_domain (the (k b)) = d_domain (den_of db b)"
    using wipe_denial_eval [of "den_nodes Z db" db Z] g db_okD(5,7) [OF ok] by blast
  define db1 where "db1 = db\<lparr>ixfr := x, den_at := k\<rparr>"
  have n: "den_nodes Z db1 = den_nodes Z db" "dom_at db1 = dom_at db" "dom_of db1 = dom_of db" "d_domain (den_of db1 b) = d_domain (den_of db b)" for b
    using w(4) [of b] by (simp_all add: db1_def den_nodes_def dom_of_def den_of_def fun_eq_iff)
  have "\<exists>a. den_at db1 b \<noteq> None \<and> d_domain (den_of db1 b) = Some a \<and> dom_at db1 a = Some (dom_of db1 a)" if b: "b \<in> dens Z db" for b
    using links_okD(1) [OF db_okD(4) [OF ok] b] dom_at_of [OF db_okD(1) [OF ok]] w(3) [of b] g [OF b] unfolding n by (auto simp: db1_def)
  then obtain h k' where d: "denial_delfunc (den_nodes Z db1) db1 = Ok (db1\<lparr>dom_at := h, den_at := k'\<rparr>)"
    "\<And>a. h a = (if \<exists>b \<in> dens Z db. d_domain (den_of db b) = Some a then Some ((dom_of db a)\<lparr>denial := None\<rparr>) else dom_at db a)"
    using denial_delfunc_eval [of "den_nodes Z db1" db1] dens_distinct [OF db_okD(3) [OF ok]] unfolding n by blast
  have "h a = Some ((dom_of db a)\<lparr>denial := None\<rparr>)" if a: "a \<in> doms Z db" for a
  proof (cases "denial (dom_of db a)")
    case None
    then have "(dom_of db a)\<lparr>denial := None\<rparr> = dom_of db a" by simp
    then show ?thesis using d(2) [of a] dom_at_of [OF db_okD(1) [OF ok] a] by simp
  next
    case (Some b)
    then have "b \<in> dens Z db \<and> d_domain (den_of db b) = Some a" using links_okD(2) [OF db_okD(4) [OF ok] a] by blast
    then show ?thesis using d(2) [of a] by auto
  qed
  moreover have "exec_bind (namedb_wipe_denial Z db) (\<lambda>db. exec_bind (namedb_cleanup_denials Z db) (\<lambda>db. Ok (namedb_init_denials Z db))) =
      Ok (db\<lparr>ixfr := x, dom_at := h, den_at := k', denials := rb_create (z_rb Z)\<rparr>)"
    using w(1) d(1) by (simp add: namedb_wipe_denial_def namedb_cleanup_denials_def namedb_init_denials_def db1_def)
  ultimately show thesis using that w(2) by blast
qed

section \<open>The configuration\<close>

text \<open>
  What the database and the configuration have in common: the NSEC3 parameters are those of the
  configuration, and the TTL of the NSEC records is the minimum of the SOA record.  The fields of a duration
  are read with \<^verbatim>\<open>atoi\<close> and are therefore numbers of type \<^verbatim>\<open>int\<close>.
\<close>

definition fits :: "duration option \<Rightarrow> bool" where
  "fits d \<longleftrightarrow> (case d of None \<Rightarrow> True
     | Some d \<Rightarrow> \<forall>n \<in> {years d, months d, weeks d, days d, hours d, minutes d, seconds d}. 0 \<le> n \<and> n < 2 ^ 31)"

definition derived :: "'f ldns \<Rightarrow> ('f, 'k) signconf \<Rightarrow> bool" where
  "derived L sc \<longleftrightarrow> map_option (\<lambda>p. p\<lparr>n3_rr := None\<rparr>) (nsec3params sc) =
     (if nsec_type sc = LDNS_RR_TYPE_NSEC3
      then nsec3params_create L (ucast (nsec3_algo sc)) (word_of_int (nsec3_optout sc)) (ucast (nsec3_iterations sc)) (nsec3_salt sc)
      else None)"

definition conf_ok :: "('f, 'k, 't) zone \<Rightarrow> bool" where
  "conf_ok Z \<longleftrightarrow> derived (z_ldns Z) (z_signconf Z) \<and> fits (soa_min (z_signconf Z)) \<and> z_default_ttl Z = dur32 (soa_min (z_signconf Z))"

lemma to_int_zero: "0 \<le> a \<Longrightarrow> a < 2 ^ 31 \<Longrightarrow> 0 \<le> b \<Longrightarrow> b < 2 ^ 31 \<Longrightarrow> to_int (a - b) = 0 \<longleftrightarrow> a = b"
  by (subst to_int_id) auto

lemma duration_compare_zero: "fits a \<Longrightarrow> fits b \<Longrightarrow> duration_compare a b = 0 \<Longrightarrow> a = b"
  by (cases a; cases b) (auto simp: fits_def to_int_zero split: if_splits)

lemma ods_strcmp_zero: "ods_strcmp a b = 0 \<longleftrightarrow> a = b"
  by (cases a; cases b) (simp_all add: ods_strcmp_eq del: ods_strcmp.simps(4))

text \<open>When no rollover is called for, the new configuration asks for the same chain.\<close>

lemma compare_denial_same:
  assumes "signconf_compare_denial (Some a) (Some b) \<noteq> TASK_NSECIFY" "derived L a" "derived L b" "fits (soa_min a)" "fits (soa_min b)"
  shows "soa_min a = soa_min b" "map_option (\<lambda>p. p\<lparr>n3_rr := None\<rparr>) (nsec3params a) = map_option (\<lambda>p. p\<lparr>n3_rr := None\<rparr>) (nsec3params b)"
proof -
  have c: "duration_compare (soa_min a) (soa_min b) = 0" "nsec_type a = nsec_type b"
    "nsec_type a = LDNS_RR_TYPE_NSEC3 \<Longrightarrow> nsec3_salt a = nsec3_salt b \<and> nsec3_algo a = nsec3_algo b \<and>
       nsec3_iterations a = nsec3_iterations b \<and> nsec3_optout a = nsec3_optout b"
    using assms(1) by (auto simp: signconf_compare_denial_def ods_strcmp_zero split: if_splits)
  show "soa_min a = soa_min b" by (rule duration_compare_zero [OF assms(4,5) c(1)])
  show "map_option (\<lambda>p. p\<lparr>n3_rr := None\<rparr>) (nsec3params a) = map_option (\<lambda>p. p\<lparr>n3_rr := None\<rparr>) (nsec3params b)"
    using assms(2,3) c(2,3) by (cases "nsec_type a = LDNS_RR_TYPE_NSEC3") (simp_all add: derived_def)
qed

definition same_conf :: "('f, 'k, 't) zone \<Rightarrow> ('f, 'k, 't) zone \<Rightarrow> bool" where
  "same_conf Z Z' \<longleftrightarrow> z_rb Z' = z_rb Z \<and> z_ldns Z' = z_ldns Z \<and> z_apex Z' = z_apex Z \<and> z_klass Z' = z_klass Z \<and> z_default_ttl Z' = z_default_ttl Z \<and>
     map_option (\<lambda>p. p\<lparr>n3_rr := None\<rparr>) (nsec3params (z_signconf Z')) = map_option (\<lambda>p. p\<lparr>n3_rr := None\<rparr>) (nsec3params (z_signconf Z))"

lemma same_conf_simps:
  assumes "same_conf Z Z'"
  shows "owner_of Z' = owner_of Z" "nsec_rrtype Z' = nsec_rrtype Z" "expected_nsec Z' = expected_nsec Z"
    "dom_nodes Z' = dom_nodes Z" "den_nodes Z' = den_nodes Z"
proof -
  have s: "z_rb Z' = z_rb Z" "z_ldns Z' = z_ldns Z" "z_apex Z' = z_apex Z" "z_klass Z' = z_klass Z" "z_default_ttl Z' = z_default_ttl Z"
    and m: "map_option (\<lambda>p. p\<lparr>n3_rr := None\<rparr>) (nsec3params (z_signconf Z')) = map_option (\<lambda>p. p\<lparr>n3_rr := None\<rparr>) (nsec3params (z_signconf Z))"
    using assms by (simp_all add: same_conf_def)
  have n: "nsec3params (z_signconf Z') = None \<longleftrightarrow> nsec3params (z_signconf Z) = None" using m by (metis map_option_is_None)
  have f: "n3_algorithm p = n3_algorithm q \<and> n3_flags p = n3_flags q \<and> n3_iterations p = n3_iterations q \<and> n3_salt p = n3_salt q"
    if "nsec3params (z_signconf Z') = Some p" "nsec3params (z_signconf Z) = Some q" for p q
  proof -
    have e: "p\<lparr>n3_rr := None\<rparr> = q\<lparr>n3_rr := None\<rparr>" using m that by simp
    show ?thesis using arg_cong [OF e, of n3_algorithm] arg_cong [OF e, of n3_flags] arg_cong [OF e, of n3_iterations] arg_cong [OF e, of n3_salt] by simp
  qed
  have op: "owner_of Z' = owner_of Z" "param_rdfs Z' = param_rdfs Z"
  proof (atomize (full), cases "nsec3params (z_signconf Z)")
    case None
    then show "owner_of Z' = owner_of Z \<and> param_rdfs Z' = param_rdfs Z" using n by (simp add: fun_eq_iff owner_of_def param_rdfs_def)
  next
    case (Some q)
    then obtain p where "nsec3params (z_signconf Z') = Some p" using n by auto
    then show "owner_of Z' = owner_of Z \<and> param_rdfs Z' = param_rdfs Z"
      using Some f [of p q] by (simp add: fun_eq_iff owner_of_def param_rdfs_def dname_hash_def s)
  qed
  show "owner_of Z' = owner_of Z" by (rule op(1))
  show r: "nsec_rrtype Z' = nsec_rrtype Z" by (simp add: nsec_rrtype_def n)
  note p = op(2)
  show "expected_nsec Z' = expected_nsec Z" unfolding fun_eq_iff expected_nsec_def create_nxt_def n r p s by simp
  show "dom_nodes Z' = dom_nodes Z" "den_nodes Z' = den_nodes Z" by (simp_all add: fun_eq_iff dom_nodes_def den_nodes_def s)
qed

lemma same_conf_ok: "same_conf Z Z' \<Longrightarrow> db_ok path Z' db = db_ok path Z db"
proof -
  assume c: "same_conf Z Z'"
  note s = same_conf_simps [OF c]
  have t: "z_rb Z' = z_rb Z" "z_apex Z' = z_apex Z" using c by (simp_all add: same_conf_def)
  have "den_rrset_ok Z' = den_rrset_ok Z" by (simp add: fun_eq_iff den_rrset_ok_def s split: option.splits)
  then show ?thesis by (simp add: db_ok_def domains_ok_def place_ok_def links_ok_def tracked_def current_def s t)
qed

text \<open>Without denial points the configuration does not matter.\<close>

lemma dropped_ok:
  assumes z: "rbtree_contract (z_rb Z)" and ok: "db_ok path Z db" and s: "z_rb Z' = z_rb Z" "z_apex Z' = z_apex Z"
    and x: "ixfr_ok (is_initialized db) x" and h: "\<And>a. a \<in> doms Z db \<Longrightarrow> h a = Some ((dom_of db a)\<lparr>denial := None\<rparr>)"
  shows "db_ok path Z' (db\<lparr>ixfr := x, dom_at := h, den_at := k, denials := rb_create (z_rb Z)\<rparr>)" (is "db_ok path Z' ?db")
proof -
  have n: "dom_nodes Z' ?db = dom_nodes Z db" "den_nodes Z' ?db = []" using rb_create_nodes [OF z] by (simp_all add: dom_nodes_def den_nodes_def s)
  have o: "dom_of ?db a = (dom_of db a)\<lparr>denial := None\<rparr>" if "a \<in> doms Z db" for a using h [OF that] by (simp add: dom_of_def)
  have m: "nm path ?db a = nm path db a" if "a \<in> doms Z db" for a using o [OF that] by (simp add: nm_def)
  have "tree_ok path (rb_nodes (z_rb Z) (domains db)) h dname"
    using tree_ok_cong [of path "rb_nodes (z_rb Z) (domains db)" "dom_at db" dname h] db_okD(1) [OF ok] h dom_at_of [OF db_okD(1) [OF ok]]
    by (simp add: domains_ok_def doms_image)
  moreover have "place_ok path Z' ?db a" if a: "a \<in> doms Z db" for a
  proof -
    have "place_ok path Z db a" using db_okD(1) [OF ok] a by (simp add: domains_ok_def)
    then show ?thesis using m o [OF a] m [OF a] by (auto simp: place_ok_def n s)
  qed
  ultimately have "domains_ok path Z' ?db" by (simp add: domains_ok_def n s)
  then show ?thesis using db_okD(2,6) [OF ok] x rb_create_nodes [OF z] o
    by (simp add: db_ok_def n links_ok_def tracked_def cyc_def tree_ok_def names_sorted_def s)
qed

section \<open>Properties\<close>

lemma signconf_read_derived:
  assumes "signconf_read L sc = Inr sc'" "signconf_check (sc'\<lparr>last_modified := t\<rparr>) = ODS_STATUS_OK"
  shows "derived L sc'" "soa_min sc' = soa_min sc"
    "nsec_type sc' = LDNS_RR_TYPE_NSEC \<and> nsec3params sc' = None \<or> nsec_type sc' = LDNS_RR_TYPE_NSEC3 \<and> nsec3params sc' \<noteq> None"
proof -
  show "derived L sc'" using assms(1)
    by (auto simp: signconf_read_def derived_def nsec3params_create_def split: if_splits option.splits sum.splits)
  show "soa_min sc' = soa_min sc" using assms(1) by (auto simp: signconf_read_def split: if_splits option.splits)
  have "nsec_type sc' = LDNS_RR_TYPE_NSEC3 \<or> nsec_type sc' = LDNS_RR_TYPE_NSEC" using assms(2) by (auto simp: signconf_check_def split: if_splits)
  then show "nsec_type sc' = LDNS_RR_TYPE_NSEC \<and> nsec3params sc' = None \<or> nsec_type sc' = LDNS_RR_TYPE_NSEC3 \<and> nsec3params sc' \<noteq> None"
    using assms(1) by (auto simp: signconf_read_def split: if_splits option.splits)
qed

text \<open>
  C6. Loading a signer configuration returns and keeps the database and the configuration consistent:
  if a new configuration is taken over, either it asks for the same denial of existence, including the TTL of
  the records, and nothing changes in the database, or all denial points are gone, so that the next update makes the
  chain anew.  The domains and their records stay in both cases.  If no new configuration is taken over,
  nothing changes.
\<close>

theorem tools_signconf_consistent:
  assumes "zone_ok path Z" "db_ok path Z db" "conf_ok Z" "\<forall>fn mtime sc. file = Some (fn, mtime, sc) \<longrightarrow> fits (soa_min sc)"
  shows "\<exists>status Z' db'. tools_signconf Z db file = Ok (status, Z', db') \<and> zone_ok path Z' \<and> db_ok path Z' db' \<and> conf_ok Z' \<and>
    doms Z' db' = doms Z db \<and> (\<forall>a \<in> doms Z db. rrsets (dom_of db' a) = rrsets (dom_of db a)) \<and>
    (status \<noteq> ODS_STATUS_OK \<longrightarrow> Z' = Z) \<and> (db' = db \<or> den_nodes Z' db' = [] \<and> (\<forall>a \<in> doms Z db. denial (dom_of db' a) = None))"
proof (cases "fst (zone_load_signconf Z file) = ODS_STATUS_OK")
  case False
  then show ?thesis using assms(1-3) by (auto simp: tools_signconf_def split: prod.splits)
next
  case True
  then obtain fn mtime raw sc where f: "file = Some (fn, mtime, raw)" "signconf_read (z_ldns Z) raw = Inr sc"
    "signconf_check (sc\<lparr>last_modified := mtime\<rparr>) = ODS_STATUS_OK"
    "zone_load_signconf Z file = (ODS_STATUS_OK, Some (sc\<lparr>last_modified := mtime\<rparr>))"
    by (auto simp: zone_load_signconf_def signconf_update_def Let_def split: option.splits prod.splits sum.splits if_splits)
  note r = signconf_read_derived [OF f(2,3)]
  let ?new = "sc\<lparr>last_modified := mtime\<rparr>"
  define Z1 where "Z1 = Z\<lparr>z_signconf := ?new, z_default_ttl := dur32 (soa_min ?new)\<rparr>"
  have dn: "derived (z_ldns Z) ?new" "fits (soa_min ?new)" using r(1,2) assms(4) f(1) by (simp_all add: derived_def)
  have zo: "zone_ok path Z1" "conf_ok Z1" using assms(1) r(3) dn by (simp_all add: zone_ok_def conf_ok_def Z1_def)
  have nd: "dom_nodes Z1 db' = dom_nodes Z db'" "den_nodes Z1 db' = den_nodes Z db'" for db' by (simp_all add: dom_nodes_def den_nodes_def Z1_def)
  show ?thesis
  proof (cases "signconf_compare_denial (Some (z_signconf Z)) (Some ?new) = TASK_NSECIFY")
    case False
    have "same_conf Z Z1"
      using compare_denial_same [OF False _ dn(1) _ dn(2)] assms(3) by (simp add: conf_ok_def same_conf_def Z1_def)
    then have "db_ok path Z1 db" using same_conf_ok assms(2) by blast
    moreover have "tools_signconf Z db file = Ok (ODS_STATUS_OK, Z1, db)" using False f(4) by (simp add: tools_signconf_def Z1_def)
    ultimately show ?thesis using zo by (intro exI [of _ ODS_STATUS_OK] exI [of _ Z1] exI [of _ db]) (simp add: nd)
  next
    case True
    obtain x h k where d: "exec_bind (namedb_wipe_denial Z db) (\<lambda>db. exec_bind (namedb_cleanup_denials Z db) (\<lambda>db. Ok (namedb_init_denials Z db))) =
        Ok (db\<lparr>ixfr := x, dom_at := h, den_at := k, denials := rb_create (z_rb Z)\<rparr>)" "ixfr_ok (is_initialized db) x"
      "\<And>a. a \<in> doms Z db \<Longrightarrow> h a = Some ((dom_of db a)\<lparr>denial := None\<rparr>)"
      by (rule drop_chain [OF assms(2)]) blast
    let ?db = "db\<lparr>ixfr := x, dom_at := h, den_at := k, denials := rb_create (z_rb Z)\<rparr>"
    have z1: "z_rb Z1 = z_rb Z" "z_apex Z1 = z_apex Z" by (simp_all add: Z1_def)
    have c: "rbtree_contract (z_rb Z)" using assms(1) by (simp add: zone_ok_def)
    have "db_ok path Z1 ?db" using dropped_ok [OF c assms(2) z1 d(2,3)] .
    moreover have "tools_signconf Z db file = Ok (ODS_STATUS_OK, Z1, ?db)" using True f(4) d(1) by (simp add: tools_signconf_def Z1_def)
    moreover have "dom_nodes Z ?db = dom_nodes Z db" "den_nodes Z ?db = []" using rb_create_nodes [OF c] by (simp_all add: dom_nodes_def den_nodes_def)
    moreover have "\<forall>a \<in> doms Z db. rrsets (dom_of ?db a) = rrsets (dom_of db a) \<and> denial (dom_of ?db a) = None" using d(3) by (simp add: dom_of_def)
    ultimately show ?thesis using zo by (intro exI [of _ ODS_STATUS_OK] exI [of _ Z1] exI [of _ ?db]) (simp add: nd)
  qed
qed

subsection \<open>Witness\<close>

definition hour_zone :: "(nat list, nat, (nat list \<times> nat) tree) zone" where
  "hour_zone = sample_zone\<lparr>z_signconf := sample_signconf\<lparr>soa_min := Some (hours_of 1)\<rparr>\<rparr>"

definition new_conf :: "(nat list, nat) signconf" where
  "new_conf = sample_signconf\<lparr>soa_min := Some (hours_of 1), sig_resign_interval := Some (hours_of 2), sig_jitter := Some (hours_of 0),
     dnskey_ttl := Some (hours_of 1), soa_ttl := Some (hours_of 1), nsec_type := LDNS_RR_TYPE_NSEC3, nsec3_algo := 1, nsec3_salt := None\<rparr>"

lemma hour_zone_ok: "zone_ok (\<lambda>n. n) hour_zone" "conf_ok hour_zone" "db_ok (\<lambda>n. n) hour_zone live_db"
proof -
  show "zone_ok (\<lambda>n. n) hour_zone" using sample_zone_ok by (simp add: zone_ok_def hour_zone_def sample_zone_def)
  show "conf_ok hour_zone"
    by (simp add: conf_ok_def hour_zone_def derived_def sample_signconf_def signconf_create_def fits_def hours_of_def dur32_def duration2time_def sample_zone_def)
  have "same_conf sample_zone hour_zone" by (simp add: same_conf_def hour_zone_def sample_zone_def)
  then show "db_ok (\<lambda>n. n) hour_zone live_db" using same_conf_ok live_committed by (auto simp: committed_def)
qed

lemma new_conf_loaded: "fst (zone_load_signconf hour_zone (Some (''zone.xml'', 5, new_conf))) = ODS_STATUS_OK"
proof -
  have "strncmp ''counter'' ''counter'' 7 = 0" by (simp add: numeral_eq_Suc)
  then show ?thesis
    by (simp add: zone_load_signconf_def signconf_update_def signconf_read_def new_conf_def nsec3params_create_def nsec3params_create_salt_def
      signconf_check_def signconf_soa_serial_check_def sample_signconf_def signconf_create_def hour_zone_def Let_def)
qed

theorem tools_signconf_witness:
  "fst (zone_load_signconf hour_zone (Some (''zone.xml'', 5, new_conf))) = ODS_STATUS_OK \<and>
   (\<exists>status Z' db'. tools_signconf hour_zone live_db (Some (''zone.xml'', 5, new_conf)) = Ok (status, Z', db') \<and> db_ok (\<lambda>n. n) Z' db' \<and>
     doms Z' db' = {2})"
proof -
  have "\<forall>fn mtime sc. Some (''zone.xml'', 5, new_conf) = Some (fn, mtime, sc) \<longrightarrow> fits (soa_min sc)"
    by (simp add: new_conf_def fits_def hours_of_def)
  moreover have "doms hour_zone live_db = {2}" using live_nodes(2) by (simp add: dom_nodes_def hour_zone_def)
  ultimately show ?thesis using tools_signconf_consistent [OF hour_zone_ok(1,3,2)] new_conf_loaded by metis
qed

end
