(* ===== verification/Tsig.thy ===== *)
theory Tsig
  imports Buffer_Props Acl
begin

text \<open>
  Transaction signatures, \<^verbatim>\<open>signer/src/wire/tsig.c\<close>: the tables of keys and algorithms, and
  parsing, checking, signing and appending the TSIG record of a packet.  The digest functions of
  OpenSSL are the parameter \<open>hmac\<close>, a function of the digest, the key and the message; the
  functions of \<^verbatim>\<open>tsig-openssl.c\<close> are the operations on a context that collects the message.
  The library calls \<^verbatim>\<open>ldns_dname_new_frm_data\<close>, \<^verbatim>\<open>ldns_dname_compare\<close>, \<^verbatim>\<open>b64_pton\<close> and the
  current time are arguments.
\<close>

section \<open>Keys and algorithms\<close>

type_synonym u64 = "64 word"

definition TSIG_ERROR_BADSIG :: u16 where "TSIG_ERROR_BADSIG = 16"
definition TSIG_ERROR_BADKEY :: u16 where "TSIG_ERROR_BADKEY = 17"
definition TSIG_ERROR_BADTIME :: u16 where "TSIG_ERROR_BADTIME = 18"
definition TSIG_SIGNED_TIME_FUDGE :: u16 where "TSIG_SIGNED_TIME_FUDGE = 300"
definition LDNS_RR_TYPE_TSIG :: u16 where "LDNS_RR_TYPE_TSIG = 250"
definition LDNS_RR_CLASS_ANY :: u16 where "LDNS_RR_CLASS_ANY = 255"
definition LDNS_RCODE_FORMERR :: u16 where "LDNS_RCODE_FORMERR = 1"
definition EVP_MAX_MD_SIZE :: nat where "EVP_MAX_MD_SIZE = 64"

text \<open>
  A key whose secret could not be decoded is used although its name and data have been freed:
  \<open>key_freed\<close> marks it, and reading its name or its data is a \<open>Fault\<close>.
\<close>

record tsig_key =
  key_wire :: "u8 list"
  key_data :: "u8 list"
  key_freed :: bool

record tsig_algo =
  txt_name :: string
  wf_name :: "u8 list"
  max_digest_size :: nat
  digest :: nat

record tsig_handler =
  tsig_key_table :: "tsig_key list"
  tsig_algo_table :: "tsig_algo list"
  max_algo_digest_size :: nat

definition tsig_handler_add_key :: "tsig_key option \<Rightarrow> tsig_handler \<Rightarrow> tsig_handler" where
  "tsig_handler_add_key key h =
    (case key of None \<Rightarrow> h | Some k \<Rightarrow> h\<lparr>tsig_key_table := k # tsig_key_table h\<rparr>)"

definition tsig_handler_add_algo :: "tsig_algo option \<Rightarrow> tsig_handler \<Rightarrow> tsig_handler" where
  "tsig_handler_add_algo algo h =
    (case algo of None \<Rightarrow> h
     | Some a \<Rightarrow>
        (let h = h\<lparr>tsig_algo_table := a # tsig_algo_table h\<rparr>
         in if max_digest_size a > max_algo_digest_size h
            then h\<lparr>max_algo_digest_size := max_digest_size a\<rparr> else h))"

definition tsig_openssl_init_algorithm ::
  "(string \<Rightarrow> nat option) \<Rightarrow> (string \<Rightarrow> u8 list option) \<Rightarrow> string \<Rightarrow> string \<Rightarrow> string \<Rightarrow>
   tsig_handler \<Rightarrow> bool \<times> tsig_handler" where
  "tsig_openssl_init_algorithm evp dname_frm_str dg name wireformat h =
    (case evp dg of
       None \<Rightarrow> (False, h)
     | Some md \<Rightarrow>
        (case dname_frm_str wireformat of
           None \<Rightarrow> (False, h)
         | Some wn \<Rightarrow>
            (True, tsig_handler_add_algo
               (Some \<lparr>txt_name = name, wf_name = wn, max_digest_size = EVP_MAX_MD_SIZE,
                      digest = md\<rparr>) h)))"

text \<open>\<open>sha1\<close> and \<open>sha256\<close> tell whether \<^verbatim>\<open>HAVE_EVP_SHA1\<close> and \<^verbatim>\<open>HAVE_EVP_SHA256\<close> are defined.\<close>

definition tsig_handler_openssl_init ::
  "bool \<Rightarrow> bool \<Rightarrow> (string \<Rightarrow> nat option) \<Rightarrow> (string \<Rightarrow> u8 list option) \<Rightarrow> tsig_handler \<Rightarrow>
   ods_status \<times> tsig_handler" where
  "tsig_handler_openssl_init sha1 sha256 evp dname_frm_str h =
    (case tsig_openssl_init_algorithm evp dname_frm_str ''md5'' ''hmac-md5''
            ''hmac-md5.sig-alg.reg.int.'' h of
       (False, h) \<Rightarrow> (ODS_STATUS_ERR, h)
     | (True, h) \<Rightarrow>
        (case (if sha1 then tsig_openssl_init_algorithm evp dname_frm_str ''sha1'' ''hmac-sha1''
                              ''hmac-sha1.'' h
               else (True, h)) of
           (False, h) \<Rightarrow> (ODS_STATUS_ERR, h)
         | (True, h) \<Rightarrow>
            (case (if sha256 then tsig_openssl_init_algorithm evp dname_frm_str ''sha256''
                                    ''hmac-sha256'' ''hmac-sha256.'' h
                   else (True, h)) of
               (False, h) \<Rightarrow> (ODS_STATUS_ERR, h)
             | (True, h) \<Rightarrow> (ODS_STATUS_OK, h))))"

definition tsig_handler_init ::
  "bool \<Rightarrow> bool \<Rightarrow> bool \<Rightarrow> (string \<Rightarrow> nat option) \<Rightarrow> (string \<Rightarrow> u8 list option) \<Rightarrow> tsig_handler \<Rightarrow>
   ods_status \<times> tsig_handler" where
  "tsig_handler_init have_ssl sha1 sha256 evp dname_frm_str h =
    (let h = h\<lparr>tsig_key_table := [], tsig_algo_table := []\<rparr>
     in if have_ssl then tsig_handler_openssl_init sha1 sha256 evp dname_frm_str h
        else (ODS_STATUS_OK, h))"

definition util_b64_pton_calculate_size :: "nat \<Rightarrow> nat" where
  "util_b64_pton_calculate_size srcsize = (srcsize + 3) div 4 * 3 + 1"

text \<open>
  \<open>b64\<close> is \<^verbatim>\<open>b64_pton\<close>: the decoded bytes, or \<open>None\<close> for -1.  The code has no return in the
  branch for -1, so the freed name and data become those of the new key.
\<close>

definition tsig_key_create ::
  "(string \<Rightarrow> u8 list option) \<Rightarrow> (string \<Rightarrow> nat \<Rightarrow> u8 list option) \<Rightarrow> string \<Rightarrow> string \<Rightarrow>
   tsig_handler \<Rightarrow> tsig_key option \<times> tsig_handler" where
  "tsig_key_create dname_frm_str b64 name secret h =
    (case dname_frm_str name of
       None \<Rightarrow> (None, h)
     | Some dname \<Rightarrow>
        (let key = (case b64 secret (util_b64_pton_calculate_size (length secret)) of
                      Some bytes \<Rightarrow> \<lparr>key_wire = dname, key_data = bytes, key_freed = False\<rparr>
                    | None \<Rightarrow> \<lparr>key_wire = dname, key_data = [], key_freed = True\<rparr>)
         in (Some key, tsig_handler_add_key (Some key) h)))"

fun tsig_lookup_algo :: "string \<Rightarrow> tsig_algo list \<Rightarrow> tsig_algo option" where
  "tsig_lookup_algo name [] = None"
| "tsig_lookup_algo name (a # table) =
    (if ods_strlowercmp name (txt_name a) = 0 then Some a else tsig_lookup_algo name table)"

section \<open>The digest context\<close>

text \<open>
  A context is created idle, opened for a digest and a key by \<^verbatim>\<open>HMAC_Init_ex\<close>, collects the
  message, and is idle again after \<^verbatim>\<open>HMAC_Final\<close>; using an idle context is a \<open>Fault\<close>.
\<close>

datatype hmac_ctx = Ctx_Idle | Ctx_Open nat "u8 list" "u8 list"

definition init_context :: "tsig_algo \<Rightarrow> tsig_key \<Rightarrow> hmac_ctx exec" where
  "init_context algo key =
    (if key_freed key then Fault else Ok (Ctx_Open (digest algo) (key_data key) []))"

fun ctx_update :: "hmac_ctx \<Rightarrow> u8 list \<Rightarrow> hmac_ctx exec" where
  "ctx_update (Ctx_Open md k msg) bytes = Ok (Ctx_Open md k (msg @ bytes))"
| "ctx_update Ctx_Idle bytes = Fault"

fun ctx_final :: "(nat \<Rightarrow> u8 list \<Rightarrow> u8 list \<Rightarrow> u8 list) \<Rightarrow> hmac_ctx \<Rightarrow> (u8 list \<times> hmac_ctx) exec" where
  "ctx_final hmac (Ctx_Open md k msg) = Ok (hmac md k msg, Ctx_Idle)"
| "ctx_final hmac Ctx_Idle = Fault"

section \<open>The TSIG record\<close>

text \<open>
  \<^verbatim>\<open>mac_data\<close> is null, a copy of the bytes of a packet, or the pointer \<^verbatim>\<open>prior_mac_data\<close>, which
  \<^verbatim>\<open>tsig_rr_sign\<close> stores in it.
\<close>

datatype mac_ref = Mac_Null | Mac_Own "u8 list" | Mac_Prior

record trr =
  trr_status :: tsig_status
  trr_position :: nat
  trr_response_count :: nat
  trr_update_since_last_prepare :: nat
  trr_context :: "hmac_ctx option"
  trr_algo :: "tsig_algo option"
  trr_key :: "tsig_key option"
  trr_prior_mac_size :: nat
  trr_prior_mac_data :: "u8 list option"
  trr_key_name :: "u8 list option"
  trr_algo_name :: "u8 list option"
  trr_signed_time_high :: u16
  trr_signed_time_low :: u32
  trr_signed_time_fudge :: u16
  trr_mac_size :: u16
  trr_mac_data :: mac_ref
  trr_original_query_id :: u16
  trr_error_code :: u16
  trr_other_size :: u16
  trr_other_data :: "u8 list option"

text \<open>
  \<^verbatim>\<open>tsig_rr_reset\<close> frees and clears all fields, so it does not depend on the old record;
  \<^verbatim>\<open>tsig_rr_create\<close> ends in it.
\<close>

definition tsig_rr_free :: "trr \<Rightarrow> trr" where
  "tsig_rr_free t = t\<lparr>trr_key_name := None, trr_algo_name := None, trr_mac_data := Mac_Null,
     trr_other_data := None\<rparr>"

definition tsig_rr_reset :: "tsig_algo option \<Rightarrow> tsig_key option \<Rightarrow> trr \<Rightarrow> trr" where
  "tsig_rr_reset algo key t =
    (tsig_rr_free t)\<lparr>trr_status := TSIG_NOT_PRESENT, trr_position := 0, trr_response_count := 0,
       trr_update_since_last_prepare := 0, trr_context := None, trr_algo := algo, trr_key := key,
       trr_prior_mac_size := 0, trr_prior_mac_data := None, trr_signed_time_high := 0,
       trr_signed_time_low := 0, trr_signed_time_fudge := 0, trr_mac_size := 0,
       trr_original_query_id := 0, trr_error_code := 0, trr_other_size := 0\<rparr>"

definition tsig_rr_create :: trr where
  "tsig_rr_create =
    tsig_rr_reset None None
      \<lparr>trr_status = TSIG_NOT_PRESENT, trr_position = 0, trr_response_count = 0,
       trr_update_since_last_prepare = 0, trr_context = None, trr_algo = None, trr_key = None,
       trr_prior_mac_size = 0, trr_prior_mac_data = None, trr_key_name = None,
       trr_algo_name = None, trr_signed_time_high = 0, trr_signed_time_low = 0,
       trr_signed_time_fudge = 0, trr_mac_size = 0, trr_mac_data = Mac_Null,
       trr_original_query_id = 0, trr_error_code = 0, trr_other_size = 0, trr_other_data = None\<rparr>"

text \<open>
  Parsing.  Every failure sets the position of the buffer back; \<^verbatim>\<open>curpos\<close> and \<^verbatim>\<open>dname_len\<close> are
  16-bit variables.  The copy of a name by \<^verbatim>\<open>ldns_dname_new_frm_data\<close> is the parameter \<open>dn\<close>.
\<close>

definition parse_back :: "bool \<Rightarrow> trr \<Rightarrow> buffer \<Rightarrow> (bool \<times> trr \<times> buffer) exec" where
  "parse_back r t b = exec_bind (buffer_set_position (trr_position t) b) (\<lambda>b. Ok (r, t, b))"

text \<open>
  The two names of the record are read by the same statements: skip the name to learn its
  length, go back, copy the bytes, go forward.
\<close>

definition parse_name ::
  "(u8 list \<Rightarrow> u8 list option) \<Rightarrow> nat \<Rightarrow> buffer \<Rightarrow> (u8 list option \<times> buffer) exec" where
  "parse_name dn curpos b =
    exec_bind (buffer_skip_dname b) (\<lambda>(ok, b).
    if \<not> ok then Ok (None, b)
    else let dname_len = nat ((int (buf_position b) - int curpos) mod 2 ^ 16) in
    exec_bind (buffer_set_position curpos b) (\<lambda>b.
    exec_bind (buffer_current b) (\<lambda>at.
    exec_bind (mem_read (buf_data b) at dname_len) (\<lambda>bytes.
    case dn bytes of
      None \<Rightarrow> Ok (None, b)
    | Some name \<Rightarrow>
        exec_bind (buffer_set_position (curpos + dname_len) b) (\<lambda>b. Ok (Some name, b))))))"

text \<open>The fields after the algorithm name, up to the end of the record.\<close>

definition tsig_rr_parse_rdata :: "trr \<Rightarrow> buffer \<Rightarrow> (bool \<times> trr \<times> buffer) exec" where
  "tsig_rr_parse_rdata t b =
    exec_bind (buffer_available 10 b) (\<lambda>ok.
    if \<not> ok then parse_back False t b
    else exec_bind (buffer_read_u16 b) (\<lambda>(high, b).
    exec_bind (buffer_read_u32 b) (\<lambda>(low, b).
    exec_bind (buffer_read_u16 b) (\<lambda>(fudge, b).
    exec_bind (buffer_read_u16 b) (\<lambda>(mac_size, b).
    let t = t\<lparr>trr_signed_time_high := high, trr_signed_time_low := low,
              trr_signed_time_fudge := fudge, trr_mac_size := mac_size\<rparr> in
    exec_bind (buffer_available (unat mac_size) b) (\<lambda>ok.
    if \<not> ok then parse_back False (t\<lparr>trr_mac_size := 0\<rparr>) b
    else exec_bind (buffer_current b) (\<lambda>at.
    exec_bind (mem_read (buf_data b) at (unat mac_size)) (\<lambda>mac.
    let t = t\<lparr>trr_mac_data := Mac_Own mac\<rparr> in
    exec_bind (buffer_skip (int (unat mac_size)) b) (\<lambda>b.
    exec_bind (buffer_available 6 b) (\<lambda>ok.
    if \<not> ok then parse_back False t b
    else exec_bind (buffer_read_u16 b) (\<lambda>(original_query_id, b).
    exec_bind (buffer_read_u16 b) (\<lambda>(error_code, b).
    exec_bind (buffer_read_u16 b) (\<lambda>(other_size, b).
    let t = t\<lparr>trr_original_query_id := original_query_id, trr_error_code := error_code,
              trr_other_size := other_size\<rparr> in
    exec_bind (buffer_available (unat other_size) b) (\<lambda>ok.
    if \<not> ok \<or> unat other_size > 16 then parse_back False (t\<lparr>trr_other_size := 0\<rparr>) b
    else exec_bind (buffer_current b) (\<lambda>at.
    exec_bind (mem_read (buf_data b) at (unat other_size)) (\<lambda>other.
    exec_bind (buffer_skip (int (unat other_size)) b) (\<lambda>b.
    Ok (True, t\<lparr>trr_other_data := Some other, trr_status := TSIG_OK\<rparr>, b))))))))))))))))))"

definition tsig_rr_parse ::
  "(u8 list \<Rightarrow> u8 list option) \<Rightarrow> trr \<Rightarrow> buffer \<Rightarrow> (bool \<times> trr \<times> buffer) exec" where
  "tsig_rr_parse dn t b =
    (let t = t\<lparr>trr_status := TSIG_NOT_PRESENT, trr_position := buf_position b\<rparr> in
     exec_bind (parse_name dn (trr_position t mod 2 ^ 16) b) (\<lambda>(name, b).
     case name of None \<Rightarrow> parse_back False t b | Some kn \<Rightarrow>
     let t = t\<lparr>trr_key_name := Some kn\<rparr> in
     exec_bind (buffer_available 10 b) (\<lambda>ok.
     if \<not> ok then parse_back False t b
     else exec_bind (buffer_read_u16 b) (\<lambda>(type, b).
     exec_bind (buffer_read_u16 b) (\<lambda>(klass, b).
     if type \<noteq> LDNS_RR_TYPE_TSIG \<or> klass \<noteq> LDNS_RR_CLASS_ANY then parse_back True t b
     else exec_bind (buffer_read_u32 b) (\<lambda>(ttl, b).
     exec_bind (buffer_read_u16 b) (\<lambda>(rdlen, b).
     let t = t\<lparr>trr_status := TSIG_ERROR, trr_error_code := LDNS_RCODE_FORMERR\<rparr> in
     exec_bind (buffer_available (unat rdlen) b) (\<lambda>ok.
     if ttl \<noteq> 0 \<or> \<not> ok then parse_back False t b
     else exec_bind (parse_name dn (buf_position b mod 2 ^ 16) b) (\<lambda>(name, b).
     case name of None \<Rightarrow> parse_back False t b | Some an \<Rightarrow>
     tsig_rr_parse_rdata (t\<lparr>trr_algo_name := Some an\<rparr>) b)))))))))"

text \<open>
  Finding the record: it is the last one of the packet.  The counts of the header are 16-bit
  values that C promotes to \<^verbatim>\<open>int\<close>; \<open>skip_rrs\<close> is the loop over the records before it.
\<close>

fun skip_rrs :: "nat \<Rightarrow> nat \<Rightarrow> nat \<Rightarrow> buffer \<Rightarrow> (bool \<times> buffer) exec" where
  "skip_rrs 0 i qdcount b = Ok (True, b)"
| "skip_rrs (Suc n) i qdcount b =
    exec_bind (buffer_skip_rr (i < qdcount) b) (\<lambda>(ok, b).
    if ok then skip_rrs n (i + 1) qdcount b else Ok (False, b))"

definition tsig_rr_find ::
  "(u8 list \<Rightarrow> u8 list option) \<Rightarrow> trr \<Rightarrow> buffer \<Rightarrow> (bool \<times> trr \<times> buffer) exec" where
  "tsig_rr_find dn t b =
    exec_bind (buffer_pkt_arcount b) (\<lambda>ar.
    if ar = 0 then Ok (True, t\<lparr>trr_status := TSIG_NOT_PRESENT\<rparr>, b)
    else let saved_pos = buf_position b in
    exec_bind (buffer_pkt_qdcount b) (\<lambda>qd.
    exec_bind (buffer_pkt_ancount b) (\<lambda>an.
    exec_bind (buffer_pkt_nscount b) (\<lambda>ns.
    let rrcount = unat qd + unat an + unat ns + unat ar in
    exec_bind (buffer_set_position BUFFER_PKT_HEADER_SIZE b) (\<lambda>b.
    exec_bind (skip_rrs (rrcount - 1) 0 (unat qd) b) (\<lambda>(ok, b).
    if \<not> ok then exec_bind (buffer_set_position saved_pos b) (\<lambda>b. Ok (False, t, b))
    else exec_bind (tsig_rr_parse dn t b) (\<lambda>(result, t, b).
    exec_bind (buffer_set_position saved_pos b) (\<lambda>b. Ok (result, t, b)))))))))"

text \<open>
  Looking up the key and the algorithm of a request.  The loops stop at the first entry with an
  equal name.  The times are 64-bit and wrap around.
\<close>

fun find_key :: "(u8 list \<Rightarrow> u8 list \<Rightarrow> int) \<Rightarrow> u8 list \<Rightarrow> tsig_key list \<Rightarrow> tsig_key option exec" where
  "find_key dc name [] = Ok None"
| "find_key dc name (k # table) =
    (if key_freed k then Fault
     else if dc name (key_wire k) = 0 then Ok (Some k) else find_key dc name table)"

fun find_algo :: "(u8 list \<Rightarrow> u8 list \<Rightarrow> int) \<Rightarrow> u8 list \<Rightarrow> tsig_algo list \<Rightarrow> tsig_algo option" where
  "find_algo dc name [] = None"
| "find_algo dc name (a # table) =
    (if dc name (wf_name a) = 0 then Some a else find_algo dc name table)"

definition signed_time :: "trr \<Rightarrow> u64" where
  "signed_time t = push_bit 32 (ucast (trr_signed_time_high t)) OR ucast (trr_signed_time_low t)"

definition tsig_rr_lookup ::
  "(u8 list \<Rightarrow> u8 list \<Rightarrow> int) \<Rightarrow> tsig_handler \<Rightarrow> time_t \<Rightarrow> trr \<Rightarrow> (bool \<times> trr) exec" where
  "tsig_rr_lookup dc h now t =
    ods_log_assert (trr_status t = TSIG_OK) (ods_log_assert (trr_algo t = None)
    (ods_log_assert (trr_key t = None)
    (case (trr_key_name t, trr_algo_name t) of (Some kn, Some an) \<Rightarrow>
      exec_bind (find_key dc kn (tsig_key_table h)) (\<lambda>key.
      case (key, find_algo dc an (tsig_algo_table h)) of
        (Some key, Some alg) \<Rightarrow>
          (let current_time = of_int now :: u64; fudge = ucast (trr_signed_time_fudge t) in
           if current_time < signed_time t - fudge \<or> current_time > signed_time t + fudge
           then Ok (False, t\<lparr>trr_error_code := TSIG_ERROR_BADTIME, trr_other_size := 6,
                  trr_other_data := Some (write_uint16 (ucast (drop_bit 32 current_time)) @
                                          write_uint32 (ucast current_time))\<rparr>)
           else Ok (True, t\<lparr>trr_algo := Some alg, trr_key := Some key,
                  trr_response_count := 0, trr_prior_mac_size := 0\<rparr>))
      | _ \<Rightarrow> Ok (False, t\<lparr>trr_error_code := TSIG_ERROR_BADKEY\<rparr>))
     | _ \<Rightarrow> Fault)))"

section \<open>Signing and verifying\<close>

definition trr_update :: "u8 list \<Rightarrow> trr \<Rightarrow> trr exec" where
  "trr_update bytes t =
    (case trr_context t of None \<Rightarrow> Fault
     | Some ctx \<Rightarrow> exec_bind (ctx_update ctx bytes) (\<lambda>ctx. Ok (t\<lparr>trr_context := Some ctx\<rparr>)))"

definition tsig_rr_prepare :: "trr \<Rightarrow> trr exec" where
  "tsig_rr_prepare t =
    (case (trr_algo t, trr_key t) of
       (Some algo, Some key) \<Rightarrow>
        (let t = (if trr_context t = None
                  then t\<lparr>trr_context := Some Ctx_Idle,
                         trr_prior_mac_data := Some (replicate (max_digest_size algo) 0)\<rparr>
                  else t) in
         exec_bind (init_context algo key) (\<lambda>ctx.
         let t = t\<lparr>trr_context := Some ctx\<rparr> in
         exec_bind
           (if trr_prior_mac_size t > 0
            then exec_bind (trr_update (write_uint16 (of_nat (trr_prior_mac_size t))) t) (\<lambda>t.
                 case trr_prior_mac_data t of None \<Rightarrow> Fault
                 | Some d \<Rightarrow> exec_bind (mem_read d 0 (trr_prior_mac_size t)) (\<lambda>mac. trr_update mac t))
            else Ok t) (\<lambda>t.
         Ok (t\<lparr>trr_update_since_last_prepare := 0\<rparr>))))
     | (None, _) \<Rightarrow> Abort
     | (Some _, None) \<Rightarrow> Fault)"

definition tsig_rr_update :: "nat \<Rightarrow> buffer \<Rightarrow> trr \<Rightarrow> trr exec" where
  "tsig_rr_update len b t =
    ods_log_assert (trr_algo t \<noteq> None) (ods_log_assert (trr_context t \<noteq> None)
    (ods_log_assert (len \<le> buf_limit b)
    (exec_bind (trr_update (write_uint16 (trr_original_query_id t)) t) (\<lambda>t.
     exec_bind (buffer_at 2 b) (\<lambda>at.
     if len < 2 then Fault
     else exec_bind (mem_read (buf_data b) at (len - 2)) (\<lambda>bytes.
     exec_bind (trr_update bytes t) (\<lambda>t.
     exec_bind (buffer_pkt_qr b) (\<lambda>qr.
     let t = (if qr then t\<lparr>trr_response_count := trr_response_count t + 1\<rparr> else t)
     in Ok (t\<lparr>trr_update_since_last_prepare := trr_update_since_last_prepare t + 1\<rparr>)))))))))"

text \<open>\<^verbatim>\<open>hmac_update\<close> of the other data, of which nothing is read when its size is 0.\<close>

definition other_bytes :: "trr \<Rightarrow> u8 list exec" where
  "other_bytes t =
    (case trr_other_data t of
       None \<Rightarrow> if trr_other_size t = 0 then Ok [] else Fault
     | Some d \<Rightarrow> mem_read d 0 (unat (trr_other_size t)))"

definition tsig_rr_digest_variables :: "bool \<Rightarrow> trr \<Rightarrow> trr exec" where
  "tsig_rr_digest_variables tsig_timers_only t =
    ods_log_assert (trr_context t \<noteq> None) (ods_log_assert (trr_algo t \<noteq> None)
    (case trr_key_name t of None \<Rightarrow> Abort | Some kn \<Rightarrow>
     exec_bind
       (if \<not> tsig_timers_only
        then case trr_algo_name t of None \<Rightarrow> Abort
             | Some an \<Rightarrow>
               exec_bind (trr_update kn t) (\<lambda>t.
               exec_bind (trr_update (write_uint16 LDNS_RR_CLASS_ANY) t) (\<lambda>t.
               exec_bind (trr_update (write_uint32 0) t) (trr_update an)))
        else Ok t) (\<lambda>t.
     exec_bind (trr_update (write_uint16 (trr_signed_time_high t)) t) (\<lambda>t.
     exec_bind (trr_update (write_uint32 (trr_signed_time_low t)) t) (\<lambda>t.
     exec_bind (trr_update (write_uint16 (trr_signed_time_fudge t)) t) (\<lambda>t.
     if \<not> tsig_timers_only
     then exec_bind (trr_update (write_uint16 (trr_error_code t)) t) (\<lambda>t.
          exec_bind (trr_update (write_uint16 (trr_other_size t)) t) (\<lambda>t.
          exec_bind (other_bytes t) (\<lambda>other. trr_update other t)))
     else Ok t))))))"

text \<open>\<^verbatim>\<open>hmac_final\<close> stores the digest in \<^verbatim>\<open>prior_mac_data\<close> and its length in \<^verbatim>\<open>prior_mac_size\<close>.\<close>

definition trr_final :: "(nat \<Rightarrow> u8 list \<Rightarrow> u8 list \<Rightarrow> u8 list) \<Rightarrow> trr \<Rightarrow> trr exec" where
  "trr_final hmac t =
    (case (trr_context t, trr_prior_mac_data t) of
       (Some ctx, Some d) \<Rightarrow>
         exec_bind (ctx_final hmac ctx) (\<lambda>(mac, ctx).
         exec_bind (mem_write d 0 mac) (\<lambda>d.
         Ok (t\<lparr>trr_context := Some ctx, trr_prior_mac_data := Some d,
               trr_prior_mac_size := length mac\<rparr>)))
     | _ \<Rightarrow> Fault)"

definition tsig_rr_sign ::
  "(nat \<Rightarrow> u8 list \<Rightarrow> u8 list \<Rightarrow> u8 list) \<Rightarrow> time_t \<Rightarrow> trr \<Rightarrow> trr exec" where
  "tsig_rr_sign hmac now t =
    ods_log_assert (trr_context t \<noteq> None)
    (let current_time = of_int now :: u64;
         t = t\<lparr>trr_signed_time_high := ucast (drop_bit 32 current_time),
               trr_signed_time_low := ucast current_time,
               trr_signed_time_fudge := TSIG_SIGNED_TIME_FUDGE\<rparr> in
     exec_bind (tsig_rr_digest_variables (trr_response_count t > 1) t) (\<lambda>t.
     exec_bind (trr_final hmac t) (\<lambda>t.
     Ok (t\<lparr>trr_mac_size := of_nat (trr_prior_mac_size t), trr_mac_data := Mac_Prior\<rparr>))))"

text \<open>The first \<open>n\<close> bytes \<^verbatim>\<open>mac_data\<close> points at; a null pointer is not read when \<open>n\<close> is 0.\<close>

definition mac_bytes :: "nat \<Rightarrow> trr \<Rightarrow> u8 list exec" where
  "mac_bytes n t =
    (case trr_mac_data t of
       Mac_Null \<Rightarrow> if n = 0 then Ok [] else Fault
     | Mac_Own d \<Rightarrow> mem_read d 0 n
     | Mac_Prior \<Rightarrow> (case trr_prior_mac_data t of None \<Rightarrow> Fault | Some d \<Rightarrow> mem_read d 0 n))"

definition prior_bytes :: "nat \<Rightarrow> trr \<Rightarrow> u8 list exec" where
  "prior_bytes n t = (case trr_prior_mac_data t of None \<Rightarrow> Fault | Some d \<Rightarrow> mem_read d 0 n)"

definition tsig_rr_verify ::
  "(nat \<Rightarrow> u8 list \<Rightarrow> u8 list \<Rightarrow> u8 list) \<Rightarrow> trr \<Rightarrow> (bool \<times> trr) exec" where
  "tsig_rr_verify hmac t =
    ods_log_assert (trr_algo t \<noteq> None)
    (exec_bind (tsig_rr_digest_variables (trr_response_count t > 1) t) (\<lambda>t.
     exec_bind (trr_final hmac t) (\<lambda>t.
     let bad = Ok (False, t\<lparr>trr_error_code := TSIG_ERROR_BADSIG\<rparr>) in
     if unat (trr_mac_size t) \<noteq> trr_prior_mac_size t then bad
     else exec_bind (mac_bytes (unat (trr_mac_size t)) t) (\<lambda>mac.
     exec_bind (prior_bytes (unat (trr_mac_size t)) t) (\<lambda>prior.
     if mac \<noteq> prior then bad else Ok (True, t))))))"

definition write_name :: "u8 list option \<Rightarrow> buffer \<Rightarrow> buffer exec" where
  "write_name name b =
    (case name of Some d \<Rightarrow> buffer_write_rdf d b | None \<Rightarrow> buffer_write_u8 0 b)"

definition tsig_rr_append :: "trr \<Rightarrow> buffer \<Rightarrow> buffer exec" where
  "tsig_rr_append t b =
    exec_bind (write_name (trr_key_name t) b) (\<lambda>b.
    exec_bind (buffer_write_u16 LDNS_RR_TYPE_TSIG b) (\<lambda>b.
    exec_bind (buffer_write_u16 LDNS_RR_CLASS_ANY b) (\<lambda>b.
    exec_bind (buffer_write_u32 0 b) (\<lambda>b.
    let rdlength_pos = buf_position b in
    exec_bind (buffer_skip 2 b) (\<lambda>b.
    exec_bind (write_name (trr_algo_name t) b) (\<lambda>b.
    exec_bind (buffer_write_u16 (trr_signed_time_high t) b) (\<lambda>b.
    exec_bind (buffer_write_u32 (trr_signed_time_low t) b) (\<lambda>b.
    exec_bind (buffer_write_u16 (trr_signed_time_fudge t) b) (\<lambda>b.
    exec_bind (buffer_write_u16 (trr_mac_size t) b) (\<lambda>b.
    exec_bind (mac_bytes (unat (trr_mac_size t)) t) (\<lambda>mac.
    exec_bind (buffer_write mac b) (\<lambda>b.
    exec_bind (buffer_write_u16 (trr_original_query_id t) b) (\<lambda>b.
    exec_bind (buffer_write_u16 (trr_error_code t) b) (\<lambda>b.
    exec_bind (buffer_write_u16 (trr_other_size t) b) (\<lambda>b.
    exec_bind (other_bytes t) (\<lambda>other.
    exec_bind (buffer_write other b) (\<lambda>b.
    buffer_write_u16_at rdlength_pos (of_nat (buf_position b - rdlength_pos - 2)) b)))))))))))))))))"

definition tsig_rr_reserved_space :: "tsig_handler \<Rightarrow> trr option \<Rightarrow> nat" where
  "tsig_rr_reserved_space h trr =
    (case trr of None \<Rightarrow> 0
     | Some t \<Rightarrow>
       if trr_status t = TSIG_NOT_PRESENT then 0
       else (case trr_key_name t of Some d \<Rightarrow> length d | None \<Rightarrow> 1) + 2 + 2 + 4 + 2
          + (case trr_algo_name t of Some d \<Rightarrow> length d | None \<Rightarrow> 1) + 2 + 4 + 2 + 2
          + max_algo_digest_size h + 2 + 2 + 2 + unat (trr_other_size t))"

text \<open>
  \<^verbatim>\<open>tsig_rr_error\<close> overwrites the digest with zeroes; when \<^verbatim>\<open>mac_data\<close> is \<^verbatim>\<open>prior_mac_data\<close> that is
  the digest it overwrites.
\<close>

definition tsig_rr_error :: "trr \<Rightarrow> trr exec" where
  "tsig_rr_error t =
    (let zeros = replicate (unat (trr_mac_size t)) 0 in
     exec_bind
       (case trr_mac_data t of
          Mac_Null \<Rightarrow> Ok t
        | Mac_Own d \<Rightarrow> exec_bind (mem_write d 0 zeros) (\<lambda>d. Ok (t\<lparr>trr_mac_data := Mac_Own d\<rparr>))
        | Mac_Prior \<Rightarrow>
           (case trr_prior_mac_data t of None \<Rightarrow> Fault
            | Some d \<Rightarrow> exec_bind (mem_write d 0 zeros) (\<lambda>d.
                Ok (t\<lparr>trr_prior_mac_data := Some d\<rparr>)))) (\<lambda>t.
     Ok (t\<lparr>trr_mac_size := 0\<rparr>)))"

text \<open>What the access control lists read of the record.\<close>

definition acl_view :: "trr \<Rightarrow> u8 list tsig_rr" where
  "acl_view t = \<lparr>status = trr_status t, error_code = trr_error_code t, key_name = trr_key_name t,
     algo_txt_name = map_option txt_name (trr_algo t)\<rparr>"
end
