(* ===== verification/Cursor.thy ===== *)
theory Cursor
  imports Buffer_Props
begin

text \<open>
  Reading a packet whose next bytes are known: \<open>ahead bs b\<close> says that the bytes \<open>bs\<close> lie between
  the position and the limit of the buffer \<open>b\<close>.  Each reading operation consumes its part of them.
\<close>

section \<open>Evaluation\<close>

text \<open>The numbers of a packet as arithmetic, which evaluates faster than shifts.\<close>

lemma read_uint16_code [code]: "read_uint16 p = word_of_int (uint (p ! 0) * 256 + uint (p ! 1))"
proof -
  have "read_uint16 p = ucast (p ! 0) * 2 ^ 8 + ucast (p ! 1)"
    unfolding read_uint16_def push_bit_eq_mult [symmetric]
    by (subst disjunctive_add [symmetric], auto simp: bit_simps dest: bit_imp_le_length)+
  then show ?thesis by (simp add: algebra_simps)
qed

lemma read_uint32_code [code]:
  "read_uint32 p = word_of_int (((uint (p ! 0) * 256 + uint (p ! 1)) * 256 + uint (p ! 2)) * 256 + uint (p ! 3))"
proof -
  have "read_uint32 p = ucast (p ! 0) * 2 ^ 24 + ucast (p ! 1) * 2 ^ 16 + ucast (p ! 2) * 2 ^ 8 + ucast (p ! 3)"
    unfolding read_uint32_def push_bit_eq_mult [symmetric]
    by (subst disjunctive_add [symmetric], auto simp: bit_simps dest: bit_imp_le_length)+
  then show ?thesis by (simp add: algebra_simps)
qed

definition ahead :: "u8 list \<Rightarrow> buffer \<Rightarrow> bool" where
  "ahead bs b \<longleftrightarrow> buffer_wf b \<and> buf_position b + length bs \<le> buf_limit b \<and>
     take (length bs) (drop (buf_position b) (buf_data b)) = bs"

text \<open>A domain name in wire format, without compression.\<close>

definition wire_name :: "u8 list \<Rightarrow> bool" where
  "wire_name nm \<longleftrightarrow> (\<exists>k. dname_at False nm (length nm) k 0 nm (length nm))"

lemma ahead_wf: "ahead bs b \<Longrightarrow> buffer_wf b"
  by (simp add: ahead_def)

lemma ahead_room: "ahead bs b \<Longrightarrow> buf_position b + length bs \<le> buf_limit b"
  by (simp add: ahead_def)

lemma ahead_Nil [simp]: "ahead [] b \<longleftrightarrow> buffer_wf b"
  by (auto simp: ahead_def buffer_wf_def)

lemma ahead_take: "ahead (xs @ ys) b \<Longrightarrow> take (length xs) (drop (buf_position b) (buf_data b)) = xs"
  unfolding ahead_def by (metis append_eq_conv_conj length_append take_take min.absorb1 le_add1)

lemma ahead_prefix: "ahead (xs @ ys) b \<Longrightarrow> ahead xs b"
  using ahead_take [of xs ys b] by (auto simp: ahead_def)

lemma ahead_advance: "ahead (xs @ ys) b \<Longrightarrow> n = length xs \<Longrightarrow> ahead ys (advance n b)"
proof -
  assume a: "ahead (xs @ ys) b" and n: "n = length xs"
  have "take (length xs + length ys) (drop (buf_position b) (buf_data b)) = xs @ ys"
    using a by (simp add: ahead_def)
  then have "drop (length xs) (take (length xs + length ys) (drop (buf_position b) (buf_data b))) = ys"
    by simp
  then show ?thesis
    using a advance_wf [of b "length xs"] by (simp add: ahead_def n drop_take add.commute add.left_commute)
qed

lemma ahead_available: "ahead bs b \<Longrightarrow> n \<le> length bs \<Longrightarrow> buffer_available n b = Ok True"
  by (auto simp: ahead_def buffer_available_eval)

lemma ahead_u16:
  "ahead (write_uint16 v @ bs) b \<Longrightarrow> buffer_read_u16 b = Ok (v, advance 2 b)"
  using ahead_take [of "write_uint16 v" bs b] ahead_room [of _ b] ahead_wf [of _ b]
  by (fastforce simp: buffer_read_u16_eval read_write_uint16)

lemma buffer_read_u32_eval [buffer_eval]:
  "buffer_wf b \<Longrightarrow> buf_position b + 4 \<le> buf_limit b \<Longrightarrow>
   buffer_read_u32 b = Ok (read_uint32 (take 4 (drop (buf_position b) (buf_data b))), advance 4 b)"
  by (auto simp: buffer_read_u32_def buffer_read_u32_at_def mem_read_def dest: buffer_wfD)

lemma ahead_u32:
  "ahead (write_uint32 v @ bs) b \<Longrightarrow> buffer_read_u32 b = Ok (v, advance 4 b)"
  using ahead_take [of "write_uint32 v" bs b] ahead_room [of _ b] ahead_wf [of _ b]
  by (fastforce simp: buffer_read_u32_eval read_write_uint32)

lemma ahead_bytes:
  "ahead (xs @ ys) b \<Longrightarrow> n = length xs \<Longrightarrow> mem_read (buf_data b) (buf_position b) n = Ok xs"
  using ahead_take [of xs ys b] ahead_room [of "xs @ ys" b] buffer_wfD(2) [OF ahead_wf, of "xs @ ys" b]
  by (simp add: mem_read_def)

lemma ahead_skip: "ahead bs b \<Longrightarrow> n \<le> length bs \<Longrightarrow> buffer_skip (int n) b = Ok (advance n b)"
  by (auto simp: ahead_def buffer_skip_eval)

lemma ahead_current: "ahead bs b \<Longrightarrow> buffer_current b = Ok (buf_position b)"
  by (simp add: buffer_current_eval ahead_wf)

lemma ahead_dname:
  assumes "wire_name nm" and a: "ahead (nm @ bs) b"
  shows "buffer_skip_dname b = Ok (True, advance (length nm) b)"
proof -
  obtain k where "dname_at False nm (length nm) k 0 nm (length nm)"
    using assms(1) by (auto simp: wire_name_def)
  then have "dname_at True (buf_data b) (buf_limit b) k (buf_position b + 0) nm (buf_position b + length nm)"
    using ahead_take [OF a] ahead_room [OF a] buffer_wfD(2) [OF ahead_wf [OF a]]
    by (intro dname_at_relocate) auto
  then show ?thesis
    using buffer_skip_dname_reads ahead_wf [OF a] by (simp add: advance_def)
qed

text \<open>Writing after what was put: the bytes accumulate.\<close>

named_theorems put_eval \<open>writing behind bytes that were put\<close>

lemma put_write [put_eval]:
  "buffer_wf b \<Longrightarrow> buf_position b + length xs + length ys \<le> buf_limit b \<Longrightarrow>
   buffer_write ys (put xs b) = Ok (put (xs @ ys) b)"
  using buffer_write_put [OF put_wf, of b xs ys] by (simp add: put_put)

lemma put_write_u16 [put_eval]:
  "buffer_wf b \<Longrightarrow> buf_position b + length xs + 2 \<le> buf_limit b \<Longrightarrow>
   buffer_write_u16 v (put xs b) = Ok (put (xs @ write_uint16 v) b)"
  using buffer_write_u16_put [OF put_wf, of b xs v] by (simp add: put_put)

lemma put_write_u32 [put_eval]:
  "buffer_wf b \<Longrightarrow> buf_position b + length xs + 4 \<le> buf_limit b \<Longrightarrow>
   buffer_write_u32 v (put xs b) = Ok (put (xs @ write_uint32 v) b)"
  using buffer_write_u32_put [OF put_wf, of b xs v] by (simp add: put_put)

lemma put_skip2 [put_eval]:
  "buffer_wf b \<Longrightarrow> buf_position b + length xs + 2 \<le> buf_limit b \<Longrightarrow>
   buffer_skip 2 (put xs b) = Ok (advance 2 (put xs b))"
  using buffer_skip_numeral_eval [OF put_wf, of b xs "Num.Bit0 Num.One"] by simp

text \<open>A length field that is skipped first and filled in when the bytes behind it are written.\<close>

lemma put_gap:
  assumes wf: "buffer_wf b" and room: "buf_position b + length xs + 2 + length ys \<le> buf_limit b"
  shows "buffer_write_u16_at (buf_position b + length xs) v (put ys (advance 2 (put xs b))) =
    Ok (put (xs @ write_uint16 v @ ys) b)"
proof -
  have wf1: "buffer_wf (put ys (advance 2 (put xs b)))"
    using room by (intro put_wf advance_wf) (use wf in auto)
  have "patch (patch (patch (buf_data b) (buf_position b) xs) (buf_position b + length xs + 2) ys)
      (buf_position b + length xs) (write_uint16 v) = patch (buf_data b) (buf_position b) (xs @ write_uint16 v @ ys)"
    using patch_gap [of "buf_position b" xs "write_uint16 v" ys "buf_data b"] room buffer_wfD(2) [OF wf]
    by simp
  with buffer_write_u16_at_eval [OF wf1, of "buf_position b + length xs" v] room show ?thesis
    by (simp add: put_def advance_def add.assoc)
qed

lemma wire_name_root: "wire_name [0]"
  unfolding wire_name_def using dname_at.root [of 0 1 "[0]" False] by auto

lemma dname_at_drop:
  "dname_at False d (length d) k 0 d (length d) \<Longrightarrow>
   dname_at False (l @ d) (length (l @ d)) k (length l) d (length (l @ d))"
  using dname_at_relocate [of d k 0 d "length d" "length l" "l @ d" "length (l @ d)" False] by simp

lemma wire_name_label:
  assumes "wire_name nm" and "c AND 0xc0 = 0" and "c \<noteq> 0" and "unat c = length l"
  shows "wire_name (c # l @ nm)"
proof -
  let ?d = "c # l @ nm"
  obtain k where "dname_at False nm (length nm) k 0 nm (length nm)"
    using assms(1) by (auto simp: wire_name_def)
  from dname_at_drop [OF this, of "c # l"]
  have "dname_at False ?d (length ?d) k (length l + 1) nm (length ?d)" by simp
  then have "dname_at False ?d (length ?d) (Suc k) 0 (take (length l + 1) (drop 0 ?d) @ nm) (length ?d)"
    using assms by (intro dname_at.label) (simp_all add: label_is_normal_def)
  then show ?thesis unfolding wire_name_def by (intro exI [of _ "Suc k"]) simp
qed

section \<open>Programs that return\<close>

text \<open>
  \<open>returns m P\<close>: the program \<open>m\<close> returns, neither aborting nor faulting, and \<open>P\<close> holds of what it
  returns.  \<open>moved buf b\<close>: \<open>b\<close> is \<open>buf\<close> up to the position, which is within the limit.
\<close>

definition returns :: "'a exec \<Rightarrow> ('a \<Rightarrow> bool) \<Rightarrow> bool" where
  "returns m P \<longleftrightarrow> (\<exists>x. m = Ok x \<and> P x)"

definition moved :: "buffer \<Rightarrow> buffer \<Rightarrow> bool" where
  "moved buf b \<longleftrightarrow> buffer_wf buf \<and> b = buf\<lparr>buf_position := buf_position b\<rparr> \<and> buf_position b \<le> buf_limit buf"

named_theorems returns_rules \<open>how the operations on packets return\<close>

lemma returns_Ok [simp]: "returns (Ok x) P \<longleftrightarrow> P x"
  by (simp add: returns_def)

lemma returns_bind: "returns m P \<Longrightarrow> (\<And>x. P x \<Longrightarrow> returns (f x) Q) \<Longrightarrow> returns (exec_bind m f) Q"
  by (auto simp: returns_def)

lemma returns_weaken: "returns m P \<Longrightarrow> (\<And>x. P x \<Longrightarrow> Q x) \<Longrightarrow> returns m Q"
  by (auto simp: returns_def)

lemma returnsD: "returns m P \<Longrightarrow> m = Ok x \<Longrightarrow> P x"
  by (simp add: returns_def)

lemma moved_same: "buffer_wf b \<Longrightarrow> moved b b"
  by (simp add: moved_def buffer_wf_def)

lemma moved_wf: "moved buf b \<Longrightarrow> buffer_wf b"
  unfolding moved_def buffer_wf_def by (metis buffer.select_convs(1-4) buffer.surjective buffer.update_convs(1))

lemma moved_eq:
  "moved buf b \<Longrightarrow> buf_limit b = buf_limit buf \<and> buf_data b = buf_data buf \<and> buf_capacity b = buf_capacity buf"
  unfolding moved_def by (metis buffer.select_convs(2-4) buffer.surjective buffer.update_convs(1))

lemma moved_position: "moved buf b \<Longrightarrow> p \<le> buf_limit buf \<Longrightarrow> moved buf (b\<lparr>buf_position := p\<rparr>)"
  unfolding moved_def by (cases buf; cases b) auto

lemma moved_advance: "moved buf b \<Longrightarrow> buf_position b + n \<le> buf_limit buf \<Longrightarrow> moved buf (advance n b)"
  using moved_position [of buf b "buf_position b + n"] by (simp add: advance_def)

lemma moved_restore: "moved buf b \<Longrightarrow> b\<lparr>buf_position := buf_position buf\<rparr> = buf"
  unfolding moved_def by (cases buf; cases b) auto

lemma returns_available [returns_rules]:
  "moved buf b \<Longrightarrow> returns (buffer_available n b) (\<lambda>ok. ok \<longleftrightarrow> buf_position b + n \<le> buf_limit buf)"
  using moved_wf [of buf b] moved_eq [of buf b] by (simp add: buffer_available_eval)

lemma returns_read_u16 [returns_rules]:
  "moved buf b \<Longrightarrow> buf_position b + 2 \<le> buf_limit buf \<Longrightarrow>
   returns (buffer_read_u16 b) (\<lambda>(v, b'). moved buf b' \<and> buf_position b' = buf_position b + 2)"
  using moved_wf [of buf b] moved_eq [of buf b] moved_advance [of buf b 2] by (simp add: buffer_read_u16_eval)

lemma returns_read_u32 [returns_rules]:
  "moved buf b \<Longrightarrow> buf_position b + 4 \<le> buf_limit buf \<Longrightarrow>
   returns (buffer_read_u32 b) (\<lambda>(v, b'). moved buf b' \<and> buf_position b' = buf_position b + 4)"
  using moved_wf [of buf b] moved_eq [of buf b] moved_advance [of buf b 4] by (simp add: buffer_read_u32_eval)

lemma returns_skip [returns_rules]:
  "moved buf b \<Longrightarrow> buf_position b + n \<le> buf_limit buf \<Longrightarrow>
   returns (buffer_skip (int n) b) (\<lambda>b'. moved buf b' \<and> buf_position b' = buf_position b + n)"
  using moved_wf [of buf b] moved_eq [of buf b] moved_advance [of buf b n] by (simp add: buffer_skip_eval)

lemma returns_skip_uint:
  "moved buf b \<Longrightarrow> buf_position b + unat n \<le> buf_limit buf \<Longrightarrow>
   returns (buffer_skip (uint n) b) (\<lambda>b'. moved buf b' \<and> buf_position b' = buf_position b + unat n)"
  using returns_skip [of buf b "unat n"] by simp

lemma returns_set_position [returns_rules]:
  "moved buf b \<Longrightarrow> p \<le> buf_limit buf \<Longrightarrow>
   returns (buffer_set_position p b) (\<lambda>b'. moved buf b' \<and> buf_position b' = p)"
  using moved_eq [of buf b] moved_position [of buf b p] by (simp add: buffer_set_position_eval)

lemma returns_current [returns_rules]:
  "moved buf b \<Longrightarrow> returns (buffer_current b) (\<lambda>i. i = buf_position b)"
  using moved_wf [of buf b] by (simp add: buffer_current_eval)

lemma returns_mem_read [returns_rules]:
  "moved buf b \<Longrightarrow> i + n \<le> buf_limit buf \<Longrightarrow> returns (mem_read (buf_data b) i n) (\<lambda>bs. length bs = n)"
  using moved_eq [of buf b] buffer_wfD(2) [of buf] by (auto simp: mem_read_def moved_def)

lemma returns_skip_dname [returns_rules]:
  "moved buf b \<Longrightarrow>
   returns (buffer_skip_dname b) (\<lambda>(ok, b'). moved buf b' \<and> buf_position b \<le> buf_position b')"
  using buffer_skip_dname_safe [OF moved_wf, of buf b] moved_eq [of buf b] moved_position [of buf b] by auto

lemma returns_skip_rr [returns_rules]:
  assumes m: "moved buf b"
  shows "returns (buffer_skip_rr qrr b) (\<lambda>(ok, b'). moved buf b' \<and> buf_position b \<le> buf_position b')"
proof -
  obtain ok b1 where sk: "buffer_skip_dname b = Ok (ok, b1)" "moved buf b1" "buf_position b \<le> buf_position b1"
    using returns_skip_dname [OF m] by (auto simp: returns_def)
  show ?thesis
    using buffer_skip_rr_eval [OF moved_wf [OF m] sk(1) moved_wf [OF sk(2)], of qrr] sk(2,3) moved_eq [OF sk(2)]
      moved_advance [OF sk(2)] by auto
qed

lemma read_u16_at_eval:
  "buffer_wf b \<Longrightarrow> i + 2 \<le> buf_limit b \<Longrightarrow>
   buffer_read_u16_at i b = Ok (read_uint16 (take 2 (drop i (buf_data b))))"
  by (auto simp: buffer_read_u16_at_def mem_read_def dest: buffer_wfD)

lemmas pkt_counts_def = buffer_pkt_qdcount_def buffer_pkt_ancount_def buffer_pkt_nscount_def
  buffer_pkt_arcount_def

section \<open>Programs that may stop\<close>

text \<open>
  \<open>ensures m P\<close>: when \<open>m\<close> returns, \<open>P\<close> holds of what it returns.  The rules follow the structure of a
  program; \<open>ensures_skip\<close> passes over a call of which nothing is needed.
\<close>

definition ensures :: "'a exec \<Rightarrow> ('a \<Rightarrow> bool) \<Rightarrow> bool" where
  "ensures m P \<longleftrightarrow> (\<forall>x. m = Ok x \<longrightarrow> P x)"

lemma ensures_simps [simp]:
  "ensures (Ok x) P \<longleftrightarrow> P x" "ensures Abort P" "ensures Fault P"
  by (simp_all add: ensures_def)

lemma ensuresD: "ensures m P \<Longrightarrow> m = Ok x \<Longrightarrow> P x"
  by (simp add: ensures_def)

lemma ensuresI: "(\<And>x. m = Ok x \<Longrightarrow> P x) \<Longrightarrow> ensures m P"
  by (simp add: ensures_def)

lemma ensures_bind: "ensures m P \<Longrightarrow> (\<And>x. P x \<Longrightarrow> ensures (f x) Q) \<Longrightarrow> ensures (exec_bind m f) Q"
  by (cases m) (auto simp: ensures_def)

lemma ensures_skip: "(\<And>x. ensures (f x) Q) \<Longrightarrow> ensures (exec_bind m f) Q"
  by (cases m) (auto simp: ensures_def)

lemma ensures_assert: "(P \<Longrightarrow> ensures k Q) \<Longrightarrow> ensures (ods_log_assert P k) Q"
  by (simp add: ods_log_assert_def)

lemma ensures_if: "(c \<Longrightarrow> ensures a Q) \<Longrightarrow> (\<not> c \<Longrightarrow> ensures b Q) \<Longrightarrow> ensures (if c then a else b) Q"
  by simp

lemma ensures_prod: "(\<And>a b. p = (a, b) \<Longrightarrow> ensures (f a b) Q) \<Longrightarrow> ensures (case p of (a, b) \<Rightarrow> f a b) Q"
  by (cases p) simp

lemma ensures_option:
  "(o' = None \<Longrightarrow> ensures a Q) \<Longrightarrow> (\<And>y. o' = Some y \<Longrightarrow> ensures (f y) Q) \<Longrightarrow>
   ensures (case o' of None \<Rightarrow> a | Some y \<Rightarrow> f y) Q"
  by (cases o') simp_all

lemma ensures_let: "(\<And>y. y = e \<Longrightarrow> ensures (f y) Q) \<Longrightarrow> ensures (let y = e in f y) Q"
  by simp

lemma ensures_weaken: "ensures m P \<Longrightarrow> (\<And>x. P x \<Longrightarrow> Q x) \<Longrightarrow> ensures m Q"
  by (simp add: ensures_def)

lemmas ensures_rules = ensures_skip ensures_assert ensures_if ensures_prod ensures_option

end
