(* ===== verification/Tsig_Props.thy ===== *)
theory Tsig_Props
  imports Tsig Cursor
begin

text \<open>
  Correctness of transaction signatures: the record that is appended is the one that is parsed
  back, no packet makes the parser abort or read outside the buffer, and a record verifies exactly
  when its digest is the keyed digest of the message and the TSIG variables.
\<close>

section \<open>The record on the wire\<close>

definition tsig_times :: "trr \<Rightarrow> u8 list" where
  "tsig_times t = write_uint16 (trr_signed_time_high t) @ write_uint32 (trr_signed_time_low t) @
     write_uint16 (trr_signed_time_fudge t)"

definition tsig_rdata :: "u8 list \<Rightarrow> trr \<Rightarrow> u8 list \<Rightarrow> u8 list \<Rightarrow> u8 list" where
  "tsig_rdata an t mac other = an @ tsig_times t @ write_uint16 (trr_mac_size t) @ mac @
     write_uint16 (trr_original_query_id t) @ write_uint16 (trr_error_code t) @
     write_uint16 (trr_other_size t) @ other"

definition tsig_wire :: "u8 list \<Rightarrow> u8 list \<Rightarrow> trr \<Rightarrow> u8 list \<Rightarrow> u8 list \<Rightarrow> u8 list" where
  "tsig_wire kn an t mac other = kn @ write_uint16 LDNS_RR_TYPE_TSIG @ write_uint16 LDNS_RR_CLASS_ANY @
     write_uint32 0 @ write_uint16 (of_nat (length (tsig_rdata an t mac other))) @
     tsig_rdata an t mac other"

lemma length_tsig_times [simp]: "length (tsig_times t) = 8"
  by (simp add: tsig_times_def)

lemma length_tsig_rdata: "length (tsig_rdata an t mac other) = length an + length mac + length other + 16"
  by (simp add: tsig_rdata_def)

lemma length_tsig_wire:
  "length (tsig_wire kn an t mac other) = length kn + length an + length mac + length other + 26"
  by (simp add: tsig_wire_def length_tsig_rdata)

text \<open>The fields of \<open>s\<close> that travel in the record, stored in \<open>t\<close> by the parser.\<close>

definition received ::
  "nat \<Rightarrow> u8 list \<Rightarrow> u8 list \<Rightarrow> trr \<Rightarrow> u8 list \<Rightarrow> u8 list \<Rightarrow> trr \<Rightarrow> trr" where
  "received pos kn an s mac other t =
    t\<lparr>trr_status := TSIG_OK, trr_position := pos, trr_key_name := Some kn, trr_algo_name := Some an,
      trr_signed_time_high := trr_signed_time_high s, trr_signed_time_low := trr_signed_time_low s,
      trr_signed_time_fudge := trr_signed_time_fudge s, trr_mac_size := trr_mac_size s,
      trr_mac_data := Mac_Own mac, trr_original_query_id := trr_original_query_id s,
      trr_error_code := trr_error_code s, trr_other_size := trr_other_size s,
      trr_other_data := Some other\<rparr>"

lemma parse_name_ahead:
  assumes "wire_name nm" and a: "ahead (nm @ bs) b" and "dn nm = Some nm" and lim: "buf_limit b < 2 ^ 16"
  shows "parse_name dn (buf_position b mod 2 ^ 16) b = Ok (Some nm, advance (length nm) b)"
proof -
  have pos: "buf_position b + length nm \<le> buf_limit b" using ahead_room [OF a] by simp
  then have cur: "buf_position b mod 2 ^ 16 = buf_position b" using lim by (intro mod_less) simp
  have len: "nat (int (length nm) mod 2 ^ 16) = length nm"
    using pos lim by (simp add: nat_eq_iff)
  have wf: "buffer_wf (b\<lparr>buf_position := buf_position b\<rparr>)" using ahead_wf [OF a] by simp
  show ?thesis
    using assms(3) pos lim len ahead_bytes [OF a refl] ahead_wf [OF a]
    by (simp add: parse_name_def cur ahead_dname [OF assms(1) a] buffer_eval Let_def advance_def)
qed

lemma parse_rdata_ahead:
  assumes a: "ahead (tsig_times s @ write_uint16 (trr_mac_size s) @ mac @
      write_uint16 (trr_original_query_id s) @ write_uint16 (trr_error_code s) @
      write_uint16 (trr_other_size s) @ other @ rest) b"
    and mac: "length mac = unat (trr_mac_size s)"
    and other: "length other = unat (trr_other_size s)" "length other \<le> 16"
  shows "tsig_rr_parse_rdata t b =
    Ok (True, t\<lparr>trr_status := TSIG_OK, trr_signed_time_high := trr_signed_time_high s,
      trr_signed_time_low := trr_signed_time_low s, trr_signed_time_fudge := trr_signed_time_fudge s,
      trr_mac_size := trr_mac_size s, trr_mac_data := Mac_Own mac,
      trr_original_query_id := trr_original_query_id s, trr_error_code := trr_error_code s,
      trr_other_size := trr_other_size s, trr_other_data := Some other\<rparr>,
      advance (16 + length mac + length other) b)"
proof -
  have a0: "ahead (write_uint16 (trr_signed_time_high s) @ write_uint32 (trr_signed_time_low s) @
      write_uint16 (trr_signed_time_fudge s) @ write_uint16 (trr_mac_size s) @ mac @
      write_uint16 (trr_original_query_id s) @ write_uint16 (trr_error_code s) @
      write_uint16 (trr_other_size s) @ other @ rest) b"
    using a by (simp add: tsig_times_def)
  note a2 = ahead_advance [OF a0, of 2, simplified]
  note a6 = ahead_advance [OF a2, of 4, simplified]
  note a8 = ahead_advance [OF a6, of 2, simplified]
  note a10 = ahead_advance [OF a8, of 2, simplified]
  note m = ahead_advance [OF a10, of "unat (trr_mac_size s)", simplified mac, simplified]
  note m2 = ahead_advance [OF m, of 2, simplified]
  note m4 = ahead_advance [OF m2, of 2, simplified]
  note m6 = ahead_advance [OF m4, of 2, simplified]
  show ?thesis
    using ahead_available [OF a0, of 10] ahead_available [OF a10, of "unat (trr_mac_size s)"]
      ahead_bytes [OF a10, of "unat (trr_mac_size s)"] ahead_current [OF a10]
      ahead_skip [OF a10, of "unat (trr_mac_size s)"] ahead_available [OF m, of 6]
      ahead_available [OF m6, of "unat (trr_other_size s)"] ahead_current [OF m6]
      ahead_bytes [OF m6, of "unat (trr_other_size s)"] ahead_skip [OF m6, of "unat (trr_other_size s)"]
      ahead_u16 [OF m] ahead_u16 [OF m2] ahead_u16 [OF m4] mac other
    by (simp add: tsig_rr_parse_rdata_def Let_def ahead_u16 [OF a0] ahead_u32 [OF a2] ahead_u16 [OF a6]
        ahead_u16 [OF a8] ac_simps)
qed

lemma tsig_rr_parse_ahead:
  assumes a: "ahead (tsig_wire kn an s mac other @ rest) b"
    and names: "wire_name kn" "wire_name an" "dn kn = Some kn" "dn an = Some an"
    and mac: "length mac = unat (trr_mac_size s)"
    and other: "length other = unat (trr_other_size s)" "length other \<le> 16"
    and lim: "buf_limit b < 2 ^ 16"
  shows "tsig_rr_parse dn t b =
    Ok (True, received (buf_position b) kn an s mac other t,
        advance (length (tsig_wire kn an s mac other)) b)"
proof -
  let ?rd = "tsig_rdata an s mac other"
  have a0: "ahead (kn @ write_uint16 LDNS_RR_TYPE_TSIG @ write_uint16 LDNS_RR_CLASS_ANY @ write_uint32 0 @
      write_uint16 (of_nat (length ?rd)) @ ?rd @ rest) b"
    using a by (simp add: tsig_wire_def)
  note a1 = ahead_advance [OF a0 refl]
  note a2 = ahead_advance [OF a1, of 2, simplified]
  note a3 = ahead_advance [OF a2, of 2, simplified]
  note a4 = ahead_advance [OF a3, of 4, simplified]
  note a5 = ahead_advance [OF a4, of 2, simplified]
  have a6: "ahead (an @ tsig_times s @ write_uint16 (trr_mac_size s) @ mac @
      write_uint16 (trr_original_query_id s) @ write_uint16 (trr_error_code s) @
      write_uint16 (trr_other_size s) @ other @ rest) (advance (length kn + 10) b)"
    using a5 by (simp add: tsig_rdata_def ac_simps)
  have "length ?rd < 2 ^ 16" using ahead_room [OF a5] lim by simp
  then have rdlen: "unat (of_nat (length ?rd) :: u16) = length ?rd" by (simp add: unat_of_nat)
  have rd: "tsig_rr_parse_rdata t' (advance (length kn + 10 + length an) b) =
    Ok (True, t'\<lparr>trr_status := TSIG_OK, trr_signed_time_high := trr_signed_time_high s,
      trr_signed_time_low := trr_signed_time_low s, trr_signed_time_fudge := trr_signed_time_fudge s,
      trr_mac_size := trr_mac_size s, trr_mac_data := Mac_Own mac,
      trr_original_query_id := trr_original_query_id s, trr_error_code := trr_error_code s,
      trr_other_size := trr_other_size s, trr_other_data := Some other\<rparr>,
      advance (length (tsig_wire kn an s mac other)) b)" for t'
    using parse_rdata_ahead [OF ahead_advance [OF a6 refl] mac other]
    by (simp add: length_tsig_wire ac_simps)
  show ?thesis
    using parse_name_ahead [where dn = dn, OF names(1) a0 names(3) lim]
      parse_name_ahead [where dn = dn, OF names(2) a6 names(4)] lim
      ahead_available [OF a1, of 10] ahead_u16 [OF a1] ahead_u16 [OF a2] ahead_u32 [OF a3] ahead_u16 [OF a4]
      ahead_available [OF a5, of "unat (of_nat (length ?rd) :: u16)"] rdlen rd
    by (simp add: tsig_rr_parse_def Let_def received_def ac_simps)
qed

section \<open>Appending\<close>

lemma tsig_rr_append_eval:
  assumes wf: "buffer_wf b" and names: "trr_key_name t = Some kn" "trr_algo_name t = Some an"
    and mac: "mac_bytes (unat (trr_mac_size t)) t = Ok mac" and other: "other_bytes t = Ok other"
    and room: "buf_position b + length (tsig_wire kn an t mac other) \<le> buf_limit b"
  shows "tsig_rr_append t b = Ok (put (tsig_wire kn an t mac other) b)"
proof -
  let ?F = "kn @ write_uint16 LDNS_RR_TYPE_TSIG @ write_uint16 LDNS_RR_CLASS_ANY @ write_uint32 0"
  let ?R = "tsig_rdata an t mac other" and ?p = "buf_position b"
  let ?b1 = "advance 2 (put ?F b)"
  have len: "?p + length ?F + 2 + length ?R \<le> buf_limit b"
    using room by (simp add: tsig_wire_def)
  have F: "buffer_wf (put ?F b)" and wf1: "buffer_wf ?b1"
    using len by (auto intro!: put_wf advance_wf wf)
  have kn: "buffer_write kn b = Ok (put kn b)" and an: "buffer_write an ?b1 = Ok (put an ?b1)"
    using len wf wf1 by (simp_all add: buffer_write_put length_tsig_rdata)
  have gap: "buffer_write_u16_at (?p + length ?F) v (put ?R ?b1) = Ok (put (?F @ write_uint16 v @ ?R) b)" for v
    using put_gap [OF wf len] .
  show ?thesis
    using len wf wf1 kn an gap [of "of_nat (length ?R)"]
    by (simp add: tsig_rr_append_def names write_name_def buffer_write_rdf_def put_eval Let_def mac other
        length_tsig_rdata tsig_wire_def tsig_rdata_def tsig_times_def ac_simps)
qed

section \<open>Every packet is handled\<close>

lemma returns_parse_name [returns_rules]:
  assumes m: "moved buf b" and lim: "buf_limit buf < 2 ^ 16" and pos: "curpos = buf_position b"
  shows "returns (parse_name dn curpos b) (\<lambda>(name, b'). moved buf b' \<and> buf_position b \<le> buf_position b')"
proof -
  obtain ok b1 where sk: "buffer_skip_dname b = Ok (ok, b1)" "moved buf b1" "buf_position b \<le> buf_position b1"
    using returns_skip_dname [OF m] by (auto simp: returns_def)
  let ?n = "buf_position b1 - buf_position b"
  have le: "buf_position b1 \<le> buf_limit buf" using sk(2) by (simp add: moved_def)
  have n: "nat ((int (buf_position b1) - int (buf_position b)) mod 2 ^ 16) = ?n"
  proof -
    have "int (buf_position b1) - int (buf_position b) = int ?n" using sk(3) by simp
    moreover have "int ?n mod 2 ^ 16 = int ?n" using le lim by (intro mod_pos_pos_trivial) simp_all
    ultimately show ?thesis by (simp only: nat_int)
  qed
  show ?thesis
    unfolding parse_name_def pos sk(1) exec_bind.simps Let_def prod.case n
  proof (cases ok, simp_all add: sk)
    show "returns (exec_bind (buffer_set_position (buf_position b) b1) (\<lambda>b2.
      exec_bind (buffer_current b2) (\<lambda>at. exec_bind (mem_read (buf_data b2) at ?n) (\<lambda>bytes.
      case dn bytes of None \<Rightarrow> Ok (None, b2)
      | Some name \<Rightarrow> exec_bind (buffer_set_position (buf_position b + ?n) b2) (\<lambda>b. Ok (Some name, b))))))
      (\<lambda>(name, b'). moved buf b' \<and> buf_position b \<le> buf_position b')"
      using sk(2,3) le
      by (auto intro!: returns_bind [OF returns_set_position] returns_bind [OF returns_current]
          returns_bind [OF returns_mem_read] split: option.split)
  qed
qed

text \<open>The fields the parser does not touch, and what a record it accepts looks like.\<close>

definition same_session :: "trr \<Rightarrow> trr \<Rightarrow> bool" where
  "same_session t t' \<longleftrightarrow> trr_context t' = trr_context t \<and> trr_algo t' = trr_algo t \<and>
     trr_key t' = trr_key t \<and> trr_prior_mac_size t' = trr_prior_mac_size t \<and>
     trr_prior_mac_data t' = trr_prior_mac_data t \<and> trr_response_count t' = trr_response_count t \<and>
     trr_update_since_last_prepare t' = trr_update_since_last_prepare t"

definition complete_rr :: "trr \<Rightarrow> bool" where
  "complete_rr t \<longleftrightarrow> trr_key_name t \<noteq> None \<and> trr_algo_name t \<noteq> None \<and>
     (\<exists>m. trr_mac_data t = Mac_Own m \<and> length m = unat (trr_mac_size t)) \<and>
     (\<exists>d. trr_other_data t = Some d \<and> length d = unat (trr_other_size t))"

definition parse_post :: "buffer \<Rightarrow> trr \<Rightarrow> bool \<times> trr \<times> buffer \<Rightarrow> bool" where
  "parse_post buf t = (\<lambda>(r, t', b'). moved buf b' \<and> same_session t t' \<and> trr_position t' = trr_position t \<and>
     (if r then trr_status t' \<noteq> TSIG_ERROR else trr_status t' \<noteq> TSIG_OK) \<and>
     (trr_status t' = TSIG_OK \<longrightarrow> complete_rr t'))"

lemma returns_parse_back [returns_rules]:
  "moved buf b \<Longrightarrow> trr_position t \<le> buf_limit buf \<Longrightarrow>
   returns (parse_back r t b) (\<lambda>(r', t', b'). r' = r \<and> t' = t \<and> moved buf b')"
  unfolding parse_back_def by (rule returns_bind [OF returns_set_position]) auto

lemma parse_back_post:
  "moved buf b \<Longrightarrow> trr_position t' \<le> buf_limit buf \<Longrightarrow> same_session t t' \<Longrightarrow> trr_position t' = trr_position t \<Longrightarrow>
   (if r then trr_status t' = TSIG_NOT_PRESENT else trr_status t' \<noteq> TSIG_OK) \<Longrightarrow>
   returns (parse_back r t' b) (parse_post buf t)"
  by (rule returns_weaken [OF returns_parse_back]) (auto simp: parse_post_def split: if_splits)

lemma parse_post_OkI:
  "moved buf b' \<Longrightarrow> same_session t t' \<Longrightarrow> trr_position t' = trr_position t \<Longrightarrow> trr_status t' = TSIG_OK \<Longrightarrow>
   complete_rr t' \<Longrightarrow> parse_post buf t (True, t', b')"
  by (simp add: parse_post_def)

lemmas returns_binds = returns_bind [OF returns_available] returns_bind [OF returns_read_u16]
  returns_bind [OF returns_read_u32] returns_bind [OF returns_skip_uint]
  returns_bind [OF returns_current]
  returns_bind [OF returns_mem_read]

lemma returns_parse_rdata:
  assumes "moved buf b" and "trr_position t' \<le> buf_limit buf" and "trr_status t' = TSIG_ERROR"
    and "trr_key_name t' \<noteq> None" and "trr_algo_name t' \<noteq> None"
    and "same_session t t'" and "trr_position t' = trr_position t"
  shows "returns (tsig_rr_parse_rdata t' b) (parse_post buf t)"
  using assms unfolding tsig_rr_parse_rdata_def Let_def
  by (auto intro!: returns_binds [where buf = buf] parse_back_post parse_post_OkI
      simp: same_session_def complete_rr_def)

lemma returns_tsig_rr_parse [returns_rules]:
  assumes m: "moved buf b" and lim: "buf_limit buf < 2 ^ 16"
  shows "returns (tsig_rr_parse dn t b) (parse_post buf (t\<lparr>trr_position := buf_position b\<rparr>))"
proof -
  have pos: "buf_position b' mod 2 ^ 16 = buf_position b'" if "moved buf b'" for b'
    using that lim by (auto simp: moved_def)
  have le: "moved buf b' \<Longrightarrow> buf_position b' \<le> buf_limit buf" for b' by (simp add: moved_def)
  with assms pos show ?thesis
    unfolding tsig_rr_parse_def Let_def
    by (auto intro!: returns_binds [where buf = buf] returns_bind [OF returns_parse_name [where buf = buf]]
      parse_back_post returns_parse_rdata split: option.split simp: same_session_def)
qed

lemma returns_skip_rrs [returns_rules]:
  "moved buf b \<Longrightarrow>
   returns (skip_rrs n i qd b) (\<lambda>(ok, b'). moved buf b' \<and> buf_position b \<le> buf_position b')"
proof (induction n arbitrary: i b)
  case (Suc n)
  show ?case
    unfolding skip_rrs.simps
  proof (rule returns_bind [OF returns_skip_rr [OF Suc.prems]], clarsimp)
    fix b' assume "moved buf b'" and "buf_position b \<le> buf_position b'"
    then show "returns (skip_rrs n (Suc i) qd b')
        (\<lambda>(ok, b'). moved buf b' \<and> buf_position b \<le> buf_position b')"
      by (intro returns_weaken [OF Suc.IH]) auto
  qed
qed simp

text \<open>
  C17. Whatever the packet, looking for its TSIG record returns, aborts on no assertion, reads
  nothing outside the packet and leaves the buffer as it was.  When it reports success the record
  is absent, or it is complete: both names are there, the digest and the other data have the
  announced sizes, and it starts behind the header of the packet; the running digest is untouched.
\<close>

theorem tsig_rr_find_safe:
  assumes wf: "buffer_wf b" and lim: "12 \<le> buf_limit b" "buf_limit b < 2 ^ 16"
  shows "\<exists>r t'. tsig_rr_find dn t b = Ok (r, t', b) \<and> same_session t t' \<and>
    (r \<longrightarrow> trr_status t' \<noteq> TSIG_ERROR \<and>
       (trr_status t' = TSIG_OK \<longrightarrow> complete_rr t' \<and> 12 \<le> trr_position t' \<and> trr_position t' \<le> buf_limit b))"
proof -
  let ?b = "b\<lparr>buf_position := 12\<rparr>"
  have m: "moved b ?b" using moved_position [OF moved_same [OF wf]] lim by simp
  have counts: "buffer_read_u16_at i b = Ok (read_uint16 (take 2 (drop i (buf_data b))))" if "i \<le> 10" for i
    using read_u16_at_eval [OF wf, of i] lim that by simp
  have reset: "buffer_set_position (buf_position b) b' = Ok b" if "moved b b'" for b'
    using that moved_restore [OF that] moved_eq [OF that] buffer_wfD(1) [OF wf]
    by (simp add: buffer_set_position_eval)
  have body: "returns (exec_bind (skip_rrs n 0 qd ?b) (\<lambda>(ok, b').
      if \<not> ok then exec_bind (buffer_set_position (buf_position b) b') (\<lambda>b'. Ok (False, t, b'))
      else exec_bind (tsig_rr_parse dn t b') (\<lambda>(result, t, b').
        exec_bind (buffer_set_position (buf_position b) b') (\<lambda>b'. Ok (result, t, b')))))
    (\<lambda>(r, t', b'). b' = b \<and> same_session t t' \<and> (r \<longrightarrow> trr_status t' \<noteq> TSIG_ERROR \<and>
       (trr_status t' = TSIG_OK \<longrightarrow> complete_rr t' \<and> 12 \<le> trr_position t' \<and> trr_position t' \<le> buf_limit b)))"
    for n qd
    by (rule returns_bind [OF returns_skip_rrs [OF m]])
       (auto simp: reset same_session_def parse_post_def moved_def
         intro!: returns_bind [OF returns_tsig_rr_parse [where buf = b]] lim split: if_splits)
  let ?c = "\<lambda>i. read_uint16 (take 2 (drop i (buf_data b)))"
  show ?thesis
  proof (cases "?c 10 = 0")
    case True
    then show ?thesis by (auto simp: tsig_rr_find_def pkt_counts_def counts same_session_def)
  next
    case False
    then have "tsig_rr_find dn t b = exec_bind
        (skip_rrs (unat (?c 4) + unat (?c 6) + unat (?c 8) + unat (?c 10) - 1) 0 (unat (?c 4)) ?b) (\<lambda>(ok, b').
        if \<not> ok then exec_bind (buffer_set_position (buf_position b) b') (\<lambda>b'. Ok (False, t, b'))
        else exec_bind (tsig_rr_parse dn t b') (\<lambda>(result, t, b').
          exec_bind (buffer_set_position (buf_position b) b') (\<lambda>b'. Ok (result, t, b'))))"
      using lim by (simp add: tsig_rr_find_def pkt_counts_def counts Let_def BUFFER_PKT_HEADER_SIZE_def
          buffer_set_position_eval)
    with body show ?thesis by (auto simp: returns_def)
  qed
qed

section \<open>The digest\<close>

definition tsig_vars :: "bool \<Rightarrow> trr \<Rightarrow> u8 list \<Rightarrow> u8 list \<Rightarrow> u8 list \<Rightarrow> u8 list" where
  "tsig_vars timers_only t kn an other =
    (if timers_only then tsig_times t
     else kn @ write_uint16 LDNS_RR_CLASS_ANY @ write_uint32 0 @ an @ tsig_times t @
       write_uint16 (trr_error_code t) @ write_uint16 (trr_other_size t) @ other)"

lemma other_bytes_context [simp]: "other_bytes (t\<lparr>trr_context := c\<rparr>) = other_bytes t"
  by (simp add: other_bytes_def cong: option.case_cong)

lemma digest_variables_eval:
  assumes "trr_context t = Some (Ctx_Open md k msg)" and "trr_algo t \<noteq> None"
    and "trr_key_name t = Some kn" and "trr_algo_name t = Some an" and "other_bytes t = Ok other"
  shows "tsig_rr_digest_variables timers_only t =
    Ok (t\<lparr>trr_context := Some (Ctx_Open md k (msg @ tsig_vars timers_only t kn an other))\<rparr>)"
  using assms
  by (simp add: tsig_rr_digest_variables_def trr_update_def tsig_vars_def tsig_times_def)

text \<open>The record with the digest \<open>mac\<close> in \<^verbatim>\<open>prior_mac_data\<close> and the context finished.\<close>

definition finished :: "u8 list \<Rightarrow> trr \<Rightarrow> trr" where
  "finished mac t = t\<lparr>trr_context := Some Ctx_Idle, trr_prior_mac_size := length mac,
     trr_prior_mac_data := map_option (\<lambda>d. patch d 0 mac) (trr_prior_mac_data t)\<rparr>"

lemma trr_final_eval:
  "trr_context t = Some (Ctx_Open md k msg) \<Longrightarrow> trr_prior_mac_data t = Some d \<Longrightarrow>
   length (hmac md k msg) \<le> length d \<Longrightarrow> trr_final hmac t = Ok (finished (hmac md k msg) t)"
  by (simp add: trr_final_def finished_def mem_write_def)

lemma prior_after_final:
  "length mac \<le> length d \<Longrightarrow> trr_prior_mac_data t = Some d \<Longrightarrow>
   prior_bytes (length mac) (finished mac t) = Ok mac"
  using patch_same [of 0 mac d] by (simp add: prior_bytes_def finished_def mem_read_def)

lemma finished_simps [simp]:
  "trr_mac_size (finished mac t) = trr_mac_size t" "trr_mac_data (finished mac t) = trr_mac_data t"
  "trr_prior_mac_size (finished mac t) = length mac"
  "finished mac (t\<lparr>trr_context := c\<rparr>) = finished mac t"
  by (simp_all add: finished_def)

lemma verify_eval:
  assumes ctx: "trr_context t = Some (Ctx_Open md k msg)" and "trr_algo t \<noteq> None"
    and names: "trr_key_name t = Some kn" "trr_algo_name t = Some an"
    and other: "trr_other_data t = Some other" "length other = unat (trr_other_size t)"
    and own: "trr_mac_data t = Mac_Own mac" "length mac = unat (trr_mac_size t)"
    and prior: "trr_prior_mac_data t = Some d"
    and want: "want = hmac md k (msg @ tsig_vars (trr_response_count t > 1) t kn an other)"
    and "length want \<le> length d"
  shows "tsig_rr_verify hmac t =
    Ok (if mac = want then (True, finished want t)
        else (False, (finished want t)\<lparr>trr_error_code := TSIG_ERROR_BADSIG\<rparr>))"
proof -
  let ?t = "t\<lparr>trr_context := Some (Ctx_Open md k (msg @ tsig_vars (trr_response_count t > 1) t kn an other))\<rparr>"
  have ob: "other_bytes t = Ok other" using other by (simp add: other_bytes_def mem_read_def)
  have fin: "trr_final hmac ?t = Ok (finished want t)"
    using trr_final_eval [of ?t md k _ d hmac] prior want assms(11) by simp
  have mb: "mac_bytes (unat (trr_mac_size t)) (finished want t) = Ok mac"
    using own by (simp add: mac_bytes_def mem_read_def)
  have algo: "ods_log_assert (trr_algo t \<noteq> None) m = m" for m :: "(bool \<times> trr) exec"
    using assms(2) by simp
  show ?thesis
  proof (cases "unat (trr_mac_size t) = length want")
    case True
    have "prior_bytes (unat (trr_mac_size t)) (finished want t) = Ok want"
      unfolding True by (rule prior_after_final [OF assms(11) prior])
    with True mb show ?thesis
      unfolding tsig_rr_verify_def digest_variables_eval [OF ctx assms(2) names ob] exec_bind.simps fin Let_def algo
      by simp
  next
    case False
    moreover from False own(2) have "mac \<noteq> want" by auto
    ultimately show ?thesis
      unfolding tsig_rr_verify_def digest_variables_eval [OF ctx assms(2) names ob] exec_bind.simps fin Let_def algo
      by simp
  qed
qed

text \<open>
  A received record verifies exactly when its digest is the keyed digest of the bytes fed to
  the context followed by the TSIG variables (only the timers from the second response on); whether
  it does or not, that digest is kept for the next message.
\<close>

theorem tsig_rr_verify_iff:
  assumes ctx: "trr_context t = Some (Ctx_Open md k msg)" and "trr_algo t \<noteq> None"
    and names: "trr_key_name t = Some kn" "trr_algo_name t = Some an"
    and other: "trr_other_data t = Some other" "length other = unat (trr_other_size t)"
    and own: "trr_mac_data t = Mac_Own mac" "length mac = unat (trr_mac_size t)"
    and prior: "trr_prior_mac_data t = Some d"
    and want: "want = hmac md k (msg @ tsig_vars (trr_response_count t > 1) t kn an other)"
    and "length want \<le> length d"
  shows "tsig_rr_verify hmac t =
    Ok (if mac = want then (True, finished want t)
        else (False, (finished want t)\<lparr>trr_error_code := TSIG_ERROR_BADSIG\<rparr>))"
  using assms by (rule verify_eval)

lemma sign_eval:
  assumes "trr_context t = Some (Ctx_Open md k msg)" and "trr_algo t \<noteq> None"
    and "trr_key_name t = Some kn" "trr_algo_name t = Some an"
    and "trr_other_data t = Some other" "length other = unat (trr_other_size t)"
    and "trr_prior_mac_data t = Some d" and "\<And>x. length (hmac md k x) = n" and "n \<le> length d"
    and s: "s = t\<lparr>trr_signed_time_high := ucast (drop_bit 32 (of_int now :: u64)), trr_signed_time_low := ucast (of_int now :: u64),
      trr_signed_time_fudge := TSIG_SIGNED_TIME_FUDGE\<rparr>"
    and mac: "mac = hmac md k (msg @ tsig_vars (trr_response_count t > 1) s kn an other)"
  shows "tsig_rr_sign hmac now t = Ok ((finished mac s)\<lparr>trr_mac_size := of_nat n, trr_mac_data := Mac_Prior\<rparr>)"
proof -
  have ob: "other_bytes s = Ok other" using assms(5,6) by (simp add: s other_bytes_def mem_read_def)
  have ctx: "trr_context s = Some (Ctx_Open md k msg)" "trr_algo s \<noteq> None" "trr_key_name s = Some kn" "trr_algo_name s = Some an"
    "trr_response_count s = trr_response_count t" "trr_prior_mac_data s = Some d"
    using assms(1-4,7) by (simp_all add: s)
  let ?s = "s\<lparr>trr_context := Some (Ctx_Open md k (msg @ tsig_vars (trr_response_count t > 1) s kn an other))\<rparr>"
  have fin: "trr_final hmac ?s = Ok (finished mac s)"
    using trr_final_eval [of ?s md k _ d hmac] ctx(6) mac assms(8,9) by simp
  show ?thesis
    unfolding tsig_rr_sign_def Let_def s [symmetric] ctx(5) digest_variables_eval [OF ctx(1-4) ob] exec_bind.simps fin
    using assms(1,8) mac by simp
qed

lemma put_ahead:
  assumes "buffer_wf b" and "buf_position b + length xs \<le> buf_limit b"
  shows "ahead xs ((put xs b)\<lparr>buf_position := buf_position b\<rparr>)"
    and "advance (length xs) ((put xs b)\<lparr>buf_position := buf_position b\<rparr>) = put xs b"
  using assms by (auto simp: ahead_def buffer_wf_def put_def advance_def patch_same)

text \<open>
  C14. What one end signs the other end accepts: the record that is signed and appended to a packet
  is parsed back by a receiver that shares the key and has digested the same bytes, and it verifies.
  The assumption on the keyed digest is that its length does not depend on the message.
\<close>

theorem tsig_exchange:
  assumes t: "trr_context t = Some (Ctx_Open md k msg)" "trr_algo t \<noteq> None"
      "trr_key_name t = Some kn" "trr_algo_name t = Some an"
      "trr_other_data t = Some other" "length other = unat (trr_other_size t)" "trr_prior_mac_data t = Some d"
    and hm: "\<And>x. length (hmac md k x) = n" "n < 2 ^ 16" "n \<le> length d" "n \<le> length e"
    and u: "trr_context u = Some (Ctx_Open md k msg)" "trr_algo u \<noteq> None" "trr_prior_mac_data u = Some e"
      "(trr_response_count u > 1) = (trr_response_count t > 1)"
    and names: "wire_name kn" "wire_name an" "dn kn = Some kn" "dn an = Some an" and o16: "length other \<le> 16"
    and b: "buffer_wf b" "buf_limit b < 2 ^ 16"
      "buf_position b + (length kn + length an + n + length other + 26) \<le> buf_limit b"
  shows "\<exists>t' b' u' u''. tsig_rr_sign hmac now t = Ok t' \<and> tsig_rr_append t' b = Ok b' \<and>
    tsig_rr_parse dn u (b'\<lparr>buf_position := buf_position b\<rparr>) = Ok (True, u', b') \<and>
    tsig_rr_verify hmac u' = Ok (True, u'')"
proof -
  define s where "s = t\<lparr>trr_signed_time_high := ucast (drop_bit 32 (of_int now :: u64)),
    trr_signed_time_low := ucast (of_int now :: u64), trr_signed_time_fudge := TSIG_SIGNED_TIME_FUDGE\<rparr>"
  define mac where "mac = hmac md k (msg @ tsig_vars (trr_response_count t > 1) s kn an other)"
  let ?t = "(finished mac s)\<lparr>trr_mac_size := of_nat n, trr_mac_data := Mac_Prior\<rparr>"
  let ?w = "tsig_wire kn an ?t mac other"
  let ?u = "received (buf_position b) kn an ?t mac other u"
  have sign: "tsig_rr_sign hmac now t = Ok ?t"
    by (rule sign_eval [where hmac = hmac, OF t hm(1,3) s_def mac_def])
  have len: "length mac = n" using hm(1) by (simp add: mac_def)
  have sz: "unat (trr_mac_size ?t) = n" using hm(2) by (simp add: unat_of_nat)
  have nm: "trr_key_name ?t = Some kn" "trr_algo_name ?t = Some an" "other_bytes ?t = Ok other"
    "length other = unat (trr_other_size ?t)"
    using t by (simp_all add: finished_def s_def other_bytes_def mem_read_def)
  have mb: "mac_bytes (unat (trr_mac_size ?t)) ?t = Ok mac"
    unfolding sz using t(7) len hm(3) patch_same [of 0 mac d]
    by (simp add: mac_bytes_def finished_def s_def mem_read_def)
  have room: "buf_position b + length ?w \<le> buf_limit b" using b(3) len by (simp add: length_tsig_wire)
  have app: "tsig_rr_append ?t b = Ok (put ?w b)"
    by (rule tsig_rr_append_eval [OF b(1) nm(1,2) mb nm(3) room])
  have ah: "ahead (?w @ []) ((put ?w b)\<lparr>buf_position := buf_position b\<rparr>)" using put_ahead(1) [OF b(1) room] by simp
  have parse: "tsig_rr_parse dn u ((put ?w b)\<lparr>buf_position := buf_position b\<rparr>) = Ok (True, ?u, put ?w b)"
    using tsig_rr_parse_ahead [where dn = dn and t = u, OF ah names _ nm(4) o16] b(2) len sz put_ahead(2) [OF b(1) room]
    by simp
  have vars: "tsig_vars r ?u kn an other = tsig_vars r s kn an other" for r
    by (simp add: tsig_vars_def tsig_times_def received_def finished_def s_def)
  have "tsig_rr_verify hmac ?u = Ok (if mac = mac then (True, finished mac ?u)
        else (False, (finished mac ?u)\<lparr>trr_error_code := TSIG_ERROR_BADSIG\<rparr>))"
    by (rule verify_eval [where md = md and k = k and msg = msg and kn = kn and an = an and other = other and d = e])
      (use u nm len sz hm(4) vars in \<open>simp_all add: received_def mac_def\<close>)
  with sign app parse show ?thesis by auto
qed

section \<open>Examples\<close>

text \<open>A witness: a packet that is only a header.\<close>

theorem tsig_rr_find_safe_witness:
  "\<exists>r t'. tsig_rr_find (\<lambda>_. None) tsig_rr_create (buffer_create_from (replicate 12 255)) =
     Ok (r, t', buffer_create_from (replicate 12 255)) \<and> same_session tsig_rr_create t'"
  using tsig_rr_find_safe [of "buffer_create_from (replicate 12 255)" "\<lambda>_. None" tsig_rr_create]
  by (auto simp: buffer_wf_def buffer_create_from_def)

text \<open>A session with an empty name for key and algorithm and a digest of one byte.\<close>

definition demo_trr :: trr where
  "demo_trr = tsig_rr_create\<lparr>
     trr_algo := Some \<lparr>txt_name = ''hmac-md5'', wf_name = [0], max_digest_size = 1, digest = 1\<rparr>,
     trr_context := Some (Ctx_Open 1 [5] [1, 2, 3]), trr_key_name := Some [0], trr_algo_name := Some [0],
     trr_other_data := Some [], trr_prior_mac_data := Some [0], trr_mac_size := 1, trr_mac_data := Mac_Own [42]\<rparr>"

lemma demo_trr_simps:
  "trr_context demo_trr = Some (Ctx_Open 1 [5] [1, 2, 3])" "trr_algo demo_trr \<noteq> None" "trr_key_name demo_trr = Some [0]"
  "trr_algo_name demo_trr = Some [0]" "trr_other_data demo_trr = Some []" "length [] = unat (trr_other_size demo_trr)"
  "trr_prior_mac_data demo_trr = Some [0]" "trr_mac_data demo_trr = Mac_Own [42]" "length [42 :: u8] = unat (trr_mac_size demo_trr)"
  by (simp_all add: demo_trr_def tsig_rr_create_def tsig_rr_reset_def tsig_rr_free_def)

text \<open>A witness: the right digest is accepted and another one is not.\<close>

theorem tsig_rr_verify_iff_witness:
  "tsig_rr_verify (\<lambda>_ _ _. [42]) demo_trr = Ok (True, finished [42] demo_trr) \<and>
   tsig_rr_verify (\<lambda>_ _ _. [43]) demo_trr = Ok (False, (finished [43] demo_trr)\<lparr>trr_error_code := TSIG_ERROR_BADSIG\<rparr>)"
  using tsig_rr_verify_iff [OF demo_trr_simps(1-6,8,9,7), where hmac = "\<lambda>_ _ _. [42]"]
    tsig_rr_verify_iff [OF demo_trr_simps(1-6,8,9,7), where hmac = "\<lambda>_ _ _. [43]"]
  by simp

text \<open>A witness.\<close>

theorem tsig_exchange_witness:
  "\<exists>t' b' u' u''. tsig_rr_sign (\<lambda>_ _ _. [42]) 1000 demo_trr = Ok t' \<and>
    tsig_rr_append t' (buffer_create_from (replicate 64 0)) = Ok b' \<and>
    tsig_rr_parse Some demo_trr (b'\<lparr>buf_position := 0\<rparr>) = Ok (True, u', b') \<and>
    tsig_rr_verify (\<lambda>_ _ _. [42]) u' = Ok (True, u'')"
  using tsig_exchange [OF demo_trr_simps(1-7) _ _ _ _ demo_trr_simps(1,2,7) refl wire_name_root wire_name_root,
      of "\<lambda>_ _ _. [42]" 1 Some "buffer_create_from (replicate 64 0)" 1000]
  by (simp add: buffer_wf_def buffer_create_from_def)
end
