(* ===== verification/Xfrd.thy ===== *)
theory Xfrd
  imports Tsig Serial
begin

text \<open>
  The zone transfer client, \<^verbatim>\<open>signer/src/wire/xfrd.c\<close>: its timers, the requests it writes, the
  replies it parses, and the file \<^verbatim>\<open><zone>.xfrd\<close> it writes them to.  Connections are the subject of
  \<open>Xfrd_Net\<close>.  The current time, the random number of a timer and whether a file can be opened are
  arguments; \<^verbatim>\<open>ldns_wire2pkt\<close>, which parses a whole packet for the file, is the parameter \<open>w2p\<close>.
\<close>

section \<open>State\<close>

definition XFRD_MAX_ROUNDS :: int where "XFRD_MAX_ROUNDS = 3"
definition XFRD_MAX_UDP :: nat where "XFRD_MAX_UDP = 100"
definition XFRD_NO_IXFR_CACHE :: time_t where "XFRD_NO_IXFR_CACHE = 172800"
definition XFRD_TCP_TIMEOUT :: time_t where "XFRD_TCP_TIMEOUT = 120"
definition XFRD_UDP_TIMEOUT :: time_t where "XFRD_UDP_TIMEOUT = 5"
definition XFRD_TSIG_MAX_UNSIGNED :: nat where "XFRD_TSIG_MAX_UNSIGNED = 100"
definition LDNS_RR_TYPE_IXFR :: u16 where "LDNS_RR_TYPE_IXFR = 251"
definition LDNS_RCODE_NOTIMPL :: u8 where "LDNS_RCODE_NOTIMPL = 4"
definition LDNS_RCODE_NOTAUTH :: u8 where "LDNS_RCODE_NOTAUTH = 9"

datatype xfrd_pkt_status = XFRD_PKT_BAD | XFRD_PKT_MORE | XFRD_PKT_NOTIMPL | XFRD_PKT_TC
  | XFRD_PKT_XFR | XFRD_PKT_NEWLEASE

text \<open>The names of the SOA are kept as their bytes; the array starts with their number.\<close>

record soa_info =
  soa_ttl :: u32
  soa_mname :: "u8 list"
  soa_rname :: "u8 list"
  soa_serial :: u32
  soa_refresh :: u32
  soa_retry :: u32
  soa_expire :: u32
  soa_minimum :: u32

text \<open>What the client uses of the access list entry of a master.\<close>

record xmaster =
  m_port :: nat
  m_family :: family
  m_algorithm :: string
  m_key :: "tsig_key option"
  m_ixfr_disabled :: time_t

text \<open>
  \<open>master\<close> is the index of the master in the list \<^verbatim>\<open>request_xfr\<close> of the zone; \<open>timer\<close> is the time
  of the timer when \<^verbatim>\<open>handler.timeout\<close> points to it; \<open>event_write\<close> tells which of
  \<^verbatim>\<open>NETIO_EVENT_READ\<close> and \<^verbatim>\<open>NETIO_EVENT_WRITE\<close> the handler waits for, besides the timeout.
\<close>

record xfrd =
  tcp_conn :: int
  round_num :: int
  master_num :: int
  next_master :: int
  master :: "nat option"
  serial_xfr :: u32
  serial_notify :: u32
  serial_disk :: u32
  serial_xfr_acquired :: time_t
  serial_notify_acquired :: time_t
  serial_disk_acquired :: time_t
  soa :: soa_info
  timer :: "time_t option"
  handler_fd :: int
  event_write :: bool
  query_id :: u16
  msg_seq_nr :: u32
  msg_old_serial :: u32
  msg_new_serial :: u32
  msg_rr_count :: nat
  msg_is_ixfr :: nat
  x_tsig :: trr
  tcp_waiting :: bool
  udp_waiting :: bool

section \<open>Timers\<close>

definition xfrd_set_timer :: "time_t \<Rightarrow> nat \<Rightarrow> time_t \<Rightarrow> xfrd \<Rightarrow> xfrd" where
  "xfrd_set_timer now rnd t x =
    (let t = (if t > now + 10
              then let extra = t - now; base = extra * 9 div 10
                   in now + base + int rnd mod (extra - base)
              else t)
     in x\<lparr>timer := Some t\<rparr>)"

definition xfrd_unset_timer :: "xfrd \<Rightarrow> xfrd" where
  "xfrd_unset_timer x = x\<lparr>timer := None\<rparr>"

definition xfrd_set_timer_time :: "time_t \<Rightarrow> nat \<Rightarrow> time_t \<Rightarrow> xfrd \<Rightarrow> xfrd" where
  "xfrd_set_timer_time now rnd t x = xfrd_set_timer now rnd (now + t) x"

definition xfrd_set_timer_now :: "time_t \<Rightarrow> nat \<Rightarrow> xfrd \<Rightarrow> xfrd" where
  "xfrd_set_timer_now now rnd x = xfrd_set_timer_time now rnd 0 x"

definition xfrd_set_timer_retry :: "time_t \<Rightarrow> nat \<Rightarrow> xfrd \<Rightarrow> xfrd" where
  "xfrd_set_timer_retry now rnd x = xfrd_set_timer_time now rnd (uint (soa_retry (soa x))) x"

definition xfrd_set_timer_refresh :: "time_t \<Rightarrow> nat \<Rightarrow> xfrd \<Rightarrow> xfrd" where
  "xfrd_set_timer_refresh now rnd x = xfrd_set_timer_time now rnd (uint (soa_refresh (soa x))) x"

text \<open>
  The second byte of the name arrays is not initialised: \<open>junk\<close> stands for what it holds.
\<close>

definition xfrd_create :: "time_t \<Rightarrow> nat \<Rightarrow> u8 \<Rightarrow> xfrd" where
  "xfrd_create now rnd junk =
    xfrd_set_timer_time now rnd 0
      \<lparr>tcp_conn = -1, round_num = -1, master_num = 0, next_master = -1, master = None,
       serial_xfr = 0, serial_notify = 0, serial_disk = 0, serial_xfr_acquired = 0,
       serial_notify_acquired = 0, serial_disk_acquired = 0,
       soa = \<lparr>soa_ttl = 0, soa_mname = [junk], soa_rname = [junk], soa_serial = 0, soa_refresh = 3600,
              soa_retry = 300, soa_expire = 604800, soa_minimum = 3600\<rparr>,
       timer = None, handler_fd = -1, event_write = False, query_id = 0, msg_seq_nr = 0,
       msg_old_serial = 0, msg_new_serial = 0, msg_rr_count = 0, msg_is_ixfr = 0,
       x_tsig = tsig_rr_create, tcp_waiting = False, udp_waiting = False\<rparr>"

section \<open>Transaction signatures\<close>

text \<open>\<open>mkey\<close> is the TSIG algorithm and key of the current master, if it has one.\<close>

definition xfrd_tsig_sign ::
  "(nat \<Rightarrow> u8 list \<Rightarrow> u8 list \<Rightarrow> u8 list) \<Rightarrow> tsig_handler \<Rightarrow> time_t \<Rightarrow> (string \<times> tsig_key) option \<Rightarrow>
   xfrd \<Rightarrow> buffer \<Rightarrow> (xfrd \<times> buffer) exec" where
  "xfrd_tsig_sign hmac h now mkey x b =
    (case mkey of None \<Rightarrow> Ok (x, b)
     | Some (algorithm_name, key) \<Rightarrow>
       (case tsig_lookup_algo algorithm_name (tsig_algo_table h) of
          None \<Rightarrow> Ok (x, b)
        | Some algo \<Rightarrow>
          exec_bind (buffer_pkt_id b) (\<lambda>qid.
          if key_freed key then Fault else
          let t = (tsig_rr_reset (Some algo) (Some key) (x_tsig x))
                    \<lparr>trr_original_query_id := qid, trr_algo_name := Some (wf_name algo),
                     trr_key_name := Some (key_wire key)\<rparr> in
          exec_bind (tsig_rr_prepare t) (\<lambda>t.
          exec_bind (tsig_rr_update (buf_position b) b t) (\<lambda>t.
          exec_bind (tsig_rr_sign hmac now t) (\<lambda>t.
          exec_bind (tsig_rr_append t b) (\<lambda>b.
          exec_bind (buffer_pkt_arcount b) (\<lambda>ar.
          exec_bind (buffer_pkt_set_arcount (ar + 1) b) (\<lambda>b.
          exec_bind (tsig_rr_prepare t) (\<lambda>t.
          Ok (x\<lparr>x_tsig := t\<rparr>, b)))))))))))"

definition xfrd_tsig_process ::
  "(nat \<Rightarrow> u8 list \<Rightarrow> u8 list \<Rightarrow> u8 list) \<Rightarrow> (u8 list \<Rightarrow> u8 list option) \<Rightarrow> (string \<times> tsig_key) option \<Rightarrow>
   xfrd \<Rightarrow> buffer \<Rightarrow> (bool \<times> xfrd \<times> buffer) exec" where
  "xfrd_tsig_process hmac dn mkey x b =
    (if mkey = None then Ok (True, x, b)
     else exec_bind (tsig_rr_find dn (x_tsig x) b) (\<lambda>(found, t, b).
     if \<not> found then Ok (False, x\<lparr>x_tsig := t\<rparr>, b)
     else let have_tsig = (trr_status t = TSIG_OK) in
     exec_bind
       (if have_tsig
        then exec_bind (buffer_set_limit (trr_position t) b) (\<lambda>b.
             exec_bind (buffer_pkt_arcount b) (\<lambda>ar. buffer_pkt_set_arcount (ar - 1) b))
        else Ok b) (\<lambda>b.
     exec_bind (tsig_rr_update (buf_limit b) b t) (\<lambda>t.
     let no_first = (\<not> have_tsig \<and> msg_seq_nr x = 0) in
     if have_tsig then
       exec_bind (tsig_rr_verify hmac t) (\<lambda>(ok, t).
       if \<not> ok then Ok (False, x\<lparr>x_tsig := t\<rparr>, b)
       else exec_bind (tsig_rr_prepare t) (\<lambda>t. Ok (\<not> no_first, x\<lparr>x_tsig := t\<rparr>, b)))
     else if trr_update_since_last_prepare t > XFRD_TSIG_MAX_UNSIGNED then Ok (False, x\<lparr>x_tsig := t\<rparr>, b)
     else Ok (\<not> no_first, x\<lparr>x_tsig := t\<rparr>, b)))))"

section \<open>The transfer file\<close>

datatype 'rr xfr_line = Begin_Packet | End_Packet | Rr_Line 'rr

text \<open>
  Committing: the result tells whether the zone's read task is to be rescheduled.  A packet that
  cannot be dumped is only reported in the log.
\<close>

definition xfrd_commit_packet ::
  "time_t \<Rightarrow> bool \<Rightarrow> xfrd \<Rightarrow> 'rr xfr_line list \<Rightarrow> xfrd \<times> 'rr xfr_line list \<times> bool" where
  "xfrd_commit_packet now fopen_ok x file =
    (if \<not> fopen_ok then (x, file, False)
     else
       (let x = x\<lparr>serial_disk := msg_new_serial x, serial_disk_acquired := now\<rparr>;
            x = x\<lparr>soa := (soa x)\<lparr>soa_serial := serial_disk x\<rparr>\<rparr>
        in (x, file @ [End_Packet],
            util_serial_gt (serial_disk x) (serial_xfr x) \<and>
            serial_disk_acquired x > serial_xfr_acquired x)))"

definition xfrd_dump_packet ::
  "(u8 list \<Rightarrow> 'rr list option) \<Rightarrow> bool \<Rightarrow> buffer \<Rightarrow> xfrd \<Rightarrow> 'rr xfr_line list \<Rightarrow>
   xfrd \<times> 'rr xfr_line list" where
  "xfrd_dump_packet w2p fopen_ok b x file =
    (case w2p (take (buf_limit b) (buf_data b)) of
       None \<Rightarrow> (x, file)
     | Some answer \<Rightarrow>
        (let x = x\<lparr>serial_disk_acquired := 0\<rparr>
         in if \<not> fopen_ok then (x, file)
            else (x, file @ (if msg_seq_nr x = 0 then [Begin_Packet] else []) @ map Rr_Line answer)))"

section \<open>SOA records in packets\<close>

definition xfrd_write_soa :: "u8 list \<Rightarrow> u16 \<Rightarrow> xfrd \<Rightarrow> buffer \<Rightarrow> buffer exec" where
  "xfrd_write_soa apex klass x b =
    exec_bind (buffer_write_rdf apex b) (\<lambda>b.
    exec_bind (buffer_write_u16 LDNS_RR_TYPE_SOA b) (\<lambda>b.
    exec_bind (buffer_write_u16 klass b) (\<lambda>b.
    exec_bind (buffer_write_u32 (soa_ttl (soa x)) b) (\<lambda>b.
    let rdlength_pos = buf_position b in
    exec_bind (buffer_skip 2 b) (\<lambda>b.
    exec_bind (buffer_write (soa_mname (soa x)) b) (\<lambda>b.
    exec_bind (buffer_write (soa_rname (soa x)) b) (\<lambda>b.
    exec_bind (buffer_write_u32 (soa_serial (soa x)) b) (\<lambda>b.
    exec_bind (buffer_write_u32 (soa_refresh (soa x)) b) (\<lambda>b.
    exec_bind (buffer_write_u32 (soa_retry (soa x)) b) (\<lambda>b.
    exec_bind (buffer_write_u32 (soa_expire (soa x)) b) (\<lambda>b.
    exec_bind (buffer_write_u32 (soa_minimum (soa x)) b) (\<lambda>b.
    buffer_write_u16_at rdlength_pos (of_nat (buf_position b - rdlength_pos - 2)) b))))))))))))"

text \<open>A name that cannot be read is replaced by the root.\<close>

definition read_soa_name :: "nat \<Rightarrow> buffer \<Rightarrow> (u8 list \<times> buffer) exec" where
  "read_soa_name pos b =
    exec_bind (buffer_set_position pos b) (\<lambda>b.
    exec_bind (buffer_read_dname True b) (\<lambda>(n, name, b).
    Ok (if n = 0 then [0] else take n name, b)))"

definition xfrd_update_soa ::
  "xfrd \<Rightarrow> buffer \<Rightarrow> u32 \<Rightarrow> nat \<Rightarrow> nat \<Rightarrow> u32 \<Rightarrow> u32 \<Rightarrow> u32 \<Rightarrow> u32 \<Rightarrow> (xfrd \<times> buffer) exec" where
  "xfrd_update_soa x b ttl mname_pos rname_pos refresh retry expire minimum =
    exec_bind (read_soa_name mname_pos b) (\<lambda>(mname, b).
    exec_bind (read_soa_name rname_pos b) (\<lambda>(rname, b).
    Ok (x\<lparr>soa := (soa x)\<lparr>soa_ttl := ttl, soa_refresh := refresh, soa_retry := retry,
          soa_expire := expire, soa_minimum := minimum, soa_mname := mname, soa_rname := rname\<rparr>\<rparr>, b)))"

text \<open>
  \<^verbatim>\<open>xfrd_parse_soa\<close>: \<open>None\<close> for a record that is not a good SOA, otherwise the serial; the positions
  are 16-bit variables.
\<close>

definition parse_soa_rdata ::
  "xfrd \<Rightarrow> buffer \<Rightarrow> bool \<Rightarrow> u32 \<Rightarrow> (u32 option \<times> xfrd \<times> buffer) exec" where
  "parse_soa_rdata x b update ttl =
    (let mname_pos = buf_position b mod 2 ^ 16 in
     exec_bind (buffer_skip_dname b) (\<lambda>(ok, b).
     if \<not> ok then Ok (None, x, b)
     else let rname_pos = buf_position b mod 2 ^ 16 in
     exec_bind (buffer_skip_dname b) (\<lambda>(ok, b).
     if \<not> ok then Ok (None, x, b)
     else exec_bind (buffer_read_u32 b) (\<lambda>(serial, b).
     exec_bind (buffer_read_u32 b) (\<lambda>(refresh, b).
     exec_bind (buffer_read_u32 b) (\<lambda>(retry, b).
     exec_bind (buffer_read_u32 b) (\<lambda>(expire, b).
     exec_bind (buffer_read_u32 b) (\<lambda>(minimum, b).
     let pos = buf_position b mod 2 ^ 16 in
     exec_bind (if update
                then xfrd_update_soa x b ttl mname_pos rname_pos refresh retry expire minimum
                else Ok (x, b)) (\<lambda>(x, b).
     exec_bind (buffer_set_position pos b) (\<lambda>b. Ok (Some serial, x, b)))))))))))"

definition xfrd_parse_soa ::
  "xfrd \<Rightarrow> buffer \<Rightarrow> bool \<Rightarrow> bool \<Rightarrow> u32 \<Rightarrow> (u32 option \<times> xfrd \<times> buffer) exec" where
  "xfrd_parse_soa x b rdata_only update t =
    (if rdata_only then parse_soa_rdata x b update t
     else exec_bind (buffer_available 10 b) (\<lambda>ok.
     if \<not> ok then Ok (None, x, b)
     else exec_bind (buffer_read_u16 b) (\<lambda>(type, b).
     if type \<noteq> LDNS_RR_TYPE_SOA then Ok (None, x, b)
     else exec_bind (buffer_read_u16 b) (\<lambda>(_, b).
     exec_bind (buffer_read_u32 b) (\<lambda>(ttl, b).
     exec_bind (buffer_read_u16 b) (\<lambda>(rdlen, b).
     exec_bind (buffer_available (unat rdlen) b) (\<lambda>ok.
     if \<not> ok then Ok (None, x, b) else parse_soa_rdata x b update ttl)))))))"

section \<open>Replies\<close>

text \<open>
  The records of a reply, \<^verbatim>\<open>xfrd_parse_rrs\<close>: \<open>count\<close> records are to be read, \<open>don\<close> is \<^verbatim>\<open>*done\<close>.
  \<open>soa_seen\<close> is what the loop does after it has read an SOA record: \<open>Inl\<close> an error.
\<close>

definition soa_seen :: "xfrd \<Rightarrow> u32 \<Rightarrow> bool \<Rightarrow> ods_status + (xfrd \<times> bool)" where
  "soa_seen x serial don =
    (if msg_rr_count x = 1 \<and> serial \<noteq> msg_new_serial x then
       (let x = x\<lparr>msg_is_ixfr := 1\<rparr> in
        if serial_disk_acquired x = 0 then Inl ODS_STATUS_REQAXFR
        else if serial \<noteq> serial_disk x then Inl ODS_STATUS_INSERIAL
        else Inr (x\<lparr>msg_old_serial := serial\<rparr>, don))
     else if serial = msg_new_serial x then
       (if msg_is_ixfr x = 1 then Inr (x\<lparr>msg_is_ixfr := 2\<rparr>, don) else Inr (x, True))
     else Inr (x, don))"

text \<open>On an error of \<open>soa_seen\<close> only \<^verbatim>\<open>msg_is_ixfr\<close> has changed.\<close>

fun xfrd_parse_rrs ::
  "nat \<Rightarrow> xfrd \<Rightarrow> buffer \<Rightarrow> bool \<Rightarrow> (ods_status \<times> bool \<times> xfrd \<times> buffer) exec" where
  "xfrd_parse_rrs 0 x b don = Ok (ODS_STATUS_OK, don, x, b)"
| "xfrd_parse_rrs (Suc count) x b don =
    exec_bind (buffer_skip_dname b) (\<lambda>(ok, b).
    if \<not> ok then Ok (ODS_STATUS_SKIPDNAME, don, x, b)
    else exec_bind (buffer_available 10 b) (\<lambda>ok.
    if \<not> ok then Ok (ODS_STATUS_BUFAVAIL, don, x, b)
    else exec_bind (buffer_read_u16 b) (\<lambda>(type, b).
    exec_bind (buffer_read_u16 b) (\<lambda>(_, b).
    exec_bind (buffer_read_u32 b) (\<lambda>(ttl, b).
    exec_bind (buffer_read_u16 b) (\<lambda>(rrlen, b).
    exec_bind (buffer_available (unat rrlen) b) (\<lambda>ok.
    if \<not> ok then Ok (ODS_STATUS_BUFAVAIL, don, x, b)
    else if type = LDNS_RR_TYPE_SOA then
      exec_bind (xfrd_parse_soa x b True False ttl) (\<lambda>(serial, x, b).
      case serial of None \<Rightarrow> Ok (ODS_STATUS_PARSESOA, don, x, b)
      | Some serial \<Rightarrow>
        (case soa_seen x serial don of
           Inl st \<Rightarrow> Ok (st, don, x\<lparr>msg_is_ixfr := 1\<rparr>, b)
         | Inr (x, don) \<Rightarrow> xfrd_parse_rrs count (x\<lparr>msg_rr_count := msg_rr_count x + 1\<rparr>) b don))
    else exec_bind (buffer_skip (int (unat rrlen)) b) (\<lambda>b.
      xfrd_parse_rrs count (x\<lparr>msg_rr_count := msg_rr_count x + 1\<rparr>) b don))))))))"

fun skip_questions :: "nat \<Rightarrow> buffer \<Rightarrow> (bool \<times> buffer) exec" where
  "skip_questions 0 b = Ok (True, b)"
| "skip_questions (Suc n) b =
    exec_bind (buffer_skip_rr True b) (\<lambda>(ok, b). if ok then skip_questions n b else Ok (False, b))"

text \<open>
  What \<^verbatim>\<open>xfrd_parse_packet\<close> does with the serial of the first SOA of a transfer: a status to return
  at once, or to go on.
\<close>

definition first_serial ::
  "time_t \<Rightarrow> nat \<Rightarrow> nat \<Rightarrow> u32 \<Rightarrow> xfrd \<Rightarrow> xfrd_pkt_status option \<times> xfrd" where
  "first_serial now rnd ancount serial x =
    (let same = (serial_disk_acquired x \<noteq> 0 \<and> serial_disk x = serial);
         x = (if same then x\<lparr>serial_disk_acquired := now\<rparr> else x) in
     if same \<and> serial_xfr x = serial then
       (let x = x\<lparr>serial_xfr_acquired := serial_disk_acquired x\<rparr> in
        if serial_notify_acquired x = 0
        then (Some XFRD_PKT_NEWLEASE, xfrd_set_timer_refresh now rnd (x\<lparr>round_num := -1\<rparr>))
        else (Some XFRD_PKT_BAD, x))
     else if serial_disk_acquired x \<noteq> 0 \<and> \<not> util_serial_gt serial (serial_disk x)
     then (Some XFRD_PKT_BAD, x)
     else
       (let x = x\<lparr>msg_new_serial := serial\<rparr>;
            x = x\<lparr>msg_old_serial := (if serial_disk_acquired x \<noteq> 0 then serial_disk x else 0)\<rparr>;
            x = (if ancount > 1 \<and> serial_notify_acquired x \<noteq> 0 \<and> util_serial_gt serial (serial_notify x)
                 then x\<lparr>serial_notify := serial\<rparr> else x)
        in (None, x\<lparr>msg_rr_count := 1, msg_is_ixfr := 0\<rparr>)))"

text \<open>From the check of the TC bit on.\<close>

definition parse_answer ::
  "nat \<Rightarrow> nat \<Rightarrow> xfrd \<Rightarrow> buffer \<Rightarrow> (xfrd_pkt_status \<times> xfrd \<times> buffer) exec" where
  "parse_answer ancount ancount_todo x b =
    exec_bind (buffer_pkt_tc b) (\<lambda>tc.
    if tcp_conn x = -1 \<and> tc then Ok (XFRD_PKT_TC, x, b)
    else if tcp_conn x = -1 \<and> ancount < 2 then Ok (XFRD_PKT_TC, x, b)
    else exec_bind (xfrd_parse_rrs ancount_todo x b False) (\<lambda>(status, don, x, b).
    if status \<noteq> ODS_STATUS_OK then Ok (XFRD_PKT_BAD, x, b)
    else if tcp_conn x = -1 \<and> \<not> don then Ok (XFRD_PKT_BAD, x, b)
    else if \<not> don then Ok (XFRD_PKT_MORE, x, b)
    else Ok (XFRD_PKT_XFR, x, b)))"

text \<open>From the question section on.\<close>

definition parse_sections ::
  "time_t \<Rightarrow> nat \<Rightarrow> xfrd \<Rightarrow> buffer \<Rightarrow> (xfrd_pkt_status \<times> xfrd \<times> buffer) exec" where
  "parse_sections now rnd x b =
    exec_bind (buffer_skip (int BUFFER_PKT_HEADER_SIZE) b) (\<lambda>b.
    exec_bind (buffer_pkt_qdcount b) (\<lambda>qdcount.
    exec_bind (skip_questions (unat qdcount) b) (\<lambda>(ok, b).
    if \<not> ok then Ok (XFRD_PKT_BAD, x, b)
    else exec_bind (buffer_pkt_ancount b) (\<lambda>ancount.
    exec_bind (buffer_pkt_tc b) (\<lambda>tc.
    if msg_rr_count x = 0 \<and> ancount = 0 then
      Ok (if tcp_conn x = -1 \<and> tc then XFRD_PKT_TC else XFRD_PKT_BAD, x, b)
    else if msg_rr_count x = 0 then
      exec_bind (buffer_skip_dname b) (\<lambda>(ok, b).
      if \<not> ok then Ok (XFRD_PKT_BAD, x, b)
      else exec_bind (xfrd_parse_soa x b False True 0) (\<lambda>(serial, x, b).
      case serial of None \<Rightarrow> Ok (XFRD_PKT_BAD, x, b)
      | Some serial \<Rightarrow>
        (case first_serial now rnd (unat ancount) serial x of
           (Some st, x) \<Rightarrow> Ok (st, x, b)
         | (None, x) \<Rightarrow> parse_answer (unat ancount) (unat ancount - 1) x b)))
    else parse_answer (unat ancount) (unat ancount) x b)))))"

definition xfrd_parse_packet ::
  "(nat \<Rightarrow> u8 list \<Rightarrow> u8 list \<Rightarrow> u8 list) \<Rightarrow> (u8 list \<Rightarrow> u8 list option) \<Rightarrow> time_t \<Rightarrow> nat \<Rightarrow>
   (string \<times> tsig_key) option \<Rightarrow> xfrd \<Rightarrow> buffer \<Rightarrow> (xfrd_pkt_status \<times> xfrd \<times> buffer) exec" where
  "xfrd_parse_packet hmac dn now rnd mkey x b =
    ods_log_assert (master x \<noteq> None)
    (exec_bind (buffer_available BUFFER_PKT_HEADER_SIZE b) (\<lambda>ok.
     if \<not> ok then Ok (XFRD_PKT_BAD, x, b)
     else exec_bind (buffer_pkt_id b) (\<lambda>qid.
     if qid \<noteq> query_id x then Ok (XFRD_PKT_BAD, x, b)
     else exec_bind (buffer_pkt_rcode b) (\<lambda>rcode.
     if rcode = LDNS_RCODE_NOTIMPL then Ok (XFRD_PKT_NOTIMPL, x, b)
     else if rcode \<noteq> LDNS_RCODE_NOERROR \<and> rcode \<noteq> LDNS_RCODE_NOTAUTH then Ok (XFRD_PKT_BAD, x, b)
     else exec_bind (xfrd_tsig_process hmac dn mkey x b) (\<lambda>(ok, x, b).
     if \<not> ok then Ok (XFRD_PKT_BAD, x, b) else parse_sections now rnd x b)))))"

text \<open>
  Handling a packet.  \<open>fdump\<close> and \<open>fcommit\<close> tell whether the file can be opened for dumping and for
  committing; the last component of the result whether the read task of the zone is rescheduled.
  \<open>finish_transfer\<close> is the part from the last packet of a transfer on.
\<close>

definition finish_transfer ::
  "time_t \<Rightarrow> nat \<Rightarrow> bool \<Rightarrow> xfrd \<Rightarrow> buffer \<Rightarrow> 'rr xfr_line list \<Rightarrow>
   xfrd_pkt_status \<times> xfrd \<times> buffer \<times> 'rr xfr_line list \<times> bool" where
  "finish_transfer now rnd fcommit x b file =
    (let b = buffer_flip (buffer_clear b);
         (x, file, resched) = xfrd_commit_packet now fcommit x file;
         x = (if serial_notify_acquired x \<noteq> 0 \<and> \<not> util_serial_gt (serial_notify x) (serial_disk x)
              then x\<lparr>serial_notify_acquired := 0\<rparr> else x)
     in if serial_notify_acquired x = 0
        then (XFRD_PKT_XFR, xfrd_set_timer_refresh now rnd (x\<lparr>round_num := -1\<rparr>), b, file, resched)
        else (XFRD_PKT_BAD, x, b, file, resched))"

definition xfrd_handle_packet ::
  "(nat \<Rightarrow> u8 list \<Rightarrow> u8 list \<Rightarrow> u8 list) \<Rightarrow> (u8 list \<Rightarrow> u8 list option) \<Rightarrow>
   (u8 list \<Rightarrow> 'rr list option) \<Rightarrow> time_t \<Rightarrow> nat \<Rightarrow> bool \<Rightarrow> bool \<Rightarrow> (string \<times> tsig_key) option \<Rightarrow>
   xfrd \<Rightarrow> buffer \<Rightarrow> 'rr xfr_line list \<Rightarrow>
   (xfrd_pkt_status \<times> xfrd \<times> buffer \<times> 'rr xfr_line list \<times> bool) exec" where
  "xfrd_handle_packet hmac dn w2p now rnd fdump fcommit mkey x b file =
    exec_bind (xfrd_parse_packet hmac dn now rnd mkey x b) (\<lambda>(res, x, b).
    if res = XFRD_PKT_NEWLEASE \<or> res = XFRD_PKT_TC then Ok (res, x, b, file, False)
    else if res = XFRD_PKT_NOTIMPL \<or> res = XFRD_PKT_BAD then
      Ok (res, x, if msg_seq_nr x > 0 then buffer_flip (buffer_clear b) else b, file, False)
    else
      (let (x, file) = xfrd_dump_packet w2p fdump b x file;
           x = x\<lparr>msg_seq_nr := msg_seq_nr x + 1\<rparr>
       in Ok (if res = XFRD_PKT_MORE then (XFRD_PKT_MORE, x, b, file, False)
              else finish_transfer now rnd fcommit x b file)))"

end
