(* ===== verification/Xfrd_Net.thy ===== *)
theory Xfrd_Net
  imports Xfrd
begin

text \<open>
  The connections of the zone transfer client, the second half of \<^verbatim>\<open>signer/src/wire/xfrd.c\<close>: the UDP
  and TCP connections of all zones, the queue of zones that wait for a UDP socket, the choice of the
  master, and the event handler.  The results of the socket calls are the fields of \<open>xio\<close>; a
  received message is an argument of the event.
\<close>

section \<open>State\<close>

definition TCPSET_MAX :: nat where "TCPSET_MAX = 50"

text \<open>
  \<open>zone\<close> has the transfer structure of each zone, \<open>masters\<close> its list \<^verbatim>\<open>request_xfr\<close>, \<open>files\<close> its
  transfer file and \<open>resched\<close> the zones whose read task was rescheduled.  \<open>conn_fd\<close> and
  \<open>conn_packet\<close> are the TCP connections, \<open>udp_queue\<close> the list from \<^verbatim>\<open>udp_waiting_first\<close> on.
\<close>

record 'rr net =
  zone :: "nat \<Rightarrow> xfrd"
  masters :: "nat \<Rightarrow> xmaster list"
  apex :: "nat \<Rightarrow> u8 list"
  klass :: "nat \<Rightarrow> u16"
  files :: "nat \<Rightarrow> 'rr xfr_line list"
  resched :: "nat list"
  conn_fd :: "int list"
  conn_packet :: "buffer list"
  tcp_count :: nat
  udp_packet :: buffer
  udp_use_num :: nat
  udp_queue :: "nat list"

text \<open>
  The environment of one event: the clocks \<^verbatim>\<open>xfrd_time\<close> and \<^verbatim>\<open>time_now\<close>, the random numbers, the
  results of the socket calls for a zone (\<open>-1\<close> for failure), and the libraries.
\<close>

record 'rr xio =
  io_now :: time_t
  io_time :: time_t
  io_rnd :: nat
  io_qid :: "nat \<Rightarrow> u16"
  io_udp :: "nat \<Rightarrow> int"
  io_tcp :: "nat \<Rightarrow> int"
  io_nonblock :: "nat \<Rightarrow> bool"
  io_connect :: "nat \<Rightarrow> bool"
  io_fdump :: bool
  io_fcommit :: bool
  io_hmac :: "nat \<Rightarrow> u8 list \<Rightarrow> u8 list \<Rightarrow> u8 list"
  io_dname :: "u8 list \<Rightarrow> u8 list option"
  io_w2p :: "u8 list \<Rightarrow> 'rr list option"
  io_tsig :: tsig_handler

definition upd :: "nat \<Rightarrow> (xfrd \<Rightarrow> xfrd) \<Rightarrow> 'rr net \<Rightarrow> 'rr net" where
  "upd z f n = n\<lparr>zone := (zone n)(z := f (zone n z))\<rparr>"

definition cur_master :: "nat \<Rightarrow> 'rr net \<Rightarrow> xmaster option" where
  "cur_master z n =
    (case master (zone n z) of None \<Rightarrow> None
     | Some i \<Rightarrow> if i < length (masters n z) then Some (masters n z ! i) else None)"

definition master_key :: "nat \<Rightarrow> 'rr net \<Rightarrow> (string \<times> tsig_key) option" where
  "master_key z n =
    (case cur_master z n of None \<Rightarrow> None
     | Some m \<Rightarrow> map_option (Pair (m_algorithm m)) (m_key m))"

text \<open>The packet counters are reset for each request.\<close>

definition new_request :: "u16 \<Rightarrow> xfrd \<Rightarrow> xfrd" where
  "new_request qid x = x\<lparr>query_id := qid, msg_seq_nr := 0, msg_rr_count := 0, msg_old_serial := 0,
     msg_new_serial := 0, msg_is_ixfr := 0\<rparr>"

section \<open>UDP\<close>

definition xfrd_udp_send_request_ixfr :: "'rr xio \<Rightarrow> nat \<Rightarrow> 'rr net \<Rightarrow> (int \<times> 'rr net) exec" where
  "xfrd_udp_send_request_ixfr io z n =
    ods_log_assert (master (zone n z) \<noteq> None)
    (if tcp_conn (zone n z) \<noteq> -1 then Ok (-1, n)
     else exec_bind (buffer_pkt_query (io_qid io z) (apex n z) LDNS_RR_TYPE_IXFR (klass n z) (udp_packet n)) (\<lambda>b.
     exec_bind (buffer_pkt_id b) (\<lambda>qid.
     let x = new_request qid (zone n z) in
     exec_bind (buffer_pkt_set_nscount 1 b) (\<lambda>b.
     exec_bind (xfrd_write_soa (apex n z) (klass n z) x b) (\<lambda>b.
     exec_bind (xfrd_tsig_sign (io_hmac io) (io_tsig io) (io_time io) (master_key z n) x b) (\<lambda>(x, b).
     let x = xfrd_set_timer (io_now io) (io_rnd io) (io_now io + XFRD_UDP_TIMEOUT) x
     in Ok (io_udp io z, (upd z (\<lambda>_. x) n)\<lparr>udp_packet := buffer_flip b\<rparr>)))))))"

text \<open>The loop of \<^verbatim>\<open>xfrd_udp_release\<close> over the waiting zones: \<open>True\<close> when one of them took the socket.\<close>

fun udp_serve :: "'rr xio \<Rightarrow> nat list \<Rightarrow> 'rr net \<Rightarrow> (bool \<times> 'rr net) exec" where
  "udp_serve io [] n = Ok (False, n\<lparr>udp_queue := []\<rparr>)"
| "udp_serve io (w # ws) n =
    ods_log_assert (udp_waiting (zone n w))
    (let n = (upd w (\<lambda>x. x\<lparr>udp_waiting := False\<rparr>) n)\<lparr>udp_queue := ws\<rparr> in
     if tcp_conn (zone n w) = -1 then
       exec_bind (xfrd_udp_send_request_ixfr io w n) (\<lambda>(fd, n).
       let n = upd w (\<lambda>x. x\<lparr>handler_fd := fd\<rparr>) n in
       if fd \<noteq> -1 then Ok (True, n) else udp_serve io ws n)
     else udp_serve io ws n)"

definition xfrd_udp_release :: "'rr xio \<Rightarrow> nat \<Rightarrow> 'rr net \<Rightarrow> 'rr net exec" where
  "xfrd_udp_release io z n =
    ods_log_assert (\<not> udp_waiting (zone n z))
    (let n = upd z (\<lambda>x. x\<lparr>handler_fd := -1\<rparr>) n in
     exec_bind (if udp_use_num n = XFRD_MAX_UDP then udp_serve io (udp_queue n) n else Ok (False, n))
       (\<lambda>(served, n).
     Ok (if \<not> served \<and> udp_use_num n > 0 then n\<lparr>udp_use_num := udp_use_num n - 1\<rparr> else n)))"

section \<open>TCP\<close>

text \<open>\<^verbatim>\<open>tcp_count\<close> is a \<^verbatim>\<open>size_t\<close>.\<close>

definition xfrd_tcp_release :: "nat \<Rightarrow> 'rr net \<Rightarrow> 'rr net exec" where
  "xfrd_tcp_release z n =
    (let x = zone n z; conn = nat (tcp_conn x) in
     ods_log_assert (master x \<noteq> None) (ods_log_assert (tcp_conn x \<noteq> -1) (ods_log_assert (\<not> tcp_waiting x)
     (if \<not> conn < length (conn_fd n) then Fault
      else Ok ((upd z (\<lambda>x. x\<lparr>tcp_conn := -1, tcp_waiting := False, handler_fd := -1, event_write := False\<rparr>) n)
        \<lparr>conn_fd := (conn_fd n)[conn := -1],
         tcp_count := (if tcp_count n = 0 then 2 ^ 64 - 1 else tcp_count n - 1)\<rparr>)))))"

definition tcp_give_up :: "'rr xio \<Rightarrow> nat \<Rightarrow> 'rr net \<Rightarrow> 'rr net exec" where
  "tcp_give_up io z n = xfrd_tcp_release z (upd z (xfrd_set_timer_now (io_now io) (io_rnd io)) n)"

definition xfrd_tcp_open :: "'rr xio \<Rightarrow> nat \<Rightarrow> 'rr net \<Rightarrow> (bool \<times> 'rr net) exec" where
  "xfrd_tcp_open io z n =
    (let conn = nat (tcp_conn (zone n z)) in
     ods_log_assert (tcp_conn (zone n z) \<noteq> -1) (ods_log_assert (master (zone n z) \<noteq> None)
     (if \<not> conn < length (conn_fd n) then Fault
      else let fd = io_tcp io z; n = n\<lparr>conn_fd := (conn_fd n)[conn := fd]\<rparr> in
        if fd = -1 \<or> \<not> io_nonblock io z \<or> \<not> io_connect io z
        then exec_bind (tcp_give_up io z n) (\<lambda>n. Ok (False, n))
        else Ok (True, upd z (\<lambda>x. xfrd_set_timer (io_now io) (io_rnd io) (io_now io + XFRD_TCP_TIMEOUT)
                (x\<lparr>handler_fd := fd, event_write := True\<rparr>)) n))))"

definition xfrd_tcp_xfr :: "'rr xio \<Rightarrow> nat \<Rightarrow> 'rr net \<Rightarrow> 'rr net exec" where
  "xfrd_tcp_xfr io z n =
    (let x = zone n z; conn = nat (tcp_conn x) in
     ods_log_assert (tcp_conn x \<noteq> -1) (ods_log_assert (\<not> tcp_waiting x)
     (case cur_master z n of None \<Rightarrow> Abort
      | Some m \<Rightarrow>
        if \<not> conn < length (conn_packet n) then Fault
        else
          exec_bind
            (if serial_xfr_acquired x \<le> 0 \<or> m_ixfr_disabled m \<noteq> 0
             then buffer_pkt_query (io_qid io z) (apex n z) LDNS_RR_TYPE_AXFR (klass n z) (conn_packet n ! conn)
             else exec_bind (buffer_pkt_query (io_qid io z) (apex n z) LDNS_RR_TYPE_IXFR (klass n z)
                               (conn_packet n ! conn)) (\<lambda>b.
                  exec_bind (buffer_pkt_set_nscount 1 b) (xfrd_write_soa (apex n z) (klass n z) x))) (\<lambda>b.
          exec_bind (buffer_pkt_id b) (\<lambda>qid.
          exec_bind (xfrd_tsig_sign (io_hmac io) (io_tsig io) (io_time io) (master_key z n)
                       (new_request qid x) b) (\<lambda>(x, b).
          Ok ((upd z (\<lambda>_. x) n)\<lparr>conn_packet := (conn_packet n)[conn := buffer_flip b]\<rparr>)))))))"

fun free_conn :: "nat \<Rightarrow> int list \<Rightarrow> int" where
  "free_conn i [] = -1"
| "free_conn i (fd # fds) = (if fd = -1 then int i else free_conn (i + 1) fds)"

definition xfrd_tcp_obtain :: "'rr xio \<Rightarrow> nat \<Rightarrow> 'rr net \<Rightarrow> 'rr net exec" where
  "xfrd_tcp_obtain io z n =
    ods_log_assert (tcp_conn (zone n z) = -1) (ods_log_assert (\<not> tcp_waiting (zone n z))
    (if tcp_count n < TCPSET_MAX then
       (let c = free_conn 0 (conn_fd n);
            n = (upd z (\<lambda>x. x\<lparr>tcp_conn := c\<rparr>) n)\<lparr>tcp_count := tcp_count n + 1\<rparr> in
        ods_log_assert (c \<noteq> -1)
        (exec_bind (if handler_fd (zone n z) \<noteq> -1 then xfrd_udp_release io z n else Ok n) (\<lambda>n.
         exec_bind (xfrd_tcp_open io z n) (\<lambda>(opened, n).
         if opened then xfrd_tcp_xfr io z n else Ok n))))
     else Ok (upd z (\<lambda>x. xfrd_unset_timer (x\<lparr>tcp_waiting := True\<rparr>)) n)))"

definition xfrd_udp_obtain :: "'rr xio \<Rightarrow> nat \<Rightarrow> 'rr net \<Rightarrow> 'rr net exec" where
  "xfrd_udp_obtain io z n =
    ods_log_assert (\<not> udp_waiting (zone n z))
    (exec_bind (if tcp_conn (zone n z) \<noteq> -1 then xfrd_tcp_release z n else Ok n) (\<lambda>n.
     if udp_use_num n < XFRD_MAX_UDP then
       exec_bind (xfrd_udp_send_request_ixfr io z (n\<lparr>udp_use_num := udp_use_num n + 1\<rparr>)) (\<lambda>(fd, n).
       let n = upd z (\<lambda>x. x\<lparr>handler_fd := fd\<rparr>) n in
       Ok (if fd = -1 then n\<lparr>udp_use_num := udp_use_num n - 1\<rparr> else n))
     else Ok ((upd z (\<lambda>x. xfrd_unset_timer (x\<lparr>udp_waiting := True\<rparr>)) n)\<lparr>udp_queue := udp_queue n @ [z]\<rparr>)))"

section \<open>Requests\<close>

text \<open>
  The choice of the master: the first component tells whether to make a request.  \<open>cnt\<close> is the
  number of masters of the zone.
\<close>

definition choose_master :: "nat \<Rightarrow> xfrd \<Rightarrow> bool \<times> xfrd" where
  "choose_master cnt x =
    (let first = (if cnt = 0 then None else Some 0) in
     if next_master x \<noteq> -1 then
       (True, x\<lparr>master := first, master_num := 0, next_master := -1, round_num := 0\<rparr>)
     else
       (let x = (case master x of
                   Some i \<Rightarrow> if round_num x \<noteq> -1 \<and> i + 1 < cnt
                              then x\<lparr>master := Some (i + 1), master_num := master_num x + 1\<rparr>
                              else x\<lparr>master := first, master_num := 0, round_num := round_num x + 1\<rparr>
                 | None \<Rightarrow> x\<lparr>master := first, master_num := 0, round_num := round_num x + 1\<rparr>)
        in (round_num x < XFRD_MAX_ROUNDS, x)))"

definition wait_retry :: "'rr xio \<Rightarrow> xfrd \<Rightarrow> xfrd" where
  "wait_retry io x = xfrd_set_timer_retry (io_now io) (io_rnd io) (x\<lparr>round_num := -1\<rparr>)"

definition set_ixfr_disabled :: "nat \<Rightarrow> time_t \<Rightarrow> 'rr net \<Rightarrow> 'rr net" where
  "set_ixfr_disabled z t n =
    (case master (zone n z) of None \<Rightarrow> n
     | Some i \<Rightarrow> n\<lparr>masters := (masters n)(z := (masters n z)[i := (masters n z ! i)\<lparr>m_ixfr_disabled := t\<rparr>])\<rparr>)"

definition xfrd_make_request :: "'rr xio \<Rightarrow> nat \<Rightarrow> 'rr net \<Rightarrow> 'rr net exec" where
  "xfrd_make_request io z n =
    (case choose_master (length (masters n z)) (zone n z) of
       (False, x) \<Rightarrow> Ok (upd z (\<lambda>_. wait_retry io x) n)
     | (True, x) \<Rightarrow>
       (let n = upd z (\<lambda>_. x) n in
        case cur_master z n of
          None \<Rightarrow> Ok (upd z (wait_retry io) n)
        | Some m \<Rightarrow>
          (let expired = (m_ixfr_disabled m \<noteq> 0 \<and> m_ixfr_disabled m + XFRD_NO_IXFR_CACHE \<le> io_now io);
               n = (if expired then set_ixfr_disabled z 0 n else n);
               disabled = (if expired then 0 else m_ixfr_disabled m) in
           if serial_xfr_acquired x \<noteq> 0 \<and> disabled = 0 then
             xfrd_udp_obtain io z
               (upd z (xfrd_set_timer (io_now io) (io_rnd io) (io_now io + XFRD_UDP_TIMEOUT)) n)
           else if serial_xfr_acquired x \<le> 0 \<or> disabled \<noteq> 0 then
             xfrd_tcp_obtain io z
               (upd z (xfrd_set_timer (io_now io) (io_rnd io) (io_now io + XFRD_TCP_TIMEOUT)) n)
           else Ok n)))"

text \<open>The state after \<^verbatim>\<open>xfrd_handle_packet\<close> for a zone.\<close>

definition handle_packet ::
  "'rr xio \<Rightarrow> nat \<Rightarrow> buffer \<Rightarrow> 'rr net \<Rightarrow> (xfrd_pkt_status \<times> buffer \<times> 'rr net) exec" where
  "handle_packet io z b n =
    exec_bind (xfrd_handle_packet (io_hmac io) (io_dname io) (io_w2p io) (io_now io) (io_rnd io)
      (io_fdump io) (io_fcommit io) (master_key z n) (zone n z) b (files n z)) (\<lambda>(res, x, b, file, rs).
    Ok (res, b, (upd z (\<lambda>_. x) n)\<lparr>files := (files n)(z := file),
          resched := (if rs then resched n @ [z] else resched n)\<rparr>))"

text \<open>A message that was read into a buffer.\<close>

definition load_packet :: "u8 list \<Rightarrow> buffer \<Rightarrow> buffer exec" where
  "load_packet bytes b =
    exec_bind (mem_write (buf_data b) 0 bytes) (\<lambda>d.
    buffer_set_limit (length bytes) ((buffer_clear b)\<lparr>buf_data := d\<rparr>))"

definition note_notimpl :: "'rr xio \<Rightarrow> xfrd_pkt_status \<Rightarrow> nat \<Rightarrow> 'rr net \<Rightarrow> 'rr net" where
  "note_notimpl io res z n = (if res = XFRD_PKT_NOTIMPL then set_ixfr_disabled z (io_time io) n else n)"

text \<open>The result of \<^verbatim>\<open>tcp_conn_read\<close>: an error, not yet a whole message, or a message.\<close>

datatype tcp_input = Tcp_Error | Tcp_Again | Tcp_Msg "u8 list"

definition xfrd_tcp_read :: "'rr xio \<Rightarrow> nat \<Rightarrow> tcp_input \<Rightarrow> 'rr net \<Rightarrow> 'rr net exec" where
  "xfrd_tcp_read io z inp n =
    (let conn = nat (tcp_conn (zone n z)) in
     ods_log_assert (tcp_conn (zone n z) \<noteq> -1)
     (case inp of
        Tcp_Error \<Rightarrow> tcp_give_up io z n
      | Tcp_Again \<Rightarrow> Ok n
      | Tcp_Msg bytes \<Rightarrow>
        if \<not> conn < length (conn_packet n) then Fault
        else exec_bind (load_packet bytes (conn_packet n ! conn)) (\<lambda>b.
        exec_bind (handle_packet io z b n) (\<lambda>(res, b, n).
        let n = n\<lparr>conn_packet := (conn_packet n)[conn := b]\<rparr> in
        case res of
          XFRD_PKT_MORE \<Rightarrow> Ok (n\<lparr>conn_packet := (conn_packet n)[conn := buffer_clear b]\<rparr>)
        | XFRD_PKT_XFR \<Rightarrow>
            exec_bind (xfrd_tcp_release z n) (\<lambda>n. ods_log_assert (round_num (zone n z) = -1) (Ok n))
        | XFRD_PKT_NEWLEASE \<Rightarrow>
            exec_bind (xfrd_tcp_release z n) (\<lambda>n. ods_log_assert (round_num (zone n z) = -1) (Ok n))
        | _ \<Rightarrow>
            exec_bind (xfrd_tcp_release z (note_notimpl io res z n)) (xfrd_make_request io z)))))"

text \<open>The outcome of connecting and of \<^verbatim>\<open>tcp_conn_write\<close>: failed, to be tried again, or done.\<close>

datatype tcp_output = Out_Error | Out_Again | Out_Done

definition xfrd_tcp_write :: "'rr xio \<Rightarrow> nat \<Rightarrow> tcp_output \<Rightarrow> tcp_input \<Rightarrow> 'rr net \<Rightarrow> 'rr net exec" where
  "xfrd_tcp_write io z out inp n =
    (let conn = nat (tcp_conn (zone n z)) in
     ods_log_assert (tcp_conn (zone n z) \<noteq> -1)
     (case out of
        Out_Error \<Rightarrow> tcp_give_up io z n
      | Out_Again \<Rightarrow> Ok n
      | Out_Done \<Rightarrow>
        if \<not> conn < length (conn_packet n) then Fault
        else xfrd_tcp_read io z inp
          ((upd z (\<lambda>x. x\<lparr>event_write := False\<rparr>) n)
            \<lparr>conn_packet := (conn_packet n)[conn := buffer_clear (conn_packet n ! conn)]\<rparr>)))"

text \<open>The result of \<^verbatim>\<open>recvfrom\<close>: \<open>None\<close> for -1.\<close>

definition xfrd_udp_read :: "'rr xio \<Rightarrow> nat \<Rightarrow> u8 list option \<Rightarrow> 'rr net \<Rightarrow> 'rr net exec" where
  "xfrd_udp_read io z inp n =
    (case inp of
       None \<Rightarrow> xfrd_udp_release io z (n\<lparr>udp_packet := buffer_clear (udp_packet n)\<rparr>)
     | Some bytes \<Rightarrow>
       exec_bind (load_packet bytes (udp_packet n)) (\<lambda>b.
       exec_bind (handle_packet io z b n) (\<lambda>(res, b, n).
       let n = n\<lparr>udp_packet := b\<rparr> in
       case res of
         XFRD_PKT_TC \<Rightarrow>
           exec_bind (xfrd_udp_release io z n) (\<lambda>n.
           xfrd_tcp_obtain io z
             (upd z (xfrd_set_timer (io_now io) (io_rnd io) (io_now io + XFRD_TCP_TIMEOUT)) n))
       | XFRD_PKT_XFR \<Rightarrow> ods_log_assert (round_num (zone n z) = -1) (xfrd_udp_release io z n)
       | XFRD_PKT_NEWLEASE \<Rightarrow> ods_log_assert (round_num (zone n z) = -1) (xfrd_udp_release io z n)
       | _ \<Rightarrow> exec_bind (xfrd_udp_release io z (note_notimpl io res z n)) (xfrd_make_request io z))))"

section \<open>Events\<close>

datatype event = Ev_Timeout | Ev_Read tcp_input "u8 list option" | Ev_Write tcp_output tcp_input

text \<open>The part of \<^verbatim>\<open>xfrd_handle_zone\<close> for a timeout.\<close>

definition zone_timeout :: "'rr xio \<Rightarrow> nat \<Rightarrow> 'rr net \<Rightarrow> 'rr net exec" where
  "zone_timeout io z n =
    exec_bind (if handler_fd (zone n z) \<noteq> -1
               then ods_log_assert (tcp_conn (zone n z) = -1) (xfrd_udp_release io z n) else Ok n) (\<lambda>n.
    if tcp_waiting (zone n z) then Ok (upd z xfrd_unset_timer n)
    else if udp_waiting (zone n z) then Ok (upd z xfrd_unset_timer n)
    else xfrd_make_request io z n)"

definition xfrd_handle_zone :: "'rr xio \<Rightarrow> nat \<Rightarrow> event \<Rightarrow> 'rr net \<Rightarrow> 'rr net exec" where
  "xfrd_handle_zone io z ev n =
    (let tcp = (tcp_conn (zone n z) \<noteq> -1);
         timed = upd z (xfrd_set_timer (io_now io) (io_rnd io) (io_now io + XFRD_TCP_TIMEOUT)) n in
     case ev of
       Ev_Read inp dgram \<Rightarrow>
         if tcp then xfrd_tcp_read io z inp timed
         else xfrd_udp_read io z dgram (upd z (xfrd_set_timer_now (io_now io) (io_rnd io)) n)
     | Ev_Write out inp \<Rightarrow> if tcp then xfrd_tcp_write io z out inp timed else zone_timeout io z n
     | Ev_Timeout \<Rightarrow>
         if tcp then exec_bind (xfrd_tcp_release z n) (zone_timeout io z) else zone_timeout io z n)"

text \<open>
  What the notify handler of \<^verbatim>\<open>query.c\<close> does with the transfer structure of its zone: it records
  the serial and sets the timer, unless the serial is not newer than the one on disk.
\<close>

definition xfrd_notified :: "time_t \<Rightarrow> time_t \<Rightarrow> nat \<Rightarrow> u32 option \<Rightarrow> xfrd \<Rightarrow> xfrd" where
  "xfrd_notified now tnow rnd serial x =
    (case serial of
       Some s \<Rightarrow>
        (let x = x\<lparr>serial_notify := s, serial_notify_acquired := tnow\<rparr> in
         if \<not> util_serial_gt (serial_notify x) (serial_disk x) then x
         else xfrd_set_timer_now now rnd x)
     | None \<Rightarrow> xfrd_set_timer_now now rnd (x\<lparr>serial_notify := 0, serial_notify_acquired := 0\<rparr>))"
end
