(* ===== verification/Xfrd_Props.thy ===== *)
theory Xfrd_Props
  imports Xfrd Tsig_Props
begin

text \<open>
  Properties of the zone transfer client that concern one zone: its timer, the replies it accepts
  and the transfer file.
\<close>

section \<open>What handling a packet leaves alone\<close>

definition conn_of :: "xfrd \<Rightarrow> int \<times> int \<times> bool \<times> bool \<times> nat option \<times> int" where
  "conn_of x = (tcp_conn x, handler_fd x, tcp_waiting x, udp_waiting x, master x, next_master x)"

definition timer_kept :: "xfrd \<Rightarrow> xfrd \<Rightarrow> bool" where
  "timer_kept x x' \<longleftrightarrow> conn_of x' = conn_of x \<and> (timer x \<noteq> None \<longrightarrow> timer x' \<noteq> None)"

named_theorems kept \<open>the connection and the timer of a zone are kept\<close>

lemma timer_kept_refl [kept, intro]: "timer_kept x x"
  by (simp add: timer_kept_def)

lemma timer_kept_trans: "timer_kept x y \<Longrightarrow> timer_kept y z \<Longrightarrow> timer_kept x z"
  by (auto simp: timer_kept_def)

lemma set_timer_kept [kept]: "timer_kept x y \<Longrightarrow> timer_kept x (xfrd_set_timer now rnd t y)"
  by (simp add: timer_kept_def conn_of_def xfrd_set_timer_def Let_def)

lemma set_timer_refresh_kept [kept]: "timer_kept x y \<Longrightarrow> timer_kept x (xfrd_set_timer_refresh now rnd y)"
  by (simp add: xfrd_set_timer_refresh_def xfrd_set_timer_time_def set_timer_kept)

lemma timer_kept_upd [simp]:
  "timer_kept x (y\<lparr>msg_rr_count := c\<rparr>) \<longleftrightarrow> timer_kept x y" "timer_kept (y\<lparr>msg_rr_count := c\<rparr>) z \<longleftrightarrow> timer_kept y z"
  "timer_kept x (y\<lparr>msg_is_ixfr := c\<rparr>) \<longleftrightarrow> timer_kept x y" "timer_kept x (y\<lparr>x_tsig := t\<rparr>) \<longleftrightarrow> timer_kept x y"
  "timer_kept x (y\<lparr>soa := so\<rparr>) \<longleftrightarrow> timer_kept x y" "timer_kept x (y\<lparr>round_num := r\<rparr>) \<longleftrightarrow> timer_kept x y"
  "timer_kept x (y\<lparr>serial_notify_acquired := a\<rparr>) \<longleftrightarrow> timer_kept x y"
  "timer_kept x (y\<lparr>serial_disk_acquired := a\<rparr>) \<longleftrightarrow> timer_kept x y"
  "timer_kept x (y\<lparr>serial_xfr_acquired := a\<rparr>) \<longleftrightarrow> timer_kept x y"
  "timer_kept x (y\<lparr>serial_notify := s\<rparr>) \<longleftrightarrow> timer_kept x y" "timer_kept x (y\<lparr>serial_disk := s\<rparr>) \<longleftrightarrow> timer_kept x y"
  "timer_kept x (y\<lparr>msg_old_serial := s\<rparr>) \<longleftrightarrow> timer_kept x y" "timer_kept x (y\<lparr>msg_new_serial := s\<rparr>) \<longleftrightarrow> timer_kept x y"
  "timer_kept x (y\<lparr>msg_seq_nr := q\<rparr>) \<longleftrightarrow> timer_kept x y" "timer_kept (y\<lparr>msg_seq_nr := q\<rparr>) z \<longleftrightarrow> timer_kept y z"
  by (simp_all add: timer_kept_def conn_of_def)

lemma tsig_sign_kept: "ensures (xfrd_tsig_sign hmac h now mkey x b) (\<lambda>(x', b'). timer_kept x x')"
  unfolding xfrd_tsig_sign_def Let_def
  by ((rule ensures_rules | clarsimp simp: timer_kept_refl)+)

lemma tsig_process_kept: "ensures (xfrd_tsig_process hmac dn mkey x b) (\<lambda>(r, x', b'). timer_kept x x')"
  unfolding xfrd_tsig_process_def Let_def
  by ((rule ensures_rules | clarsimp simp: timer_kept_refl)+)

lemma update_soa_kept:
  "ensures (xfrd_update_soa x b ttl mp rp refresh retry expire minimum) (\<lambda>(x', b'). timer_kept x x')"
  unfolding xfrd_update_soa_def by ((rule ensures_rules | clarsimp simp: timer_kept_refl)+)

lemma parse_soa_rdata_kept: "ensures (parse_soa_rdata x b update ttl) (\<lambda>(s, x', b'). timer_kept x x')"
proof -
  have upd: "ensures (if update then xfrd_update_soa x b' ttl mp rp refresh retry expire minimum else Ok (x, b'))
    (\<lambda>(x', b'). timer_kept x x')" for b' mp rp refresh retry expire minimum
    using update_soa_kept by (auto simp: timer_kept_refl)
  show ?thesis
    unfolding parse_soa_rdata_def Let_def
    by ((rule ensures_bind [OF upd] ensures_rules | clarsimp simp: timer_kept_refl)+)
qed

lemma parse_soa_kept: "ensures (xfrd_parse_soa x b rdata_only update t) (\<lambda>(s, x', b'). timer_kept x x')"
  unfolding xfrd_parse_soa_def
  by ((rule parse_soa_rdata_kept ensures_rules | clarsimp simp: timer_kept_refl)+)

lemma soa_seen_kept: "soa_seen x serial don = Inr (x', don') \<Longrightarrow> timer_kept x x'"
  by (auto simp: soa_seen_def timer_kept_def conn_of_def Let_def split: if_splits)

lemma parse_rrs_kept: "ensures (xfrd_parse_rrs count x b don) (\<lambda>(st, don', x', b'). timer_kept x x')"
proof (induction count arbitrary: x b don)
  case 0
  show ?case by (simp add: timer_kept_refl)
next
  case (Suc count)
  have rec: "ensures (xfrd_parse_rrs count (x1\<lparr>msg_rr_count := c\<rparr>) b1 don1) (\<lambda>(st, don', x', b'). timer_kept x x')"
    if "timer_kept x x1" for x1 b1 don1 c
    by (rule ensures_weaken [OF Suc.IH]) (auto intro: timer_kept_trans [OF that])
  show ?case
    unfolding xfrd_parse_rrs.simps
    by ((rule ensures_bind [OF parse_soa_kept] ensures_rules
        | (clarsimp simp: timer_kept_refl rec split: sum.split; fastforce dest: soa_seen_kept intro: rec timer_kept_trans))+)
qed

lemma first_serial_kept: "first_serial now rnd an serial x = (r, x') \<Longrightarrow> timer_kept x x'"
  by (auto simp: first_serial_def Let_def set_timer_refresh_kept timer_kept_refl split: if_splits)

lemma parse_answer_kept: "ensures (parse_answer an todo x b) (\<lambda>(st, x', b'). timer_kept x x')"
  unfolding parse_answer_def
  by ((rule ensures_bind [OF parse_rrs_kept] ensures_rules | clarsimp simp: timer_kept_refl)+)

lemma parse_sections_kept: "ensures (parse_sections now rnd x b) (\<lambda>(st, x', b'). timer_kept x x')"
proof -
  have ans: "ensures (parse_answer an todo x1 b1) (\<lambda>(st, x', b'). timer_kept x x')" if "timer_kept x x1" for an todo x1 b1
    by (rule ensures_weaken [OF parse_answer_kept]) (auto intro: timer_kept_trans [OF that])
  show ?thesis
    unfolding parse_sections_def
    by ((rule ensures_bind [OF parse_soa_kept] ensures_rules
        | (clarsimp simp: timer_kept_refl ans; fastforce dest: first_serial_kept intro: ans timer_kept_trans))+)
qed

lemma parse_packet_kept:
  "ensures (xfrd_parse_packet hmac dn now rnd mkey x b) (\<lambda>(st, x', b'). timer_kept x x')"
proof -
  have sec: "ensures (parse_sections now rnd x1 b1) (\<lambda>(st, x', b'). timer_kept x x')" if "timer_kept x x1" for x1 b1
    by (rule ensures_weaken [OF parse_sections_kept]) (auto intro: timer_kept_trans [OF that])
  show ?thesis
    unfolding xfrd_parse_packet_def
    by ((rule ensures_bind [OF tsig_process_kept] ensures_rules | clarsimp simp: timer_kept_refl sec)+)
qed

lemma dump_packet_kept: "xfrd_dump_packet w2p fdump b x file = (x', file') \<Longrightarrow> timer_kept x x'"
  by (auto simp: xfrd_dump_packet_def Let_def timer_kept_refl split: option.splits if_splits)

lemma commit_packet_kept: "xfrd_commit_packet now fcommit x file = (x', file', rs) \<Longrightarrow> timer_kept x x'"
  by (auto simp: xfrd_commit_packet_def Let_def timer_kept_refl split: if_splits)

lemma finish_transfer_kept:
  assumes "finish_transfer now rnd fcommit x b file = (st, x', b', file', rs)"
  shows "timer_kept x x'"
proof -
  obtain x1 file1 rs1 where c: "xfrd_commit_packet now fcommit x file = (x1, file1, rs1)"
    using prod_cases3 by blast
  show ?thesis
    using assms commit_packet_kept [OF c]
    by (auto simp: finish_transfer_def c set_timer_refresh_kept Let_def split: if_splits)
qed

lemma handle_packet_kept:
  "ensures (xfrd_handle_packet hmac dn w2p now rnd fdump fcommit mkey x b file)
     (\<lambda>(st, x', b', file', rs). timer_kept x x')"
  unfolding xfrd_handle_packet_def Let_def
  by (rule ensures_bind [OF parse_packet_kept])
     (auto split: prod.splits dest!: dump_packet_kept finish_transfer_kept
       intro: timer_kept_trans timer_kept_trans [OF timer_kept_trans])
end
