(* ===== verification/Xfrd_Inv.thy ===== *)
theory Xfrd_Inv
  imports Xfrd_Net Xfrd_Props
begin

text \<open>
  The sockets of the zone transfer client: every event keeps the counters of the sockets true, gives
  no connection to two zones, keeps the queue of waiting zones, and leaves no zone without a timer
  unless it waits for a socket.
\<close>

section \<open>Invariant\<close>

definition on_udp :: "'rr net \<Rightarrow> nat set" where
  "on_udp n = {z. tcp_conn (zone n z) = -1 \<and> handler_fd (zone n z) \<noteq> -1}"

definition on_tcp :: "'rr net \<Rightarrow> nat set" where
  "on_tcp n = {z. tcp_conn (zone n z) \<noteq> -1}"

text \<open>\<open>udp_cnt k n\<close>: the counter exceeds the number of UDP sockets by \<open>k\<close> (1 while one is handed over).\<close>

definition udp_cnt :: "nat \<Rightarrow> 'rr net \<Rightarrow> bool" where
  "udp_cnt k n \<longleftrightarrow> finite (on_udp n) \<and> udp_use_num n = card (on_udp n) + k \<and> udp_use_num n \<le> XFRD_MAX_UDP"

definition queue_ok :: "'rr net \<Rightarrow> bool" where
  "queue_ok n \<longleftrightarrow> distinct (udp_queue n) \<and> (\<forall>z. udp_waiting (zone n z) \<longleftrightarrow> z \<in> set (udp_queue n)) \<and>
     (udp_queue n \<noteq> [] \<longrightarrow> udp_use_num n = XFRD_MAX_UDP)"

definition tcp_ok :: "'rr net \<Rightarrow> bool" where
  "tcp_ok n \<longleftrightarrow> length (conn_fd n) = TCPSET_MAX \<and> length (conn_packet n) = TCPSET_MAX \<and>
     finite (on_tcp n) \<and> tcp_count n = card (on_tcp n) \<and>
     inj_on (\<lambda>z. tcp_conn (zone n z)) (on_tcp n) \<and>
     (\<forall>z\<in>on_tcp n. 0 \<le> tcp_conn (zone n z) \<and> tcp_conn (zone n z) < int TCPSET_MAX \<and>
        conn_fd n ! nat (tcp_conn (zone n z)) \<noteq> -1) \<and>
     (\<forall>i<TCPSET_MAX. conn_fd n ! i \<noteq> -1 \<longrightarrow> (\<exists>z\<in>on_tcp n. tcp_conn (zone n z) = int i))"

definition zone_ok :: "xfrd \<Rightarrow> bool" where
  "zone_ok x \<longleftrightarrow> (tcp_conn x \<noteq> -1 \<or> handler_fd x \<noteq> -1 \<or> udp_waiting x \<longrightarrow> master x \<noteq> None) \<and>
     (udp_waiting x \<or> tcp_waiting x \<longrightarrow> tcp_conn x = -1 \<and> handler_fd x = -1) \<and>
     \<not> (udp_waiting x \<and> tcp_waiting x) \<and>
     (timer x = None \<longrightarrow> udp_waiting x \<or> tcp_waiting x)"

definition net_core :: "'rr net \<Rightarrow> bool" where
  "net_core n \<longleftrightarrow> queue_ok n \<and> tcp_ok n \<and> (\<forall>z. zone_ok (zone n z))"

definition net_ok :: "'rr net \<Rightarrow> bool" where
  "net_ok n \<longleftrightarrow> net_core n \<and> udp_cnt 0 n"

text \<open>A zone without a socket that waits for none; \<open>ready\<close> if it also has a timer.\<close>

definition idle :: "xfrd \<Rightarrow> bool" where
  "idle x \<longleftrightarrow> tcp_conn x = -1 \<and> handler_fd x = -1 \<and> \<not> udp_waiting x \<and> \<not> tcp_waiting x"

definition ready :: "xfrd \<Rightarrow> bool" where
  "ready x \<longleftrightarrow> idle x \<and> timer x \<noteq> None"

section \<open>Steps that leave the sockets alone\<close>

definition same_socks :: "'rr net \<Rightarrow> 'rr net \<Rightarrow> bool" where
  "same_socks n n' \<longleftrightarrow> conn_fd n' = conn_fd n \<and> length (conn_packet n') = length (conn_packet n) \<and>
     tcp_count n' = tcp_count n \<and> udp_use_num n' = udp_use_num n \<and> udp_queue n' = udp_queue n"

definition net_kept :: "'rr net \<Rightarrow> 'rr net \<Rightarrow> bool" where
  "net_kept n n' \<longleftrightarrow> same_socks n n' \<and> (\<forall>z. timer_kept (zone n z) (zone n' z))"

lemma upd_simps [simp]:
  "zone (upd z f n) w = (if w = z then f (zone n z) else zone n w)"
  "conn_fd (upd z f n) = conn_fd n" "conn_packet (upd z f n) = conn_packet n" "tcp_count (upd z f n) = tcp_count n"
  "udp_use_num (upd z f n) = udp_use_num n" "udp_queue (upd z f n) = udp_queue n" "masters (upd z f n) = masters n"
  "apex (upd z f n) = apex n" "klass (upd z f n) = klass n" "udp_packet (upd z f n) = udp_packet n"
  "files (upd z f n) = files n" "resched (upd z f n) = resched n"
  by (simp_all add: upd_def)

lemma net_kept_refl [intro]: "net_kept n n"
  by (simp add: net_kept_def same_socks_def timer_kept_refl)

lemma net_kept_trans: "net_kept n m \<Longrightarrow> net_kept m l \<Longrightarrow> net_kept n l"
  by (auto simp: net_kept_def same_socks_def intro: timer_kept_trans)

lemma conn_of_eqD:
  "conn_of x' = conn_of x \<Longrightarrow> tcp_conn x' = tcp_conn x \<and> handler_fd x' = handler_fd x \<and>
   tcp_waiting x' = tcp_waiting x \<and> udp_waiting x' = udp_waiting x \<and> master x' = master x \<and> next_master x' = next_master x"
  by (simp add: conn_of_def)

lemma timer_keptD:
  "timer_kept x x' \<Longrightarrow> tcp_conn x' = tcp_conn x \<and> handler_fd x' = handler_fd x \<and>
   tcp_waiting x' = tcp_waiting x \<and> udp_waiting x' = udp_waiting x \<and> master x' = master x \<and>
   (timer x' = None \<longrightarrow> timer x = None)"
  unfolding timer_kept_def by (blast dest: conn_of_eqD)

lemma net_keptD:
  assumes "net_kept n n'"
  shows "on_udp n' = on_udp n" "on_tcp n' = on_tcp n" "tcp_conn (zone n' z) = tcp_conn (zone n z)"
    "handler_fd (zone n' z) = handler_fd (zone n z)"
    "udp_waiting (zone n' z) = udp_waiting (zone n z)" "tcp_waiting (zone n' z) = tcp_waiting (zone n z)"
    "master (zone n' z) = master (zone n z)" "idle (zone n' z) = idle (zone n z)"
    "timer (zone n' z) = None \<Longrightarrow> timer (zone n z) = None"
proof -
  have d: "timer_kept (zone n w) (zone n' w)" for w using assms by (simp add: net_kept_def)
  show "on_udp n' = on_udp n" "on_tcp n' = on_tcp n"
    using timer_keptD [OF d] by (auto simp: on_udp_def on_tcp_def)
  show "tcp_conn (zone n' z) = tcp_conn (zone n z)" "handler_fd (zone n' z) = handler_fd (zone n z)"
    "udp_waiting (zone n' z) = udp_waiting (zone n z)" "tcp_waiting (zone n' z) = tcp_waiting (zone n z)"
    "master (zone n' z) = master (zone n z)" "idle (zone n' z) = idle (zone n z)"
    "timer (zone n' z) = None \<Longrightarrow> timer (zone n z) = None"
    using timer_keptD [OF d, of z] by (simp_all add: idle_def)
qed

lemma zone_ok_kept:
  assumes k: "timer_kept x x'" and ok: "zone_ok x"
  shows "zone_ok x'"
proof -
  have eqs: "tcp_conn x' = tcp_conn x" "handler_fd x' = handler_fd x" "tcp_waiting x' = tcp_waiting x"
    "udp_waiting x' = udp_waiting x" "master x' = master x" and t: "timer x' = None \<longrightarrow> timer x = None"
    using timer_keptD [OF k] by blast+
  have "timer x' = None \<longrightarrow> udp_waiting x \<or> tcp_waiting x"
    using ok t unfolding zone_ok_def by argo
  with ok show ?thesis unfolding zone_ok_def eqs by (elim conjE, intro conjI)
qed

lemma net_core_kept:
  assumes k: "net_kept n n'" and "net_core n"
  shows "net_core n'"
proof -
  have s: "same_socks n n'" using k by (simp add: net_kept_def)
  have "zone_ok (zone n' z)" for z
    by (rule zone_ok_kept [of "zone n z"]) (use k assms(2) in \<open>simp_all add: net_kept_def net_core_def\<close>)
  moreover have "queue_ok n'" 
    using assms(2) s unfolding net_core_def queue_ok_def same_socks_def net_keptD(5) [OF k] by simp
  moreover have "tcp_ok n'"
    using assms(2) s unfolding net_core_def tcp_ok_def same_socks_def net_keptD(2) [OF k] net_keptD(3) [OF k]
    by simp
  ultimately show ?thesis by (simp add: net_core_def)
qed

lemma udp_cnt_kept: "net_kept n n' \<Longrightarrow> udp_cnt k n \<Longrightarrow> udp_cnt k n'"
  using net_keptD(1) [of n n'] by (simp add: udp_cnt_def net_kept_def same_socks_def)

lemma net_ok_kept: "net_kept n n' \<Longrightarrow> net_ok n \<Longrightarrow> net_ok n'"
  by (simp add: net_ok_def net_core_kept udp_cnt_kept)

lemma upd_kept: "timer_kept (zone n z) (f (zone n z)) \<Longrightarrow> net_kept n (upd z f n)"
  by (simp add: net_kept_def same_socks_def timer_kept_refl)

lemma send_request_kept:
  "ensures (xfrd_udp_send_request_ixfr io z n)
    (\<lambda>(fd, n'). net_kept n n' \<and> (tcp_conn (zone n z) = -1 \<longrightarrow> timer (zone n' z) \<noteq> None) \<and>
       (\<forall>w. w \<noteq> z \<longrightarrow> zone n' w = zone n w))"
proof -
  have new: "timer_kept x (new_request qid x)" for x qid
    by (simp add: new_request_def timer_kept_def conn_of_def)
  have nb: "net_kept n (m\<lparr>udp_packet := p\<rparr>) \<longleftrightarrow> net_kept n m" for m p
    by (simp add: net_kept_def same_socks_def)
  have fin: "net_kept n ((upd z (\<lambda>_. xfrd_set_timer now rnd t x') n)\<lparr>udp_packet := p\<rparr>)"
    if "timer_kept (new_request qid (zone n z)) x'" for x' qid now rnd t p
    unfolding nb by (rule upd_kept) (blast intro: set_timer_kept timer_kept_trans [OF new that])
  show ?thesis
    unfolding xfrd_udp_send_request_ixfr_def Let_def
    by ((rule ensures_bind [OF tsig_sign_kept] ensures_rules
        | (clarsimp simp: net_kept_refl fin; simp add: xfrd_set_timer_def Let_def) | clarsimp simp: net_kept_refl fin)+)
qed

section \<open>UDP\<close>

text \<open>A step that changes the zone \<open>w\<close> but no TCP connection.\<close>

lemma net_core_udp:
  assumes "net_core n" and "conn_fd n' = conn_fd n" and "length (conn_packet n') = length (conn_packet n)"
    and "tcp_count n' = tcp_count n" and "\<And>z. z \<noteq> w \<Longrightarrow> timer_kept (zone n z) (zone n' z)"
    and w: "tcp_conn (zone n' w) = tcp_conn (zone n w)" "zone_ok (zone n' w)" and "queue_ok n'"
  shows "net_core n'"
proof -
  have conn: "tcp_conn (zone n' z) = tcp_conn (zone n z)" for z
    using assms(5) [of z] w(1) timer_keptD by (cases "z = w") auto
  then have "on_tcp n' = on_tcp n" by (simp add: on_tcp_def)
  with conn assms have "tcp_ok n'" unfolding net_core_def tcp_ok_def by simp
  moreover have "zone_ok (zone n' z)" for z
    using assms(1,5) w(2) zone_ok_kept by (cases "z = w") (auto simp: net_core_def)
  ultimately show ?thesis using assms(8) by (simp add: net_core_def)
qed

lemma serve_one:
  assumes core: "net_core n" and q: "udp_queue n = w # ws" and cnt: "udp_cnt 1 n"
    and k: "net_kept ((upd w (\<lambda>x. x\<lparr>udp_waiting := False\<rparr>) n)\<lparr>udp_queue := ws\<rparr>) n2"
    and t: "timer (zone n2 w) \<noteq> None"
    and n3_def: "n3 = upd w (\<lambda>x. x\<lparr>handler_fd := fd\<rparr>) n2"
  shows "net_core n3 \<and> (if fd \<noteq> -1 then udp_cnt 0 n3 else udp_cnt 1 n3) \<and> udp_queue n3 = ws \<and>
    udp_use_num n3 = udp_use_num n"
proof -
  let ?n1 = "(upd w (\<lambda>x. x\<lparr>udp_waiting := False\<rparr>) n)\<lparr>udp_queue := ws\<rparr>"
  have s: "same_socks ?n1 n2" using k by (simp add: net_kept_def)
  have w: "w \<notin> set ws" "udp_waiting (zone n w)" "zone_ok (zone n w)"
    using core q by (auto simp: net_core_def queue_ok_def)
  then have wx: "tcp_conn (zone n w) = -1" "handler_fd (zone n w) = -1" "\<not> tcp_waiting (zone n w)" "master (zone n w) \<noteq> None"
    by (auto simp: zone_ok_def)
  have other: "timer_kept (zone n z) (zone n3 z)" if "z \<noteq> w" for z
  proof -
    have "timer_kept (zone ?n1 z) (zone n2 z)" using k by (simp add: net_kept_def)
    then show ?thesis using that by (simp add: n3_def)
  qed
  have z3: "tcp_conn (zone n3 w) = -1" "handler_fd (zone n3 w) = fd" "\<not> udp_waiting (zone n3 w)"
    "\<not> tcp_waiting (zone n3 w)" "master (zone n3 w) \<noteq> None" "timer (zone n3 w) \<noteq> None"
    using net_keptD(3-7) [OF k, of w] wx t by (simp_all add: n3_def)
  have waiting: "udp_waiting (zone n3 z) \<longleftrightarrow> z \<in> set ws" for z
  proof (cases "z = w")
    case False
    then have "udp_waiting (zone n3 z) = udp_waiting (zone n z)" using timer_keptD [OF other] by blast
    with False core q show ?thesis by (auto simp: net_core_def queue_ok_def)
  qed (use w z3 in simp)
  have "queue_ok n3"
    using core q s waiting by (auto simp: queue_ok_def net_core_def same_socks_def n3_def)
  moreover have "zone_ok (zone n3 w)" using z3 by (auto simp: zone_ok_def)
  moreover have "conn_fd n3 = conn_fd n" "length (conn_packet n3) = length (conn_packet n)" "tcp_count n3 = tcp_count n"
    using s by (simp_all add: same_socks_def n3_def)
  moreover have "tcp_conn (zone n3 w) = tcp_conn (zone n w)" using z3(1) wx(1) by simp
  ultimately have c3: "net_core n3"
    using net_core_udp [OF core, of n3 w] other by blast
  have mem: "z \<in> on_udp n3 \<longleftrightarrow> (if z = w then fd \<noteq> -1 else z \<in> on_udp n)" for z
  proof (cases "z = w")
    case False
    then have "tcp_conn (zone n3 z) = tcp_conn (zone n z)" "handler_fd (zone n3 z) = handler_fd (zone n z)"
      using timer_keptD [OF other] by blast+
    with False show ?thesis by (simp add: on_udp_def)
  qed (use z3 in \<open>simp add: on_udp_def\<close>)
  have "w \<notin> on_udp n" using wx by (simp add: on_udp_def)
  then have set3: "on_udp n3 = (if fd \<noteq> -1 then insert w (on_udp n) else on_udp n)"
    by (intro set_eqI) (simp add: mem)
  have "udp_use_num n3 = udp_use_num n" "udp_queue n3 = ws" using s by (simp_all add: same_socks_def n3_def)
  with c3 set3 cnt \<open>w \<notin> on_udp n\<close> show ?thesis by (auto simp: udp_cnt_def)
qed

lemma udp_serve_ok:
  assumes "net_core n" and "udp_cnt 1 n" and "udp_queue n = ws"
  shows "ensures (udp_serve io ws n) (\<lambda>(served, n'). net_core n' \<and> udp_use_num n' = udp_use_num n \<and>
    (if served then udp_cnt 0 n' else udp_cnt 1 n' \<and> udp_queue n' = []) \<and>
    (\<forall>z. z \<notin> set ws \<longrightarrow> zone n' z = zone n z))"
  using assms
proof (induction ws arbitrary: n)
  case Nil
  then have "n\<lparr>udp_queue := []\<rparr> = n" by (cases n) simp
  with Nil show ?case unfolding udp_serve.simps by (simp only: ensures_simps prod.case if_False) simp
next
  case (Cons w ws)
  let ?n1 = "(upd w (\<lambda>x. x\<lparr>udp_waiting := False\<rparr>) n)\<lparr>udp_queue := ws\<rparr>"
  have conn: "tcp_conn (zone n w) = -1"
    using Cons.prems by (auto simp: net_core_def zone_ok_def queue_ok_def)
  have step: "ensures (let n = upd w (\<lambda>x. x\<lparr>handler_fd := fd\<rparr>) n2 in
      if fd \<noteq> -1 then Ok (True, n) else udp_serve io ws n)
      (\<lambda>(served, n'). net_core n' \<and> udp_use_num n' = udp_use_num n \<and>
        (if served then udp_cnt 0 n' else udp_cnt 1 n' \<and> udp_queue n' = []) \<and>
        (\<forall>z. z \<notin> set (w # ws) \<longrightarrow> zone n' z = zone n z))"
    if k: "net_kept ?n1 n2" and t: "timer (zone n2 w) \<noteq> None" and fr: "\<forall>z. z \<noteq> w \<longrightarrow> zone n2 z = zone ?n1 z" for fd n2
  proof -
    note one = serve_one [OF Cons.prems(1,3,2) k t refl, of fd]
    let ?n3 = "upd w (\<lambda>x. x\<lparr>handler_fd := fd\<rparr>) n2"
    have fr3: "zone ?n3 z = zone n z" if "z \<noteq> w" for z using fr that by simp
    show ?thesis
    proof (cases "fd = -1")
      case True
      have "ensures (udp_serve io ws ?n3) (\<lambda>(served, n'). net_core n' \<and> udp_use_num n' = udp_use_num ?n3 \<and>
        (if served then udp_cnt 0 n' else udp_cnt 1 n' \<and> udp_queue n' = []) \<and>
        (\<forall>z. z \<notin> set ws \<longrightarrow> zone n' z = zone ?n3 z))"
        using one True by (intro Cons.IH) auto
      then show ?thesis
        unfolding Let_def using True one fr3 by (auto elim!: ensures_weaken)
    next
      case False
      then show ?thesis using one fr3 by simp
    qed
  qed
  have c1: "tcp_conn (zone ?n1 w) = -1" using conn by simp
  show ?case
    unfolding udp_serve.simps Let_def if_P [OF c1]
  proof (rule ensures_assert, rule ensures_bind [OF send_request_kept], clarify)
    fix fd n2 assume "net_kept ?n1 n2" "tcp_conn (zone ?n1 w) = -1 \<longrightarrow> timer (zone n2 w) \<noteq> None"
      "\<forall>z. z \<noteq> w \<longrightarrow> zone n2 z = zone ?n1 z"
    with c1 show "ensures (if fd \<noteq> -1 then Ok (True, upd w (\<lambda>x. x\<lparr>handler_fd := fd\<rparr>) n2)
        else udp_serve io ws (upd w (\<lambda>x. x\<lparr>handler_fd := fd\<rparr>) n2))
      (\<lambda>(served, n'). net_core n' \<and> udp_use_num n' = udp_use_num n \<and>
        (if served then udp_cnt 0 n' else udp_cnt 1 n' \<and> udp_queue n' = []) \<and>
        (\<forall>z. z \<notin> set (w # ws) \<longrightarrow> zone n' z = zone n z))"
      using step unfolding Let_def by blast
  qed
qed

lemma ready_zone_ok: "ready x \<Longrightarrow> zone_ok x"
  by (simp add: ready_def idle_def zone_ok_def)

lemma zone_okD:
  "zone_ok x \<Longrightarrow> tcp_conn x \<noteq> -1 \<or> handler_fd x \<noteq> -1 \<Longrightarrow>
   \<not> udp_waiting x \<and> \<not> tcp_waiting x \<and> master x \<noteq> None \<and> timer x \<noteq> None"
  unfolding zone_ok_def by (cases "udp_waiting x"; cases "tcp_waiting x") simp_all

lemma queue_okD: "queue_ok n \<Longrightarrow> udp_use_num n < XFRD_MAX_UDP \<Longrightarrow> udp_queue n = []"
  by (auto simp: queue_ok_def)

lemma give_back_socket:
  assumes "net_core n" and "udp_cnt 1 n" and "udp_queue n = []"
  shows "net_ok (n\<lparr>udp_use_num := udp_use_num n - 1\<rparr>)"
proof -
  let ?n = "n\<lparr>udp_use_num := udp_use_num n - 1\<rparr>"
  have "on_udp ?n = on_udp n" "on_tcp ?n = on_tcp n" by (simp_all add: on_udp_def on_tcp_def)
  with assms show ?thesis by (simp add: net_ok_def net_core_def queue_ok_def tcp_ok_def udp_cnt_def)
qed

lemma net_ok_ready:
  assumes ok: "net_ok n" and r: "idle (zone n z)" "ready (f (zone n z))"
  shows "net_ok (upd z f n)"
proof -
  let ?n = "upd z f n"
  have i: "tcp_conn (f (zone n z)) = -1" "handler_fd (f (zone n z)) = -1" "\<not> udp_waiting (f (zone n z))"
    "tcp_conn (zone n z) = -1" "handler_fd (zone n z) = -1" "\<not> udp_waiting (zone n z)"
    using r by (simp_all add: ready_def idle_def)
  have q: "queue_ok n" "net_core n" and u: "udp_cnt 0 n" using ok by (simp_all add: net_ok_def net_core_def)
  have "queue_ok ?n" using q(1) i by (auto simp: queue_ok_def)
  moreover have "tcp_conn (zone ?n z) = tcp_conn (zone n z)" using i by simp
  moreover have "zone_ok (zone ?n z)" using ready_zone_ok [OF r(2)] by simp
  ultimately have "net_core ?n"
    by (intro net_core_udp [OF q(2), where w = z]) (simp_all add: timer_kept_refl)
  moreover have "on_udp ?n = on_udp n" using i by (auto simp: on_udp_def)
  ultimately show ?thesis using u by (simp add: net_ok_def udp_cnt_def)
qed

lemma udp_release_ok:
  assumes ok: "net_ok n" and z: "z \<in> on_udp n"
  shows "ensures (xfrd_udp_release io z n) (\<lambda>n'. net_ok n' \<and> ready (zone n' z) \<and> master (zone n' z) \<noteq> None)"
proof -
  let ?n = "upd z (\<lambda>x. x\<lparr>handler_fd := -1\<rparr>) n"
  have core: "net_core n" "queue_ok n" "zone_ok (zone n z)" and cnt: "udp_cnt 0 n"
    using ok by (simp_all add: net_ok_def net_core_def)
  have zx: "tcp_conn (zone n z) = -1" "handler_fd (zone n z) \<noteq> -1" using z by (simp_all add: on_udp_def)
  then have nw: "\<not> udp_waiting (zone n z)" "\<not> tcp_waiting (zone n z)" and t: "timer (zone n z) \<noteq> None"
    and m: "master (zone n z) \<noteq> None"
    using zone_okD [OF core(3)] by blast+
  have rz: "ready (zone ?n z)" using zx nw t by (simp add: ready_def idle_def)
  have "queue_ok ?n" using core(2) by (auto simp: queue_ok_def)
  then have c1: "net_core ?n"
    using zx ready_zone_ok [OF rz] by (intro net_core_udp [OF core(1), where w = z]) (simp_all add: timer_kept_refl)
  have "on_udp ?n = on_udp n - {z}" using zx by (auto simp: on_udp_def)
  then have u1: "udp_cnt 1 ?n" using cnt z card_Suc_Diff1 [of "on_udp n" z] by (simp add: udp_cnt_def)
  have zq: "z \<notin> set (udp_queue n)" using core(2) nw by (simp add: queue_ok_def)
  have fin: "net_ok (if \<not> served \<and> udp_use_num m > 0 then m\<lparr>udp_use_num := udp_use_num m - 1\<rparr> else m) \<and>
      ready (zone (if \<not> served \<and> udp_use_num m > 0 then m\<lparr>udp_use_num := udp_use_num m - 1\<rparr> else m) z) \<and>
      master (zone (if \<not> served \<and> udp_use_num m > 0 then m\<lparr>udp_use_num := udp_use_num m - 1\<rparr> else m) z) \<noteq> None"
    if "net_core m" "if served then udp_cnt 0 m else udp_cnt 1 m \<and> udp_queue m = []" "zone m z = zone ?n z" for m served
  proof (cases served)
    case True
    then show ?thesis using that rz m by (simp add: net_ok_def)
  next
    case False
    then have "udp_use_num m > 0" using that by (simp add: udp_cnt_def)
    then show ?thesis using False that rz m give_back_socket [of m] by simp
  qed
  show ?thesis
    unfolding xfrd_udp_release_def Let_def
  proof (rule ensures_assert)
    show "ensures (exec_bind (if udp_use_num ?n = XFRD_MAX_UDP then udp_serve io (udp_queue ?n) ?n else Ok (False, ?n))
       (\<lambda>(served, n). Ok (if \<not> served \<and> udp_use_num n > 0 then n\<lparr>udp_use_num := udp_use_num n - 1\<rparr> else n)))
       (\<lambda>n'. net_ok n' \<and> ready (zone n' z) \<and> master (zone n' z) \<noteq> None)"
    proof (cases "udp_use_num ?n = XFRD_MAX_UDP")
      case True
      show ?thesis unfolding if_P [OF True]
        by (rule ensures_bind [OF udp_serve_ok [OF c1 u1 refl]], unfold case_prod_beta ensures_simps, rule fin)
          (use zq in auto)
    next
      case False
      then have "udp_queue ?n = []" using cnt queue_okD [OF core(2)] by (simp add: udp_cnt_def)
      then show ?thesis unfolding if_not_P [OF False] using fin [of ?n False] c1 u1 by simp
    qed
  qed
qed

section \<open>TCP\<close>

lemma tcp_okD:
  assumes "tcp_ok n" and "z \<in> on_tcp n"
  shows "nat (tcp_conn (zone n z)) < TCPSET_MAX" "int (nat (tcp_conn (zone n z))) = tcp_conn (zone n z)"
    "conn_fd n ! nat (tcp_conn (zone n z)) \<noteq> -1" "tcp_count n > 0"
    "w \<in> on_tcp n \<Longrightarrow> tcp_conn (zone n w) = tcp_conn (zone n z) \<Longrightarrow> w = z"
proof -
  show "nat (tcp_conn (zone n z)) < TCPSET_MAX" "int (nat (tcp_conn (zone n z))) = tcp_conn (zone n z)"
    "conn_fd n ! nat (tcp_conn (zone n z)) \<noteq> -1" using assms unfolding tcp_ok_def by auto
  show "tcp_count n > 0" using assms card_gt_0_iff unfolding tcp_ok_def by fastforce
  show "w = z" if "w \<in> on_tcp n" "tcp_conn (zone n w) = tcp_conn (zone n z)"
    using assms that unfolding tcp_ok_def by (meson inj_onD)
qed

lemma tcp_ok_release:
  assumes ok: "tcp_ok n" and z: "z \<in> on_tcp n" and f: "tcp_conn (f (zone n z)) = -1"
  shows "tcp_ok ((upd z f n)\<lparr>conn_fd := (conn_fd n)[nat (tcp_conn (zone n z)) := -1], tcp_count := tcp_count n - 1\<rparr>)"
    (is "tcp_ok ?n")
proof -
  note D = tcp_okD [OF ok z]
  let ?c = "nat (tcp_conn (zone n z))"
  have set: "on_tcp ?n = on_tcp n - {z}" using f by (auto simp: on_tcp_def)
  have other: "zone ?n w = zone n w" if "w \<in> on_tcp ?n" for w using that f by (auto simp: on_tcp_def)
  have len: "length (conn_fd n) = TCPSET_MAX" "length (conn_packet n) = TCPSET_MAX" "finite (on_tcp n)"
    "tcp_count n = card (on_tcp n)" "inj_on (\<lambda>z. tcp_conn (zone n z)) (on_tcp n)"
    using ok by (simp_all add: tcp_ok_def)
  have "inj_on (\<lambda>w. tcp_conn (zone ?n w)) (on_tcp ?n)"
    using len(5) other set by (simp add: inj_on_def)
  moreover have "0 \<le> tcp_conn (zone ?n w) \<and> tcp_conn (zone ?n w) < int TCPSET_MAX \<and>
      conn_fd ?n ! nat (tcp_conn (zone ?n w)) \<noteq> -1" if w: "w \<in> on_tcp ?n" for w
  proof -
    have w': "w \<in> on_tcp n" "w \<noteq> z" using w set by auto
    note W = tcp_okD [OF ok w'(1)]
    have "nat (tcp_conn (zone n w)) \<noteq> ?c" using D(2,5) W(2) w' by metis
    moreover have "0 \<le> tcp_conn (zone n w)" "tcp_conn (zone n w) < int TCPSET_MAX" using W(1,2) by linarith+
    ultimately show ?thesis using W(3) w' by (simp add: nth_list_update)
  qed
  moreover have "\<exists>w\<in>on_tcp ?n. tcp_conn (zone ?n w) = int i" if i: "i < TCPSET_MAX" "conn_fd ?n ! i \<noteq> -1" for i
  proof -
    have ne: "i \<noteq> ?c" "conn_fd n ! i \<noteq> -1" using i len(1) by (cases "i = ?c"; simp)+
    then obtain w where w: "w \<in> on_tcp n" "tcp_conn (zone n w) = int i" using ok i(1) unfolding tcp_ok_def by blast
    then have "w \<noteq> z" using ne(1) by auto
    then have m: "w \<in> on_tcp ?n" unfolding set using w(1) by blast
    show ?thesis by (rule bexI [OF _ m]) (use w(2) other [OF m] in simp)
  qed
  ultimately show ?thesis unfolding tcp_ok_def using len set z by simp
qed

lemma tcp_release_ok:
  assumes ok: "net_ok n" and z: "z \<in> on_tcp n"
  shows "ensures (xfrd_tcp_release z n) (\<lambda>n'. net_ok n' \<and> ready (zone n' z))"
proof -
  let ?f = "\<lambda>x. x\<lparr>tcp_conn := -1, tcp_waiting := False, handler_fd := -1, event_write := False\<rparr>"
  let ?n = "(upd z ?f n)\<lparr>conn_fd := (conn_fd n)[nat (tcp_conn (zone n z)) := -1], tcp_count := tcp_count n - 1\<rparr>"
  have core: "queue_ok n" "tcp_ok n" "\<And>w. zone_ok (zone n w)" "udp_cnt 0 n"
    using ok by (simp_all add: net_ok_def net_core_def)
  have zx: "tcp_conn (zone n z) \<noteq> -1" using z by (simp add: on_tcp_def)
  then have r: "ready (zone ?n z)" using zone_okD [OF core(3) [of z]] by (simp add: ready_def idle_def)
  have "tcp_ok ?n" using tcp_ok_release [OF core(2) z, of ?f] by simp
  moreover have "queue_ok ?n" using core(1) by (auto simp: queue_ok_def)
  moreover have "zone_ok (zone ?n w)" for w using core(3) [of w] ready_zone_ok [OF r] by (cases "w = z") simp_all
  moreover have "on_udp ?n = on_udp n" using zx by (auto simp: on_udp_def)
  ultimately have "net_ok ?n" using core(4) by (simp add: net_ok_def net_core_def udp_cnt_def)
  with r show ?thesis
    unfolding xfrd_tcp_release_def Let_def
    using tcp_okD(4) [OF core(2) z]
    by (intro ensures_assert ensures_if) simp_all
qed

lemma release_any_fd:
  "xfrd_tcp_release z (n\<lparr>conn_fd := (conn_fd n)[nat (tcp_conn (zone n z)) := fd]\<rparr>) = xfrd_tcp_release z n"
  by (simp add: xfrd_tcp_release_def upd_def Let_def)

lemma free_conn_some: "-1 \<in> set fds \<Longrightarrow> \<exists>c<length fds. free_conn i fds = int (i + c) \<and> fds ! c = -1"
proof (induction fds arbitrary: i)
  case (Cons fd fds)
  show ?case
  proof (cases "fd = -1")
    case False
    then obtain c where "c < length fds" "free_conn (i + 1) fds = int (i + 1 + c)" "fds ! c = -1"
      using Cons by fastforce
    then show ?thesis using False by (intro exI [of _ "Suc c"]) simp
  qed auto
qed simp

lemma free_conn_ok:
  assumes ok: "tcp_ok n" and few: "tcp_count n < TCPSET_MAX"
  shows "\<exists>c<TCPSET_MAX. free_conn 0 (conn_fd n) = int c \<and> conn_fd n ! c = -1"
proof -
  have len: "length (conn_fd n) = TCPSET_MAX" using ok by (simp add: tcp_ok_def)
  have "-1 \<in> set (conn_fd n)"
  proof (rule ccontr)
    assume "-1 \<notin> set (conn_fd n)"
    then have "int ` {..<TCPSET_MAX} \<subseteq> (\<lambda>z. tcp_conn (zone n z)) ` on_tcp n"
      using ok len unfolding tcp_ok_def by (auto simp: in_set_conv_nth) (metis image_eqI)
    then have "TCPSET_MAX \<le> card (on_tcp n)"
      using ok surj_card_le [of "on_tcp n" "int ` {..<TCPSET_MAX}"] by (simp add: tcp_ok_def card_image)
    with ok few show False by (simp add: tcp_ok_def)
  qed
  then show ?thesis using free_conn_some [of "conn_fd n" 0] len by simp
qed

lemma tcp_ok_take:
  assumes ok: "tcp_ok n" and c: "c < TCPSET_MAX" "conn_fd n ! c = -1" and z: "tcp_conn (zone n z) = -1"
    and f: "tcp_conn (f (zone n z)) = int c" and fd: "fd \<noteq> -1"
  shows "tcp_ok ((upd z f n)\<lparr>conn_fd := (conn_fd n)[c := fd], tcp_count := tcp_count n + 1\<rparr>)" (is "tcp_ok ?n")
proof -
  have set: "on_tcp ?n = insert z (on_tcp n)" using f by (auto simp: on_tcp_def)
  have nz: "z \<notin> on_tcp n" using z by (simp add: on_tcp_def)
  have len: "length (conn_fd n) = TCPSET_MAX" "length (conn_packet n) = TCPSET_MAX" "finite (on_tcp n)"
    "tcp_count n = card (on_tcp n)" "inj_on (\<lambda>z. tcp_conn (zone n z)) (on_tcp n)"
    using ok by (simp_all add: tcp_ok_def)
  have other: "tcp_conn (zone ?n w) = tcp_conn (zone n w)" "tcp_conn (zone n w) \<noteq> int c"
     "0 \<le> tcp_conn (zone n w) \<and> tcp_conn (zone n w) < int TCPSET_MAX \<and> conn_fd n ! nat (tcp_conn (zone n w)) \<noteq> -1"
    if w: "w \<in> on_tcp n" for w
  proof -
    show "tcp_conn (zone ?n w) = tcp_conn (zone n w)" using w nz by auto
    show "0 \<le> tcp_conn (zone n w) \<and> tcp_conn (zone n w) < int TCPSET_MAX \<and> conn_fd n ! nat (tcp_conn (zone n w)) \<noteq> -1"
      using ok w unfolding tcp_ok_def by blast
    then show "tcp_conn (zone n w) \<noteq> int c" using c(2) by auto
  qed
  have "inj_on (\<lambda>w. tcp_conn (zone ?n w)) (on_tcp n)"
    using len(5) other(1) by (simp add: inj_on_def)
  moreover have "tcp_conn (zone ?n z) \<notin> (\<lambda>w. tcp_conn (zone ?n w)) ` (on_tcp n - {z})"
  proof
    assume "tcp_conn (zone ?n z) \<in> (\<lambda>w. tcp_conn (zone ?n w)) ` (on_tcp n - {z})"
    then obtain w where w: "w \<in> on_tcp n" "tcp_conn (zone ?n w) = tcp_conn (zone ?n z)" by force
    then show False using other(1,2) [OF w(1)] f by simp
  qed
  ultimately have "inj_on (\<lambda>w. tcp_conn (zone ?n w)) (on_tcp ?n)" unfolding set inj_on_insert by blast
  moreover have "0 \<le> tcp_conn (zone ?n w) \<and> tcp_conn (zone ?n w) < int TCPSET_MAX \<and>
      conn_fd ?n ! nat (tcp_conn (zone ?n w)) \<noteq> -1" if w: "w \<in> on_tcp ?n" for w
  proof (cases "w = z")
    case True
    then show ?thesis using f c fd len(1) by simp
  next
    case False
    then have w': "w \<in> on_tcp n" using w unfolding set by simp
    then have "nat (tcp_conn (zone n w)) \<noteq> c" using other(2,3) [OF w'] by linarith
    then show ?thesis using False other(3) [OF w'] by (simp add: nth_list_update)
  qed
  moreover have "\<exists>w\<in>on_tcp ?n. tcp_conn (zone ?n w) = int i" if i: "i < TCPSET_MAX" "conn_fd ?n ! i \<noteq> -1" for i
  proof (cases "i = c")
    case True
    then show ?thesis unfolding set using f by simp
  next
    case False
    then have "conn_fd n ! i \<noteq> -1" using i by simp
    then obtain w where w: "w \<in> on_tcp n" "tcp_conn (zone n w) = int i" using ok i(1) unfolding tcp_ok_def by blast
    then show ?thesis unfolding set using other(1) [OF w(1)] by (intro bexI [of _ w]) simp_all
  qed
  ultimately show ?thesis unfolding tcp_ok_def using len set nz by simp
qed

lemma net_ok_take:
  assumes ok: "net_ok n" and c: "c < TCPSET_MAX" "conn_fd n ! c = -1" and z: "ready (zone n z)"
    and f: "tcp_conn (f (zone n z)) = int c" "zone_ok (f (zone n z))" and fd: "fd \<noteq> -1"
  shows "net_ok ((upd z f n)\<lparr>conn_fd := (conn_fd n)[c := fd], tcp_count := tcp_count n + 1\<rparr>)" (is "net_ok ?n")
proof -
  have core: "queue_ok n" "tcp_ok n" "\<And>w. zone_ok (zone n w)" "udp_cnt 0 n"
    using ok by (simp_all add: net_ok_def net_core_def)
  have zx: "tcp_conn (zone n z) = -1" "handler_fd (zone n z) = -1" "\<not> udp_waiting (zone n z)"
    using z by (simp_all add: ready_def idle_def)
  have "tcp_ok ?n" by (rule tcp_ok_take) (use core(2) c zx f fd in simp_all)
  moreover have "\<not> udp_waiting (f (zone n z))" using zone_okD [OF f(2)] f(1) by simp
  then have "queue_ok ?n" using core(1) zx by (auto simp: queue_ok_def)
  moreover have "zone_ok (zone ?n w)" for w using core(3) [of w] f(2) by (cases "w = z") simp_all
  moreover have "on_udp ?n = on_udp n" using zx f by (auto simp: on_udp_def)
  ultimately show ?thesis using core(4) by (simp add: net_ok_def net_core_def udp_cnt_def)
qed

lemma tcp_xfr_kept: "ensures (xfrd_tcp_xfr io z n) (net_kept n)"
proof -
  have new: "timer_kept x (new_request qid x)" for x qid
    by (simp add: new_request_def timer_kept_def conn_of_def)
  have nb: "net_kept n (m\<lparr>conn_packet := (conn_packet n)[i := p]\<rparr>) \<longleftrightarrow> net_kept n m"
    if "conn_packet m = conn_packet n" for m i p
    using that by (simp add: net_kept_def same_socks_def)
  have fin: "net_kept n ((upd z (\<lambda>_. x') n)\<lparr>conn_packet := (conn_packet n)[i := p]\<rparr>)"
    if "timer_kept (new_request qid (zone n z)) x'" for x' qid i p
    using that by (simp add: nb upd_kept timer_kept_trans [OF new])
  show ?thesis
    unfolding xfrd_tcp_xfr_def Let_def
    by ((rule ensures_bind [OF tsig_sign_kept] ensures_rules | simp add: fin | clarsimp simp: fin)+)
qed

text \<open>Taking a connection and opening it: it is taken with a socket, or given back at once.\<close>

lemma tcp_open_ok:
  assumes ok: "net_ok n" and c: "c < TCPSET_MAX" "conn_fd n ! c = -1" and z: "ready (zone n z)"
    and m: "master (zone n z) \<noteq> None"
  shows "ensures (xfrd_tcp_open io z ((upd z (\<lambda>x. x\<lparr>tcp_conn := int c\<rparr>) n)\<lparr>tcp_count := tcp_count n + 1\<rparr>))
    (\<lambda>(opened, n'). net_ok n')"
proof -
  let ?n = "(upd z (\<lambda>x. x\<lparr>tcp_conn := int c\<rparr>) n)\<lparr>tcp_count := tcp_count n + 1\<rparr>"
  let ?T = "xfrd_set_timer (io_now io) (io_rnd io)"
  let ?f = "\<lambda>x. ?T (io_now io + XFRD_TCP_TIMEOUT) (x\<lparr>tcp_conn := int c, handler_fd := io_tcp io z, event_write := True\<rparr>)"
  let ?g = "\<lambda>x. xfrd_set_timer_now (io_now io) (io_rnd io) (x\<lparr>tcp_conn := int c\<rparr>)"
  let ?G = "(upd z ?g n)\<lparr>conn_fd := (conn_fd n)[c := 0], tcp_count := tcp_count n + 1\<rparr>"
  have zx: "\<not> udp_waiting (zone n z)" "\<not> tcp_waiting (zone n z)" using z by (simp_all add: ready_def idle_def)
  have len: "length (conn_fd n) = TCPSET_MAX" using ok by (simp add: net_ok_def net_core_def tcp_ok_def)
  have f: "tcp_conn (?f (zone n z)) = int c" "zone_ok (?f (zone n z))"
    using zx m by (simp_all add: zone_ok_def xfrd_set_timer_def Let_def)
  have g: "tcp_conn (?g (zone n z)) = int c" "zone_ok (?g (zone n z))"
    using zx m by (simp_all add: zone_ok_def xfrd_set_timer_now_def xfrd_set_timer_time_def xfrd_set_timer_def Let_def)
  have gx: "nat (tcp_conn (zone ?G z)) = c" using g(1) by simp
  have "ensures (xfrd_tcp_release z ?G) (\<lambda>n'. net_ok n' \<and> ready (zone n' z))"
    by (rule tcp_release_ok) (use net_ok_take [where f = ?g and fd = 0, OF ok c z g] g(1) in \<open>simp_all add: on_tcp_def\<close>)
  moreover have "?G\<lparr>conn_fd := (conn_fd ?G)[c := io_tcp io z]\<rparr> = upd z (xfrd_set_timer_now (io_now io) (io_rnd io))
      (?n\<lparr>conn_fd := (conn_fd n)[c := io_tcp io z]\<rparr>)"
    by (simp add: upd_def)
  ultimately have give: "ensures (tcp_give_up io z (?n\<lparr>conn_fd := (conn_fd n)[c := io_tcp io z]\<rparr>)) net_ok"
    using release_any_fd [of z ?G "io_tcp io z"] unfolding tcp_give_up_def gx by (auto elim: ensures_weaken)
  have take: "net_ok (upd z (\<lambda>x. ?T (io_now io + XFRD_TCP_TIMEOUT) (x\<lparr>handler_fd := io_tcp io z, event_write := True\<rparr>))
      (?n\<lparr>conn_fd := (conn_fd n)[c := io_tcp io z]\<rparr>))" if "io_tcp io z \<noteq> -1"
  proof -
    have "upd z (\<lambda>x. ?T (io_now io + XFRD_TCP_TIMEOUT) (x\<lparr>handler_fd := io_tcp io z, event_write := True\<rparr>))
      (?n\<lparr>conn_fd := (conn_fd n)[c := io_tcp io z]\<rparr>) =
      (upd z ?f n)\<lparr>conn_fd := (conn_fd n)[c := io_tcp io z], tcp_count := tcp_count n + 1\<rparr>"
      by (simp add: upd_def)
    then show ?thesis using net_ok_take [where f = ?f, OF ok c z f that] by (simp only:)
  qed
  have "ensures (exec_bind (tcp_give_up io z (?n\<lparr>conn_fd := (conn_fd n)[c := io_tcp io z]\<rparr>)) (\<lambda>n. Ok (False, n)))
    (\<lambda>(opened, n'). net_ok n')"
    by (rule ensures_bind [OF give]) simp
  then show ?thesis
    unfolding xfrd_tcp_open_def Let_def
    using take len c by (intro ensures_assert ensures_if) simp_all
qed

lemma tcp_obtain_ok:
  assumes ok: "net_ok n" and z: "ready (zone n z)" and m: "master (zone n z) \<noteq> None"
  shows "ensures (xfrd_tcp_obtain io z n) net_ok"
proof (cases "tcp_count n < TCPSET_MAX")
  case True
  have t: "tcp_ok n" using ok by (simp add: net_ok_def net_core_def)
  from free_conn_ok [OF t True] obtain c where c: "c < TCPSET_MAX" "conn_fd n ! c = -1" "free_conn 0 (conn_fd n) = int c"
    by blast
  let ?n = "(upd z (\<lambda>x. x\<lparr>tcp_conn := int c\<rparr>) n)\<lparr>tcp_count := tcp_count n + 1\<rparr>"
  have h: "\<not> handler_fd (zone ?n z) \<noteq> -1" using z by (simp add: ready_def idle_def)
  have "ensures (if opened then xfrd_tcp_xfr io z n' else Ok n') net_ok" if "net_ok n'" for opened n'
    using that by (auto intro: ensures_weaken [OF tcp_xfr_kept] net_ok_kept)
  then have "ensures (exec_bind (xfrd_tcp_open io z ?n) (\<lambda>(opened, n). if opened then xfrd_tcp_xfr io z n else Ok n)) net_ok"
    by (intro ensures_bind [OF tcp_open_ok [OF ok c(1,2) z m]]) (simp add: case_prod_beta)
  then show ?thesis
    unfolding xfrd_tcp_obtain_def Let_def if_P [OF True] c(3) if_not_P [OF h]
    by (intro ensures_assert) simp
next
  case False
  let ?n = "upd z (\<lambda>x. xfrd_unset_timer (x\<lparr>tcp_waiting := True\<rparr>)) n"
  have zx: "tcp_conn (zone n z) = -1" "handler_fd (zone n z) = -1" "\<not> udp_waiting (zone n z)"
    using z by (simp_all add: ready_def idle_def)
  have q: "net_core n" "queue_ok n" "udp_cnt 0 n" using ok by (simp_all add: net_ok_def net_core_def)
  have "queue_ok ?n" using q(2) by (auto simp: queue_ok_def xfrd_unset_timer_def)
  then have "net_core ?n"
    using zx m by (intro net_core_udp [OF q(1), where w = z]) (simp_all add: timer_kept_refl zone_ok_def xfrd_unset_timer_def)
  moreover have "on_udp ?n = on_udp n" by (auto simp: on_udp_def xfrd_unset_timer_def)
  ultimately have "net_ok ?n" using q(3) by (simp add: net_ok_def udp_cnt_def)
  then show ?thesis unfolding xfrd_tcp_obtain_def if_not_P [OF False] by (intro ensures_assert) simp
qed

lemma udp_obtain_ok:
  assumes ok: "net_ok n" and z: "ready (zone n z)" and m: "master (zone n z) \<noteq> None"
  shows "ensures (xfrd_udp_obtain io z n) net_ok"
proof -
  have zx: "tcp_conn (zone n z) = -1" "handler_fd (zone n z) = -1" "\<not> udp_waiting (zone n z)" "\<not> tcp_waiting (zone n z)"
    using z by (simp_all add: ready_def idle_def)
  have q: "net_core n" "queue_ok n" "udp_cnt 0 n" using ok by (simp_all add: net_ok_def net_core_def)
  have nt: "\<not> tcp_conn (zone n z) \<noteq> -1" using zx by simp
  show ?thesis
  proof (cases "udp_use_num n < XFRD_MAX_UDP")
    case True
    let ?n = "n\<lparr>udp_use_num := udp_use_num n + 1\<rparr>"
    have empty: "udp_queue n = []" using queue_okD [OF q(2) True] .
    have "on_udp ?n = on_udp n" "on_tcp ?n = on_tcp n" by (simp_all add: on_udp_def on_tcp_def)
    then have c1: "net_core ?n" "udp_cnt 1 ?n"
      using q True empty by (simp_all add: net_core_def queue_ok_def tcp_ok_def udp_cnt_def)
    have fin: "net_ok (if fd = -1 then n3\<lparr>udp_use_num := udp_use_num n3 - 1\<rparr> else n3)"
      if k: "net_kept ?n n2" and t: "timer (zone n2 z) \<noteq> None" and n3: "n3 = upd z (\<lambda>x. x\<lparr>handler_fd := fd\<rparr>) n2" for fd n2 n3
    proof -
      have c2: "net_core n2" "udp_cnt 1 n2" using c1 net_core_kept [OF k] udp_cnt_kept [OF k] by blast+
      have z2: "tcp_conn (zone n2 z) = -1" "handler_fd (zone n2 z) = -1" "\<not> udp_waiting (zone n2 z)"
        "\<not> tcp_waiting (zone n2 z)" "master (zone n2 z) \<noteq> None"
        using net_keptD(3-7) [OF k, of z] zx m by simp_all
      have e2: "udp_queue n3 = []" using k empty by (simp add: n3 net_kept_def same_socks_def)
      have "queue_ok n3" using c2(1) unfolding net_core_def queue_ok_def n3 by simp
      moreover have "zone_ok (zone n3 z)" using z2 t by (simp add: n3 zone_ok_def)
      ultimately have c3: "net_core n3" by (intro net_core_udp [OF c2(1), where w = z]) (simp_all add: n3 timer_kept_refl)
      have "on_udp n3 = (if fd = -1 then on_udp n2 else insert z (on_udp n2))" using z2 by (auto simp: on_udp_def n3)
      moreover have "z \<notin> on_udp n2" using z2 by (simp add: on_udp_def)
      ultimately have "if fd = -1 then udp_cnt 1 n3 else udp_cnt 0 n3" using c2(2)
        by (cases "fd = -1") (simp_all add: udp_cnt_def n3)
      then show ?thesis using c3 give_back_socket [OF c3 _ e2] by (simp add: net_ok_def split: if_splits)
    qed
    have "ensures (exec_bind (xfrd_udp_send_request_ixfr io z ?n) (\<lambda>(fd, n).
        let n = upd z (\<lambda>x. x\<lparr>handler_fd := fd\<rparr>) n in Ok (if fd = -1 then n\<lparr>udp_use_num := udp_use_num n - 1\<rparr> else n))) net_ok"
      by (rule ensures_bind [OF send_request_kept], unfold Let_def case_prod_beta ensures_simps, rule fin [OF _ _ refl])
        (use zx in auto)
    then show ?thesis unfolding xfrd_udp_obtain_def if_not_P [OF nt] using True by (intro ensures_assert) simp
  next
    case False
    let ?n = "(upd z (\<lambda>x. xfrd_unset_timer (x\<lparr>udp_waiting := True\<rparr>)) n)\<lparr>udp_queue := udp_queue n @ [z]\<rparr>"
    have "udp_use_num n = XFRD_MAX_UDP" using False q(3) by (simp add: udp_cnt_def)
    then have "queue_ok ?n" using q(2) zx by (auto simp: queue_ok_def xfrd_unset_timer_def)
    then have "net_core ?n"
      using zx m by (intro net_core_udp [OF q(1), where w = z]) (simp_all add: timer_kept_refl zone_ok_def xfrd_unset_timer_def)
    moreover have "on_udp ?n = on_udp n" using zx by (auto simp: on_udp_def xfrd_unset_timer_def)
    ultimately have "net_ok ?n" using q(3) by (simp add: net_ok_def udp_cnt_def)
    then show ?thesis unfolding xfrd_udp_obtain_def if_not_P [OF nt] using False by (intro ensures_assert) simp
  qed
qed

section \<open>Requests and events\<close>

lemma set_timer_idle [simp]:
  "idle (xfrd_set_timer now rnd t x) = idle x" "ready (xfrd_set_timer now rnd t x) = idle x"
  "master (xfrd_set_timer now rnd t x) = master x"
  by (simp_all add: xfrd_set_timer_def Let_def idle_def ready_def)

lemma wait_retry_ready [simp]: "ready (wait_retry io x) = idle x"
  by (simp add: wait_retry_def xfrd_set_timer_retry_def xfrd_set_timer_time_def) (simp add: idle_def)

lemma choose_master_idle: "choose_master cnt x = (r, x') \<Longrightarrow> idle x' = idle x \<and> timer x' = timer x"
  by (auto simp: choose_master_def idle_def Let_def split: if_splits option.splits)

lemma set_ixfr_disabled_simps [simp]: "zone (set_ixfr_disabled z t n) = zone n"
  by (simp add: set_ixfr_disabled_def split: option.split)

lemma set_ixfr_disabled_kept: "net_kept n (set_ixfr_disabled z t n)"
  by (auto simp: set_ixfr_disabled_def net_kept_def same_socks_def timer_kept_refl split: option.split)

lemma make_request_ok:
  assumes ok: "net_ok n" and z: "ready (zone n z)"
  shows "ensures (xfrd_make_request io z n) net_ok"
proof -
  have i: "idle (zone n z)" using z by (simp add: ready_def)
  obtain r x where c: "choose_master (length (masters n z)) (zone n z) = (r, x)" by force
  have x: "ready x" using choose_master_idle [OF c] z by (simp add: ready_def)
  let ?n = "upd z (\<lambda>_. x) n"
  have okn: "net_ok ?n" by (rule net_ok_ready) (use ok i x in simp_all)
  have i1: "idle (zone ?n z)" using x by (simp add: ready_def)
  show ?thesis
  proof (cases r)
    case False
    have "idle x" using x by (simp add: ready_def)
    then have "net_ok (upd z (\<lambda>_. wait_retry io x) n)" by (intro net_ok_ready) (use ok i in simp_all)
    then show ?thesis unfolding xfrd_make_request_def c using False by simp
  next
    case True
    have retry: "net_ok (upd z (wait_retry io) ?n)"
      by (rule net_ok_ready) (use okn i1 in simp_all)
    have go: "net_ok (upd z (xfrd_set_timer now rnd t) n2)" "ready (zone (upd z (xfrd_set_timer now rnd t) n2) z)"
      "master (zone (upd z (xfrd_set_timer now rnd t) n2) z) = master x"
      if "n2 = (if b then set_ixfr_disabled z 0 ?n else ?n)" for now rnd t b n2
    proof -
      have z2: "zone n2 = zone ?n" and k: "net_kept ?n n2" using that set_ixfr_disabled_kept by auto
      show "net_ok (upd z (xfrd_set_timer now rnd t) n2)"
        by (rule net_ok_ready) (use net_ok_kept [OF k okn] z2 i1 in simp_all)
      show "ready (zone (upd z (xfrd_set_timer now rnd t) n2) z)"
        "master (zone (upd z (xfrd_set_timer now rnd t) n2) z) = master x"
        using z2 i1 by simp_all
    qed
    have m: "master x \<noteq> None" if "cur_master z ?n = Some m" for m
      using that by (auto simp: cur_master_def split: option.splits)
    show ?thesis
      unfolding xfrd_make_request_def c prod.case eqTrueI [OF True] bool.case Let_def
      apply (rule ensures_option)
       apply (simp only: ensures_simps retry)
      apply (intro ensures_if udp_obtain_ok tcp_obtain_ok)
      apply (simp_all only: go [OF refl] ensures_simps m not_False_eq_True)
      subgoal using okn net_ok_kept [OF set_ixfr_disabled_kept okn] by auto
      done
  qed
qed
end
