(* ===== verification/Xfrd_Run.thy ===== *)
theory Xfrd_Run
  imports Xfrd_Inv
begin

text \<open>
  Runs of the zone transfer client: the events of the zones and notifications in any order, and what
  holds in every state they lead to.
\<close>

section \<open>Events keep the invariant\<close>

lemma handle_packet_net: "ensures (handle_packet io z b n) (\<lambda>(res, b', n'). net_kept n n' \<and> length (conn_packet n') = length (conn_packet n))"
proof -
  have k: "net_kept n ((upd z (\<lambda>_. x) n)\<lparr>files := fs, resched := rs\<rparr>)" if "timer_kept (zone n z) x" for x fs rs
    using upd_kept [of n z "\<lambda>_. x"] that by (simp add: net_kept_def same_socks_def)
  show ?thesis
    unfolding handle_packet_def
    by (rule ensures_bind [OF handle_packet_kept]) (simp add: k case_prod_beta)
qed

lemma net_kept_upds [simp]:
  "net_kept n (m\<lparr>udp_packet := b\<rparr>) = net_kept n m"
  "length p = length (conn_packet m) \<Longrightarrow> net_kept n (m\<lparr>conn_packet := p\<rparr>) = net_kept n m"
  by (simp_all add: net_kept_def same_socks_def)

lemma note_notimpl_kept: "net_kept n m \<Longrightarrow> net_kept n (note_notimpl io res z m)"
  by (auto simp: note_notimpl_def intro: net_kept_trans set_ixfr_disabled_kept)

text \<open>Releasing a connection after steps that left the sockets alone.\<close>

lemma tcp_release_kept:
  assumes "net_ok n" "z \<in> on_tcp n" "net_kept n m"
  shows "ensures (xfrd_tcp_release z m) (\<lambda>n'. net_ok n' \<and> ready (zone n' z))"
  using assms by (intro tcp_release_ok) (simp_all add: net_ok_kept net_keptD(2) [of n m])

lemma udp_release_kept:
  assumes "net_ok n" "z \<in> on_udp n" "net_kept n m"
  shows "ensures (xfrd_udp_release io z m) (\<lambda>n'. net_ok n' \<and> ready (zone n' z) \<and> master (zone n' z) \<noteq> None)"
  using assms by (intro udp_release_ok) (simp_all add: net_ok_kept net_keptD(1) [of n m])

lemma give_up_ok:
  assumes "net_ok n" "z \<in> on_tcp n" "net_kept n m"
  shows "ensures (tcp_give_up io z m) net_ok"
  unfolding tcp_give_up_def
  by (rule ensures_weaken [OF tcp_release_kept [OF assms(1,2)]])
    (use assms(3) in \<open>auto intro!: net_kept_trans [OF assms(3)] upd_kept set_timer_kept timer_kept_refl
       simp: xfrd_set_timer_now_def xfrd_set_timer_time_def\<close>)

lemma tcp_read_ok:
  assumes ok: "net_ok n" "z \<in> on_tcp n" and k0: "net_kept n m"
  shows "ensures (xfrd_tcp_read io z inp m) net_ok"
proof -
  have k: "net_kept n n'" if "net_kept m n'" for n' using k0 that by (rule net_kept_trans)
  note rel = ensures_bind [OF tcp_release_kept [OF ok]]
  show ?thesis
    unfolding xfrd_tcp_read_def Let_def
    apply (rule ensures_assert)
    apply (cases inp)
      apply (simp add: give_up_ok [OF ok k0])
     apply (simp add: net_ok_kept [OF k0] ok)
    apply (simp only: tcp_input.case)
    apply (rule ensures_if, simp)
    apply (rule ensures_skip)
    apply (rule ensures_bind [OF handle_packet_net])
    apply (simp only: split_paired_all prod.case)
    subgoal for _ b res b' n'
      apply (cases res; simp only: xfrd_pkt_status.case)
           apply ((rule rel ensures_assert | (erule conjE, rule make_request_ok; assumption)
             | simp add: net_ok_kept [OF k] ok k note_notimpl_kept)+)
      done
    done
qed

lemma tcp_write_ok:
  assumes ok: "net_ok n" "z \<in> on_tcp n" and k: "net_kept n m"
  shows "ensures (xfrd_tcp_write io z out inp m) net_ok"
proof -
  have kw: "net_kept n ((upd z (\<lambda>x. x\<lparr>event_write := False\<rparr>) m)\<lparr>conn_packet := p\<rparr>)"
    if "length p = length (conn_packet m)" for p
    using that k by (simp add: net_kept_def same_socks_def timer_kept_def conn_of_def)
  show ?thesis
    unfolding xfrd_tcp_write_def Let_def
    by (rule ensures_assert)
      (cases out; simp add: give_up_ok [OF ok k] net_ok_kept [OF k] ok tcp_read_ok [OF ok kw])
qed

lemma udp_read_ok:
  assumes ok: "net_ok n" "z \<in> on_udp n" and k0: "net_kept n m"
  shows "ensures (xfrd_udp_read io z inp m) net_ok"
proof -
  have k: "net_kept n n'" if "net_kept m n'" for n' using k0 that by (rule net_kept_trans)
  note rel = ensures_bind [OF udp_release_kept [OF ok]]
  have last: "ensures (xfrd_udp_release io z n') net_ok" if "net_kept m n'" for n'
    by (rule ensures_weaken [OF udp_release_kept [OF ok k [OF that]]]) simp
  have tcp: "ensures (xfrd_tcp_obtain io z (upd z (xfrd_set_timer now rnd t) n')) net_ok"
    if "net_ok n' \<and> ready (zone n' z) \<and> master (zone n' z) \<noteq> None" for now rnd t n'
    using that by (intro tcp_obtain_ok net_ok_ready) (simp_all, simp_all add: ready_def)
  show ?thesis
    unfolding xfrd_udp_read_def Let_def
    apply (rule ensures_option)
     apply (rule last, simp add: net_kept_refl)
    apply (rule ensures_skip)
    apply (rule ensures_bind [OF handle_packet_net])
    apply (simp only: split_paired_all prod.case)
    subgoal for _ b res b' n'
      apply (cases res; simp only: xfrd_pkt_status.case)
           apply ((rule rel last ensures_assert | (rule tcp, assumption) | (elim conjE, rule make_request_ok; assumption)
             | simp add: k note_notimpl_kept)+)
      done
    done
qed

lemma zone_ok_unset: "zone_ok x \<Longrightarrow> tcp_waiting x \<or> udp_waiting x \<Longrightarrow> zone_ok (xfrd_unset_timer x)"
  unfolding zone_ok_def xfrd_unset_timer_def by (cases "tcp_waiting x"; cases "udp_waiting x") simp_all

lemma timeout_ok:
  assumes ok: "net_ok n" and z: "z \<notin> on_tcp n" and t: "timer (zone n z) \<noteq> None"
  shows "ensures (zone_timeout io z n) net_ok"
proof -
  have zt: "tcp_conn (zone n z) = -1" using z by (simp add: on_tcp_def)
  have go: "ensures (if tcp_waiting (zone n' z) then Ok (upd z xfrd_unset_timer n')
     else if udp_waiting (zone n' z) then Ok (upd z xfrd_unset_timer n') else xfrd_make_request io z n') net_ok"
    if n': "net_ok n'" "tcp_conn (zone n' z) = -1" "handler_fd (zone n' z) = -1" "timer (zone n' z) \<noteq> None" for n'
  proof -
    have un: "net_ok (upd z xfrd_unset_timer n')" if w: "tcp_waiting (zone n' z) \<or> udp_waiting (zone n' z)"
    proof -
      have q: "net_core n'" "queue_ok n'" "udp_cnt 0 n'" "zone_ok (zone n' z)"
        using n'(1) by (simp_all add: net_ok_def net_core_def)
      let ?n = "upd z xfrd_unset_timer n'"
      have "zone_ok (zone ?n z)" using zone_ok_unset [OF q(4) w] by simp
      moreover have "queue_ok ?n" using q(2) by (auto simp: queue_ok_def xfrd_unset_timer_def)
      ultimately have "net_core ?n"
        by (intro net_core_udp [OF q(1), where w = z]) (simp_all add: timer_kept_refl xfrd_unset_timer_def)
      moreover have "on_udp ?n = on_udp n'" by (auto simp: on_udp_def xfrd_unset_timer_def)
      ultimately show ?thesis using q(3) by (simp add: net_ok_def udp_cnt_def)
    qed
    show ?thesis using n' un by (auto intro!: make_request_ok simp: ready_def idle_def)
  qed
  show ?thesis
  proof (cases "handler_fd (zone n z) = -1")
    case True
    then show ?thesis unfolding zone_timeout_def using go [OF ok zt] t by simp
  next
    case False
    then have "z \<in> on_udp n" using zt by (simp add: on_udp_def)
    then have "ensures (exec_bind (xfrd_udp_release io z n) (\<lambda>n'. if tcp_waiting (zone n' z) then Ok (upd z xfrd_unset_timer n')
     else if udp_waiting (zone n' z) then Ok (upd z xfrd_unset_timer n') else xfrd_make_request io z n')) net_ok"
      by (intro ensures_bind [OF udp_release_ok [OF ok]] go) (simp_all add: ready_def idle_def)
    then show ?thesis unfolding zone_timeout_def using False zt by simp
  qed
qed

text \<open>An event is one the event loop delivers: a timeout when there is a timer, input and output when there is a socket.\<close>

definition enabled :: "nat \<Rightarrow> event \<Rightarrow> 'rr net \<Rightarrow> bool" where
  "enabled z ev n =
    (case ev of Ev_Timeout \<Rightarrow> timer (zone n z) \<noteq> None
     | Ev_Read _ _ \<Rightarrow> handler_fd (zone n z) \<noteq> -1
     | Ev_Write _ _ \<Rightarrow> handler_fd (zone n z) \<noteq> -1 \<and> event_write (zone n z))"

lemma handle_zone_ok:
  assumes ok: "net_ok n" and en: "enabled z ev n"
  shows "ensures (xfrd_handle_zone io z ev n) net_ok"
proof -
  have zok: "zone_ok (zone n z)" using ok by (simp add: net_ok_def net_core_def)
  have k: "net_kept n (upd z (xfrd_set_timer now rnd t) n)" "net_kept n (upd z (xfrd_set_timer_now now rnd) n)" for now rnd t
    by (auto intro!: upd_kept set_timer_kept timer_kept_refl simp: xfrd_set_timer_now_def xfrd_set_timer_time_def)
  have t: "timer (zone n z) \<noteq> None" using en zone_okD [OF zok] by (cases ev) (auto simp: enabled_def)
  show ?thesis
  proof (cases "z \<in> on_tcp n")
    case True
    then have c: "tcp_conn (zone n z) \<noteq> -1" by (simp add: on_tcp_def)
    have "ensures (exec_bind (xfrd_tcp_release z n) (zone_timeout io z)) net_ok"
      by (rule ensures_bind [OF tcp_release_ok [OF ok True]], rule timeout_ok)
        (auto simp: ready_def idle_def on_tcp_def)
    then show ?thesis
      unfolding xfrd_handle_zone_def Let_def
      using c tcp_read_ok [OF ok True k(1)] tcp_write_ok [OF ok True k(1)] by (cases ev) simp_all
  next
    case False
    then have c: "tcp_conn (zone n z) = -1" by (simp add: on_tcp_def)
    have "z \<in> on_udp n" if "ev = Ev_Read inp d" for inp d using that en c by (simp add: enabled_def on_udp_def)
    then show ?thesis
      unfolding xfrd_handle_zone_def Let_def
      using c timeout_ok [OF ok False t] udp_read_ok [OF ok _ k(2)] by (cases ev) simp_all
  qed
qed

section \<open>Runs\<close>

text \<open>The structures as \<^verbatim>\<open>tcp_set_create\<close> and \<^verbatim>\<open>xfrd_create\<close> make them; the masters and names of the zones are arguments.\<close>

definition net_start ::
  "time_t \<Rightarrow> nat \<Rightarrow> u8 \<Rightarrow> buffer \<Rightarrow> (nat \<Rightarrow> xmaster list) \<Rightarrow> (nat \<Rightarrow> u8 list) \<Rightarrow> (nat \<Rightarrow> u16) \<Rightarrow> 'rr net" where
  "net_start now rnd junk b ms names classes =
    \<lparr>zone = (\<lambda>_. xfrd_create now rnd junk), masters = ms, apex = names, klass = classes, files = (\<lambda>_. []),
     resched = [], conn_fd = replicate TCPSET_MAX (-1), conn_packet = replicate TCPSET_MAX b, tcp_count = 0,
     udp_packet = b, udp_use_num = 0, udp_queue = []\<rparr>"

inductive xfrd_step :: "'rr net \<Rightarrow> 'rr net \<Rightarrow> bool" where
  event: "enabled z ev n \<Longrightarrow> xfrd_handle_zone io z ev n = Ok n' \<Longrightarrow> xfrd_step n n'"
| notified: "xfrd_step n (upd z (xfrd_notified now tnow rnd serial) n)"

inductive_cases xfrd_stepE: "xfrd_step n n'"

lemma net_start_ok: "net_ok (net_start now rnd junk b ms names classes :: 'rr net)"
proof -
  let ?n = "net_start now rnd junk b ms names classes :: 'rr net"
  have x: "zone ?n z = xfrd_create now rnd junk" for z by (simp add: net_start_def)
  have "ready (xfrd_create now rnd junk)"
    by (simp add: xfrd_create_def xfrd_set_timer_time_def) (simp add: idle_def)
  then have i: "zone_ok (zone ?n z)" "tcp_conn (zone ?n z) = -1" "handler_fd (zone ?n z) = -1" "\<not> udp_waiting (zone ?n z)" for z
    unfolding x using ready_zone_ok by (auto simp: ready_def idle_def)
  have e: "on_udp ?n = {}" "on_tcp ?n = {}" using i by (auto simp: on_udp_def on_tcp_def)
  have f: "conn_fd ?n = replicate TCPSET_MAX (-1)" "conn_packet ?n = replicate TCPSET_MAX b" "tcp_count ?n = 0"
    "udp_use_num ?n = 0" "udp_queue ?n = []" by (simp_all add: net_start_def)
  have "queue_ok ?n" unfolding queue_ok_def f using i by simp
  moreover have "tcp_ok ?n" unfolding tcp_ok_def e f by simp
  ultimately show ?thesis using i(1) by (simp add: net_ok_def net_core_def udp_cnt_def e f)
qed

lemma notified_kept: "timer_kept x (xfrd_notified now tnow rnd serial x)"
  by (auto simp: xfrd_notified_def Let_def xfrd_set_timer_now_def xfrd_set_timer_time_def set_timer_kept timer_kept_refl
      split: option.split)

lemma step_ok: "xfrd_step n n' \<Longrightarrow> net_ok n \<Longrightarrow> net_ok n'"
  by (erule xfrd_stepE)
    (auto dest: ensuresD [OF handle_zone_ok] intro: net_ok_kept upd_kept notified_kept)

lemma run_ok: "xfrd_step\<^sup>*\<^sup>* n n' \<Longrightarrow> net_ok n \<Longrightarrow> net_ok n'"
  by (induction rule: rtranclp_induct) (auto intro: step_ok)

lemma tcp_count_bound: "tcp_ok n \<Longrightarrow> tcp_count n \<le> TCPSET_MAX"
proof -
  assume ok: "tcp_ok n"
  have "(\<lambda>z. nat (tcp_conn (zone n z))) ` on_tcp n \<subseteq> {..<TCPSET_MAX}" using tcp_okD(1) [OF ok] by auto
  moreover have "inj_on (\<lambda>z. nat (tcp_conn (zone n z))) (on_tcp n)"
    using tcp_okD(2,5) [OF ok] by (intro inj_onI) metis
  ultimately have "card (on_tcp n) \<le> TCPSET_MAX" by (metis card_image card_lessThan card_mono finite_lessThan)
  then show ?thesis using ok by (simp add: tcp_ok_def)
qed

text \<open>
  C11. Whatever events and notifications arrive, and whatever the sockets and masters answer, the
  counters of the sockets are the numbers of the zones that use one and stay within their limits, no
  TCP connection serves two zones, a zone is in the queue for a UDP socket exactly while it is marked
  as waiting and then all sockets are in use, and a zone without a timer waits for a socket.
\<close>

theorem xfrd_sockets:
  assumes "xfrd_step\<^sup>*\<^sup>* (net_start now rnd junk b ms names classes) n"
  shows "udp_use_num n = card (on_udp n) \<and> udp_use_num n \<le> 100 \<and>
    tcp_count n = card (on_tcp n) \<and> tcp_count n \<le> 50 \<and>
    (\<forall>z w. z \<in> on_tcp n \<and> w \<in> on_tcp n \<and> tcp_conn (zone n z) = tcp_conn (zone n w) \<longrightarrow> z = w) \<and>
    (\<forall>z. udp_waiting (zone n z) \<longleftrightarrow> z \<in> set (udp_queue n)) \<and> (udp_queue n \<noteq> [] \<longrightarrow> udp_use_num n = 100) \<and>
    (\<forall>z. timer (zone n z) = None \<longrightarrow> udp_waiting (zone n z) \<or> tcp_waiting (zone n z))"
proof -
  have "net_ok n" using run_ok [OF assms net_start_ok] .
  then have ok: "queue_ok n" "tcp_ok n" "udp_cnt 0 n" and z: "\<And>z. zone_ok (zone n z)"
    by (simp_all add: net_ok_def net_core_def)
  have "timer (zone n z) = None \<longrightarrow> udp_waiting (zone n z) \<or> tcp_waiting (zone n z)" for z
    using z [of z] by (simp add: zone_ok_def)
  moreover have "udp_use_num n = card (on_udp n)" "udp_use_num n \<le> 100" using ok(3) by (simp_all add: udp_cnt_def XFRD_MAX_UDP_def)
  moreover have "tcp_count n = card (on_tcp n)" using ok(2) by (simp add: tcp_ok_def)
  moreover have "tcp_count n \<le> 50" using tcp_count_bound [OF ok(2)] by (simp add: TCPSET_MAX_def)
  moreover have "\<forall>z w. z \<in> on_tcp n \<and> w \<in> on_tcp n \<and> tcp_conn (zone n z) = tcp_conn (zone n w) \<longrightarrow> z = w"
    using tcp_okD(5) [OF ok(2)] by blast
  moreover have "\<forall>z. udp_waiting (zone n z) \<longleftrightarrow> z \<in> set (udp_queue n)" "udp_queue n \<noteq> [] \<longrightarrow> udp_use_num n = 100"
    using ok(1) by (simp_all add: queue_ok_def XFRD_MAX_UDP_def)
  ultimately show ?thesis by blast
qed

definition demo_io :: "nat xio" where
  "demo_io = \<lparr>io_now = 1000, io_time = 1000, io_rnd = 3, io_qid = (\<lambda>_. 7), io_udp = (\<lambda>_. 9), io_tcp = (\<lambda>_. 5),
     io_nonblock = (\<lambda>_. True), io_connect = (\<lambda>_. True), io_fdump = True, io_fcommit = True,
     io_hmac = (\<lambda>_ k d. d), io_dname = (\<lambda>_. None), io_w2p = (\<lambda>_. None),
     io_tsig = \<lparr>tsig_key_table = [], tsig_algo_table = [], max_algo_digest_size = 0\<rparr>\<rparr>"

definition demo_start :: "nat net" where
  "demo_start = net_start 1000 0 0 (buffer_create_from (replicate 64 0))
     (\<lambda>_. [\<lparr>m_port = 53, m_family = AF_INET, m_algorithm = [], m_key = None, m_ixfr_disabled = 0\<rparr>])
     (\<lambda>_. [1, 97, 0]) (\<lambda>_. 1)"

lemma demo_timeout:
  "case xfrd_handle_zone demo_io 0 Ev_Timeout demo_start of
     Ok n \<Rightarrow> tcp_count n = 1 \<and> tcp_conn (zone n 0) = 0 \<and> handler_fd (zone n 0) = 5 | _ \<Rightarrow> False"
  by code_simp

text \<open>A witness: the first timeout of a zone opens a TCP connection.\<close>

theorem xfrd_sockets_witness:
  "\<exists>n. xfrd_step\<^sup>*\<^sup>* demo_start n \<and> tcp_conn (zone n 0) = 0 \<and> card (on_tcp n) = 1 \<and> udp_use_num n = card (on_udp n)"
proof -
  from demo_timeout obtain n where n: "xfrd_handle_zone demo_io 0 Ev_Timeout demo_start = Ok n"
    and c: "tcp_count n = 1" "tcp_conn (zone n 0) = 0"
    by (auto split: exec.splits)
  have "enabled 0 Ev_Timeout demo_start"
    by (simp add: enabled_def demo_start_def net_start_def xfrd_create_def xfrd_set_timer_time_def xfrd_set_timer_def Let_def)
  with n have run: "xfrd_step\<^sup>*\<^sup>* demo_start n" by (blast intro: xfrd_step.event)
  from xfrd_sockets [OF run [unfolded demo_start_def]] c run show ?thesis by auto
qed

section \<open>The choice of the master\<close>

fun tried :: "nat \<Rightarrow> nat \<Rightarrow> xfrd \<Rightarrow> xfrd" where
  "tried cnt 0 x = x"
| "tried cnt (Suc k) x = snd (choose_master cnt (tried cnt k x))"

lemma choose_master_after:
  assumes "0 < cnt" and "round_num x = -1" and "next_master x = -1"
  shows "master (tried cnt (Suc k) x) = Some (k mod cnt) \<and> round_num (tried cnt (Suc k) x) = int (k div cnt) \<and>
    next_master (tried cnt (Suc k) x) = -1"
proof (induction k)
  case 0
  show ?case using assms by (cases "master x") (simp_all add: choose_master_def Let_def)
next
  case (Suc k)
  have "(Suc k) mod cnt = (if k mod cnt + 1 < cnt then k mod cnt + 1 else 0)"
    "(Suc k) div cnt = (if k mod cnt + 1 < cnt then k div cnt else k div cnt + 1)"
    using mod_less_divisor [OF assms(1), of k] by (auto simp: mod_Suc div_Suc)
  then show ?case
    unfolding tried.simps(2) [of cnt "Suc k"] using Suc assms(1) by (simp add: choose_master_def Let_def)
qed

text \<open>
  C29. A zone whose requests all fail asks each of its masters, in the order of the list, and goes
  through the list three times; the next request is then put off to the retry time.
\<close>

theorem choose_master_rounds:
  assumes "0 < cnt" and "round_num x = -1" and "next_master x = -1"
  shows "(\<forall>k<3 * cnt. fst (choose_master cnt (tried cnt k x)) \<and>
      master (snd (choose_master cnt (tried cnt k x))) = Some (k mod cnt)) \<and>
    \<not> fst (choose_master cnt (tried cnt (3 * cnt) x))"
proof -
  have fst: "fst (choose_master cnt y) \<longleftrightarrow> next_master y \<noteq> -1 \<or> round_num (snd (choose_master cnt y)) < XFRD_MAX_ROUNDS" for y
    by (auto simp: choose_master_def Let_def)
  have st: "master (snd (choose_master cnt (tried cnt k x))) = Some (k mod cnt)"
    "round_num (snd (choose_master cnt (tried cnt k x))) = int (k div cnt)" for k
    using choose_master_after [OF assms, of k] by (simp_all add: Let_def)
  have nm: "next_master (tried cnt k x) = -1" for k
    using choose_master_after [OF assms] assms(3) by (cases k) (simp_all add: Let_def)
  show ?thesis
    using assms(1) by (auto simp: fst st nm XFRD_MAX_ROUNDS_def div_less_iff_less_mult mult.commute)
qed

text \<open>A witness: two masters are asked in the order 0, 1, 0, 1, 0, 1.\<close>

theorem choose_master_rounds_witness:
  "master (snd (choose_master 2 (tried 2 3 (xfrd_create 0 0 0)))) = Some 1 \<and>
   \<not> fst (choose_master 2 (tried 2 6 (xfrd_create 0 0 0)))"
proof -
  have "round_num (xfrd_create 0 0 0) = -1" "next_master (xfrd_create 0 0 0) = -1"
    by (simp_all add: xfrd_create_def xfrd_set_timer_time_def xfrd_set_timer_def)
  from choose_master_rounds [of 2, OF _ this] show ?thesis by simp
qed
end
