(* ===== verification/Xfrd_Wait.thy ===== *)
theory Xfrd_Wait
  imports Xfrd_Run
begin

text \<open>
  Zones that wait for a TCP connection: no operation of the client takes a zone out of that state.
\<close>

definition waits :: "'rr net \<Rightarrow> 'rr net \<Rightarrow> bool" where
  "waits n n' \<longleftrightarrow> (\<forall>z. tcp_waiting (zone n z) \<longrightarrow> tcp_waiting (zone n' z))"

lemma waits_refl [intro, simp]: "waits n n"
  by (simp add: waits_def)

lemma waits_kept: "net_kept n n' \<Longrightarrow> waits n n'"
  using net_keptD(6) by (fastforce simp: waits_def)

lemma waits_upd: "(tcp_waiting (zone n z) \<Longrightarrow> tcp_waiting (f (zone n z))) \<Longrightarrow> waits n (upd z f n)"
  by (simp add: waits_def)

lemma waits_fields [simp]:
  "waits n (m\<lparr>udp_packet := b\<rparr>) = waits n m" "waits n (m\<lparr>conn_packet := p\<rparr>) = waits n m"
  "waits n (m\<lparr>udp_use_num := u\<rparr>) = waits n m" "waits n (m\<lparr>udp_queue := q\<rparr>) = waits n m"
  "waits n (m\<lparr>tcp_count := c\<rparr>) = waits n m" "waits n (m\<lparr>conn_fd := fds\<rparr>) = waits n m"
  "waits (m\<lparr>udp_use_num := u\<rparr>) n = waits m n"
  by (simp_all add: waits_def)

lemma waits_trans: "waits n m \<Longrightarrow> waits m l \<Longrightarrow> waits n l"
  by (simp add: waits_def)

lemma waits_from: "ensures p (waits m) \<Longrightarrow> waits n m \<Longrightarrow> ensures p (waits n)"
  by (erule ensures_weaken) (rule waits_trans)

lemma waits_from2: "ensures p (\<lambda>(a, n'). waits m n') \<Longrightarrow> waits n m \<Longrightarrow> ensures p (\<lambda>(a, n'). waits n n')"
  by (erule ensures_weaken) (auto intro: waits_trans)

lemma waits_bind:
  "ensures m (waits n) \<Longrightarrow> (\<And>n1. waits n n1 \<Longrightarrow> ensures (f n1) Q) \<Longrightarrow> ensures (exec_bind m f) Q"
  by (rule ensures_bind)

lemma send_request_waits: "ensures (xfrd_udp_send_request_ixfr io z n) (\<lambda>(fd, n'). waits n n')"
  by (rule ensures_weaken [OF send_request_kept]) (auto intro: waits_kept)

lemma udp_serve_waits: "ensures (udp_serve io ws n) (\<lambda>(served, n'). waits n n')"
proof (induction ws arbitrary: n)
  case (Cons w ws)
  show ?case
    unfolding udp_serve.simps Let_def
    apply (rule ensures_assert ensures_if)+
     apply (rule ensures_bind [OF send_request_waits])
     apply (clarify, rule ensures_if)
      apply (simp add: waits_def)
     apply (rule waits_from2 [OF Cons.IH], simp add: waits_def)
    apply (rule waits_from2 [OF Cons.IH], simp add: waits_def)
    done
qed simp

lemma udp_release_waits: "ensures (xfrd_udp_release io z n) (waits n)"
proof -
  have n1: "waits n (upd z (\<lambda>x. x\<lparr>handler_fd := -1\<rparr>) n)" by (rule waits_upd) simp
  show ?thesis
    unfolding xfrd_udp_release_def Let_def
    by (rule ensures_assert, rule ensures_bind [where P = "\<lambda>(served, n'). waits n n'"])
      (auto intro!: waits_from2 [OF udp_serve_waits] n1)
qed

lemma tcp_release_waits: "ensures (xfrd_tcp_release z n) (waits n)"
  unfolding xfrd_tcp_release_def Let_def
  by (intro ensures_assert ensures_if) (simp_all add: waits_def)

lemma timer_waits [simp]:
  "tcp_waiting (xfrd_set_timer now rnd t x) = tcp_waiting x" "tcp_waiting (xfrd_set_timer_now now rnd x) = tcp_waiting x"
  "tcp_waiting (xfrd_unset_timer x) = tcp_waiting x" "tcp_waiting (wait_retry io x) = tcp_waiting x"
  "tcp_waiting (xfrd_notified now tnow rnd s x) = tcp_waiting x"
  by (simp_all add: xfrd_set_timer_def xfrd_set_timer_now_def xfrd_set_timer_time_def xfrd_unset_timer_def Let_def
      wait_retry_def xfrd_set_timer_retry_def xfrd_notified_def split: option.split)

lemma give_up_waits: "ensures (tcp_give_up io z n) (waits n)"
  unfolding tcp_give_up_def by (rule waits_from [OF tcp_release_waits]) (simp add: waits_upd)

lemma tcp_open_waits: "ensures (xfrd_tcp_open io z n) (\<lambda>(opened, n'). waits n n')"
  unfolding xfrd_tcp_open_def Let_def
  by (intro ensures_assert ensures_if ensures_bind [OF give_up_waits]) (simp_all add: waits_def)

lemma tcp_xfr_waits: "ensures (xfrd_tcp_xfr io z n) (waits n)"
  by (rule ensures_weaken [OF tcp_xfr_kept]) (rule waits_kept)

lemma tcp_obtain_waits: "ensures (xfrd_tcp_obtain io z n) (waits n)"
proof -
  have xfr: "ensures (if opened then xfrd_tcp_xfr io z m else Ok m) (waits n)" if "waits n m" for opened m
    using that by (auto intro: waits_from [OF tcp_xfr_waits])
  have open': "ensures (exec_bind (xfrd_tcp_open io z m) (\<lambda>(opened, n). if opened then xfrd_tcp_xfr io z n else Ok n)) (waits n)"
    if "waits n m" for m
    by (rule ensures_bind [OF waits_from2 [OF tcp_open_waits that]]) (auto simp: xfr)
  show ?thesis
    unfolding xfrd_tcp_obtain_def Let_def
    apply (rule ensures_assert ensures_if)+
     apply (rule waits_bind [where n = n])
      apply (rule ensures_if)
       apply (rule waits_from [OF udp_release_waits], simp add: waits_def)
      apply (simp add: waits_def)
     apply (erule open')
    apply (simp add: waits_def)
    done
qed

lemma udp_obtain_waits: "ensures (xfrd_udp_obtain io z n) (waits n)"
proof -
  have send: "ensures (exec_bind (xfrd_udp_send_request_ixfr io z (m\<lparr>udp_use_num := udp_use_num m + 1\<rparr>)) (\<lambda>(fd, n).
       let n = upd z (\<lambda>x. x\<lparr>handler_fd := fd\<rparr>) n in
       Ok (if fd = -1 then n\<lparr>udp_use_num := udp_use_num n - 1\<rparr> else n))) (waits n)" if "waits n m" for m
    by (rule ensures_bind [OF waits_from2 [OF send_request_waits]])
       (use that in \<open>auto simp: Let_def waits_def\<close>)
  show ?thesis
    unfolding xfrd_udp_obtain_def
    apply (rule ensures_assert)
    apply (rule waits_bind [where n = n])
     apply (rule ensures_if, rule tcp_release_waits, simp)
    apply (rule ensures_if, erule send)
    apply (auto simp: waits_def)
    done
qed

lemma choose_master_waits: "choose_master cnt x = (r, x') \<Longrightarrow> tcp_waiting x' = tcp_waiting x"
  by (auto simp: choose_master_def Let_def split: if_splits option.splits)

lemma make_request_waits: "ensures (xfrd_make_request io z n) (waits n)"
proof -
  obtain r x where c: "choose_master (length (masters n z)) (zone n z) = (r, x)" by force
  have n1: "waits n (upd z (\<lambda>_. x) n)" by (rule waits_upd) (simp add: choose_master_waits [OF c])
  have n2: "waits n (if e then set_ixfr_disabled z 0 (upd z (\<lambda>_. x) n) else upd z (\<lambda>_. x) n)" for e
    using n1 waits_trans [OF n1 waits_kept [OF set_ixfr_disabled_kept]] by simp
  have n3: "waits n (upd z (xfrd_set_timer now rnd t) m)" "waits n (upd z (wait_retry io) m)" if "waits n m" for m now rnd t
    by (rule waits_trans [OF that], rule waits_upd, simp)+
  show ?thesis
  proof (cases r)
    case False
    then show ?thesis unfolding xfrd_make_request_def c
      by simp (rule waits_upd, simp add: choose_master_waits [OF c])
  next
    case True
    show ?thesis
      unfolding xfrd_make_request_def c prod.case eqTrueI [OF True] bool.case Let_def
      by (intro ensures_option ensures_if waits_from [OF udp_obtain_waits] waits_from [OF tcp_obtain_waits])
        (simp_all only: ensures_simps n1 n2 n3)
  qed
qed

lemma handle_packet_waits: "ensures (handle_packet io z b n) (\<lambda>(res, b', n'). waits n n')"
  by (rule ensures_weaken [OF handle_packet_net]) (auto intro: waits_kept)

lemma note_notimpl_waits [simp]: "waits n (note_notimpl io res z m) = waits n m"
  by (simp add: note_notimpl_def waits_def)

lemma tcp_read_waits: "ensures (xfrd_tcp_read io z inp n) (waits n)"
  unfolding xfrd_tcp_read_def Let_def
  apply (rule ensures_assert)
  apply (cases inp)
    apply (simp add: give_up_waits)
   apply simp
  apply (simp only: tcp_input.case)
  apply (rule ensures_if, simp)
  apply (rule ensures_skip)
  apply (rule ensures_bind [OF handle_packet_waits])
  apply (simp only: split_paired_all prod.case)
  subgoal for _ b res b' n'
    by (cases res; simp only: xfrd_pkt_status.case)
      ((rule waits_bind [OF waits_from [OF tcp_release_waits]] ensures_assert
        | (erule waits_from [OF make_request_waits]) | simp)+)
  done

lemma tcp_write_waits: "ensures (xfrd_tcp_write io z out inp n) (waits n)"
  unfolding xfrd_tcp_write_def Let_def
  by (rule ensures_assert)
    (cases out; auto simp: give_up_waits waits_upd intro!: waits_from [OF tcp_read_waits])

lemma udp_read_waits: "ensures (xfrd_udp_read io z inp n) (waits n)"
  unfolding xfrd_udp_read_def Let_def
  apply (rule ensures_option)
   apply (rule waits_from [OF udp_release_waits], simp)
  apply (rule ensures_skip)
  apply (rule ensures_bind [OF handle_packet_waits])
  apply (simp only: split_paired_all prod.case)
  subgoal for _ b res b' n'
    by (cases res; simp only: xfrd_pkt_status.case)
      ((rule waits_bind [OF waits_from [OF udp_release_waits]] ensures_assert waits_from [OF udp_release_waits]
        | (erule waits_from [OF make_request_waits])
        | (rule waits_from [OF tcp_obtain_waits], erule waits_trans) | simp add: waits_upd)+)
  done

lemma timeout_waits: "ensures (zone_timeout io z n) (waits n)"
  unfolding zone_timeout_def
  apply (rule waits_bind [where n = n])
   apply (rule ensures_if)
    apply (rule ensures_assert, rule udp_release_waits)
   apply simp
  apply (intro ensures_if)
    apply (unfold ensures_simps, (erule waits_trans, rule waits_upd, simp)+)
  apply (erule waits_from [OF make_request_waits])
  done

lemma handle_zone_waits: "ensures (xfrd_handle_zone io z ev n) (waits n)"
  unfolding xfrd_handle_zone_def Let_def
  by (cases ev)
    (auto simp: waits_upd timeout_waits intro!: waits_from [OF tcp_read_waits] waits_from [OF udp_read_waits]
      waits_from [OF tcp_write_waits] waits_bind [OF tcp_release_waits] waits_from [OF timeout_waits])

lemma step_waits: "xfrd_step n n' \<Longrightarrow> waits n n'"
  by (erule xfrd_stepE) (auto dest: ensuresD [OF handle_zone_waits] simp: waits_upd)

lemma run_waits: "xfrd_step\<^sup>*\<^sup>* n n' \<Longrightarrow> waits n n'"
  by (induction rule: rtranclp_induct) (auto intro: waits_trans step_waits)

text \<open>
  C37. A zone that found all TCP connections in use waits for one forever: whatever happens
  afterwards (other zones releasing their connections, timeouts, notifications of new serials), it
  keeps its mark, gets no socket and sends no request.
\<close>

theorem tcp_waiting_forever:
  assumes "net_ok n" and "tcp_waiting (zone n z)" and "xfrd_step\<^sup>*\<^sup>* n n'"
  shows "tcp_waiting (zone n' z) \<and> tcp_conn (zone n' z) = -1 \<and> handler_fd (zone n' z) = -1 \<and>
    z \<notin> set (udp_queue n')"
proof -
  have w: "tcp_waiting (zone n' z)" using run_waits [OF assms(3)] assms(2) by (simp add: waits_def)
  have "net_ok n'" using run_ok [OF assms(3,1)] .
  then have "zone_ok (zone n' z)" "queue_ok n'" by (simp_all add: net_ok_def net_core_def)
  with w show ?thesis by (auto simp: zone_ok_def queue_ok_def)
qed

text \<open>A witness: 50 zones hold the connections, and zone 50 is notified of a new serial.\<close>

definition full_net :: "nat net" where
  "full_net = demo_start
    \<lparr>zone := (\<lambda>z. let x = (xfrd_create 1000 0 0)\<lparr>master := Some 0\<rparr> in
       if z < 50 then x\<lparr>tcp_conn := int z, handler_fd := 5\<rparr>
       else if z = 50 then x\<lparr>timer := None, tcp_waiting := True\<rparr> else x),
     conn_fd := replicate 50 5, tcp_count := 50\<rparr>"

lemma full_net_ok: "net_ok full_net"
proof -
  let ?x = "(xfrd_create 1000 0 0)\<lparr>master := Some 0\<rparr>"
  have x: "ready ?x" "tcp_conn ?x = -1" "handler_fd ?x = -1" "\<not> udp_waiting ?x" "\<not> tcp_waiting ?x" "master ?x = Some 0"
    "timer ?x \<noteq> None"
    by (simp_all add: xfrd_create_def xfrd_set_timer_time_def xfrd_set_timer_def ready_def idle_def)
  have z: "zone full_net z = (if z < 50 then ?x\<lparr>tcp_conn := int z, handler_fd := 5\<rparr>
       else if z = 50 then ?x\<lparr>timer := None, tcp_waiting := True\<rparr> else ?x)" for z
    by (simp add: full_net_def)
  have t: "tcp_conn (zone full_net z) = (if z < 50 then int z else -1)" "udp_waiting (zone full_net z) = False"
     "handler_fd (zone full_net z) = (if z < 50 then 5 else -1)" for z
    unfolding z using x(2-4) by simp_all
  have f: "conn_fd full_net = replicate TCPSET_MAX 5" "length (conn_packet full_net) = TCPSET_MAX" "tcp_count full_net = 50"
    "udp_use_num full_net = 0" "udp_queue full_net = []"
    by (simp_all add: full_net_def demo_start_def net_start_def TCPSET_MAX_def)
  have e: "on_tcp full_net = {..<TCPSET_MAX}" "on_udp full_net = {}"
    by (auto simp: on_tcp_def on_udp_def t TCPSET_MAX_def split: if_splits)
  have "queue_ok full_net" by (simp add: queue_ok_def t f)
  moreover have "tcp_ok full_net"
    unfolding tcp_ok_def e f by (auto simp: t TCPSET_MAX_def inj_on_def)
  moreover have "zone_ok (zone full_net z)" for z
    unfolding z using x(2-7) by (simp add: zone_ok_def)
  ultimately show ?thesis by (simp add: net_ok_def net_core_def udp_cnt_def e f)
qed

theorem tcp_waiting_forever_witness:
  "handler_fd (zone (upd 50 (xfrd_notified 2000 2000 0 (Some 7)) full_net) 50) = -1"
proof -
  have "tcp_waiting (zone full_net 50)" by (simp add: full_net_def)
  moreover have "xfrd_step\<^sup>*\<^sup>* full_net (upd 50 (xfrd_notified 2000 2000 0 (Some 7)) full_net)"
    by (blast intro: xfrd_step.notified)
  ultimately show ?thesis using tcp_waiting_forever [OF full_net_ok] by blast
qed
end
