(* ===== verification/Xfrd_Reply.thy ===== *)
theory Xfrd_Reply
  imports Xfrd_Props Xfrd_Net "HOL-Library.Code_Target_Nat"
begin

text \<open>
  The replies the zone transfer client accepts: the signature of the first packet, and the serial of
  what it commits to disk.
\<close>

section \<open>Signatures\<close>

text \<open>
  \<open>authentic\<close>: the packet has a TSIG record whose digest fits the packet without it.  The packet in
  front of the record has one additional record less.
\<close>

definition authentic ::
  "(nat \<Rightarrow> u8 list \<Rightarrow> u8 list \<Rightarrow> u8 list) \<Rightarrow> (u8 list \<Rightarrow> u8 list option) \<Rightarrow> trr \<Rightarrow> buffer \<Rightarrow> bool" where
  "authentic hmac dn t b =
    (\<exists>t1 b1 b2 ar b3 t2 t3. tsig_rr_find dn t b = Ok (True, t1, b1) \<and> trr_status t1 = TSIG_OK \<and>
       buffer_set_limit (trr_position t1) b1 = Ok b2 \<and> buffer_pkt_arcount b2 = Ok ar \<and>
       buffer_pkt_set_arcount (ar - 1) b2 = Ok b3 \<and> tsig_rr_update (buf_limit b3) b3 t1 = Ok t2 \<and>
       tsig_rr_verify hmac t2 = Ok (True, t3))"

lemma ensures_known: "(\<And>x. m = Ok x \<Longrightarrow> ensures (f x) Q) \<Longrightarrow> ensures (exec_bind m f) Q"
  by (cases m) simp_all

lemma tsig_process_authentic:
  assumes "mkey \<noteq> None" and "msg_seq_nr x = 0"
  shows "ensures (xfrd_tsig_process hmac dn mkey x b) (\<lambda>(r, x', b'). if r then authentic hmac dn (x_tsig x) b else \<exists>t. x' = x\<lparr>x_tsig := t\<rparr>)"
proof -
  have signed: "ensures (exec_bind (exec_bind (buffer_set_limit (trr_position t) b') (\<lambda>b.
             exec_bind (buffer_pkt_arcount b) (\<lambda>ar. buffer_pkt_set_arcount (ar - 1) b))) (\<lambda>b.
     exec_bind (tsig_rr_update (buf_limit b) b t) (\<lambda>t.
       exec_bind (tsig_rr_verify hmac t) (\<lambda>(ok, t).
       if \<not> ok then Ok (False, x\<lparr>x_tsig := t\<rparr>, b)
       else exec_bind (tsig_rr_prepare t) (\<lambda>t. Ok (R, x\<lparr>x_tsig := t\<rparr>, b))))))
     (\<lambda>(r, x', b'). if r then authentic hmac dn (x_tsig x) b else \<exists>t. x' = x\<lparr>x_tsig := t\<rparr>)"
    if "tsig_rr_find dn (x_tsig x) b = Ok (True, t, b')" "trr_status t = TSIG_OK" for t b' R
    unfolding exec_bind_assoc
    apply (rule ensures_known)+
    apply (simp only: split_paired_all prod.case, rule ensures_if, force)
    apply (rule ensures_skip)
    using that by (auto simp: authentic_def)
  show ?thesis
    unfolding xfrd_tsig_process_def Let_def
    apply (rule ensures_if, simp add: assms)
    apply (rule ensures_known, simp only: split_paired_all prod.case, rule ensures_if, force)
    subgoal for found t b'
      by (cases "trr_status t = TSIG_OK") (use signed assms in \<open>auto intro!: ensures_skip\<close>)
    done
qed

lemma parse_packet_authentic:
  assumes "mkey \<noteq> None" and "msg_seq_nr x = 0"
  shows "ensures (xfrd_parse_packet hmac dn now rnd mkey x b)
    (\<lambda>(st, x', b'). st \<in> {XFRD_PKT_BAD, XFRD_PKT_NOTIMPL} \<and> (\<exists>t. x' = x\<lparr>x_tsig := t\<rparr>) \<or>
      authentic hmac dn (x_tsig x) b)"
proof -
  have same: "\<exists>t. x = x\<lparr>x_tsig := t\<rparr>" by (rule exI [of _ "x_tsig x"]) simp
  show ?thesis
    unfolding xfrd_parse_packet_def
    apply (rule ensures_assert, rule ensures_skip)
    apply (rule ensures_if, simp add: same, rule ensures_skip)
    apply (rule ensures_if, simp add: same, rule ensures_skip)
    apply (rule ensures_if, simp add: same, rule ensures_if, simp add: same)
    apply (rule ensures_bind [OF tsig_process_authentic [OF assms]])
    apply (simp only: split_paired_all prod.case, rule ensures_if, simp)
    apply (rule ensures_weaken [OF parse_sections_kept], simp)
    done
qed

text \<open>
  C13. When the master has a key, nothing of a reply is believed before it is authenticated: unless
  the first packet of a reply carries a TSIG record that fits it, the packet is refused, no line is
  added to the transfer file, the read task is not rescheduled, and nothing of the zone's state
  changes but its TSIG record.
\<close>

theorem xfrd_first_packet_signed:
  assumes "mkey \<noteq> None" and "msg_seq_nr x = 0"
    and "xfrd_handle_packet hmac dn w2p now rnd fdump fcommit mkey x b file = Ok (st, x', b', file', rs)"
    and "\<not> authentic hmac dn (x_tsig x) b"
  shows "st \<in> {XFRD_PKT_BAD, XFRD_PKT_NOTIMPL} \<and> file' = file \<and> \<not> rs \<and> (\<exists>t. x' = x\<lparr>x_tsig := t\<rparr>)"
proof -
  have "ensures (xfrd_handle_packet hmac dn w2p now rnd fdump fcommit mkey x b file)
    (\<lambda>(st, x', b', file', rs). st \<in> {XFRD_PKT_BAD, XFRD_PKT_NOTIMPL} \<and> file' = file \<and> \<not> rs \<and> (\<exists>t. x' = x\<lparr>x_tsig := t\<rparr>))"
    unfolding xfrd_handle_packet_def
    by (rule ensures_bind [OF parse_packet_authentic [OF assms(1,2)]]) (use assms(4) in auto)
  from ensuresD [OF this assms(3)] show ?thesis by simp
qed

section \<open>Serials\<close>

text \<open>The serials of a zone, kept while records are read; the count of records does not go down.\<close>

definition serials_kept :: "xfrd \<Rightarrow> xfrd \<Rightarrow> bool" where
  "serials_kept x x' \<longleftrightarrow> serial_disk x' = serial_disk x \<and> msg_new_serial x' = msg_new_serial x \<and>
     serial_disk_acquired x' = serial_disk_acquired x \<and> msg_rr_count x \<le> msg_rr_count x'"

lemma serials_kept_simps [simp]:
  "serials_kept x x" "serials_kept x (x\<lparr>x_tsig := t\<rparr>)" "serials_kept x (x\<lparr>soa := s\<rparr>)"
  "serials_kept x (x\<lparr>msg_is_ixfr := i\<rparr>)" "serials_kept x (x\<lparr>msg_rr_count := Suc (msg_rr_count x)\<rparr>)"
  by (simp_all add: serials_kept_def)

lemma serials_kept_trans: "serials_kept x y \<Longrightarrow> serials_kept y z \<Longrightarrow> serials_kept x z"
  by (simp add: serials_kept_def)

lemma tsig_process_serials: "ensures (xfrd_tsig_process hmac dn mkey x b) (\<lambda>(r, x', b'). serials_kept x x' \<and> msg_rr_count x' = msg_rr_count x)"
  unfolding xfrd_tsig_process_def Let_def
  by ((rule ensures_rules | clarsimp)+)

lemma parse_soa_rdata_serials: "ensures (parse_soa_rdata x b update ttl) (\<lambda>(s, x', b'). serials_kept x x' \<and> msg_rr_count x' = msg_rr_count x)"
proof -
  have upd: "ensures (if update then xfrd_update_soa x b' ttl mp rp refresh retry expire minimum else Ok (x, b'))
    (\<lambda>(x', b'). serials_kept x x' \<and> msg_rr_count x' = msg_rr_count x)" for b' mp rp refresh retry expire minimum
    unfolding xfrd_update_soa_def by ((rule ensures_rules | clarsimp)+)
  show ?thesis
    unfolding parse_soa_rdata_def Let_def
    by ((rule ensures_bind [OF upd] ensures_rules | clarsimp)+)
qed

lemma parse_soa_serials: "ensures (xfrd_parse_soa x b rdata_only update t) (\<lambda>(s, x', b'). serials_kept x x' \<and> msg_rr_count x' = msg_rr_count x)"
  unfolding xfrd_parse_soa_def
  by ((rule parse_soa_rdata_serials ensures_rules | clarsimp)+)

lemma soa_seen_serials: "soa_seen x serial don = Inr (x', don') \<Longrightarrow> serials_kept x x'"
  by (auto simp: soa_seen_def serials_kept_def Let_def split: if_splits)

lemma parse_rrs_serials: "ensures (xfrd_parse_rrs count x b don) (\<lambda>(st, don', x', b'). serials_kept x x')"
proof (induction count arbitrary: x b don)
  case (Suc count)
  have rec: "ensures (xfrd_parse_rrs count (x1\<lparr>msg_rr_count := Suc (msg_rr_count x1)\<rparr>) b1 don1) (\<lambda>(st, don', x', b'). serials_kept x x')"
    if "serials_kept x x1" for x1 b1 don1
    by (rule ensures_weaken [OF Suc.IH])
      (use that in \<open>auto simp: serials_kept_def\<close>)
  show ?case
    unfolding xfrd_parse_rrs.simps
    by ((rule ensures_bind [OF parse_soa_serials] ensures_rules
        | (clarsimp simp: rec split: sum.split; fastforce dest: soa_seen_serials intro: rec serials_kept_trans))+)
qed simp

lemma parse_answer_serials: "ensures (parse_answer an todo x b) (\<lambda>(st, x', b'). serials_kept x x')"
  unfolding parse_answer_def
  by ((rule ensures_bind [OF parse_rrs_serials] ensures_rules | clarsimp)+)

text \<open>\<open>pending old x\<close>: \<open>old\<close> is on disk, and a transfer that is under way has a newer serial.\<close>

definition pending :: "u32 \<Rightarrow> xfrd \<Rightarrow> bool" where
  "pending old x \<longleftrightarrow> serial_disk x = old \<and>
     (if msg_rr_count x = 0 then serial_disk_acquired x \<noteq> 0 else util_serial_gt (msg_new_serial x) old)"

lemma first_serial_newer:
  assumes "first_serial now rnd an serial x = (r, x')" and "pending old x" and "msg_rr_count x = 0" and "0 < now"
  shows "serial_disk x' = old \<and> (r = None \<longrightarrow> msg_rr_count x' = 1 \<and> util_serial_gt (msg_new_serial x') old) \<and>
    r \<noteq> Some XFRD_PKT_MORE \<and> r \<noteq> Some XFRD_PKT_XFR"
proof -
  have irr: "\<not> util_serial_gt s s" for s by (simp add: util_serial_gt_def DNS_SERIAL_GT_def)
  show ?thesis
    using assms unfolding first_serial_def Let_def
    by (auto simp: pending_def irr xfrd_set_timer_refresh_def xfrd_set_timer_time_def xfrd_set_timer_def Let_def
        split: if_splits)
qed

lemma parse_packet_newer:
  assumes "pending old x" and "0 < now"
  shows "ensures (xfrd_parse_packet hmac dn now rnd mkey x b)
    (\<lambda>(st, x', b'). serial_disk x' = old \<and>
      (st \<in> {XFRD_PKT_MORE, XFRD_PKT_XFR} \<longrightarrow> msg_rr_count x' \<noteq> 0 \<and> util_serial_gt (msg_new_serial x') old))"
    (is "ensures _ (\<lambda>(st, x', b'). ?Q st x')")
proof -
  have ans: "ensures (parse_answer an todo x1 b1) (\<lambda>(st, x', b'). ?Q st x')"
    if "serial_disk x1 = old" "msg_rr_count x1 \<noteq> 0" "util_serial_gt (msg_new_serial x1) old" for an todo x1 b1
    by (rule ensures_weaken [OF parse_answer_serials]) (use that in \<open>auto simp: serials_kept_def\<close>)
  have sec: "ensures (parse_sections now rnd x1 b1) (\<lambda>(st, x', b'). ?Q st x')" if p: "pending old x1" for x1 b1
  proof -
    have old: "serial_disk x1 = old" using p by (simp add: pending_def)
    have soa: "ensures (xfrd_parse_soa x1 b' False True 0) (\<lambda>(s, x', b'). pending old x' \<and> msg_rr_count x' = msg_rr_count x1)" for b'
      by (rule ensures_weaken [OF parse_soa_serials]) (use p in \<open>auto simp: pending_def serials_kept_def\<close>)
    show ?thesis
      unfolding parse_sections_def
      apply (rule ensures_skip)+
      apply (simp only: split_paired_all prod.case, rule ensures_if, simp add: old)
      apply (rule ensures_skip)+
      apply (rule ensures_if, simp add: old)
      apply (rule ensures_if)
       apply (rule ensures_skip)
       apply (simp only: split_paired_all prod.case, rule ensures_if, simp add: old)
       apply (rule ensures_bind [OF soa])
       apply (simp only: split_paired_all prod.case)
       apply (rule ensures_option)
        apply (simp add: pending_def)
       apply (rule ensures_prod)
       apply (elim conjE, drule (1) first_serial_newer [OF _ _ _ assms(2)], simp)
       apply (rule ensures_option)
        apply (rule ans; simp)
       apply auto[1]
      apply (rule ans)
      using p by (auto simp: pending_def)
  qed
  have old: "serial_disk x = old" using assms(1) by (simp add: pending_def)
  show ?thesis
    unfolding xfrd_parse_packet_def
    apply (rule ensures_assert, rule ensures_skip)
    apply (rule ensures_if, simp add: old, rule ensures_skip)
    apply (rule ensures_if, simp add: old, rule ensures_skip)
    apply (rule ensures_if, simp add: old, rule ensures_if, simp add: old)
    apply (rule ensures_bind [OF tsig_process_serials])
    apply (simp only: split_paired_all prod.case, rule ensures_if, simp add: serials_kept_def old)
    apply (rule sec)
    using assms(1) by (auto simp: pending_def serials_kept_def)
qed

lemma dump_packet_serials:
  assumes "xfrd_dump_packet w2p fdump b x file = (x', file')"
  shows "serial_disk x' = serial_disk x \<and> msg_new_serial x' = msg_new_serial x \<and> msg_rr_count x' = msg_rr_count x \<and>
    (w2p (take (buf_limit b) (buf_data b)) \<noteq> None \<longrightarrow> serial_disk_acquired x' = 0)"
  using assms by (auto simp: xfrd_dump_packet_def Let_def split: option.splits if_splits)

lemma finish_transfer_serials:
  assumes "finish_transfer now rnd fcommit x b file = (st, x', b', file', rs)"
  shows "st \<noteq> XFRD_PKT_MORE \<and> (serial_disk x' = serial_disk x \<or> serial_disk x' = msg_new_serial x)"
  using assms
  by (auto simp: finish_transfer_def xfrd_commit_packet_def xfrd_set_timer_refresh_def xfrd_set_timer_time_def
      xfrd_set_timer_def Let_def split: if_splits)

lemma handle_packet_newer:
  assumes "pending old x" and "0 < now"
  shows "ensures (xfrd_handle_packet hmac dn w2p now rnd fdump fcommit mkey x b file)
    (\<lambda>(st, x', b', file', rs). if st = XFRD_PKT_MORE then pending old x'
       else serial_disk x' = old \<or> util_serial_gt (serial_disk x') old)"
  unfolding xfrd_handle_packet_def
  apply (rule ensures_bind [OF parse_packet_newer [OF assms]])
  apply (simp only: split_paired_all prod.case)
  apply (rule ensures_if, force)
  apply (rule ensures_if, force)
  subgoal for st x1 b1
  proof (cases "xfrd_dump_packet w2p fdump b1 x1 file")
    case (Pair x2 file2)
    assume "serial_disk x1 = old \<and> (st \<in> {XFRD_PKT_MORE, XFRD_PKT_XFR} \<longrightarrow> msg_rr_count x1 \<noteq> 0 \<and> util_serial_gt (msg_new_serial x1) old)"
      "\<not> (st = XFRD_PKT_NEWLEASE \<or> st = XFRD_PKT_TC)" "\<not> (st = XFRD_PKT_NOTIMPL \<or> st = XFRD_PKT_BAD)"
    then have "serial_disk x1 = old" "msg_rr_count x1 \<noteq> 0" "util_serial_gt (msg_new_serial x1) old"
      by (cases st; simp)+
    then have x2: "serial_disk x2 = old" "msg_rr_count x2 \<noteq> 0" "util_serial_gt (msg_new_serial x2) old"
      using dump_packet_serials [OF Pair] by simp_all
    obtain st' x' b' file' rs where f:
      "finish_transfer now rnd fcommit (x2\<lparr>msg_seq_nr := msg_seq_nr x2 + 1\<rparr>) b1 file2 = (st', x', b', file', rs)"
      by (metis prod_cases5)
    show ?thesis using x2 finish_transfer_serials [OF f] by (auto simp: Pair f pending_def Let_def)
  qed
  done

text \<open>The packets of one reply, as \<^verbatim>\<open>xfrd_tcp_read\<close> takes them one after the other, with the time of each.\<close>

fun receive_all ::
  "(nat \<Rightarrow> u8 list \<Rightarrow> u8 list \<Rightarrow> u8 list) \<Rightarrow> (u8 list \<Rightarrow> u8 list option) \<Rightarrow> (u8 list \<Rightarrow> 'rr list option) \<Rightarrow> nat \<Rightarrow>
   bool \<Rightarrow> bool \<Rightarrow> (string \<times> tsig_key) option \<Rightarrow> (time_t \<times> buffer) list \<Rightarrow> xfrd \<Rightarrow> 'rr xfr_line list \<Rightarrow>
   (xfrd_pkt_status \<times> xfrd \<times> 'rr xfr_line list) exec" where
  "receive_all hmac dn w2p rnd fdump fcommit mkey [] x file = Ok (XFRD_PKT_MORE, x, file)"
| "receive_all hmac dn w2p rnd fdump fcommit mkey ((now, b) # ps) x file =
    exec_bind (xfrd_handle_packet hmac dn w2p now rnd fdump fcommit mkey x b file) (\<lambda>(st, x, b, file, rs).
    if st = XFRD_PKT_MORE then receive_all hmac dn w2p rnd fdump fcommit mkey ps x file else Ok (st, x, file))"

lemma receive_all_newer:
  assumes "pending old x" and "\<forall>p\<in>set ps. 0 < fst p"
  shows "ensures (receive_all hmac dn w2p rnd fdump fcommit mkey ps x ls)
    (\<lambda>(st, x', file'). serial_disk x' = old \<or> util_serial_gt (serial_disk x') old)"
  using assms
proof (induction ps arbitrary: x ls)
  case Nil
  then show ?case by (simp add: pending_def)
next
  case (Cons p ps)
  obtain now b where p: "p = (now, b)" by force
  have now: "0 < now" using Cons.prems p by simp
  show ?case
    unfolding p receive_all.simps
    by (rule ensures_bind [OF handle_packet_newer [OF Cons.prems(1) now]])
      (use Cons in auto)
qed

text \<open>
  C12. A transfer never takes the zone on disk back: while the serial on disk is known
  (\<^verbatim>\<open>serial_disk_acquired\<close> is set), a reply to a new request, however many packets it has and whatever
  they contain, leaves the serial on disk alone or replaces it by a newer one in serial arithmetic.
\<close>

theorem xfrd_serial_newer:
  assumes "serial_disk_acquired x \<noteq> 0" and "\<forall>p\<in>set ps. 0 < fst p"
    and "receive_all hmac dn w2p rnd fdump fcommit mkey ps (new_request qid x) file = Ok (st, x', file')"
  shows "serial_disk x' = serial_disk x \<or> util_serial_gt (serial_disk x') (serial_disk x)"
proof -
  have "pending (serial_disk x) (new_request qid x)" using assms(1) by (simp add: pending_def new_request_def)
  from ensuresD [OF receive_all_newer [OF this assms(2)] assms(3)] show ?thesis by simp
qed


section \<open>Examples\<close>

definition soa_rr :: "u8 \<Rightarrow> u8 list" where
  "soa_rr serial = [0, 0, 6, 0, 1, 0, 0, 0, 0, 0, 22, 0, 0, 0, 0, 0, serial] @ replicate 16 0"

definition reply :: "u8 list \<Rightarrow> buffer" where
  "reply serials = buffer_create_from
    ([0, 7, 128, 0, 0, 0, 0, of_nat (length serials), 0, 0, 0, 0] @ concat (map soa_rr serials))"

definition demo_algo :: tsig_algo where
  "demo_algo = \<lparr>txt_name = ''hmac-md5'', wf_name = [0], max_digest_size = 16, digest = 1\<rparr>"

text \<open>A zone with serial 3 on disk that has sent a request over TCP.\<close>

definition asking :: xfrd where
  "asking = (xfrd_create 1000 0 0)\<lparr>tcp_conn := 0, master := Some 0, query_id := 7, serial_disk := 3,
     serial_disk_acquired := 900,
     x_tsig := tsig_rr_create\<lparr>trr_algo := Some demo_algo, trr_context := Some (Ctx_Open 1 [] [])\<rparr>\<rparr>"

abbreviation handle_demo where
  "handle_demo mkey b \<equiv> xfrd_handle_packet (\<lambda>_ k d. d) (\<lambda>_. None) (\<lambda>_. Some [0 :: nat]) 1000 0 True True mkey asking b []"

lemma handle_demo_unsigned:
  "case handle_demo (Some ([], \<lparr>key_wire = [0], key_data = [], key_freed = False\<rparr>)) (reply [7, 7]) of
     Ok (st, x, b, file, rs) \<Rightarrow> st = XFRD_PKT_BAD \<and> file = [] \<and> \<not> rs | _ \<Rightarrow> False"
  by code_simp

lemma reply_unsigned:
  "case tsig_rr_find (\<lambda>_. None) (x_tsig asking) (reply [7, 7]) of
     Ok (r, t, b) \<Rightarrow> trr_status t = TSIG_NOT_PRESENT | _ \<Rightarrow> False"
  by code_simp

text \<open>A witness: an unsigned reply is refused and nothing is written.\<close>

theorem xfrd_first_packet_signed_witness:
  "\<exists>x b rs. handle_demo (Some ([], \<lparr>key_wire = [0], key_data = [], key_freed = False\<rparr>)) (reply [7, 7]) =
     Ok (XFRD_PKT_BAD, x, b, [], rs) \<and> \<not> rs \<and> (\<exists>t. x = asking\<lparr>x_tsig := t\<rparr>)"
proof -
  let ?k = "Some ([], \<lparr>key_wire = [0], key_data = [], key_freed = False\<rparr>)"
  from handle_demo_unsigned obtain x b rs where h: "handle_demo ?k (reply [7, 7]) = Ok (XFRD_PKT_BAD, x, b, [], rs)"
    by (auto split: exec.splits)
  have "\<not> authentic (\<lambda>_ k d. d) (\<lambda>_. None) (x_tsig asking) (reply [7, 7])"
    using reply_unsigned by (auto simp: authentic_def)
  moreover have "msg_seq_nr asking = 0" by (simp add: asking_def xfrd_create_def xfrd_set_timer_time_def xfrd_set_timer_def)
  ultimately show ?thesis using xfrd_first_packet_signed [OF _ _ h] h by auto
qed

lemma receive_demo:
  "case receive_all (\<lambda>_ k d. d) (\<lambda>_. None) (\<lambda>_. Some [0 :: nat]) 0 True True None [(1000, reply [7]), (1001, reply [7])]
     (new_request 7 asking) [] of
     Ok (st, x, file) \<Rightarrow> st = XFRD_PKT_XFR \<and> serial_disk x = 7 \<and> file = [Begin_Packet, Rr_Line 0, Rr_Line 0, End_Packet]
   | _ \<Rightarrow> False"
  by code_simp

text \<open>A witness: a reply of two packets takes the zone from serial 3 to serial 7.\<close>

theorem xfrd_serial_newer_witness:
  "util_serial_gt 7 (serial_disk asking)"
proof -
  from receive_demo obtain x where h: "receive_all (\<lambda>_ k d. d) (\<lambda>_. None) (\<lambda>_. Some [0 :: nat]) 0 True True None
      [(1000, reply [7]), (1001, reply [7])] (new_request 7 asking) [] =
      Ok (XFRD_PKT_XFR, x, [Begin_Packet, Rr_Line 0, Rr_Line 0, End_Packet])" and s: "serial_disk x = 7"
    by (auto split: exec.splits)
  have "serial_disk_acquired asking \<noteq> 0" "serial_disk asking = 3" by (simp_all add: asking_def)
  with xfrd_serial_newer [OF _ _ h] s show ?thesis by auto
qed

lemma handle_demo_more:
  "case handle_demo None (reply [7]) of Ok (st, x, b, file, rs) \<Rightarrow> st = XFRD_PKT_MORE | _ \<Rightarrow> False"
  by code_simp


end
