(* ===== verification/Tcpset.thy ===== *)
theory Tcpset
  imports Cursor
begin

text \<open>
  TCP connections of the zone transfer client, \<^verbatim>\<open>signer/src/wire/tcpset.c\<close>: a message travels with its
  length in front, and \<^verbatim>\<open>tcp_conn_read\<close> and \<^verbatim>\<open>tcp_conn_write\<close> transfer as much of it as the socket
  takes each time.  The bytes that the peer sends, and those sent to it, are lists; how many bytes a
  call of \<^verbatim>\<open>read\<close> or \<^verbatim>\<open>write\<close> moves, or how it fails, is an argument.
\<close>

section \<open>Sockets\<close>

datatype sched = Sock_Error | Sock_Again | Sock_Upto nat

datatype sock_result = Io_Error | Io_Again | Io_Bytes "u8 list"

text \<open>
  \<open>Sock_Upto k\<close> moves at most \<open>k + 1\<close> bytes.  Reading gives no bytes when the peer has sent all and
  closed the connection.
\<close>

definition sock_read :: "sched \<Rightarrow> nat \<Rightarrow> u8 list \<Rightarrow> sock_result \<times> u8 list" where
  "sock_read s n input =
    (case s of Sock_Error \<Rightarrow> (Io_Error, input) | Sock_Again \<Rightarrow> (Io_Again, input)
     | Sock_Upto k \<Rightarrow> (Io_Bytes (take (min (k + 1) n) input), drop (min (k + 1) n) input))"

definition sock_write :: "sched \<Rightarrow> u8 list \<Rightarrow> u8 list \<Rightarrow> sock_result \<times> u8 list" where
  "sock_write s bytes output =
    (case s of Sock_Error \<Rightarrow> (Io_Error, output) | Sock_Again \<Rightarrow> (Io_Again, output)
     | Sock_Upto k \<Rightarrow> (Io_Bytes (take (k + 1) bytes), output @ take (k + 1) bytes))"

section \<open>Connections\<close>

text \<open>
  \<^verbatim>\<open>msglen\<close> holds the length in network order while it is being read and is converted then; the model
  keeps the number the bytes stand for throughout.
\<close>

definition MAX_RR_SIZE :: nat where "MAX_RR_SIZE = MAXDOMAINLEN + 4 + 4 * 2 + 65535"
definition PACKET_BUFFER_SIZE :: nat where "PACKET_BUFFER_SIZE = MAX_PACKET_SIZE + MAX_RR_SIZE"

record tcp_conn_type =
  tc_fd :: int
  total_bytes :: nat
  msglen :: u16
  packet :: buffer
  is_reading :: bool

definition tcp_conn_create :: "tcp_conn_type option" where
  "tcp_conn_create =
    (case buffer_create PACKET_BUFFER_SIZE of None \<Rightarrow> None
     | Some b \<Rightarrow> Some \<lparr>tc_fd = -1, total_bytes = 0, msglen = 0, packet = b, is_reading = False\<rparr>)"

definition tcp_set_create :: "nat \<Rightarrow> tcp_conn_type option list" where
  "tcp_set_create tcpset_max = replicate tcpset_max tcp_conn_create"

definition tcp_conn_ready :: "tcp_conn_type \<Rightarrow> tcp_conn_type" where
  "tcp_conn_ready tcp = tcp\<lparr>total_bytes := 0, msglen := 0, packet := buffer_clear (packet tcp)\<rparr>"

definition read_body :: "sched \<Rightarrow> tcp_conn_type \<Rightarrow> u8 list \<Rightarrow> (int \<times> tcp_conn_type \<times> u8 list) exec" where
  "read_body s tcp input =
    exec_bind (buffer_remaining (packet tcp)) (\<lambda>remaining.
    ods_log_assert (remaining > 0)
    (exec_bind (buffer_current (packet tcp)) (\<lambda>at.
     case sock_read s remaining input of
       (Io_Again, input) \<Rightarrow> Ok (0, tcp, input)
     | (Io_Error, input) \<Rightarrow> Ok (-1, tcp, input)
     | (Io_Bytes received, input) \<Rightarrow>
       if received = [] then Ok (-1, tcp, input)
       else exec_bind (mem_write (buf_data (packet tcp)) at received) (\<lambda>d.
       exec_bind (buffer_skip (int (length received)) ((packet tcp)\<lparr>buf_data := d\<rparr>)) (\<lambda>b.
       let tcp = tcp\<lparr>total_bytes := total_bytes tcp + length received, packet := b\<rparr> in
       exec_bind (buffer_remaining b) (\<lambda>remaining.
       if remaining > 0 then Ok (0, tcp, input)
       else ods_log_assert (buf_position b = unat (msglen tcp)) (Ok (1, tcp, input))))))))"

definition tcp_conn_read ::
  "sched \<Rightarrow> sched \<Rightarrow> tcp_conn_type \<Rightarrow> u8 list \<Rightarrow> (int \<times> tcp_conn_type \<times> u8 list) exec" where
  "tcp_conn_read s1 s2 tcp input =
    ods_log_assert (tc_fd tcp \<noteq> -1)
    (if total_bytes tcp < 2 then
       (case sock_read s1 (2 - total_bytes tcp) input of
          (Io_Again, input) \<Rightarrow> Ok (0, tcp, input)
        | (Io_Error, input) \<Rightarrow> Ok (-1, tcp, input)
        | (Io_Bytes received, input) \<Rightarrow>
          if received = [] then Ok (-1, tcp, input)
          else
            let tcp = tcp\<lparr>msglen := read_uint16 (patch (write_uint16 (msglen tcp)) (total_bytes tcp) received),
                          total_bytes := total_bytes tcp + length received\<rparr> in
            if total_bytes tcp < 2 then Ok (0, tcp, input)
            else ods_log_assert (total_bytes tcp = 2)
             (if unat (msglen tcp) > buf_capacity (packet tcp) then Ok (0, tcp, input)
              else exec_bind (buffer_set_limit (unat (msglen tcp)) (packet tcp)) (\<lambda>b.
                read_body s2 (tcp\<lparr>packet := b\<rparr>) input)))
     else read_body s2 tcp input)"

definition write_body :: "sched \<Rightarrow> tcp_conn_type \<Rightarrow> u8 list \<Rightarrow> (int \<times> tcp_conn_type \<times> u8 list) exec" where
  "write_body s tcp output =
    ods_log_assert (total_bytes tcp < unat (msglen tcp) + 2)
    (exec_bind (buffer_remaining (packet tcp)) (\<lambda>remaining.
     exec_bind (buffer_current (packet tcp)) (\<lambda>at.
     exec_bind (mem_read (buf_data (packet tcp)) at remaining) (\<lambda>bytes.
     case sock_write s bytes output of
       (Io_Again, output) \<Rightarrow> Ok (0, tcp, output)
     | (Io_Error, output) \<Rightarrow> Ok (-1, tcp, output)
     | (Io_Bytes sent, output) \<Rightarrow>
       exec_bind (buffer_skip (int (length sent)) (packet tcp)) (\<lambda>b.
       let tcp = tcp\<lparr>packet := b, total_bytes := total_bytes tcp + length sent\<rparr> in
       if total_bytes tcp < unat (msglen tcp) + 2 then Ok (0, tcp, output)
       else ods_log_assert (total_bytes tcp = unat (msglen tcp) + 2) (Ok (1, tcp, output)))))))"

definition tcp_conn_write ::
  "sched \<Rightarrow> sched \<Rightarrow> tcp_conn_type \<Rightarrow> u8 list \<Rightarrow> (int \<times> tcp_conn_type \<times> u8 list) exec" where
  "tcp_conn_write s1 s2 tcp output =
    ods_log_assert (tc_fd tcp \<noteq> -1)
    (if total_bytes tcp < 2 then
       (case sock_write s1 (drop (total_bytes tcp) (write_uint16 (msglen tcp))) output of
          (Io_Again, output) \<Rightarrow> Ok (0, tcp, output)
        | (Io_Error, output) \<Rightarrow> Ok (-1, tcp, output)
        | (Io_Bytes sent, output) \<Rightarrow>
          let tcp = tcp\<lparr>total_bytes := total_bytes tcp + length sent\<rparr> in
          if total_bytes tcp < 2 then Ok (0, tcp, output)
          else ods_log_assert (total_bytes tcp = 2) (write_body s2 tcp output))
     else write_body s2 tcp output)"

text \<open>The calls of an event loop: until the message is complete, with the two \<open>sched\<close> of each call.\<close>

fun drive ::
  "(sched \<Rightarrow> sched \<Rightarrow> tcp_conn_type \<Rightarrow> u8 list \<Rightarrow> (int \<times> tcp_conn_type \<times> u8 list) exec) \<Rightarrow>
   (sched \<times> sched) list \<Rightarrow> tcp_conn_type \<Rightarrow> u8 list \<Rightarrow> (int \<times> tcp_conn_type \<times> u8 list) exec" where
  "drive f [] tcp io = Ok (0, tcp, io)"
| "drive f ((s1, s2) # ss) tcp io =
    exec_bind (f s1 s2 tcp io) (\<lambda>(r, tcp, io). if r = 0 then drive f ss tcp io else Ok (r, tcp, io))"

section \<open>Reading\<close>

text \<open>
  \<open>frame msg\<close> is the message with its length in front; \<open>reading msg n tcp\<close>: the first \<open>n\<close> bytes of it are read.
\<close>

definition frame :: "u8 list \<Rightarrow> u8 list" where
  "frame msg = write_uint16 (of_nat (length msg)) @ msg"

definition reading :: "u8 list \<Rightarrow> nat \<Rightarrow> tcp_conn_type \<Rightarrow> bool" where
  "reading msg n tcp \<longleftrightarrow> 0 < length msg \<and> length msg < 2 ^ 16 \<and> tc_fd tcp \<noteq> -1 \<and> total_bytes tcp = n \<and> n \<le> length (frame msg) \<and> buffer_wf (packet tcp) \<and>
     length msg \<le> buf_capacity (packet tcp) \<and>
     take n (write_uint16 (msglen tcp)) = take n (write_uint16 (of_nat (length msg))) \<and>
     buf_position (packet tcp) = n - 2 \<and> take (n - 2) (buf_data (packet tcp)) = take (n - 2) msg \<and>
     (2 \<le> n \<longrightarrow> buf_limit (packet tcp) = length msg)"

lemma length_frame [simp]: "length (frame msg) = length msg + 2"
  by (simp add: frame_def)

lemma take_patch_end: "i \<le> length m \<Longrightarrow> take (i + length xs) (patch m i xs) = take i m @ xs"
  by (simp add: patch_def)

lemma take_self: "take (length (take k xs)) xs = take k xs"
  by (cases "k \<le> length xs") simp_all

lemma take_extend: "take (i + k) xs = take i xs @ take k (drop i xs)"
  by (simp add: take_add)

text \<open>One call that reads bytes of the message.\<close>

lemma read_body_reading:
  assumes r: "reading msg n tcp" and n: "2 \<le> n" "n < length (frame msg)" and s: "s \<noteq> Sock_Error"
  shows "\<exists>r m tcp'. read_body s tcp (drop n (frame msg) @ rest) = Ok (r, tcp', drop m (frame msg) @ rest) \<and>
    reading msg m tcp' \<and> n \<le> m \<and> (s \<noteq> Sock_Again \<longrightarrow> n < m) \<and> (r = (if m = length (frame msg) then 1 else 0))"
proof -
  let ?b = "packet tcp"
  have b: "buffer_wf ?b" "buf_position ?b = n - 2" "buf_limit ?b = length msg" "total_bytes tcp = n"
    "take (n - 2) (buf_data ?b) = take (n - 2) msg" "length msg \<le> buf_capacity ?b"
    and ml: "write_uint16 (msglen tcp) = write_uint16 (of_nat (length msg))" and len: "length msg < 2 ^ 16"
    using r n by (simp_all add: reading_def)
  have rem: "buffer_remaining ?b = Ok (length (frame msg) - n)"
    using b n by (simp add: buffer_remaining_def buffer_remaining_at_def ods_log_assert_def)
  have mlen: "unat (msglen tcp) = length msg"
    using arg_cong [OF ml, of read_uint16] len by (simp add: read_write_uint16 unat_of_nat)
  have drp: "drop n (frame msg) = drop (n - 2) msg" using n by (simp add: frame_def)
  show ?thesis
  proof (cases s)
    case (Sock_Upto k)
    define j where "j = min (k + 1) (length (frame msg) - n)"
    define bs where "bs = take j (drop n (frame msg))"
    have j: "0 < j" "j \<le> length (frame msg) - n" using n by (auto simp: j_def)
    then have bs: "length bs = j" "bs \<noteq> []" by (auto simp: bs_def)
    have io: "sock_read s (length (frame msg) - n) (drop n (frame msg) @ rest) = (Io_Bytes bs, drop (n + j) (frame msg) @ rest)"
      unfolding Sock_Upto sock_read_def sched.case j_def [symmetric] using j by (simp add: bs_def add.commute)
    let ?d = "patch (buf_data ?b) (n - 2) bs"
    have cap: "n - 2 + length bs \<le> length (buf_data ?b)" using b j n bs by (simp add: buffer_wf_def)
    let ?b' = "(?b\<lparr>buf_data := ?d\<rparr>)\<lparr>buf_position := n - 2 + j\<rparr>"
    have "buffer_wf (?b\<lparr>buf_data := ?d\<rparr>)" using b(1) cap by (simp add: buffer_wf_def)
    then have skip: "buffer_skip (int (length bs)) (?b\<lparr>buf_data := ?d\<rparr>) = Ok ?b'"
      using b j n bs buffer_skip_eval [of "?b\<lparr>buf_data := ?d\<rparr>" "length bs"] by (simp add: advance_def)
    have wf': "buffer_wf ?b'" using b(1) b(3) cap j n bs by (simp add: buffer_wf_def)
    have data: "take (n - 2 + j) ?d = take (n - 2 + j) msg"
      using take_patch_end [of "n - 2" "buf_data ?b" bs] cap bs b(5) drp take_extend [of "n - 2" j msg]
      by (simp add: bs_def)
    let ?tcp = "tcp\<lparr>total_bytes := n + j, packet := ?b'\<rparr>"
    have rd: "reading msg (n + j) ?tcp"
      using r n j wf' data b by (simp add: reading_def buffer_wf_def)
    have "read_body s tcp (drop n (frame msg) @ rest) =
      Ok (if n + j = length (frame msg) then 1 else 0, ?tcp, drop (n + j) (frame msg) @ rest)"
    proof -
      have cur: "buffer_current ?b = Ok (n - 2)" using b by (simp add: buffer_current_eval)
      have w: "mem_write (buf_data ?b) (n - 2) bs = Ok ?d" using cap by (simp add: mem_write_def)
      have rem2: "buffer_remaining ?b' = Ok (length (frame msg) - (n + j))"
        using b n j by (simp add: buffer_remaining_def buffer_remaining_at_def ods_log_assert_def)
      show ?thesis
        unfolding read_body_def rem exec_bind.simps cur io prod.case sock_result.case if_not_P [OF bs(2)] w skip Let_def rem2
        using n j b mlen bs by (auto simp: ods_log_assert_def)
    qed
    with rd j show ?thesis by (intro exI [of _ "n + j"] exI) auto
  next
    case Sock_Again
    have "read_body s tcp (drop n (frame msg) @ rest) = Ok (0, tcp, drop n (frame msg) @ rest)"
      using n b(1) by (simp add: read_body_def rem Sock_Again sock_read_def buffer_current_eval)
    with r n Sock_Again show ?thesis by (intro exI [of _ n] exI) auto
  qed (use s in simp)
qed

text \<open>One call of \<^verbatim>\<open>tcp_conn_read\<close>, wherever the last one stopped.\<close>

lemma conn_read_reading:
  assumes r: "reading msg n tcp" and n: "n < length (frame msg)" and s: "s1 \<noteq> Sock_Error" "s2 \<noteq> Sock_Error"
  shows "\<exists>r m tcp'. tcp_conn_read s1 s2 tcp (drop n (frame msg) @ rest) = Ok (r, tcp', drop m (frame msg) @ rest) \<and>
    reading msg m tcp' \<and> n \<le> m \<and> (s1 \<noteq> Sock_Again \<and> s2 \<noteq> Sock_Again \<longrightarrow> n < m) \<and>
    (r = (if m = length (frame msg) then 1 else 0))"
proof -
  let ?L = "write_uint16 (of_nat (length msg))" and ?b = "packet tcp"
  have b: "buffer_wf ?b" "total_bytes tcp = n" "tc_fd tcp \<noteq> -1" "length msg \<le> buf_capacity ?b" "buf_position ?b = n - 2"
    and ml: "take n (write_uint16 (msglen tcp)) = take n ?L" and len: "0 < length msg" "length msg < 2 ^ 16" using r by (simp_all add: reading_def)
  show ?thesis
  proof (cases "2 \<le> n")
    case True
    then show ?thesis
      using read_body_reading [OF r True n s(2), of rest] b by (auto simp: tcp_conn_read_def)
  next
    case False
    show ?thesis
    proof (cases s1)
      case (Sock_Upto k)
      define j where "j = min (k + 1) (2 - n)"
      define bs where "bs = take j (drop n (frame msg))"
      have j: "0 < j" "n + j \<le> 2" using False by (auto simp: j_def)
      then have bs: "length bs = j" "bs \<noteq> []" using len by (auto simp: bs_def)
      have io: "sock_read s1 (2 - n) (drop n (frame msg) @ rest) = (Io_Bytes bs, drop (n + j) (frame msg) @ rest)"
        unfolding Sock_Upto sock_read_def sched.case j_def [symmetric] using j len by (simp add: bs_def add.commute)
      have bsL: "bs = take j (drop n ?L)" using j by (simp add: bs_def frame_def)
      define v where "v = read_uint16 (patch (write_uint16 (msglen tcp)) n bs)"
      have vb: "write_uint16 v = patch (write_uint16 (msglen tcp)) n bs"
        unfolding v_def by (rule write_read_uint16) (use j bs in simp)
      have vt: "take (n + j) (write_uint16 v) = take (n + j) ?L"
        unfolding vb using take_patch_end [of n "write_uint16 (msglen tcp)" bs] bs j ml take_extend [of n j ?L] bsL by simp
      let ?t = "tcp\<lparr>msglen := v, total_bytes := n + j\<rparr>"
      show ?thesis
      proof (cases "n + j < 2")
        case True
        have "reading msg (n + j) ?t" using r True vt n False by (simp add: reading_def)
        moreover have "tcp_conn_read s1 s2 tcp (drop n (frame msg) @ rest) = Ok (0, ?t, drop (n + j) (frame msg) @ rest)"
          using b False io bs True by (simp add: tcp_conn_read_def v_def [symmetric] Let_def)
        ultimately show ?thesis using True j len by (intro exI [of _ "n + j"] exI) auto
      next
        case F2: False
        then have two: "n + j = 2" using j by simp
        then have "write_uint16 v = ?L" using vt by simp
        then have "v = of_nat (length msg)" by (metis read_write_uint16)
        then have ul: "unat v = length msg" using len by (simp add: unat_of_nat)
        let ?t2 = "?t\<lparr>packet := ?b\<lparr>buf_limit := length msg\<rparr>\<rparr>"
        have pos: "buf_position ?b = 0" using b(5) False by simp
        have lim: "buffer_set_limit (length msg) ?b = Ok (?b\<lparr>buf_limit := length msg\<rparr>)"
          using b(4) pos by (simp add: buffer_set_limit_def)
        have rd: "reading msg 2 ?t2"
          using r vt two pos b by (simp add: reading_def buffer_wf_def)
        have "tcp_conn_read s1 s2 tcp (drop n (frame msg) @ rest) = read_body s2 ?t2 (drop 2 (frame msg) @ rest)"
          using b False io bs two ul lim
          by (simp add: tcp_conn_read_def v_def [symmetric] Let_def)
        then show ?thesis
          using read_body_reading [OF rd _ _ s(2), of rest] len(1) False by auto
      qed
    next
      case Sock_Again
      have "tcp_conn_read s1 s2 tcp (drop n (frame msg) @ rest) = Ok (0, tcp, drop n (frame msg) @ rest)"
        using b(2,3) False by (simp add: tcp_conn_read_def Sock_Again sock_read_def)
      with r n Sock_Again show ?thesis by (intro exI [of _ n] exI) auto
    qed (use s in simp)
  qed
qed

section \<open>Any number of calls\<close>

text \<open>
  A routine that transfers \<open>total\<close> bytes in calls of which each goes on where the last one stopped:
  \<open>inv n\<close> holds of the connection and \<open>stream n\<close> is the stream after \<open>n\<close> bytes.
\<close>

definition busy :: "sched \<times> sched \<Rightarrow> bool" where
  "busy s \<longleftrightarrow> fst s \<noteq> Sock_Again \<and> snd s \<noteq> Sock_Again"

lemma busy_pair [simp]: "busy (s1, s2) \<longleftrightarrow> s1 \<noteq> Sock_Again \<and> s2 \<noteq> Sock_Again"
  by (simp add: busy_def)

definition no_error :: "sched \<times> sched \<Rightarrow> bool" where
  "no_error s \<longleftrightarrow> fst s \<noteq> Sock_Error \<and> snd s \<noteq> Sock_Error"

locale chunked =
  fixes call :: "sched \<Rightarrow> sched \<Rightarrow> tcp_conn_type \<Rightarrow> u8 list \<Rightarrow> (int \<times> tcp_conn_type \<times> u8 list) exec"
    and inv :: "nat \<Rightarrow> tcp_conn_type \<Rightarrow> bool" and stream :: "nat \<Rightarrow> u8 list" and total :: nat
  assumes one_call: "inv n tcp \<Longrightarrow> n < total \<Longrightarrow> s1 \<noteq> Sock_Error \<Longrightarrow> s2 \<noteq> Sock_Error \<Longrightarrow>
      \<exists>r m tcp'. call s1 s2 tcp (stream n) = Ok (r, tcp', stream m) \<and> inv m tcp' \<and> n \<le> m \<and>
        (s1 \<noteq> Sock_Again \<and> s2 \<noteq> Sock_Again \<longrightarrow> n < m) \<and> (r = (if m = total then 1 else 0))"
    and inv_le: "inv n tcp \<Longrightarrow> n \<le> total"
begin

lemma calls:
  assumes "inv n tcp" and "n < total" and "\<forall>s\<in>set ss. no_error s"
  shows "\<exists>m tcp'. drive call ss tcp (stream n) = Ok (if m = total then 1 else 0, tcp', stream m) \<and> inv m tcp' \<and>
    (total \<le> n + length (filter busy ss) \<longrightarrow> m = total)"
  using assms
proof (induction ss arbitrary: n tcp)
  case (Cons s ss)
  obtain s1 s2 where s: "s = (s1, s2)" by force
  obtain r m tcp' where c: "call s1 s2 tcp (stream n) = Ok (r, tcp', stream m)" "inv m tcp'" "n \<le> m"
      "s1 \<noteq> Sock_Again \<and> s2 \<noteq> Sock_Again \<longrightarrow> n < m" "r = (if m = total then 1 else 0)"
    using one_call [OF Cons.prems(1,2), of s1 s2] Cons.prems(3) s by (auto simp: no_error_def)
  show ?case
  proof (cases "m = total")
    case True
    then show ?thesis using c s by auto
  next
    case False
    then have "m < total" using inv_le [OF c(2)] by simp
    from Cons.IH [OF c(2) this] Cons.prems(3) obtain k tcp2 where
      "drive call ss tcp' (stream m) = Ok (if k = total then 1 else 0, tcp2, stream k)" "inv k tcp2"
      "total \<le> m + length (filter busy ss) \<longrightarrow> k = total" by auto
    then show ?thesis using c s False by (intro exI [of _ k] exI [of _ tcp2]) auto
  qed
qed auto
end

interpretation rd: chunked tcp_conn_read "reading msg" "\<lambda>n. drop n (frame msg) @ rest" "length (frame msg)"
  for msg rest
  by unfold_locales (use conn_read_reading in \<open>auto simp: reading_def\<close>)

section \<open>Writing\<close>

text \<open>\<open>writing msg n tcp\<close>: the connection holds the message and \<open>n\<close> bytes of its frame are written.\<close>

definition writing :: "u8 list \<Rightarrow> nat \<Rightarrow> tcp_conn_type \<Rightarrow> bool" where
  "writing msg n tcp \<longleftrightarrow> 0 < length msg \<and> length msg < 2 ^ 16 \<and> tc_fd tcp \<noteq> -1 \<and> total_bytes tcp = n \<and>
     n \<le> length (frame msg) \<and> buffer_wf (packet tcp) \<and> msglen tcp = of_nat (length msg) \<and>
     buf_position (packet tcp) = n - 2 \<and> buf_limit (packet tcp) = length msg \<and>
     take (length msg) (buf_data (packet tcp)) = msg"

lemma write_body_writing:
  assumes r: "writing msg n tcp" and n: "2 \<le> n" "n < length (frame msg)" and s: "s \<noteq> Sock_Error"
  shows "\<exists>r m tcp'. write_body s tcp (out @ take n (frame msg)) = Ok (r, tcp', out @ take m (frame msg)) \<and>
    writing msg m tcp' \<and> n \<le> m \<and> (s \<noteq> Sock_Again \<longrightarrow> n < m) \<and> (r = (if m = length (frame msg) then 1 else 0))"
proof -
  let ?b = "packet tcp"
  have b: "buffer_wf ?b" "buf_position ?b = n - 2" "buf_limit ?b = length msg" "total_bytes tcp = n"
    "take (length msg) (buf_data ?b) = msg" and mlen: "unat (msglen tcp) = length msg"
    using r n by (simp_all add: writing_def unat_of_nat)
  have rem: "buffer_remaining ?b = Ok (length (frame msg) - n)" and cur: "buffer_current ?b = Ok (n - 2)"
    using b n by (simp_all add: buffer_remaining_def buffer_remaining_at_def ods_log_assert_def buffer_current_eval)
  have rest': "drop n (frame msg) = drop (n - 2) msg" using n by (simp add: frame_def)
  have rd: "mem_read (buf_data ?b) (n - 2) (length (frame msg) - n) = Ok (drop n (frame msg))"
  proof -
    have i: "n - 2 + (length (frame msg) - n) = length msg" using n by simp
    have "take (length (frame msg) - n) (drop (n - 2) (buf_data ?b)) = drop (n - 2) (take (length msg) (buf_data ?b))"
      using n by (simp add: drop_take)
    moreover have "length msg \<le> length (buf_data ?b)" using b by (simp add: buffer_wf_def)
    ultimately show ?thesis unfolding mem_read_def i rest' b(5) by simp
  qed
  have less: "total_bytes tcp < unat (msglen tcp) + 2" using b n mlen by simp
  show ?thesis
  proof (cases s)
    case (Sock_Upto k)
    define j where "j = length (take (k + 1) (drop n (frame msg)))"
    have j: "0 < j" "n + j \<le> length (frame msg)" using n by (auto simp: j_def)
    have tk: "take n (frame msg) @ take (k + 1) (drop n (frame msg)) = take (n + j) (frame msg)"
      unfolding take_extend [of n j] by (simp only: j_def take_self)
    have io: "sock_write s (drop n (frame msg)) (out @ take n (frame msg)) =
      (Io_Bytes (take (k + 1) (drop n (frame msg))), out @ take (n + j) (frame msg))"
      unfolding Sock_Upto sock_write_def sched.case append_assoc tk ..
    let ?b' = "?b\<lparr>buf_position := n - 2 + j\<rparr>"
    have skip: "buffer_skip (int (length (take (k + 1) (drop n (frame msg))))) ?b = Ok ?b'"
      unfolding j_def [symmetric] using b n j buffer_skip_eval [OF b(1), of j] by (simp add: advance_def)
    let ?tcp = "tcp\<lparr>packet := ?b', total_bytes := n + j\<rparr>"
    have wr: "writing msg (n + j) ?tcp" using r n j b by (simp add: writing_def buffer_wf_def)
    have tot: "total_bytes tcp + length (take (k + 1) (drop n (frame msg))) = n + j" unfolding j_def b(4) ..
    have "write_body s tcp (out @ take n (frame msg)) =
      Ok (if n + j = length (frame msg) then 1 else 0, ?tcp, out @ take (n + j) (frame msg))"
      unfolding write_body_def rem exec_bind.simps cur rd io prod.case sock_result.case skip Let_def tot
      using less n j b mlen by (auto simp: ods_log_assert_def)
    with wr j show ?thesis by (intro exI [of _ "n + j"] exI) auto
  next
    case Sock_Again
    have "write_body s tcp (out @ take n (frame msg)) = Ok (0, tcp, out @ take n (frame msg))"
      unfolding write_body_def rem exec_bind.simps cur rd using less by (simp add: Sock_Again sock_write_def)
    with r n Sock_Again show ?thesis by (intro exI [of _ n] exI) auto
  qed (use s in simp)
qed

lemma conn_write_writing:
  assumes r: "writing msg n tcp" and n: "n < length (frame msg)" and s: "s1 \<noteq> Sock_Error" "s2 \<noteq> Sock_Error"
  shows "\<exists>r m tcp'. tcp_conn_write s1 s2 tcp (out @ take n (frame msg)) = Ok (r, tcp', out @ take m (frame msg)) \<and>
    writing msg m tcp' \<and> n \<le> m \<and> (s1 \<noteq> Sock_Again \<and> s2 \<noteq> Sock_Again \<longrightarrow> n < m) \<and>
    (r = (if m = length (frame msg) then 1 else 0))"
proof -
  have b: "tc_fd tcp \<noteq> -1" "total_bytes tcp = n" "msglen tcp = of_nat (length msg)" "0 < length msg"
    using r by (simp_all add: writing_def)
  show ?thesis
  proof (cases "2 \<le> n")
    case True
    then show ?thesis using write_body_writing [OF r True n s(2), of out] b by (auto simp: tcp_conn_write_def)
  next
    case False
    show ?thesis
    proof (cases s1)
      case (Sock_Upto k)
      let ?sent = "take (k + 1) (drop n (write_uint16 (of_nat (length msg))))"
      define j where "j = length ?sent"
      have j: "0 < j" "n + j \<le> 2" using False by (auto simp: j_def)
      have "?sent = take j (drop n (write_uint16 (of_nat (length msg))))" unfolding j_def take_self ..
      also have "\<dots> = take j (drop n (frame msg))" using j by (simp add: frame_def)
      finally have "?sent = take j (drop n (frame msg))" .
      then have tk: "take n (frame msg) @ ?sent = take (n + j) (frame msg)" by (simp add: take_extend)
      have io: "sock_write s1 (drop (total_bytes tcp) (write_uint16 (msglen tcp))) (out @ take n (frame msg)) =
        (Io_Bytes ?sent, out @ take (n + j) (frame msg))"
        unfolding Sock_Upto sock_write_def sched.case b append_assoc tk ..
      have tot: "total_bytes tcp + length ?sent = n + j" unfolding j_def b(2) ..
      let ?t = "tcp\<lparr>total_bytes := n + j\<rparr>"
      have wr: "writing msg (n + j) ?t" using r j False b by (simp add: writing_def)
      show ?thesis
      proof (cases "n + j < 2")
        case True
        have "tcp_conn_write s1 s2 tcp (out @ take n (frame msg)) = Ok (0, ?t, out @ take (n + j) (frame msg))"
          unfolding tcp_conn_write_def io prod.case sock_result.case Let_def tot using b False True by simp
        with wr True j b show ?thesis by (intro exI [of _ "n + j"] exI) auto
      next
        case F2: False
        then have two: "n + j = 2" using j by simp
        have "tcp_conn_write s1 s2 tcp (out @ take n (frame msg)) = write_body s2 ?t (out @ take 2 (frame msg))"
          unfolding tcp_conn_write_def io prod.case sock_result.case Let_def tot using b False two by simp
        then show ?thesis
          using write_body_writing [OF wr [unfolded two] _ _ s(2), of out] b(4) False two by auto
      qed
    next
      case Sock_Again
      have "tcp_conn_write s1 s2 tcp (out @ take n (frame msg)) = Ok (0, tcp, out @ take n (frame msg))"
        using b False by (simp add: tcp_conn_write_def Sock_Again sock_write_def)
      with r n Sock_Again show ?thesis by (intro exI [of _ n] exI) auto
    qed (use s in simp)
  qed
qed

interpretation wr: chunked tcp_conn_write "writing msg" "\<lambda>n. out @ take n (frame msg)" "length (frame msg)"
  for msg out
  by unfold_locales (use conn_write_writing in \<open>auto simp: writing_def\<close>)

section \<open>Both ends\<close>

text \<open>
  C18. Messages keep their boundaries over TCP: however the sockets split the bytes at either end and
  whatever follows in the stream, once the calls that were not put off number two more than the bytes
  of the message, the writer has sent the message with its length in front and the reader has exactly
  the message in its packet buffer and has left what follows in the stream.
\<close>

theorem tcp_message_transferred:
  assumes "writing msg 0 sender" and "reading msg 0 receiver"
    and "\<forall>s\<in>set ws. no_error s" and "length msg + 2 \<le> length (filter busy ws)"
    and "\<forall>s\<in>set rs. no_error s" and "length msg + 2 \<le> length (filter busy rs)"
  shows "\<exists>sent sender' receiver'. drive tcp_conn_write ws sender [] = Ok (1, sender', sent) \<and>
    drive tcp_conn_read rs receiver (sent @ rest) = Ok (1, receiver', rest) \<and>
    buf_limit (packet receiver') = length msg \<and> buf_position (packet receiver') = length msg \<and>
    take (length msg) (buf_data (packet receiver')) = msg"
proof -
  obtain sender' where s: "drive tcp_conn_write ws sender [] = Ok (1, sender', frame msg)"
    using wr.calls [OF assms(1) _ assms(3), of "[]"] assms(4) by auto
  obtain receiver' where r: "drive tcp_conn_read rs receiver (frame msg @ rest) = Ok (1, receiver', rest)"
    and i: "reading msg (length (frame msg)) receiver'"
    using rd.calls [OF assms(2) _ assms(5), of rest] assms(6) by auto
  from i have "buf_limit (packet receiver') = length msg" "buf_position (packet receiver') = length msg"
    "take (length msg) (buf_data (packet receiver')) = msg" by (simp_all add: reading_def)
  with s r show ?thesis by blast
qed

text \<open>
  C40. A peer that announces an empty message makes the reader abort: the length 0 passes the checks, and
  the assertion that something remains to be read fails.
\<close>

theorem tcp_empty_message_aborts:
  assumes "tc_fd tcp \<noteq> -1" and "1 \<le> k"
  shows "tcp_conn_read (Sock_Upto k) s2 (tcp_conn_ready tcp) (0 # 0 # rest) = Abort"
proof -
  have z: "read_uint16 (patch (write_uint16 0) 0 [0, 0]) = 0"
    by (simp add: patch_def write_uint16_def read_uint16_def)
  have "take (min (k + 1) 2) (0 # 0 # rest) = [0, 0 :: u8]" "drop (min (k + 1) 2) (0 # 0 # rest) = rest"
    using assms(2) by (simp_all add: min_def)
  then show ?thesis
    using assms z
    by (simp add: tcp_conn_read_def tcp_conn_ready_def sock_read_def Let_def buffer_set_limit_def buffer_clear_def
        read_body_def buffer_remaining_def buffer_remaining_at_def)
qed

section \<open>Examples\<close>

definition demo_conn :: "u8 list \<Rightarrow> tcp_conn_type" where
  "demo_conn data = \<lparr>tc_fd = 4, total_bytes = 0, msglen = of_nat (length data), packet = buffer_create_from data, is_reading = False\<rparr>"

text \<open>A witness: a message of three bytes, written one byte at a time and read two bytes at a time.\<close>

theorem tcp_message_transferred_witness:
  "\<exists>sent s' r'. drive tcp_conn_write (replicate 5 (Sock_Upto 0, Sock_Upto 0)) (demo_conn [7, 8, 9]) [] = Ok (1, s', sent) \<and>
     drive tcp_conn_read ((Sock_Again, Sock_Again) # replicate 5 (Sock_Upto 1, Sock_Upto 1)) (demo_conn [0, 0, 0, 0]) (sent @ [1]) =
       Ok (1, r', [1]) \<and> take 3 (buf_data (packet r')) = [7, 8, 9]"
proof -
  have w: "writing [7, 8, 9] 0 (demo_conn [7, 8, 9])" and r: "reading [7, 8, 9] 0 (demo_conn [0, 0, 0, 0])"
    by (simp_all add: writing_def reading_def demo_conn_def buffer_wf_def buffer_create_from_def)
  have "\<forall>s\<in>set (replicate 5 (Sock_Upto 0, Sock_Upto 0)). no_error s"
    "length [7, 8, 9 :: u8] + 2 \<le> length (filter busy (replicate 5 (Sock_Upto 0, Sock_Upto 0)))"
    "\<forall>s\<in>set ((Sock_Again, Sock_Again) # replicate 5 (Sock_Upto 1, Sock_Upto 1)). no_error s"
    "length [7, 8, 9 :: u8] + 2 \<le> length (filter busy ((Sock_Again, Sock_Again) # replicate 5 (Sock_Upto 1, Sock_Upto 1)))"
    by (simp_all add: no_error_def)
  from tcp_message_transferred [OF w r this, of "[1]"] show ?thesis
    by (elim exE conjE, intro exI conjI) (assumption, assumption, simp add: numeral_3_eq_3)
qed

theorem tcp_empty_message_aborts_witness:
  "tcp_conn_read (Sock_Upto 1) Sock_Again (tcp_conn_ready (demo_conn [0])) [0, 0] = Abort"
  by (rule tcp_empty_message_aborts) (simp_all add: demo_conn_def)
end
