(* ===== verification/Spec2Isabelle.thy ===== *)
theory Spec2Isabelle
  imports Buffer_Props Duration_Props Fifoq Drudge Acl Sign Rollover Tsig_Props Xfrd_Wait Xfrd_Reply Tcpset
begin

text \<open>
  \<^bold>\<open>Verification of the OpenDNSSEC signer engine.\<close>

  The repository has two daemons: the enforcer (\<^verbatim>\<open>src/enforcer\<close>), which decides from a policy database
  which keys a zone uses when and writes a signer configuration per zone, and the signer
  (\<^verbatim>\<open>src/signer\<close>), which reads zones from files or by transfer, signs them with keys that a security module
  holds (through \<^verbatim>\<open>src/libhsm\<close>), and writes or serves them.  This development is about the signer.

  \<^bold>\<open>How the signer works.\<close>  A schedule holds one task per zone.  Worker threads pop the
  task that is due and take the zone through the stages configure, read, sign and write.  To read,
  an input adapter passes the records of the new version to the adapter interface, which marks them as added
  or removed in the name database of the zone; if all went well, the changes are applied and the chain of
  NSEC or NSEC3 records is renewed, otherwise they are rolled back.  To sign, the worker queues the RRsets of
  the zone for drudger threads and sleeps until all are done.  Changes to published records are recorded in
  a journal, from which incremental transfers are answered.  Zones that come by transfer are fetched by the zone
  transfer client, an event loop over the sockets and timers of all zones, which writes the records of
  the replies to a file per zone.

  \<^bold>\<open>Conventions.\<close>  Every C function is one definition with its name (\<^theory_text>\<open>Prelude\<close>): a function that can
  only return is a function of HOL; one that can fail an assertion or touch memory it does not own returns a
  value of type \<open>exec\<close>, which is \<open>Ok\<close>, \<open>Abort\<close> (a failed \<^verbatim>\<open>ods_log_assert\<close>) or \<open>Fault\<close>.  State is passed and
  returned.  Structs are records, enums are datatypes with the constructors of the source, integers are
  words of their width wherever they can wrap around, and \<^verbatim>\<open>time_t\<close> is an integer.  Objects that refer to each other
  (tasks, domains, denial points) live in stores, maps from addresses; a freed object is no longer
  in the map.  Locks are not modelled except in \<^theory_text>\<open>Drudge\<close>, where the atomic steps are the locked sections;
  allocation never fails.  The library ldns and its search trees, libhsm, the C library's \<^verbatim>\<open>inet_pton\<close> and the clock are
  parameters; what is assumed of them is stated in definitions (\<open>rbtree_contract\<close>, \<open>dname_contract\<close>,
  \<open>hsm_contract\<close>), and \<^theory_text>\<open>Rbtree\<close> and \<^theory_text>\<open>Sample\<close> give functions that keep these contracts.

  \<^bold>\<open>Theories and what they show.\<close>

  \<^item> \<^theory_text>\<open>Buffer\<close>, \<^theory_text>\<open>Buffer_Props\<close> (\<^verbatim>\<open>wire/buffer.c\<close>): packets.  Reading a domain name with compression pointers
    returns on all packets without leaving the buffer and succeeds exactly on well-formed names;
    writing and skipping records are inverse; queries are built right.  The interface of the integer codecs
    is the locale \<open>codec\<close>.
  \<^item> \<^theory_text>\<open>Cstring\<close>, \<^theory_text>\<open>Duration\<close>, \<^theory_text>\<open>Duration_Props\<close> (\<^verbatim>\<open>shared/duration.c\<close>): durations are parsed and printed
    consistently and within the allocated string; times are converted by the Gregorian calendar.
  \<^item> \<^theory_text>\<open>Fifoq\<close> (\<^verbatim>\<open>scheduler/fifoq.c\<close>): the queue refines a bounded queue (locale \<open>bounded_queue\<close>).
  \<^item> \<^theory_text>\<open>Task\<close>, \<^theory_text>\<open>Rbtree\<close>, \<^theory_text>\<open>Schedule\<close> (\<^verbatim>\<open>scheduler/task.c\<close>, \<^verbatim>\<open>schedule.c\<close>): the schedule invariant over all reachable states,
    what a pop returns, that a flush drains the schedule, and a reachable state in which it does not.
  \<^item> \<^theory_text>\<open>Worker\<close>, \<^theory_text>\<open>Drudge\<close>, \<^theory_text>\<open>Stats\<close> (\<^verbatim>\<open>daemon/worker.c\<close>): the stages of a task, and the concurrent signing of a zone: no
    wakeup is lost, and a worker that goes on has all its RRsets signed.
  \<^item> \<^theory_text>\<open>Acl\<close> (\<^verbatim>\<open>wire/acl.c\<close>): access lists match by subnet, range and key; ranges are wrong on little-endian machines.
  \<^item> \<^theory_text>\<open>Cursor\<close>: reading packets whose next bytes are known, and two ways to state what a program does: \<open>returns\<close>
    (it returns, with a result that satisfies a predicate) and \<open>ensures\<close> (when it returns, its result does).
  \<^item> \<^theory_text>\<open>Tsig\<close>, \<^theory_text>\<open>Tsig_Props\<close> (\<^verbatim>\<open>wire/tsig.c\<close>, \<^verbatim>\<open>tsig-openssl.c\<close>): transaction signatures.  What one end signs the other end parses
    and verifies; no packet makes the parser abort or leave the buffer; a record verifies exactly if its digest fits.
    The keyed digest is a parameter.
  \<^item> \<^theory_text>\<open>Xfrd\<close>, \<^theory_text>\<open>Xfrd_Net\<close> (\<^verbatim>\<open>wire/xfrd.c\<close>): the zone transfer client, first for one zone (timers, requests, replies, transfer file),
    then for all zones with their sockets.  The results of socket calls and the messages received are arguments of each event.
    \<^theory_text>\<open>Xfrd_Props\<close>, \<^theory_text>\<open>Xfrd_Inv\<close>: each operation keeps the invariant \<open>net_ok\<close> of the sockets; \<^theory_text>\<open>Xfrd_Run\<close>: so does every sequence of
    events (the step relation \<open>xfrd_step\<close>), and the masters are asked in turn; \<^theory_text>\<open>Xfrd_Wait\<close>: a zone that waits for a TCP connection does so
    forever; \<^theory_text>\<open>Xfrd_Reply\<close>: an unsigned reply changes nothing, a reply never takes the zone back to an older serial, except after a
    transfer that was cut off, and one that makes the client abort.
  \<^item> \<^theory_text>\<open>Tcpset\<close> (\<^verbatim>\<open>wire/tcpset.c\<close>): messages keep their boundaries over TCP however the sockets split the bytes (one
    proof in the locale \<open>chunked\<close> for the reader and the writer), and an announced length of 0 aborts the reader.
  \<^item> \<^theory_text>\<open>Serial\<close> (\<^verbatim>\<open>namedb.c\<close>, \<^verbatim>\<open>shared/util.c\<close>): serial arithmetic and the choice of the next serial.
  \<^item> \<^theory_text>\<open>Ldns\<close>, \<^theory_text>\<open>Ixfr\<close>, \<^theory_text>\<open>Signconf\<close>, \<^theory_text>\<open>Hsm\<close>, \<^theory_text>\<open>Rrset\<close>, \<^theory_text>\<open>Sign\<close> (\<^verbatim>\<open>ixfr.c\<close>, \<^verbatim>\<open>signconf.c\<close>, \<^verbatim>\<open>keys.c\<close>, \<^verbatim>\<open>nsec3params.c\<close>, \<^verbatim>\<open>shared/hsm.c\<close>,
    \<^verbatim>\<open>rrset.c\<close>): applying changes to an RRset journals exactly the difference; signing leaves exactly
    the signatures that the configuration asks for.  The loops that delete array elements while they walk
    are instances of the locale \<open>sweep\<close>.
  \<^item> \<^theory_text>\<open>Domain\<close>, \<^theory_text>\<open>Namedb\<close>, \<^theory_text>\<open>Denial\<close> (\<^verbatim>\<open>domain.c\<close>, \<^verbatim>\<open>namedb.c\<close>, \<^verbatim>\<open>denial.c\<close>): the model of the name database;
    \<^theory_text>\<open>Namedb_Inv\<close>, \<^theory_text>\<open>Namedb_Ok\<close>, \<^theory_text>\<open>Namedb_Points\<close>, \<^theory_text>\<open>Namedb_Diff\<close>: its invariant \<open>db_ok\<close>, and that applying changes keeps it,
    removes exactly the empty domains, and gives denial points to exactly the domains that need one;
    \<^theory_text>\<open>Nsec_Chain\<close>: the records of the points then form a closed chain.  Loops over the tree that
    delete nodes are instances of the locale \<open>tree_walk\<close>.
  \<^item> \<^theory_text>\<open>Zone\<close>, \<^theory_text>\<open>Entize\<close>, \<^theory_text>\<open>Rollback\<close>, \<^theory_text>\<open>Rolled\<close>, \<^theory_text>\<open>Edits\<close> (\<^verbatim>\<open>zone.c\<close>, \<^verbatim>\<open>namedb.c\<close>): adding and deleting records before an
    update (the step relation \<open>edited\<close>) keeps the invariant, and a rollback takes everything back but TTLs.
  \<^item> \<^theory_text>\<open>Adapi\<close>, \<^theory_text>\<open>Adapi_Props\<close>, \<^theory_text>\<open>Update\<close> (\<^verbatim>\<open>adapter/adapi.c\<close>, \<^verbatim>\<open>adfile.c\<close>, \<^verbatim>\<open>zone.c\<close>): reading a zone file is a transaction: it is applied
    as a whole and leads from one \<open>committed\<close> database to the next, or it can be rolled back as a whole,
    except for the serial.
  \<^item> \<^theory_text>\<open>Rollover\<close> (\<^verbatim>\<open>tools.c\<close>): a new configuration keeps the chain or drops it, as it has to.

  \<^bold>\<open>Bounds.\<close>  Recursion is structural or has a measure where the code allows it.  Where a loop follows
  pointers the definition takes a number of iterations, and running out of them is \<open>Fault\<close>: the number is that of the nodes
  of the tree plus one, that of the elements of the array plus one, or, in \<^verbatim>\<open>namedb_domain_entize\<close>, 128, since a
  name has at most 127 labels.  The theorems state that the result is \<open>Ok\<close>, so that these bounds are enough.
  The loops of \<^verbatim>\<open>rrset_diff\<close> and \<^verbatim>\<open>domain_rollback\<close> have an index of 16 bits, which is modelled; their theorems
  ask for fewer than \<open>2\<^sup>1\<^sup>6\<close> records in an RRset.

  \<^bold>\<open>Not modelled.\<close>  The enforcer and its tools are mostly SQL statements, command line handling and file
  generation over a database library; libhsm talks to PKCS#11 modules.  Of the signer: the XML parsers, the reader of
  zone file lines, socket addresses, the event loop (\<^verbatim>\<open>netio\<close>) and the threads built on it, logging, files, privileges and memory allocation
  are input and output; publishing DNSKEY and NSEC3PARAM records shares record objects between the
  configuration and the database, which the model copies; the answers to queries and transfers out are packets that ldns
  builds and compresses; the reader of transfer files and backup files calls the operations of the adapter interface that are modelled.
\<close>

end
